(* ===== verification/Prelude.thy ===== *)
theory Prelude
  imports Complex_Main "HOL-Library.Word" "HOL-Library.Signed_Division" "HOL-Library.AList"
begin

section \<open>Prelude: results, machine integers, hash maps, decimal text\<close>

text \<open>
  Shared vocabulary of the development. A Rust \<open>Result\<close> is a sum with the error on the
  left; \<open>?\<close> is \<open>rbind\<close>; \<open>try_fold\<close> and \<open>try_for_each\<close> are \<open>try_fold\<close>. Checked
  machine arithmetic is integer arithmetic with an explicit range test. A Rust
  \<open>HashMap\<close> whose iteration order matters is an association list.
\<close>

named_theorems result_simps \<open>rewriting of result-valued code\<close>
named_theorems inv_intros \<open>preservation rules of the component invariants\<close>

subsection \<open>Results\<close>

fun rbind :: "'e + 'a \<Rightarrow> ('a \<Rightarrow> 'e + 'b) \<Rightarrow> 'e + 'b" where
  "rbind (Inl e) f = Inl e"
| "rbind (Inr a) f = f a"

fun map_err :: "('e \<Rightarrow> 'f) \<Rightarrow> 'e + 'a \<Rightarrow> 'f + 'a" where
  "map_err g (Inl e) = Inl (g e)"
| "map_err g (Inr a) = Inr a"

fun ok_or :: "'a option \<Rightarrow> 'e \<Rightarrow> 'e + 'a" where
  "ok_or None e = Inl e"
| "ok_or (Some a) e = Inr a"

fun is_ok :: "'e + 'a \<Rightarrow> bool" where
  "is_ok (Inl e) = False"
| "is_ok (Inr a) = True"

fun try_fold :: "('s \<Rightarrow> 'a \<Rightarrow> 'e + 's) \<Rightarrow> 's \<Rightarrow> 'a list \<Rightarrow> 'e + 's" where
  "try_fold f s [] = Inr s"
| "try_fold f s (x # xs) = rbind (f s x) (\<lambda>s'. try_fold f s' xs)"

fun map_result :: "('a \<Rightarrow> 'e + 'b) \<Rightarrow> 'a list \<Rightarrow> 'e + 'b list" where
  "map_result f [] = Inr []"
| "map_result f (x # xs) = rbind (f x) (\<lambda>y. rbind (map_result f xs) (\<lambda>ys. Inr (y # ys)))"

lemma rbind_Inr_iff [simp, result_simps]:
  "rbind x f = Inr b \<longleftrightarrow> (\<exists>a. x = Inr a \<and> f a = Inr b)"
  by (cases x) auto

lemma rbind_Inl_iff [result_simps]:
  "rbind x f = Inl e \<longleftrightarrow> x = Inl e \<or> (\<exists>a. x = Inr a \<and> f a = Inl e)"
  by (cases x) auto

lemma rbind_split:
  "P (rbind x f) \<longleftrightarrow> (\<forall>e. x = Inl e \<longrightarrow> P (Inl e)) \<and> (\<forall>a. x = Inr a \<longrightarrow> P (f a))"
  by (cases x) auto

lemma map_err_Inr_iff [simp, result_simps]: "map_err g x = Inr a \<longleftrightarrow> x = Inr a"
  by (cases x) auto

lemma map_err_Inl_iff [result_simps]: "map_err g x = Inl f \<longleftrightarrow> (\<exists>e. x = Inl e \<and> f = g e)"
  by (cases x) auto

lemma ok_or_Inr_iff [simp, result_simps]: "ok_or x e = Inr a \<longleftrightarrow> x = Some a"
  by (cases x) auto

lemma ok_or_Inl_iff [simp, result_simps]: "ok_or x e = Inl f \<longleftrightarrow> x = None \<and> f = e"
  by (cases x) auto

lemma is_ok_iff: "is_ok x \<longleftrightarrow> (\<exists>a. x = Inr a)"
  by (cases x) auto

lemma try_fold_append:
  "try_fold f s (xs @ ys) = rbind (try_fold f s xs) (\<lambda>s'. try_fold f s' ys)"
proof (induction xs arbitrary: s)
  case (Cons x xs)
  then show ?case by (cases "f s x") auto
qed simp

text \<open>An invariant kept by every successful step is kept by the fold.\<close>

lemma try_fold_invariant:
  assumes "try_fold f s xs = Inr t" and "P s"
    and "\<And>s x s'. x \<in> set xs \<Longrightarrow> P s \<Longrightarrow> f s x = Inr s' \<Longrightarrow> P s'"
  shows "P t"
  using assms
proof (induction xs arbitrary: s)
  case (Cons x xs)
  from Cons.prems(1) obtain s' where s': "f s x = Inr s'" "try_fold f s' xs = Inr t" by auto
  have "P s'" using Cons.prems(3) [of x s s'] Cons.prems(2) s'(1) by simp
  from s'(2) this show ?case
    by (rule Cons.IH) (use Cons.prems(3) in \<open>meson list.set_intros(2)\<close>)
qed simp

lemma map_result_Inr_iff:
  "map_result f xs = Inr ys \<longleftrightarrow> list_all2 (\<lambda>x y. f x = Inr y) xs ys"
proof (induction xs arbitrary: ys)
  case (Cons x xs)
  then show ?case by (cases ys) auto
qed auto

subsection \<open>Machine integers\<close>

type_synonym u64 = "64 word"

definition i64_min :: int where "i64_min = - (2 ^ 63)"
definition i64_max :: int where "i64_max = 2 ^ 63 - 1"
definition u64_max :: int where "u64_max = 2 ^ 64 - 1"
definition i128_min :: int where "i128_min = - (2 ^ 127)"
definition i128_max :: int where "i128_max = 2 ^ 127 - 1"

definition in_range :: "int \<Rightarrow> int \<Rightarrow> int \<Rightarrow> bool" where
  "in_range lo hi x \<longleftrightarrow> lo \<le> x \<and> x \<le> hi"

text \<open>The result of a \<open>checked_*\<close> operation of Rust: \<open>None\<close> outside the type's range.\<close>

definition checked :: "int \<Rightarrow> int \<Rightarrow> int \<Rightarrow> int option" where
  "checked lo hi x = (if in_range lo hi x then Some x else None)"

abbreviation in_i64 :: "int \<Rightarrow> bool" where "in_i64 \<equiv> in_range i64_min i64_max"
abbreviation checked_i64 :: "int \<Rightarrow> int option" where "checked_i64 \<equiv> checked i64_min i64_max"
abbreviation checked_i128 :: "int \<Rightarrow> int option" where "checked_i128 \<equiv> checked i128_min i128_max"

lemmas int_range_defs =
  in_range_def i64_min_def i64_max_def u64_max_def i128_min_def i128_max_def

lemma checked_Some_iff [simp]: "checked lo hi x = Some y \<longleftrightarrow> in_range lo hi x \<and> y = x"
  by (auto simp: checked_def)

lemma checked_None_iff [simp]: "checked lo hi x = None \<longleftrightarrow> \<not> in_range lo hi x"
  by (auto simp: checked_def)

datatype ordering = OLess | OEqual | OGreater

definition cmp :: "'a::linorder \<Rightarrow> 'a \<Rightarrow> ordering" where
  "cmp a b = (if a < b then OLess else if a = b then OEqual else OGreater)"

lemma cmp_simps [simp]:
  "cmp a b = OLess \<longleftrightarrow> a < b" "cmp a b = OEqual \<longleftrightarrow> a = b" "cmp a b = OGreater \<longleftrightarrow> a > b"
  by (auto simp: cmp_def)

subsection \<open>Decimal text\<close>

text \<open>
  The decimal printer behind \<open>to_string\<close> and the parsers \<open>str::parse::<i64>\<close> and
  \<open>str::parse::<u64>\<close>. The parser reads left to right and reports the first problem it
  meets: at each character the digit test comes before the overflow test.
\<close>

datatype parse_int_error = PIE_Empty | PIE_InvalidDigit | PIE_PosOverflow | PIE_NegOverflow

definition digit_char :: "nat \<Rightarrow> char" where
  "digit_char d = char_of (48 + d)"

definition digit_val :: "char \<Rightarrow> nat option" where
  "digit_val c = (let n = of_char c :: nat in if 48 \<le> n \<and> n \<le> 57 then Some (n - 48) else None)"

fun show_nat :: "nat \<Rightarrow> string" where
  "show_nat n = (if n < 10 then [digit_char n] else show_nat (n div 10) @ [digit_char (n mod 10)])"

declare show_nat.simps [simp del]

definition show_int :: "int \<Rightarrow> string" where
  "show_int i = (if i < 0 then CHR ''-'' # show_nat (nat (- i)) else show_nat (nat i))"

fun parse_pos :: "int \<Rightarrow> int \<Rightarrow> string \<Rightarrow> parse_int_error + int" where
  "parse_pos hi acc [] = Inr acc"
| "parse_pos hi acc (c # cs) =
     (case digit_val c of None \<Rightarrow> Inl PIE_InvalidDigit
      | Some d \<Rightarrow> (let acc' = acc * 10 + int d in
          if acc' \<le> hi then parse_pos hi acc' cs else Inl PIE_PosOverflow))"

fun parse_neg :: "int \<Rightarrow> int \<Rightarrow> string \<Rightarrow> parse_int_error + int" where
  "parse_neg lo acc [] = Inr acc"
| "parse_neg lo acc (c # cs) =
     (case digit_val c of None \<Rightarrow> Inl PIE_InvalidDigit
      | Some d \<Rightarrow> (let acc' = acc * 10 - int d in
          if lo \<le> acc' then parse_neg lo acc' cs else Inl PIE_NegOverflow))"

definition parse_i64 :: "string \<Rightarrow> parse_int_error + int" where
  "parse_i64 s = (case s of [] \<Rightarrow> Inl PIE_Empty
     | c # cs \<Rightarrow>
        if (c = CHR ''+'' \<or> c = CHR ''-'') \<and> cs = [] then Inl PIE_InvalidDigit
        else if c = CHR ''+'' then parse_pos i64_max 0 cs
        else if c = CHR ''-'' then parse_neg i64_min 0 cs
        else parse_pos i64_max 0 s)"

definition parse_u64 :: "string \<Rightarrow> parse_int_error + int" where
  "parse_u64 s = (case s of [] \<Rightarrow> Inl PIE_Empty
     | c # cs \<Rightarrow>
        if (c = CHR ''+'' \<or> c = CHR ''-'') \<and> cs = [] then Inl PIE_InvalidDigit
        else if c = CHR ''+'' then parse_pos u64_max 0 cs
        else parse_pos u64_max 0 s)"

text \<open>\<open>'...'\<close> in a format string.\<close>

definition quoted :: "string \<Rightarrow> string" where
  "quoted s = CHR 0x27 # s @ [CHR 0x27]"

definition is_dec :: "char \<Rightarrow> bool" where
  "is_dec c \<longleftrightarrow> digit_val c \<noteq> None"

lemma digit_val_char [simp]: "d < 10 \<Longrightarrow> digit_val (digit_char d) = Some d"
  by (simp add: digit_val_def digit_char_def)

lemma digit_char_not_sign [simp]:
  assumes "d < 10"
  shows "digit_char d \<noteq> CHR ''-''" "digit_char d \<noteq> CHR ''+''" "digit_char d \<noteq> CHR ''.''"
    "digit_char d \<noteq> CHR '' ''"
  using digit_val_char [OF assms] by (auto simp: digit_val_def)

lemma show_nat_digits: "c \<in> set (show_nat n) \<Longrightarrow> \<exists>d < 10. c = digit_char d"
proof (induction n rule: show_nat.induct)
  case (1 n)
  show ?case
  proof (cases "n < 10")
    case True
    with "1.prems" show ?thesis by (auto simp: show_nat.simps [of n])
  next
    case False
    with 1 show ?thesis
      by (auto simp: show_nat.simps [of n] intro: exI [of _ "n mod 10"])
  qed
qed

lemma show_nat_not_Nil [simp]: "show_nat n \<noteq> []"
  by (subst show_nat.simps) simp

lemma parse_pos_append:
  "parse_pos hi acc (xs @ ys) = rbind (parse_pos hi acc xs) (\<lambda>a. parse_pos hi a ys)"
  by (induction xs arbitrary: acc) (auto simp: Let_def split: option.splits)

lemma parse_neg_append:
  "parse_neg lo acc (xs @ ys) = rbind (parse_neg lo acc xs) (\<lambda>a. parse_neg lo a ys)"
  by (induction xs arbitrary: acc) (auto simp: Let_def split: option.splits)

lemma parse_pos_show_nat: "int n \<le> hi \<Longrightarrow> parse_pos hi 0 (show_nat n) = Inr (int n)"
proof (induction n rule: show_nat.induct)
  case (1 n)
  show ?case
  proof (cases "n < 10")
    case True
    with "1.prems" show ?thesis by (simp add: show_nat.simps [of n])
  next
    case False
    with 1 have "parse_pos hi 0 (show_nat (n div 10)) = Inr (int (n div 10))" by simp
    moreover have "int (n div 10) * 10 + int (n mod 10) = int n" by presburger
    ultimately show ?thesis
      using False "1.prems" by (simp add: show_nat.simps [of n] parse_pos_append)
  qed
qed

lemma parse_neg_show_nat: "lo \<le> - int n \<Longrightarrow> parse_neg lo 0 (show_nat n) = Inr (- int n)"
proof (induction n rule: show_nat.induct)
  case (1 n)
  show ?case
  proof (cases "n < 10")
    case True
    with "1.prems" show ?thesis by (simp add: show_nat.simps [of n])
  next
    case False
    have le: "int (n div 10) \<le> int n" by simp
    with 1 False have "parse_neg lo 0 (show_nat (n div 10)) = Inr (- int (n div 10))" by simp
    moreover have "- int (n div 10) * 10 - int (n mod 10) = - int n" by presburger
    ultimately show ?thesis
      using False "1.prems" by (simp add: show_nat.simps [of n] parse_neg_append)
  qed
qed

lemma show_nat_hd: "show_nat n = c # cs \<Longrightarrow> c \<noteq> CHR ''-'' \<and> c \<noteq> CHR ''+''"
  using show_nat_digits [of c n] by auto

lemma parse_i64_show_int: "in_i64 i \<Longrightarrow> parse_i64 (show_int i) = Inr i"
proof (cases "i < 0")
  case True
  assume "in_i64 i"
  with True have "parse_neg i64_min 0 (show_nat (nat (- i))) = Inr (- int (nat (- i)))"
    by (intro parse_neg_show_nat) (simp add: in_range_def)
  with True show ?thesis by (simp add: parse_i64_def show_int_def)
next
  case False
  assume "in_i64 i"
  with False have *: "parse_pos i64_max 0 (show_nat (nat i)) = Inr (int (nat i))"
    by (intro parse_pos_show_nat) (simp add: in_range_def)
  obtain c cs where c: "show_nat (nat i) = c # cs" by (cases "show_nat (nat i)") auto
  from show_nat_hd [OF c] * c False show ?thesis by (simp add: parse_i64_def show_int_def)
qed

lemma parse_u64_show_nat: "int n \<le> u64_max \<Longrightarrow> parse_u64 (show_nat n) = Inr (int n)"
proof -
  assume "int n \<le> u64_max"
  then have *: "parse_pos u64_max 0 (show_nat n) = Inr (int n)" by (rule parse_pos_show_nat)
  obtain c cs where c: "show_nat n = c # cs" by (cases "show_nat n") auto
  from show_nat_hd [OF c] * c show ?thesis by (simp add: parse_u64_def)
qed

lemma parse_pos_range:
  "0 \<le> acc \<Longrightarrow> acc \<le> hi \<Longrightarrow> parse_pos hi acc s = Inr i \<Longrightarrow> 0 \<le> i \<and> i \<le> hi"
proof (induction s arbitrary: acc)
  case (Cons c s)
  then obtain d where d: "acc * 10 + int d \<le> hi" "parse_pos hi (acc * 10 + int d) s = Inr i"
    by (auto simp: Let_def split: option.splits if_splits)
  have "0 \<le> acc * 10 + int d" using Cons.prems(1) by linarith
  then show ?case using d by (rule Cons.IH)
qed simp

lemma parse_neg_range:
  "acc \<le> 0 \<Longrightarrow> lo \<le> acc \<Longrightarrow> parse_neg lo acc s = Inr i \<Longrightarrow> lo \<le> i \<and> i \<le> 0"
proof (induction s arbitrary: acc)
  case (Cons c s)
  then obtain d where d: "lo \<le> acc * 10 - int d" "parse_neg lo (acc * 10 - int d) s = Inr i"
    by (auto simp: Let_def split: option.splits if_splits)
  have "acc * 10 - int d \<le> 0" using Cons.prems(1) by linarith
  then show ?case using d by (rule Cons.IH)
qed simp

lemma parse_i64_range: "parse_i64 s = Inr i \<Longrightarrow> in_i64 i"
  using parse_pos_range [of 0 i64_max _ i] parse_neg_range [of 0 i64_min _ i]
  by (fastforce simp: parse_i64_def int_range_defs simp del: parse_pos.simps parse_neg.simps
    split: list.splits if_splits)

lemma parse_u64_range: "parse_u64 s = Inr i \<Longrightarrow> 0 \<le> i \<and> i \<le> u64_max"
  using parse_pos_range [of 0 u64_max _ i]
  by (fastforce simp: parse_u64_def int_range_defs simp del: parse_pos.simps
    split: list.splits if_splits)

subsection \<open>Hash maps\<close>

text \<open>
  The laws every keyed container of the engine is used through: a lookup function, an
  overwriting insertion and a removal. \<open>ok\<close> is the representation invariant. The
  lemmas of the locale hold for each container that is shown to be an instance.
\<close>

locale keyed_store =
  fixes empty :: "'m"
    and lookup :: "'m \<Rightarrow> 'k \<Rightarrow> 'v option"
    and insert_kv :: "'k \<Rightarrow> 'v \<Rightarrow> 'm \<Rightarrow> 'm"
    and remove_k :: "'k \<Rightarrow> 'm \<Rightarrow> 'm"
    and ok :: "'m \<Rightarrow> bool"
  assumes ok_empty: "ok empty"
    and lookup_empty: "lookup empty k = None"
    and ok_insert: "ok m \<Longrightarrow> ok (insert_kv k v m)"
    and lookup_insert: "ok m \<Longrightarrow> lookup (insert_kv k v m) k' = (if k' = k then Some v else lookup m k')"
    and ok_remove: "ok m \<Longrightarrow> ok (remove_k k m)"
    and lookup_remove: "ok m \<Longrightarrow> lookup (remove_k k m) k' = (if k' = k then None else lookup m k')"
begin

lemma lookup_fold_insert:
  "ok m \<Longrightarrow> ok (fold (\<lambda>(k, v). insert_kv k v) kvs m)
     \<and> lookup (fold (\<lambda>(k, v). insert_kv k v) kvs m) k
         = (case map_of (rev kvs) k of Some v \<Rightarrow> Some v | None \<Rightarrow> lookup m k)"
proof (induction kvs arbitrary: m)
  case (Cons kv kvs)
  obtain j v where kv: "kv = (j, v)" by force
  from Cons.IH [OF ok_insert [OF Cons.prems]] Cons.prems show ?case
    by (auto simp: kv lookup_insert map_add_def split: option.splits)
qed simp

lemma lookup_insert_remove:
  "ok m \<Longrightarrow> lookup m k = None \<Longrightarrow> lookup (remove_k k (insert_kv k v m)) = lookup m"
  by (rule ext) (simp add: lookup_remove ok_insert lookup_insert)

lemma lookup_remove_insert:
  "ok m \<Longrightarrow> lookup m k = Some v \<Longrightarrow> lookup (insert_kv k v (remove_k k m)) = lookup m"
  by (rule ext) (simp add: lookup_insert ok_remove lookup_remove)

end

text \<open>
  A \<open>HashMap\<close> as an association list with distinct keys; the list order stands for the
  unspecified iteration order.
\<close>

definition hm_ok :: "('k \<times> 'v) list \<Rightarrow> bool" where
  "hm_ok m \<longleftrightarrow> distinct (map fst m)"

abbreviation hm_get :: "('k \<times> 'v) list \<Rightarrow> 'k \<Rightarrow> 'v option" where "hm_get \<equiv> map_of"
abbreviation hm_insert :: "'k \<Rightarrow> 'v \<Rightarrow> ('k \<times> 'v) list \<Rightarrow> ('k \<times> 'v) list" where
  "hm_insert \<equiv> AList.update"
abbreviation hm_remove :: "'k \<Rightarrow> ('k \<times> 'v) list \<Rightarrow> ('k \<times> 'v) list" where
  "hm_remove \<equiv> AList.delete"

definition hm_contains :: "('k \<times> 'v) list \<Rightarrow> 'k \<Rightarrow> bool" where
  "hm_contains m k \<longleftrightarrow> hm_get m k \<noteq> None"

interpretation hm: keyed_store "[]" hm_get hm_insert hm_remove hm_ok
  by unfold_locales
    (auto simp: hm_ok_def distinct_update distinct_delete update_conv' delete_conv'
      simp del: fun_upd_apply split: if_splits intro: fun_upd_same fun_upd_other)

lemma hm_ok_iff_get: "hm_ok m \<Longrightarrow> (k, v) \<in> set m \<longleftrightarrow> hm_get m k = Some v"
  by (simp add: hm_ok_def)

lemma hm_ok_Nil [simp, inv_intros]: "hm_ok []"
  by (simp add: hm_ok_def)

lemma hm_ok_insert [simp, inv_intros]: "hm_ok m \<Longrightarrow> hm_ok (hm_insert k v m)"
  by (rule hm.ok_insert)

lemma hm_ok_remove [simp, inv_intros]: "hm_ok m \<Longrightarrow> hm_ok (hm_remove k m)"
  by (rule hm.ok_remove)

lemma hm_get_insert [simp]: "hm_get (hm_insert k v m) k' = (if k' = k then Some v else hm_get m k')"
  by (simp add: update_conv')

lemma hm_get_remove [simp]: "hm_get (hm_remove k m) k' = (if k' = k then None else hm_get m k')"
  by (simp add: delete_conv')

lemma hm_length_insert:
  "hm_ok m \<Longrightarrow> length (hm_insert k v m) = (if hm_contains m k then length m else Suc (length m))"
  by (induction m) (auto simp: hm_ok_def hm_contains_def)

lemma hm_length_remove:
  "hm_ok m \<Longrightarrow> length (hm_remove k m) = (if hm_contains m k then length m - 1 else length m)"
proof (induction m)
  case (Cons a m)
  then have IH: "length (hm_remove k m) = (if hm_contains m k then length m - 1 else length m)"
    by (simp add: hm_ok_def)
  show ?case
  proof (cases "fst a = k")
    case True
    with Cons.prems have "k \<notin> fst ` set m" by (auto simp: hm_ok_def)
    with True show ?thesis by (cases a) (simp add: hm_contains_def)
  next
    case False
    have "hm_contains m k \<Longrightarrow> m \<noteq> []" by (auto simp: hm_contains_def)
    with False IH show ?thesis by (cases a) (auto simp: hm_contains_def)
  qed
qed (simp add: hm_contains_def)

subsection \<open>Components that can be closed\<close>

text \<open>
  Several components refuse every mutation once a flag is set (a frozen registry, a store
  in its simulation phase). \<open>step\<close> is the mutation interface, with the result of the
  call and the state after it.
\<close>

locale closable =
  fixes step :: "'op \<Rightarrow> 's \<Rightarrow> ('e + 'r) \<times> 's"
    and closed :: "'s \<Rightarrow> bool"
  assumes closed_step: "closed s \<Longrightarrow> snd (step x s) = s \<and> \<not> is_ok (fst (step x s))"
begin

fun run :: "'op list \<Rightarrow> 's \<Rightarrow> ('e + 'r) list \<times> 's" where
  "run [] s = ([], s)"
| "run (x # xs) s = (let (r, s') = step x s; (rs, s'') = run xs s' in (r # rs, s''))"

lemma closed_run: "closed s \<Longrightarrow> snd (run xs s) = s \<and> (\<forall>r \<in> set (fst (run xs s)). \<not> is_ok r)"
proof (induction xs)
  case (Cons x xs)
  with closed_step [OF Cons.prems, of x] show ?case
    by (cases "step x s"; cases "run xs s") auto
qed simp

end

end
