(* ===== verification/Fixed_Point.thy ===== *)
theory Fixed_Point
  imports Prelude
begin

section \<open>Fixed-point arithmetic (scharnhorst\_core: error.rs, fixed\_point.rs)\<close>

text \<open>
  The engine's deterministic number type: an \<open>i64\<close> mantissa with a decimal scale. The
  mantissa is an integer; every operation of the source that checks for overflow checks
  it here too. \<open>fp_wf\<close> is the invariant that the fields fit their Rust types. The
  rational \<open>fp_val\<close> is the abstract value each operation is specified against. The two
  conversions with \<open>f64\<close> are not modelled.
\<close>

datatype core_error =
    InvalidId string
  | InvalidFormat string
  | ArithmeticOverflow
  | DivisionByZero
  | InvalidFixedPointScale nat nat
  | CoreSchema string
  | DuplicateRegistration string
  | InvalidPhase string
  | CoreIo string
  | CoreGeneric string

record fixed_point =
  fp_raw :: int
  fp_scale :: nat

definition fp_new :: "int \<Rightarrow> nat \<Rightarrow> fixed_point" where
  "fp_new r s = \<lparr>fp_raw = r, fp_scale = s\<rparr>"

definition fp_wf :: "fixed_point \<Rightarrow> bool" where
  "fp_wf a \<longleftrightarrow> in_i64 (fp_raw a) \<and> fp_scale a < 2 ^ 32"

definition fp_val :: "fixed_point \<Rightarrow> rat" where
  "fp_val a = of_int (fp_raw a) / 10 ^ fp_scale a"

definition checked_pow10 :: "nat \<Rightarrow> int option" where
  "checked_pow10 n = checked_i64 (10 ^ n)"

definition from_i64 :: "int \<Rightarrow> nat \<Rightarrow> core_error + fixed_point" where
  "from_i64 v s =
     rbind (ok_or (checked_pow10 s) ArithmeticOverflow) (\<lambda>factor.
     rbind (ok_or (checked_i64 (v * factor)) ArithmeticOverflow) (\<lambda>r.
     Inr (fp_new r s)))"

definition rescale :: "fixed_point \<Rightarrow> nat \<Rightarrow> core_error + fixed_point" where
  "rescale a ns =
     (case cmp ns (fp_scale a) of
        OEqual \<Rightarrow> Inr a
      | OGreater \<Rightarrow>
          rbind (ok_or (checked_pow10 (ns - fp_scale a)) ArithmeticOverflow) (\<lambda>factor.
          rbind (ok_or (checked_i64 (fp_raw a * factor)) ArithmeticOverflow) (\<lambda>r.
          Inr (fp_new r ns)))
      | OLess \<Rightarrow>
          rbind (ok_or (checked_pow10 (fp_scale a - ns)) ArithmeticOverflow) (\<lambda>factor.
          rbind (ok_or (checked_i64 (fp_raw a sdiv factor)) ArithmeticOverflow) (\<lambda>r.
          let remainder = fp_raw a smod factor;
              needs_round = \<bar>remainder\<bar> * 2 > \<bar>factor\<bar>
                \<or> (\<bar>remainder\<bar> * 2 = \<bar>factor\<bar> \<and> r smod 2 \<noteq> 0);
              adjusted = (if needs_round
                then (if fp_raw a \<ge> 0 then checked_i64 (r + 1) else checked_i64 (r - 1))
                else Some r)
          in rbind (ok_or adjusted ArithmeticOverflow) (\<lambda>adj. Inr (fp_new adj ns)))))"

definition ensure_same_scale :: "fixed_point \<Rightarrow> fixed_point \<Rightarrow> core_error + unit" where
  "ensure_same_scale l r =
     (if fp_scale l \<noteq> fp_scale r
      then Inl (InvalidFixedPointScale (fp_scale l) (fp_scale r)) else Inr ())"

definition cmp_normalized :: "fixed_point \<Rightarrow> fixed_point \<Rightarrow> ordering option" where
  "cmp_normalized x y =
     (let a = fp_raw x; b = fp_raw y in
      if fp_scale x = fp_scale y then Some (cmp a b)
      else if fp_scale x < fp_scale y then
        (case checked_i128 (10 ^ (fp_scale y - fp_scale x)) of
           Some pow \<Rightarrow> (case checked_i128 (a * pow) of
               None \<Rightarrow> None | Some a_scaled \<Rightarrow> Some (cmp a_scaled b))
         | None \<Rightarrow> Some (case cmp a 0 of
               OGreater \<Rightarrow> OGreater | OLess \<Rightarrow> OLess | OEqual \<Rightarrow> cmp 0 b))
      else
        (case checked_i128 (10 ^ (fp_scale x - fp_scale y)) of
           Some pow \<Rightarrow> (case checked_i128 (b * pow) of
               None \<Rightarrow> None | Some b_scaled \<Rightarrow> Some (cmp a b_scaled))
         | None \<Rightarrow> Some (case cmp b 0 of
               OGreater \<Rightarrow> OLess | OLess \<Rightarrow> OGreater | OEqual \<Rightarrow> cmp a 0)))"

text \<open>The loop of \<open>canonical_form\<close>: it runs at most \<open>scale\<close> times.\<close>

fun canonical_loop :: "int \<Rightarrow> nat \<Rightarrow> int \<times> nat" where
  "canonical_loop r 0 = (r, 0)"
| "canonical_loop r (Suc s) =
     (if r \<noteq> 0 \<and> r smod 10 = 0 then canonical_loop (r sdiv 10) s else (r, Suc s))"

definition canonical_form :: "fixed_point \<Rightarrow> int \<times> nat" where
  "canonical_form a = canonical_loop (fp_raw a) (fp_scale a)"

definition fp_eq :: "fixed_point \<Rightarrow> fixed_point \<Rightarrow> bool" where
  "fp_eq x y \<longleftrightarrow> cmp_normalized x y = Some OEqual"

definition fp_cmp :: "fixed_point \<Rightarrow> fixed_point \<Rightarrow> ordering" where
  "fp_cmp x y = (case cmp_normalized x y of Some c \<Rightarrow> c | None \<Rightarrow> OEqual)"

text \<open>\<open>Hash\<close> feeds the canonical pair to the hasher \<open>h\<close>.\<close>

definition fp_hash :: "(int \<times> nat \<Rightarrow> 'h) \<Rightarrow> fixed_point \<Rightarrow> 'h" where
  "fp_hash h a = h (canonical_form a)"

definition fp_add :: "fixed_point \<Rightarrow> fixed_point \<Rightarrow> core_error + fixed_point" where
  "fp_add a b =
     rbind (ensure_same_scale a b) (\<lambda>_.
     rbind (ok_or (checked_i64 (fp_raw a + fp_raw b)) ArithmeticOverflow) (\<lambda>r.
     Inr (fp_new r (fp_scale a))))"

definition fp_sub :: "fixed_point \<Rightarrow> fixed_point \<Rightarrow> core_error + fixed_point" where
  "fp_sub a b =
     rbind (ensure_same_scale a b) (\<lambda>_.
     rbind (ok_or (checked_i64 (fp_raw a - fp_raw b)) ArithmeticOverflow) (\<lambda>r.
     Inr (fp_new r (fp_scale a))))"

definition fp_mul :: "fixed_point \<Rightarrow> fixed_point \<Rightarrow> core_error + fixed_point" where
  "fp_mul a b =
     rbind (ensure_same_scale a b) (\<lambda>_.
     rbind (ok_or (checked_i64 (fp_raw a * fp_raw b)) ArithmeticOverflow) (\<lambda>product.
     rbind (ok_or (checked_pow10 (fp_scale a)) ArithmeticOverflow) (\<lambda>factor.
     rbind (ok_or (checked_i64 (product sdiv factor)) ArithmeticOverflow) (\<lambda>r.
     Inr (fp_new r (fp_scale a))))))"

definition fp_div :: "fixed_point \<Rightarrow> fixed_point \<Rightarrow> core_error + fixed_point" where
  "fp_div a b =
     rbind (ensure_same_scale a b) (\<lambda>_.
     if fp_raw b = 0 then Inl DivisionByZero else
     rbind (ok_or (checked_pow10 (fp_scale a)) ArithmeticOverflow) (\<lambda>factor.
     rbind (ok_or (checked_i64 (fp_raw a * factor)) ArithmeticOverflow) (\<lambda>scaled.
     rbind (ok_or (checked_i64 (scaled sdiv fp_raw b)) ArithmeticOverflow) (\<lambda>r.
     Inr (fp_new r (fp_scale a))))))"

definition fp_neg :: "fixed_point \<Rightarrow> core_error + fixed_point" where
  "fp_neg a =
     rbind (ok_or (checked_i64 (- fp_raw a)) ArithmeticOverflow) (\<lambda>r.
     Inr (fp_new r (fp_scale a)))"

text \<open>
  Parsing. Strings are ASCII; \<open>is_ws\<close> is the ASCII part of \<open>char::is_whitespace\<close>.
\<close>

definition is_ws :: "char \<Rightarrow> bool" where
  "is_ws c \<longleftrightarrow> (let n = of_char c :: nat in n = 32 \<or> (9 \<le> n \<and> n \<le> 13))"

definition trim_start :: "string \<Rightarrow> string" where
  "trim_start s = dropWhile is_ws s"

definition trim :: "string \<Rightarrow> string" where
  "trim s = rev (dropWhile is_ws (rev (trim_start s)))"

definition after_dot :: "string \<Rightarrow> string" where
  "after_dot s = tl (dropWhile (\<lambda>c. c \<noteq> CHR ''.'') s)"

definition fp_from_str :: "string \<Rightarrow> core_error + fixed_point" where
  "fp_from_str s0 =
     (let s = trim s0; dots = filter (\<lambda>c. c = CHR ''.'') s in
      if length dots > 1
      then Inl (InvalidFormat (''multiple decimal points in '' @ s))
      else
        let sc = (if dots = [] then 0 else length (after_dot s) mod 2 ^ 32);
            num_str = filter (\<lambda>c. c \<noteq> CHR ''.'') s
        in rbind (map_err (\<lambda>e. case e of
                    PIE_PosOverflow \<Rightarrow> ArithmeticOverflow
                  | PIE_NegOverflow \<Rightarrow> ArithmeticOverflow
                  | _ \<Rightarrow> InvalidFormat (''cannot parse as number: '' @ s)) (parse_i64 num_str))
             (\<lambda>r. Inr (fp_new r sc)))"

subsection \<open>Truncating division\<close>

lemma sdiv_pos_facts:
  fixes a f :: int
  assumes "0 < f"
  shows "a = (a sdiv f) * f + a smod f" and "\<bar>a smod f\<bar> < f"
    and "\<bar>(a sdiv f) * f\<bar> \<le> \<bar>a\<bar>" and "\<bar>a sdiv f\<bar> \<le> \<bar>a\<bar>"
    and "0 \<le> a \<Longrightarrow> 0 \<le> a smod f \<and> 0 \<le> a sdiv f"
    and "a \<le> 0 \<Longrightarrow> a smod f \<le> 0 \<and> a sdiv f \<le> 0"
proof -
  show eq: "a = (a sdiv f) * f + a smod f" by (simp add: sdiv_mult_smod_eq)
  show "\<bar>a smod f\<bar> < f"
    using smod_int_compares(1-4) [of a f] assms by (cases "0 \<le> a") auto
  show le: "\<bar>a sdiv f\<bar> \<le> \<bar>a\<bar>" using sdiv_int_range [of a f] by auto
  show pos: "0 \<le> a \<Longrightarrow> 0 \<le> a smod f \<and> 0 \<le> a sdiv f"
    using assms smod_int_compares(2) [of a f]
    by (auto simp: signed_divide_int_def sgn_if pos_imp_zdiv_nonneg_iff)
  show neg: "a \<le> 0 \<Longrightarrow> a smod f \<le> 0 \<and> a sdiv f \<le> 0"
    using assms smod_int_compares(4) [of a f]
    by (auto simp: signed_divide_int_def sgn_if pos_imp_zdiv_nonneg_iff)
  show "\<bar>(a sdiv f) * f\<bar> \<le> \<bar>a\<bar>"
  proof (cases "0 \<le> a")
    case True
    with pos assms have "0 \<le> (a sdiv f) * f" by simp
    with eq pos [OF True] True show ?thesis by linarith
  next
    case False
    with neg assms have "(a sdiv f) * f \<le> 0" by (simp add: mult_nonpos_nonneg)
    with eq neg False show ?thesis by linarith
  qed
qed

lemma sdiv_rat_trunc:
  fixes a f :: int
  assumes "0 < f"
  shows "\<bar>(of_int a / of_int f :: rat) - of_int (a sdiv f)\<bar> < 1"
    and "\<bar>of_int (a sdiv f) :: rat\<bar> \<le> \<bar>of_int a / of_int f\<bar>"
proof -
  have "(of_int a :: rat) = of_int (a sdiv f) * of_int f + of_int (a smod f)"
    by (metis sdiv_pos_facts(1) [OF assms] of_int_add of_int_mult)
  then have *: "(of_int a / of_int f :: rat) - of_int (a sdiv f) = of_int (a smod f) / of_int f"
    using assms by (simp add: field_simps)
  have "\<bar>of_int (a smod f) :: rat\<bar> < of_int f"
    using sdiv_pos_facts(2) [OF assms, of a] by (metis of_int_abs of_int_less_iff)
  with * assms show "\<bar>(of_int a / of_int f :: rat) - of_int (a sdiv f)\<bar> < 1"
    by (simp add: abs_divide)
  have "\<bar>of_int (a sdiv f) * of_int f :: rat\<bar> \<le> \<bar>of_int a\<bar>"
    using sdiv_pos_facts(3) [OF assms, of a] by (metis of_int_abs of_int_le_iff of_int_mult)
  with assms show "\<bar>of_int (a sdiv f) :: rat\<bar> \<le> \<bar>of_int a / of_int f\<bar>"
    by (simp add: abs_divide abs_mult pos_le_divide_eq)
qed

lemma checked_pow10_Some [simp]:
  "checked_pow10 n = Some f \<longleftrightarrow> (10::int) ^ n \<le> i64_max \<and> f = 10 ^ n"
proof -
  have "i64_min \<le> 10 ^ n" by (rule order_trans [of _ 0]) (simp_all add: i64_min_def)
  then show ?thesis unfolding checked_pow10_def by (auto simp: in_range_def)
qed

lemma pow10_le_i64_max_iff: "(10::int) ^ n \<le> i64_max \<longleftrightarrow> n \<le> 18"
proof
  show "n \<le> 18 \<Longrightarrow> (10::int) ^ n \<le> i64_max"
    using power_increasing [of n 18 "10::int"] by (simp add: i64_max_def)
  show "(10::int) ^ n \<le> i64_max \<Longrightarrow> n \<le> 18"
  proof (rule ccontr)
    assume a: "(10::int) ^ n \<le> i64_max" "\<not> n \<le> 18"
    then have "(10::int) ^ 19 \<le> 10 ^ n" by (intro power_increasing) auto
    with a(1) show False by (simp add: i64_max_def)
  qed
qed

lemma fp_new_sel [simp]: "fp_raw (fp_new r s) = r" "fp_scale (fp_new r s) = s"
  by (simp_all add: fp_new_def)

lemma fp_new_eq_iff: "c = fp_new r s \<longleftrightarrow> fp_raw c = r \<and> fp_scale c = s"
  by (cases c) (auto simp: fp_new_def)

lemma fp_val_eq_same_scale:
  "fp_scale a = fp_scale b \<Longrightarrow> fp_val a = fp_val b \<longleftrightarrow> fp_raw a = fp_raw b"
  by (simp add: fp_val_def)

lemma ensure_same_scale_Inr [simp]:
  "ensure_same_scale a b = Inr u \<longleftrightarrow> fp_scale a = fp_scale b"
  by (simp add: ensure_same_scale_def)

subsection \<open>Addition, subtraction, negation: exact or an error\<close>

text \<open>
  on operands whose fields fit their Rust types, addition, subtraction and negation
  succeed exactly when the scales agree and the exact rational result is representable,
  and then return that result; otherwise the scale mismatch or the overflow is reported.
\<close>

theorem fp_add_sub_neg_exact:
  assumes "fp_wf a" and "fp_wf b"
  shows "(fp_add a b = Inr c \<longleftrightarrow> fp_scale a = fp_scale b \<and> fp_scale c = fp_scale a \<and> fp_wf c
            \<and> fp_val c = fp_val a + fp_val b)
    \<and> (fp_sub a b = Inr c \<longleftrightarrow> fp_scale a = fp_scale b \<and> fp_scale c = fp_scale a \<and> fp_wf c
            \<and> fp_val c = fp_val a - fp_val b)
    \<and> (fp_neg a = Inr c \<longleftrightarrow> fp_scale c = fp_scale a \<and> fp_wf c \<and> fp_val c = - fp_val a)
    \<and> (fp_scale a \<noteq> fp_scale b \<longrightarrow>
          fp_add a b = Inl (InvalidFixedPointScale (fp_scale a) (fp_scale b)))"
proof (intro conjI)
  have sum: "fp_val c = fp_val a + fp_val b \<longleftrightarrow> fp_raw c = fp_raw a + fp_raw b"
    and diff: "fp_val c = fp_val a - fp_val b \<longleftrightarrow> fp_raw c = fp_raw a - fp_raw b"
    if "fp_scale a = fp_scale b" "fp_scale c = fp_scale a"
    using that
    by (simp_all add: fp_val_def flip: add_divide_distrib diff_divide_distrib of_int_add of_int_diff)
  have neg: "fp_val c = - fp_val a \<longleftrightarrow> fp_raw c = - fp_raw a" if "fp_scale c = fp_scale a"
    using that by (simp add: fp_val_def minus_divide_left flip: of_int_minus)
  show "fp_add a b = Inr c \<longleftrightarrow> fp_scale a = fp_scale b \<and> fp_scale c = fp_scale a \<and> fp_wf c
            \<and> fp_val c = fp_val a + fp_val b"
    using assms sum by (auto simp: fp_add_def fp_wf_def fp_new_eq_iff eq_commute [of _ c])
  show "fp_sub a b = Inr c \<longleftrightarrow> fp_scale a = fp_scale b \<and> fp_scale c = fp_scale a \<and> fp_wf c
            \<and> fp_val c = fp_val a - fp_val b"
    using assms diff by (auto simp: fp_sub_def fp_wf_def fp_new_eq_iff eq_commute [of _ c])
  show "fp_neg a = Inr c \<longleftrightarrow> fp_scale c = fp_scale a \<and> fp_wf c \<and> fp_val c = - fp_val a"
    using assms neg by (auto simp: fp_neg_def fp_wf_def fp_new_eq_iff eq_commute [of _ c])
  show "fp_scale a \<noteq> fp_scale b \<longrightarrow>
          fp_add a b = Inl (InvalidFixedPointScale (fp_scale a) (fp_scale b))"
    by (simp add: fp_add_def ensure_same_scale_def)
qed

theorem fp_add_sub_neg_exact_witness:
  "fp_add (fp_new 150 2) (fp_new 25 2) = Inr (fp_new 175 2)
   \<and> fp_sub (fp_new 150 2) (fp_new 25 2) = Inr (fp_new 125 2)
   \<and> fp_neg (fp_new 150 2) = Inr (fp_new (-150) 2)
   \<and> fp_add (fp_new 1 2) (fp_new 1 3) = Inl (InvalidFixedPointScale 2 3)"
proof -
  have wf: "fp_wf (fp_new 150 2)" "fp_wf (fp_new 25 2)" "fp_wf (fp_new 175 2)"
    "fp_wf (fp_new 125 2)" "fp_wf (fp_new (-150) 2)" "fp_wf (fp_new 1 2)" "fp_wf (fp_new 1 3)"
    by (simp_all add: fp_wf_def int_range_defs)
  show ?thesis
    using fp_add_sub_neg_exact [OF wf(1,2), of "fp_new 175 2"]
      fp_add_sub_neg_exact [OF wf(1,2), of "fp_new 125 2"]
      fp_add_sub_neg_exact [OF wf(1,2), of "fp_new (-150) 2"]
      fp_add_sub_neg_exact [OF wf(6,7)] wf
    by (simp add: fp_val_def)
qed

subsection \<open>Multiplication and division: truncated towards zero\<close>

text \<open>The common shape of both results: a rational truncated to the operands' scale.\<close>

lemma trunc_to_scale:
  fixes x :: int and f :: int and s :: nat
  assumes "0 < f" and "fp_raw c = x sdiv f" and "fp_scale c = s"
    and "v = of_int x / of_int f / 10 ^ s"
  shows "\<bar>fp_val c\<bar> \<le> \<bar>v\<bar> \<and> \<bar>v - fp_val c\<bar> < 1 / 10 ^ s"
proof -
  have c: "fp_val c = of_int (x sdiv f) / 10 ^ s" using assms by (simp add: fp_val_def)
  have scale: "\<bar>y / 10 ^ s\<bar> = \<bar>y\<bar> / 10 ^ s" for y :: rat by simp
  have "\<bar>fp_val c\<bar> \<le> \<bar>v\<bar>"
    unfolding c assms(4) scale using sdiv_rat_trunc(2) [OF assms(1), of x]
    by (rule divide_right_mono) simp
  moreover have "v - fp_val c = (of_int x / of_int f - of_int (x sdiv f)) / 10 ^ s"
    by (simp add: c assms(4) diff_divide_distrib)
  then have "\<bar>v - fp_val c\<bar> < 1 / 10 ^ s"
    using sdiv_rat_trunc(1) [OF assms(1), of x] by (simp add: abs_divide divide_strict_right_mono)
  ultimately show ?thesis ..
qed

lemma sdiv_neg_divisor: "(x :: int) sdiv b = (if b < 0 then (- x) sdiv (- b) else x sdiv b)"
  by simp

lemma fp_mul_Inr_iff:
  "fp_mul a b = Inr c \<longleftrightarrow> fp_scale a = fp_scale b \<and> fp_scale a \<le> 18
     \<and> in_i64 (fp_raw a * fp_raw b) \<and> in_i64 ((fp_raw a * fp_raw b) sdiv 10 ^ fp_scale a)
     \<and> c = fp_new ((fp_raw a * fp_raw b) sdiv 10 ^ fp_scale a) (fp_scale a)"
  by (auto simp: fp_mul_def pow10_le_i64_max_iff)

lemma fp_div_Inr_iff:
  "fp_div a b = Inr c \<longleftrightarrow> fp_scale a = fp_scale b \<and> fp_raw b \<noteq> 0 \<and> fp_scale a \<le> 18
     \<and> in_i64 (fp_raw a * 10 ^ fp_scale a) \<and> in_i64 ((fp_raw a * 10 ^ fp_scale a) sdiv fp_raw b)
     \<and> c = fp_new ((fp_raw a * 10 ^ fp_scale a) sdiv fp_raw b) (fp_scale a)"
  by (auto simp: fp_div_def pow10_le_i64_max_iff)

text \<open>
  a product or quotient that is returned has the operands' scale, fits, and is the
  exact rational result truncated towards zero to that scale (never further than one unit
  in the last place, never away from zero); dividing by zero is reported as such.
\<close>

theorem fp_mul_div_truncate:
  assumes "fp_wf a" and "fp_wf b"
  shows "(fp_mul a b = Inr c \<longrightarrow> fp_wf c \<and> fp_scale c = fp_scale a
            \<and> \<bar>fp_val c\<bar> \<le> \<bar>fp_val a * fp_val b\<bar>
            \<and> \<bar>fp_val a * fp_val b - fp_val c\<bar> < 1 / 10 ^ fp_scale a)
    \<and> (fp_div a b = Inr c \<longrightarrow> fp_wf c \<and> fp_scale c = fp_scale a \<and> fp_raw b \<noteq> 0
            \<and> \<bar>fp_val c\<bar> \<le> \<bar>fp_val a / fp_val b\<bar>
            \<and> \<bar>fp_val a / fp_val b - fp_val c\<bar> < 1 / 10 ^ fp_scale a)
    \<and> (fp_scale a = fp_scale b \<and> fp_raw b = 0 \<longrightarrow> fp_div a b = Inl DivisionByZero)"
proof (intro conjI impI)
  assume m: "fp_mul a b = Inr c"
  show "fp_wf c" "fp_scale c = fp_scale a"
    using m assms by (auto simp: fp_mul_Inr_iff fp_wf_def)
  have "fp_val a * fp_val b
      = of_int (fp_raw a * fp_raw b) / of_int (10 ^ fp_scale a) / 10 ^ fp_scale a"
    using m by (simp add: fp_mul_Inr_iff fp_val_def)
  from trunc_to_scale [OF _ _ _ this, of c] m
  show "\<bar>fp_val c\<bar> \<le> \<bar>fp_val a * fp_val b\<bar>"
    and "\<bar>fp_val a * fp_val b - fp_val c\<bar> < 1 / 10 ^ fp_scale a"
    by (simp_all add: fp_mul_Inr_iff)
next
  assume d: "fp_div a b = Inr c"
  show "fp_wf c" "fp_scale c = fp_scale a" and nz: "fp_raw b \<noteq> 0"
    using d assms by (auto simp: fp_div_Inr_iff fp_wf_def)
  define x f where "x = (if fp_raw b < 0 then - (fp_raw a * 10 ^ fp_scale a)
      else fp_raw a * 10 ^ fp_scale a)" and "f = \<bar>fp_raw b\<bar>"
  have f: "0 < f" using nz by (simp add: f_def)
  have c: "fp_raw c = x sdiv f" "fp_scale c = fp_scale a"
    using d by (auto simp: fp_div_Inr_iff x_def f_def)
  have "fp_val a / fp_val b = of_int x / of_int f / 10 ^ fp_scale a"
    using d by (auto simp: fp_div_Inr_iff fp_val_def x_def f_def)
  from trunc_to_scale [OF f c this]
  show "\<bar>fp_val c\<bar> \<le> \<bar>fp_val a / fp_val b\<bar>"
    and "\<bar>fp_val a / fp_val b - fp_val c\<bar> < 1 / 10 ^ fp_scale a"
    by simp_all
next
  assume "fp_scale a = fp_scale b \<and> fp_raw b = 0"
  then show "fp_div a b = Inl DivisionByZero" by (simp add: fp_div_def ensure_same_scale_def)
qed

theorem fp_mul_div_truncate_witness:
  "fp_mul (fp_new (-250) 2) (fp_new 101 2) = Inr (fp_new (-252) 2)
   \<and> \<bar>fp_val (fp_new (-252) 2)\<bar> \<le> \<bar>fp_val (fp_new (-250) 2) * fp_val (fp_new 101 2)\<bar>
   \<and> fp_div (fp_new 700 2) (fp_new (-300) 2) = Inr (fp_new (-233) 2)
   \<and> \<bar>fp_val (fp_new 700 2) / fp_val (fp_new (-300) 2) - fp_val (fp_new (-233) 2)\<bar> < 1 / 10 ^ 2"
proof -
  have wf: "fp_wf (fp_new (-250) 2)" "fp_wf (fp_new 101 2)" "fp_wf (fp_new 700 2)"
    "fp_wf (fp_new (-300) 2)" by (simp_all add: fp_wf_def int_range_defs)
  have m: "fp_mul (fp_new (-250) 2) (fp_new 101 2) = Inr (fp_new (-252) 2)"
    by (simp add: fp_mul_Inr_iff int_range_defs signed_divide_int_def)
  have d: "fp_div (fp_new 700 2) (fp_new (-300) 2) = Inr (fp_new (-233) 2)"
    by (simp add: fp_div_Inr_iff int_range_defs signed_divide_int_def)
  show ?thesis
    using fp_mul_div_truncate [OF wf(1,2), of "fp_new (-252) 2"]
      fp_mul_div_truncate [OF wf(3,4), of "fp_new (-233) 2"] m d by simp
qed

subsection \<open>Rescaling: exact upwards, half to even downwards\<close>

lemma rescale_down_round:
  fixes a f :: int
  assumes "0 < f" and "even f"
    and "r = a sdiv f" and "m = a smod f"
    and "adj = (if \<bar>m\<bar> * 2 > f \<or> (\<bar>m\<bar> * 2 = f \<and> r smod 2 \<noteq> 0)
                then (if a \<ge> 0 then r + 1 else r - 1) else r)"
  shows "2 * \<bar>adj * f - a\<bar> \<le> f \<and> (2 * \<bar>adj * f - a\<bar> = f \<longrightarrow> even adj)"
proof -
  note facts = sdiv_pos_facts [OF assms(1), of a, folded assms(3,4)]
  have odd: "r smod 2 \<noteq> 0 \<longleftrightarrow> odd r"
    by (simp add: signed_modulo_int_def sgn_if abs_if) presburger
  show ?thesis
  proof (cases "\<bar>m\<bar> * 2 > f \<or> (\<bar>m\<bar> * 2 = f \<and> odd r)")
    case True
    show ?thesis
    proof (cases "a \<ge> 0")
      case ge: True
      then have adj: "adj = r + 1" using True odd assms(5) by simp
      have "adj * f - a = f - m" unfolding adj by (subst facts(1)) (simp add: algebra_simps)
      moreover have "0 \<le> m" "m < f" using facts(2) facts(5) [OF ge] by auto
      ultimately show ?thesis using True adj by auto
    next
      case lt: False
      then have adj: "adj = r - 1" using True odd assms(5) by simp
      have "adj * f - a = - f - m" unfolding adj by (subst facts(1)) (simp add: algebra_simps)
      moreover have "m \<le> 0" "- f < m" using facts(2) facts(6) lt by auto
      ultimately show ?thesis using True adj by auto
    qed
  next
    case False
    then have adj: "adj = r" using odd assms(5) by auto
    have "adj * f - a = - m" using facts(1) adj by (simp add: algebra_simps)
    then show ?thesis using False adj by auto
  qed
qed

lemma even_pow10: "0 < n \<Longrightarrow> even ((10::int) ^ n)"
  by (simp add: even_power)

lemma rescale_Inr_cases:
  assumes "rescale a ns = Inr b"
  obtains (same) "ns = fp_scale a" "b = a"
  | (up) "fp_scale a < ns" "ns - fp_scale a \<le> 18" "in_i64 (fp_raw b)" "fp_scale b = ns"
      "fp_raw b = fp_raw a * 10 ^ (ns - fp_scale a)"
  | (down) "ns < fp_scale a" "fp_scale a - ns \<le> 18" "fp_scale b = ns"
      "fp_raw b = (let f = 10 ^ (fp_scale a - ns); r = fp_raw a sdiv f; m = fp_raw a smod f in
         if \<bar>m\<bar> * 2 > f \<or> (\<bar>m\<bar> * 2 = f \<and> r smod 2 \<noteq> 0)
         then (if fp_raw a \<ge> 0 then r + 1 else r - 1) else r)"
proof (cases ns "fp_scale a" rule: linorder_cases)
  case less
  then have c: "cmp ns (fp_scale a) = OLess" by simp
  show thesis
  proof (rule down)
    show "fp_scale a - ns \<le> 18" "fp_scale b = ns"
      using assms by (auto simp: rescale_def c pow10_le_i64_max_iff Let_def)
    show "fp_raw b = (let f = 10 ^ (fp_scale a - ns); r = fp_raw a sdiv f; m = fp_raw a smod f in
         if \<bar>m\<bar> * 2 > f \<or> (\<bar>m\<bar> * 2 = f \<and> r smod 2 \<noteq> 0)
         then (if fp_raw a \<ge> 0 then r + 1 else r - 1) else r)"
      using assms unfolding rescale_def c Let_def
      by (simp split: if_split_asm) auto
  qed (rule less)
next
  case equal
  with assms show thesis by (intro same) (simp_all add: rescale_def cmp_def)
next
  case greater
  with assms show thesis
    by (intro up) (auto simp: rescale_def cmp_def pow10_le_i64_max_iff)
qed

lemma in_i64_sdiv_pow10:
  assumes "in_i64 x" and "0 < n"
  shows "in_i64 (x sdiv 10 ^ n) \<and> in_i64 (x sdiv 10 ^ n + 1) \<and> in_i64 (x sdiv 10 ^ n - 1)"
proof -
  have f: "(10::int) \<le> 10 ^ n" using assms(2) power_increasing [of 1 n "10::int"] by simp
  have "\<bar>x sdiv 10 ^ n\<bar> * 10 \<le> \<bar>x sdiv 10 ^ n\<bar> * 10 ^ n" using f by (intro mult_left_mono) auto
  also have "\<dots> \<le> \<bar>x\<bar>" using sdiv_pos_facts(3) [of "10 ^ n" x] by (simp add: abs_mult)
  finally show ?thesis using assms(1) by (simp add: int_range_defs) linarith
qed

lemma rescale_down_value:
  fixes a b :: fixed_point
  assumes lt: "ns < fp_scale a" and sc: "fp_scale b = ns" and f: "f = 10 ^ (fp_scale a - ns)"
    and R: "2 * \<bar>fp_raw b * f - fp_raw a\<bar> \<le> f \<and> (2 * \<bar>fp_raw b * f - fp_raw a\<bar> = f \<longrightarrow> even (fp_raw b))"
  shows "2 * \<bar>fp_val b - fp_val a\<bar> \<le> 1 / 10 ^ ns
    \<and> (2 * \<bar>fp_val b - fp_val a\<bar> = 1 / 10 ^ ns \<longrightarrow> even (fp_raw b))"
proof -
  define z where "z = 2 * \<bar>fp_raw b * f - fp_raw a\<bar>"
  have f0: "(0::rat) < of_int f" using f by simp
  have s: "10 ^ fp_scale a = (of_int f :: rat) * 10 ^ ns"
    using lt f by (simp flip: power_add)
  have "fp_val b - fp_val a = (of_int (fp_raw b) * of_int f - of_int (fp_raw a)) / (of_int f * 10 ^ ns)"
    using f0 sc by (simp add: fp_val_def s diff_divide_distrib)
  then have v: "2 * \<bar>fp_val b - fp_val a\<bar> = of_int z / of_int f / 10 ^ ns"
    using f0 by (simp add: z_def abs_divide abs_mult)
  have "z \<le> f" using R by (simp add: z_def)
  then have "of_int z / of_int f \<le> (1::rat)" using f0 by (simp add: pos_divide_le_eq)
  then have le: "2 * \<bar>fp_val b - fp_val a\<bar> \<le> 1 / 10 ^ ns"
    unfolding v by (intro divide_right_mono) simp_all
  have "z = f" if "2 * \<bar>fp_val b - fp_val a\<bar> = 1 / 10 ^ ns"
    using that f0 unfolding v by (simp add: divide_eq_eq)
  with le R show ?thesis by (auto simp: z_def)
qed

lemma rescale_sound:
  assumes "fp_wf a" and "ns < 2 ^ 32" and "rescale a ns = Inr b"
  shows "fp_wf b \<and> fp_scale b = ns \<and> 2 * \<bar>fp_val b - fp_val a\<bar> \<le> 1 / 10 ^ ns
      \<and> (2 * \<bar>fp_val b - fp_val a\<bar> = 1 / 10 ^ ns \<longrightarrow> even (fp_raw b))
      \<and> (fp_scale a \<le> ns \<longrightarrow> fp_val b = fp_val a)"
  using assms(3)
proof (cases rule: rescale_Inr_cases)
  case same
  then show ?thesis using assms by simp
next
  case up
  have "(10::rat) ^ ns = 10 ^ (ns - fp_scale a) * 10 ^ fp_scale a"
    using up(1) by (simp flip: power_add)
  then have "fp_val b = fp_val a" using up(4,5) by (simp add: fp_val_def)
  then show ?thesis using up assms by (simp add: fp_wf_def)
next
  case down
  define f :: int where "f = 10 ^ (fp_scale a - ns)"
  have f: "0 < f" "even f" using down(1) by (simp_all add: f_def)
  have R: "2 * \<bar>fp_raw b * f - fp_raw a\<bar> \<le> f \<and> (2 * \<bar>fp_raw b * f - fp_raw a\<bar> = f \<longrightarrow> even (fp_raw b))"
    by (rule rescale_down_round [OF f refl refl]) (use down(4) in \<open>simp add: f_def Let_def\<close>)
  note rescale_down_value [OF down(1,3) f_def R]
  moreover have "in_i64 (fp_raw b)"
    using in_i64_sdiv_pow10 [of "fp_raw a" "fp_scale a - ns"] assms(1) down(1,4)
    by (simp add: fp_wf_def Let_def)
  ultimately show ?thesis using down(1,3) assms(2) by (simp add: fp_wf_def)
qed

lemma rescale_down_total:
  assumes "fp_wf a" and "ns < fp_scale a" and "fp_scale a - ns \<le> 18"
  shows "\<exists>b. rescale a ns = Inr b"
proof -
  have c: "cmp ns (fp_scale a) = OLess" and p: "checked_pow10 (fp_scale a - ns) = Some (10 ^ (fp_scale a - ns))"
    using assms(2,3) by (simp_all add: pow10_le_i64_max_iff)
  show ?thesis
    using in_i64_sdiv_pow10 [of "fp_raw a" "fp_scale a - ns"] assms
    by (simp add: rescale_def c p fp_wf_def checked_def Let_def)
qed

lemma rescale_remainder_fits:
  assumes "fp_scale a - ns \<le> 18"
  shows "\<bar>fp_raw a smod 10 ^ (fp_scale a - ns)\<bar> * 2 \<le> i64_max"
proof -
  have "\<bar>fp_raw a smod 10 ^ (fp_scale a - ns)\<bar> < 10 ^ (fp_scale a - ns)"
    by (rule sdiv_pos_facts(2)) simp
  also have "\<dots> \<le> (10::int) ^ 18" by (rule power_increasing) (use assms in auto)
  finally show ?thesis by (simp add: i64_max_def)
qed

lemma rescale_far:
  assumes "18 < fp_scale a - ns \<or> 18 < ns - fp_scale a"
  shows "rescale a ns = Inl ArithmeticOverflow"
proof -
  have "checked_pow10 n = None" if "18 < n" for n
    using that pow10_le_i64_max_iff [of n] checked_pow10_Some [of n "10 ^ n"]
    by (cases "checked_pow10 n") auto
  then show ?thesis using assms by (auto simp: rescale_def cmp_def)
qed



subsection \<open>Comparison\<close>

lemma cmp_divide: "0 < d \<Longrightarrow> cmp (of_int p / d) (of_int q / d :: rat) = cmp p q"
  by (auto simp: cmp_def divide_less_cancel)

lemma cmp_val_scaled_left:
  assumes "fp_scale x \<le> fp_scale y"
  shows "cmp (fp_val x) (fp_val y) = cmp (fp_raw x * 10 ^ (fp_scale y - fp_scale x)) (fp_raw y)"
proof -
  have "(10::rat) ^ fp_scale y = 10 ^ (fp_scale y - fp_scale x) * 10 ^ fp_scale x"
    using assms by (simp flip: power_add)
  then have "fp_val x = of_int (fp_raw x * 10 ^ (fp_scale y - fp_scale x)) / 10 ^ fp_scale y"
    by (simp add: fp_val_def)
  then show ?thesis by (simp only: fp_val_def [of y]) (simp only: cmp_divide zero_less_power zero_less_numeral)
qed

lemma cmp_val_scaled_right:
  assumes "fp_scale y \<le> fp_scale x"
  shows "cmp (fp_val x) (fp_val y) = cmp (fp_raw x) (fp_raw y * 10 ^ (fp_scale x - fp_scale y))"
proof -
  have flip: "cmp p q = (case cmp q p of OLess \<Rightarrow> OGreater | OEqual \<Rightarrow> OEqual | OGreater \<Rightarrow> OLess)"
    for p q :: "'a::linorder" by (auto simp: cmp_def)
  show ?thesis
    using cmp_val_scaled_left [OF assms] flip [of "fp_val x"] flip [of "fp_raw x"] by metis
qed

lemma pow10_i128: "in_range i128_min i128_max (10 ^ n) \<longleftrightarrow> n \<le> 38"
proof
  have "i128_min \<le> (10::int) ^ n" by (rule order_trans [of _ 0]) (simp_all add: i128_min_def)
  then show "n \<le> 38 \<Longrightarrow> in_range i128_min i128_max (10 ^ n)"
    using power_increasing [of n 38 "10::int"] by (simp add: in_range_def i128_max_def)
  show "in_range i128_min i128_max (10 ^ n) \<Longrightarrow> n \<le> 38"
  proof (rule ccontr)
    assume a: "in_range i128_min i128_max (10 ^ n)" "\<not> n \<le> 38"
    then have "(10::int) ^ 39 \<le> 10 ^ n" by (intro power_increasing) auto
    with a(1) show False by (simp add: in_range_def i128_max_def)
  qed
qed

lemma cmp_huge:
  fixes a b :: int
  assumes "in_i64 b" and "38 < n"
  shows "cmp (a * 10 ^ n) b = (case cmp a 0 of OGreater \<Rightarrow> OGreater | OLess \<Rightarrow> OLess | OEqual \<Rightarrow> cmp 0 b)"
proof -
  have big: "(10::int) ^ 39 \<le> 10 ^ n" using assms(2) by (intro power_increasing) auto
  define w where "w = a * 10 ^ n"
  have "10 ^ 39 \<le> w" if "0 < a"
    unfolding w_def using that mult_mono [of 1 a "10 ^ 39" "10 ^ n"] big by simp
  moreover have "w \<le> - (10 ^ 39)" if "a < 0"
    unfolding w_def using that mult_mono [of 1 "- a" "10 ^ 39" "10 ^ n"] big by simp
  moreover have "a = 0 \<Longrightarrow> w = 0" by (simp add: w_def)
  ultimately show ?thesis
    using assms(1) unfolding w_def [symmetric]
    by (cases a "0::int" rule: linorder_cases) (auto simp: cmp_def int_range_defs)
qed

lemma cmp_normalized_sound:
  assumes "fp_wf x" and "fp_wf y" and "cmp_normalized x y = Some c"
  shows "c = cmp (fp_val x) (fp_val y)"
proof (cases "fp_scale x" "fp_scale y" rule: linorder_cases)
  case equal
  then show ?thesis using assms(3) cmp_val_scaled_left [of x y] by (simp add: cmp_normalized_def)
next
  case less
  then show ?thesis
    using assms cmp_val_scaled_left [of x y] cmp_huge [of "fp_raw y" "fp_scale y - fp_scale x" "fp_raw x"]
    by (auto simp: cmp_normalized_def fp_wf_def pow10_i128 Let_def split: option.splits)
next
  case greater
  have "cmp (fp_raw x) (fp_raw y * 10 ^ n)
      = (case cmp (fp_raw y) 0 of OGreater \<Rightarrow> OLess | OLess \<Rightarrow> OGreater | OEqual \<Rightarrow> cmp (fp_raw x) 0)"
    if "38 < n" for n
    using cmp_huge [of "fp_raw x" n "fp_raw y"] that assms(1)
    by (auto simp: fp_wf_def cmp_def split: if_splits)
  then show ?thesis
    using assms greater cmp_val_scaled_right [of y x]
    by (auto simp: cmp_normalized_def pow10_i128 Let_def split: option.splits)
qed

lemma i64_times_pow10_fits:
  assumes "in_i64 a" and "n \<le> 19"
  shows "in_range i128_min i128_max (a * 10 ^ n)"
proof -
  have "\<bar>a * 10 ^ n\<bar> \<le> 2 ^ 63 * 10 ^ 19"
    unfolding abs_mult using assms power_increasing [of n 19 "10::int"]
    by (intro mult_mono) (auto simp: int_range_defs)
  moreover define w where "w = a * 10 ^ n"
  ultimately have "\<bar>w\<bar> \<le> 92233720368547758080000000000000000000" by simp
  then show ?thesis unfolding w_def [symmetric] int_range_defs by (simp add: abs_le_iff)
qed

lemma cmp_normalized_defined:
  assumes "fp_wf x" and "fp_wf y"
    and "\<bar>int (fp_scale x) - int (fp_scale y)\<bar> \<le> 19 \<or> 39 \<le> \<bar>int (fp_scale x) - int (fp_scale y)\<bar>"
  shows "\<exists>c. cmp_normalized x y = Some c"
proof -
  define d where "d = (if fp_scale x \<le> fp_scale y then fp_scale y - fp_scale x else fp_scale x - fp_scale y)"
  have d: "d \<le> 19 \<or> 39 \<le> d" using assms(3) by (auto simp: d_def split: if_splits)
  have "in_range i128_min i128_max (fp_raw x * 10 ^ d)" "in_range i128_min i128_max (fp_raw y * 10 ^ d)"
    if "d \<le> 19"
    using that assms(1,2) by (simp_all add: fp_wf_def i64_times_pow10_fits)
  then show ?thesis
    using d by (auto simp: cmp_normalized_def d_def pow10_i128 checked_def Let_def split: if_splits)
qed

text \<open>
  C38: the comparison of the source is the comparison of the rational values whenever it is
  defined, and it is defined (so that \<open>Ord\<close> and \<open>Eq\<close> agree with the values) for every
  pair of in-range numbers whose scales differ by at most 19 or by at least 39.
\<close>

theorem fp_cmp_correct:
  assumes "fp_wf x" and "fp_wf y"
  shows "(cmp_normalized x y = Some c \<longrightarrow> c = cmp (fp_val x) (fp_val y))
    \<and> (\<bar>int (fp_scale x) - int (fp_scale y)\<bar> \<le> 19 \<or> 39 \<le> \<bar>int (fp_scale x) - int (fp_scale y)\<bar>
        \<longrightarrow> fp_cmp x y = cmp (fp_val x) (fp_val y) \<and> (fp_eq x y \<longleftrightarrow> fp_val x = fp_val y))"
proof (intro conjI impI)
  show "cmp_normalized x y = Some c \<Longrightarrow> c = cmp (fp_val x) (fp_val y)"
    by (rule cmp_normalized_sound [OF assms])
  assume "\<bar>int (fp_scale x) - int (fp_scale y)\<bar> \<le> 19 \<or> 39 \<le> \<bar>int (fp_scale x) - int (fp_scale y)\<bar>"
  then obtain c where c: "cmp_normalized x y = Some c"
    using cmp_normalized_defined [OF assms] by blast
  with cmp_normalized_sound [OF assms c]
  show "fp_cmp x y = cmp (fp_val x) (fp_val y)" "fp_eq x y \<longleftrightarrow> fp_val x = fp_val y"
    by (simp_all add: fp_cmp_def fp_eq_def)
qed

theorem fp_cmp_correct_witness:
  "fp_cmp (fp_new 100 2) (fp_new 200 3) = OGreater \<and> fp_eq (fp_new 150 2) (fp_new 15 1)"
proof -
  have wf: "fp_wf (fp_new 100 2)" "fp_wf (fp_new 200 3)" "fp_wf (fp_new 150 2)" "fp_wf (fp_new 15 1)"
    by (simp_all add: fp_wf_def int_range_defs)
  show ?thesis
    using fp_cmp_correct [OF wf(1,2)] fp_cmp_correct [OF wf(3,4)] by (simp add: fp_val_def cmp_def)
qed

text \<open>
  between those bounds the comparison can be wrong. Two in-range numbers of different
  value (2 and 1e-38) compare as \<open>Equal\<close> under \<open>Ord\<close> while \<open>PartialEq\<close> says they differ,
  because the scaled \<open>i128\<close> overflows and the fallback is \<open>Equal\<close>.
\<close>

theorem fp_cmp_overflow_says_equal:
  "\<exists>x y. fp_wf x \<and> fp_wf y \<and> fp_val y < fp_val x \<and> fp_cmp x y = OEqual \<and> \<not> fp_eq x y"
proof (intro exI conjI)
  show "fp_wf (fp_new 2 0)" "fp_wf (fp_new 1 38)" by (simp_all add: fp_wf_def int_range_defs)
  show "fp_val (fp_new 1 38) < fp_val (fp_new 2 0)" by (simp add: fp_val_def)
  show "fp_cmp (fp_new 2 0) (fp_new 1 38) = OEqual" "\<not> fp_eq (fp_new 2 0) (fp_new 1 38)"
    by (simp_all add: fp_cmp_def fp_eq_def cmp_normalized_def checked_def int_range_defs)
qed

subsection \<open>Canonical form and hashing\<close>

lemma smod10_iff: "(r :: int) smod 10 = 0 \<longleftrightarrow> 10 dvd r"
  by (auto simp: signed_modulo_int_def sgn_if dvd_eq_mod_eq_0 abs_if zmod_zminus1_eq_if split: if_splits)

lemma sdiv10_exact: "10 dvd r \<Longrightarrow> r sdiv 10 * 10 = (r :: int)"
  using sdiv_mult_smod_eq [of r 10] smod10_iff [of r] by simp

lemma canonical_loop_spec:
  "canonical_loop r s = (r', s') \<Longrightarrow> r \<noteq> 0 \<Longrightarrow>
     s' \<le> s \<and> r = r' * 10 ^ (s - s') \<and> r' \<noteq> 0 \<and> (s' = 0 \<or> \<not> 10 dvd r')"
proof (induction r s arbitrary: r' s' rule: canonical_loop.induct)
  case (2 r s)
  show ?case
  proof (cases "r smod 10 = 0")
    case True
    then have r: "r = (r sdiv 10) * 10" by (simp add: smod10_iff sdiv10_exact)
    with "2.prems" have "r sdiv 10 \<noteq> 0" by auto
    with 2 True have IH: "s' \<le> s" "r sdiv 10 = r' * 10 ^ (s - s')" "r' \<noteq> 0" "s' = 0 \<or> \<not> 10 dvd r'"
      by auto
    then show ?thesis using r by (simp add: Suc_diff_le)
  next
    case False
    with 2 show ?thesis by (auto simp: smod10_iff)
  qed
qed auto

lemma pow10_eq_le:
  fixes p q :: int
  assumes "p * 10 ^ t = q * 10 ^ s" and "s < t"
  shows "10 dvd q"
proof -
  have "p * 10 ^ t = p * 10 ^ (t - s) * 10 ^ s"
    using assms(2) by (simp add: mult.assoc flip: power_add)
  then have "q = p * 10 ^ (t - s)" using assms(1) by simp
  then show ?thesis using assms(2) by (simp add: dvd_mult dvd_power)
qed

lemma canonical_unique:
  assumes "fp_val a = fp_val b" and "fp_raw a \<noteq> 0"
  shows "canonical_form a = canonical_form b"
proof -
  obtain p s q t where c: "canonical_form a = (p, s)" "canonical_form b = (q, t)"
    by (metis surj_pair)
  have nz: "fp_raw b \<noteq> 0" using assms by (auto simp: fp_val_def)
  note A = canonical_loop_spec [OF c(1) [unfolded canonical_form_def] assms(2)]
  note B = canonical_loop_spec [OF c(2) [unfolded canonical_form_def] nz]
  have val: "(of_int x :: rat) / 10 ^ n = of_int y / 10 ^ m"
    if "m \<le> n" "x = y * 10 ^ (n - m)" for x y :: int and n m
  proof -
    have "(10::rat) ^ n = 10 ^ (n - m) * 10 ^ m" using that(1) by (simp flip: power_add)
    then show ?thesis using that(2) by simp
  qed
  have "(of_int p :: rat) / 10 ^ s = of_int q / 10 ^ t"
    using assms(1) A B val [of s "fp_scale a" "fp_raw a" p] val [of t "fp_scale b" "fp_raw b" q]
    by (simp add: fp_val_def)
  then have "(of_int (p * 10 ^ t) :: rat) = of_int (q * 10 ^ s)" by (simp add: field_simps)
  then have eq: "p * 10 ^ t = q * 10 ^ s" by (simp only: of_int_eq_iff)
  then have "s = t"
    using A B pow10_eq_le [OF eq] pow10_eq_le [OF eq [symmetric]]
    by (cases s t rule: linorder_cases) auto
  with eq c show ?thesis by simp
qed

text \<open>
  equal numbers hash equally, for any hasher, as long as the value is not zero: two
  non-zero in-range numbers that compare equal have the same canonical form.
\<close>

theorem fp_hash_consistent:
  assumes "fp_wf a" and "fp_wf b" and "fp_raw a \<noteq> 0" and "fp_eq a b"
  shows "fp_hash h a = fp_hash h b"
proof -
  have "fp_val a = fp_val b"
    using cmp_normalized_sound [OF assms(1,2)] assms(4) by (force simp: fp_eq_def cmp_def split: if_splits)
  then show ?thesis using canonical_unique assms(3) by (simp add: fp_hash_def)
qed

theorem fp_hash_consistent_witness:
  "fp_hash id (fp_new 1500 3) = fp_hash id (fp_new 15 1) \<and> fp_hash id (fp_new 15 1) = (15, 1)"
proof -
  have wf: "fp_wf (fp_new 1500 3)" "fp_wf (fp_new 15 1)" "fp_raw (fp_new 1500 3) \<noteq> 0"
    by (simp_all add: fp_wf_def int_range_defs)
  have eq: "fp_eq (fp_new 1500 3) (fp_new 15 1)"
    by (simp add: fp_eq_def cmp_normalized_def checked_def int_range_defs)
  show ?thesis
    using fp_hash_consistent [OF wf eq, of id]
    by (simp add: fp_hash_def canonical_form_def signed_modulo_int_def)
qed

text \<open>
  for zero the \<open>Hash\<close>/\<open>Eq\<close> contract is broken. Zero at scale 2 equals zero at
  scale 3, but the loop stops at once on a zero mantissa and their canonical forms (what
  is fed to the hasher) differ.
\<close>

theorem fp_hash_zero_inconsistent:
  "fp_eq (fp_new 0 2) (fp_new 0 3) \<and> canonical_form (fp_new 0 2) \<noteq> canonical_form (fp_new 0 3)"
  by (simp add: fp_eq_def cmp_normalized_def checked_def int_range_defs canonical_form_def
    numeral_2_eq_2 numeral_3_eq_3)

subsection \<open>Reading decimal text\<close>

text \<open>The value of a string of decimal digits, the specification of the reader.\<close>

fun dec_val :: "int \<Rightarrow> string \<Rightarrow> int" where
  "dec_val acc [] = acc"
| "dec_val acc (c # cs) = dec_val (acc * 10 + (case digit_val c of Some d \<Rightarrow> int d | None \<Rightarrow> 0)) cs"

lemma dec_val_acc: "dec_val acc cs = acc * 10 ^ length cs + dec_val 0 cs"
proof (induction cs arbitrary: acc)
  case (Cons c cs)
  let ?d = "case digit_val c of Some d \<Rightarrow> int d | None \<Rightarrow> 0"
  show ?case using Cons [of "acc * 10 + ?d"] Cons [of ?d] by (simp add: algebra_simps)
qed simp

lemma dec_val_mono: "0 \<le> acc \<Longrightarrow> acc \<le> dec_val acc cs"
proof (induction cs arbitrary: acc)
  case (Cons c cs)
  let ?a = "acc * 10 + (case digit_val c of Some d \<Rightarrow> int d | None \<Rightarrow> 0)"
  have "acc \<le> ?a" using Cons.prems by (auto split: option.splits)
  moreover have "?a \<le> dec_val ?a cs" using Cons.prems by (intro Cons.IH) (auto split: option.splits)
  ultimately show ?case by simp
qed simp

lemma parse_pos_dec_val:
  "list_all is_dec cs \<Longrightarrow> 0 \<le> acc \<Longrightarrow> dec_val acc cs \<le> hi \<Longrightarrow> parse_pos hi acc cs = Inr (dec_val acc cs)"
proof (induction cs arbitrary: acc)
  case (Cons c cs)
  then obtain d where d: "digit_val c = Some d" by (auto simp: is_dec_def)
  have "acc * 10 + int d \<le> dec_val (acc * 10 + int d) cs"
    using Cons.prems(2) by (intro dec_val_mono) simp
  then have "acc * 10 + int d \<le> hi" using Cons.prems(3) d by simp
  with Cons d show ?case by simp
qed simp

lemma is_dec_not_special: "is_dec c \<Longrightarrow> c \<noteq> CHR ''.'' \<and> c \<noteq> CHR ''+'' \<and> c \<noteq> CHR ''-'' \<and> \<not> is_ws c"
  by (auto simp: is_dec_def digit_val_def is_ws_def Let_def split: if_splits)

lemma dropWhile_ws_prefix:
  "list_all is_ws ws \<Longrightarrow> x \<noteq> [] \<Longrightarrow> \<not> is_ws (hd x) \<Longrightarrow> dropWhile is_ws (ws @ x) = x"
  by (induction ws) (auto simp: dropWhile_eq_self_iff)

lemma trim_padded:
  assumes "list_all is_ws ws" and "list_all is_ws vs" and "x \<noteq> []"
    and "\<not> is_ws (hd x)" and "\<not> is_ws (last x)"
  shows "trim (ws @ x @ vs) = x"
proof -
  have "dropWhile is_ws (ws @ x @ vs) = x @ vs"
    using assms by (intro dropWhile_ws_prefix) (simp_all add: hd_append)
  moreover have "dropWhile is_ws (rev vs @ rev x) = rev x"
    using assms by (intro dropWhile_ws_prefix) (simp_all add: hd_rev list_all_iff)
  ultimately show ?thesis by (simp add: trim_def trim_start_def)
qed

lemma filter_no_dot: "list_all is_dec cs \<Longrightarrow> filter (\<lambda>c. c \<noteq> CHR ''.'') cs = cs
    \<and> filter (\<lambda>c. c = CHR ''.'') cs = []"
  by (induction cs) (auto dest: is_dec_not_special)

lemma after_dot_dec: "list_all is_dec ds \<Longrightarrow> after_dot (ds @ CHR ''.'' # fs) = fs"
  unfolding after_dot_def by (induction ds) (auto dest: is_dec_not_special)

lemma parse_i64_digits:
  assumes "list_all is_dec cs" and "cs \<noteq> []" and "dec_val 0 cs \<le> i64_max"
  shows "parse_i64 cs = Inr (dec_val 0 cs)"
proof -
  have *: "parse_pos i64_max 0 cs = Inr (dec_val 0 cs)" using assms by (simp add: parse_pos_dec_val)
  obtain c cs' where c: "cs = c # cs'" using assms(2) by (cases cs) auto
  then have "c \<noteq> CHR ''+''" "c \<noteq> CHR ''-''" using assms(1) is_dec_not_special by auto
  then show ?thesis using * c by (simp add: parse_i64_def del: parse_pos.simps)
qed

text \<open>
  reading \<open>ds.fs\<close>, with digits before and after the point and ASCII white space
  around it, yields a well-formed number whose value is the one the text denotes,
  whenever the digits taken together fit an \<open>i64\<close>; the scale is the number of digits after
  the point.
\<close>

theorem fp_from_str_value:
  assumes "list_all is_ws ws" and "list_all is_ws vs"
    and "list_all is_dec ds" and "ds \<noteq> []" and "list_all is_dec fs" and "length fs < 2 ^ 32"
    and "dec_val 0 (ds @ fs) \<le> i64_max"
  shows "\<exists>a. fp_from_str (ws @ (ds @ ''.'' @ fs) @ vs) = Inr a \<and> fp_wf a \<and> fp_scale a = length fs
     \<and> fp_val a = of_int (dec_val 0 ds) + of_int (dec_val 0 fs) / 10 ^ length fs"
proof (intro exI conjI)
  define x where "x = ds @ ''.'' @ fs"
  have ends: "\<not> is_ws (hd x)" "\<not> is_ws (last x)" "x \<noteq> []"
  proof -
    have "is_dec (hd ds)" using assms(3,4) by (cases ds) auto
    then show "\<not> is_ws (hd x)" using assms(4) is_dec_not_special by (simp add: x_def)
    have "fs \<noteq> [] \<Longrightarrow> is_dec (last fs)" using assms(5) by (auto simp: list_all_iff)
    moreover have "\<not> is_ws CHR ''.''" by (simp add: is_ws_def)
    ultimately show "\<not> is_ws (last x)" using is_dec_not_special by (auto simp: x_def)
    show "x \<noteq> []" by (simp add: x_def)
  qed
  have t: "trim (ws @ x @ vs) = x" using trim_padded assms(1,2) ends by blast
  have f: "filter (\<lambda>c. c \<noteq> CHR ''.'') x = ds @ fs" "filter (\<lambda>c. c = CHR ''.'') x = ''.''"
    "after_dot x = fs"
    using filter_no_dot [OF assms(3)] filter_no_dot [OF assms(5)] after_dot_dec [OF assms(3)]
    by (simp_all add: x_def)
  have p: "parse_i64 (ds @ fs) = Inr (dec_val 0 (ds @ fs))"
    using assms by (intro parse_i64_digits) simp_all
  show "fp_from_str (ws @ (ds @ ''.'' @ fs) @ vs) = Inr (fp_new (dec_val 0 (ds @ fs)) (length fs))"
    unfolding x_def [symmetric] using t f p assms(6) by (simp add: fp_from_str_def Let_def)
  show "fp_wf (fp_new (dec_val 0 (ds @ fs)) (length fs))"
    using parse_i64_range [OF p] assms(6) by (simp add: fp_wf_def)
  have "dec_val 0 (ds @ fs) = dec_val 0 ds * 10 ^ length fs + dec_val 0 fs"
  proof -
    have "dec_val a (ds @ fs) = dec_val (dec_val a ds) fs" for a by (induction ds arbitrary: a) simp_all
    then show ?thesis by (simp add: dec_val_acc [of "dec_val 0 ds" fs])
  qed
  then show "fp_val (fp_new (dec_val 0 (ds @ fs)) (length fs))
      = of_int (dec_val 0 ds) + of_int (dec_val 0 fs) / 10 ^ length fs"
    by (simp add: fp_val_def field_simps)
qed simp

theorem fp_from_str_value_witness:
  "\<exists>a. fp_from_str (''  '' @ (''12'' @ ''.'' @ ''34'') @ '' '') = Inr a \<and> fp_val a = 12 + 34 / 100"
proof -
  have d: "dec_val 0 (''12'' @ ''34'') = 1234" "dec_val 0 ''12'' = 12" "dec_val 0 ''34'' = 34"
    by (simp_all add: digit_val_def)
  have "\<exists>a. fp_from_str (''  '' @ (''12'' @ ''.'' @ ''34'') @ '' '') = Inr a \<and> fp_wf a
     \<and> fp_scale a = length ''34''
     \<and> fp_val a = of_int (dec_val 0 ''12'') + of_int (dec_val 0 ''34'') / 10 ^ length ''34''"
    by (rule fp_from_str_value) (use d in \<open>simp_all add: is_ws_def is_dec_def digit_val_def i64_max_def\<close>)
  then show ?thesis using d by (auto simp: power2_eq_square simp del: dec_val.simps)
qed

end
