(* ===== verification/Core_Types.thy ===== *)
theory Core_Types
  imports Fixed_Point
begin

section \<open>Identifiers, positions, diffs, tiers, lifecycle (scharnhorst\_core)\<close>

text \<open>
  The vocabulary of the other crates: id.rs (ticks and opaque identifiers with their
  text form), row\_position.rs (the map from row identifiers to storage positions),
  diff.rs, state\_tier.rs (the tier registry) and capability.rs (the engine lifecycle).
  JSON values come from serde and are the type parameter \<open>'j\<close>.
\<close>

subsection \<open>id.rs\<close>

datatype tick = Tick (tick_as_u64: u64)
datatype table_id = TableId (table_id_as_u64: u64)
datatype row_id = RowId (row_id_as_u64: u64)

instantiation tick :: linorder
begin

definition less_eq_tick :: "tick \<Rightarrow> tick \<Rightarrow> bool" where
  "less_eq_tick a b \<longleftrightarrow> tick_as_u64 a \<le> tick_as_u64 b"

definition less_tick :: "tick \<Rightarrow> tick \<Rightarrow> bool" where
  "less_tick a b \<longleftrightarrow> tick_as_u64 a < tick_as_u64 b"

instance
  by standard (auto simp: less_eq_tick_def less_tick_def tick.expand)

end

instantiation row_id :: linorder
begin

definition less_eq_row_id :: "row_id \<Rightarrow> row_id \<Rightarrow> bool" where
  "less_eq_row_id a b \<longleftrightarrow> row_id_as_u64 a \<le> row_id_as_u64 b"

definition less_row_id :: "row_id \<Rightarrow> row_id \<Rightarrow> bool" where
  "less_row_id a b \<longleftrightarrow> row_id_as_u64 a < row_id_as_u64 b"

instance
  by standard (auto simp: less_eq_row_id_def less_row_id_def row_id.expand)

end

definition tick_ZERO :: tick where "tick_ZERO = Tick 0"

text \<open>\<open>u64::MAX\<close> is kept as the "no tick" sentinel, so the largest tick is one below it.\<close>

definition tick_MAX :: tick where "tick_MAX = Tick (- 1 - 1)"

definition tick_next :: "tick \<Rightarrow> tick" where
  "tick_next t = (if tick_as_u64 t \<ge> tick_as_u64 tick_MAX then tick_MAX
                  else Tick (tick_as_u64 t + 1))"

definition tick_prev :: "tick \<Rightarrow> tick option" where
  "tick_prev t = (if tick_as_u64 t < 1 then None else Some (Tick (tick_as_u64 t - 1)))"

definition show_u64 :: "u64 \<Rightarrow> string" where
  "show_u64 w = show_nat (unat w)"

definition tick_display :: "tick \<Rightarrow> string" where
  "tick_display t = show_u64 (tick_as_u64 t)"

definition table_id_display :: "table_id \<Rightarrow> string" where
  "table_id_display t = CHR ''T'' # show_u64 (table_id_as_u64 t)"

definition row_id_display :: "row_id \<Rightarrow> string" where
  "row_id_display r = CHR ''R'' # show_u64 (row_id_as_u64 r)"

text \<open>\<open>strip_prefix(c).unwrap_or(s)\<close>: one leading \<open>c\<close> is dropped if there is one.\<close>

fun strip_prefix_or :: "char \<Rightarrow> string \<Rightarrow> string" where
  "strip_prefix_or p [] = []"
| "strip_prefix_or p (c # cs) = (if c = p then cs else c # cs)"

definition parse_id :: "char \<Rightarrow> string \<Rightarrow> core_error + u64" where
  "parse_id p s = rbind (map_err (\<lambda>_. InvalidId s) (parse_u64 (strip_prefix_or p s)))
     (\<lambda>raw. Inr (word_of_int raw))"

definition table_id_from_str :: "string \<Rightarrow> core_error + table_id" where
  "table_id_from_str s = rbind (parse_id CHR ''T'' s) (\<lambda>raw. Inr (TableId raw))"

definition row_id_from_str :: "string \<Rightarrow> core_error + row_id" where
  "row_id_from_str s = rbind (parse_id CHR ''R'' s) (\<lambda>raw. Inr (RowId raw))"

subsection \<open>row\_position.rs\<close>

record row_position_map =
  rpm_entries :: "(u64 \<times> nat \<times> nat) list"

definition rpm_new :: row_position_map where
  "rpm_new = \<lparr>rpm_entries = []\<rparr>"

definition rpm_insert :: "row_position_map \<Rightarrow> row_id \<Rightarrow> nat \<Rightarrow> nat \<Rightarrow> row_position_map" where
  "rpm_insert m r batch_index row_offset =
     m\<lparr>rpm_entries := hm_insert (row_id_as_u64 r) (batch_index, row_offset) (rpm_entries m)\<rparr>"

definition rpm_remove :: "row_position_map \<Rightarrow> row_id \<Rightarrow> (nat \<times> nat) option \<times> row_position_map" where
  "rpm_remove m r = (hm_get (rpm_entries m) (row_id_as_u64 r),
     m\<lparr>rpm_entries := hm_remove (row_id_as_u64 r) (rpm_entries m)\<rparr>)"

definition position_of :: "row_position_map \<Rightarrow> row_id \<Rightarrow> (nat \<times> nat) option" where
  "position_of m r = hm_get (rpm_entries m) (row_id_as_u64 r)"

definition rpm_contains :: "row_position_map \<Rightarrow> row_id \<Rightarrow> bool" where
  "rpm_contains m r = hm_contains (rpm_entries m) (row_id_as_u64 r)"

definition rpm_len :: "row_position_map \<Rightarrow> nat" where
  "rpm_len m = length (rpm_entries m)"

definition rpm_is_empty :: "row_position_map \<Rightarrow> bool" where
  "rpm_is_empty m = (rpm_entries m = [])"

definition rpm_clear :: "row_position_map \<Rightarrow> row_position_map" where
  "rpm_clear m = m\<lparr>rpm_entries := []\<rparr>"

definition rpm_row_ids :: "row_position_map \<Rightarrow> row_id list" where
  "rpm_row_ids m = map (RowId \<circ> fst) (rpm_entries m)"

record row_lookup =
  rl_row_id :: row_id
  rl_batch_index :: nat
  rl_row_offset :: nat

definition row_lookup_new :: "row_id \<Rightarrow> nat \<Rightarrow> nat \<Rightarrow> row_lookup" where
  "row_lookup_new r b off = \<lparr>rl_row_id = r, rl_batch_index = b, rl_row_offset = off\<rparr>"

definition rpm_ok :: "row_position_map \<Rightarrow> bool" where
  "rpm_ok m \<longleftrightarrow> hm_ok (rpm_entries m)"

subsection \<open>diff.rs\<close>

datatype 'j diff =
    DUpdate string row_id string 'j
  | DInsert string row_id "(string \<times> 'j) list"
  | DDelete string row_id
  | DReplaceTable string "(string \<times> 'j) list list"

fun diff_table :: "'j diff \<Rightarrow> string" where
  "diff_table (DUpdate t r c v) = t"
| "diff_table (DInsert t r vs) = t"
| "diff_table (DDelete t r) = t"
| "diff_table (DReplaceTable t rows) = t"

fun diff_row_id :: "'j diff \<Rightarrow> row_id option" where
  "diff_row_id (DUpdate t r c v) = Some r"
| "diff_row_id (DInsert t r vs) = Some r"
| "diff_row_id (DDelete t r) = Some r"
| "diff_row_id (DReplaceTable t rows) = None"

record 'j diff_batch =
  db_source :: string
  db_diffs :: "'j diff list"

definition diff_batch_new :: "string \<Rightarrow> 'j diff_batch" where
  "diff_batch_new src = \<lparr>db_source = src, db_diffs = []\<rparr>"

definition diff_batch_push :: "'j diff_batch \<Rightarrow> 'j diff \<Rightarrow> 'j diff_batch" where
  "diff_batch_push b d = b\<lparr>db_diffs := db_diffs b @ [d]\<rparr>"

definition diff_batch_len :: "'j diff_batch \<Rightarrow> nat" where
  "diff_batch_len b = length (db_diffs b)"

subsection \<open>state\_tier.rs\<close>

datatype state_tier = Authority | Derived | Ephemeral

record tier_metadata =
  tm_tier :: state_tier
  tm_owner_subsystem :: string
  tm_description :: string

type_synonym tier_registry = "(string \<times> tier_metadata) list"

fun state_tier_debug :: "state_tier \<Rightarrow> string" where
  "state_tier_debug Authority = ''Authority''"
| "state_tier_debug Derived = ''Derived''"
| "state_tier_debug Ephemeral = ''Ephemeral''"

definition tier_registry_new :: tier_registry where
  "tier_registry_new = []"

definition tier_register ::
  "tier_registry \<Rightarrow> string \<Rightarrow> state_tier \<Rightarrow> string \<Rightarrow> string \<Rightarrow> core_error + tier_registry" where
  "tier_register reg name tier owner desc =
     (case hm_get reg name of
        Some existing \<Rightarrow> Inl (DuplicateRegistration
          (''table '' @ quoted name @ '' already registered as '' @ state_tier_debug (tm_tier existing)))
      | None \<Rightarrow> Inr (hm_insert name
          \<lparr>tm_tier = tier, tm_owner_subsystem = owner, tm_description = desc\<rparr> reg))"

definition is_authority :: "tier_registry \<Rightarrow> string \<Rightarrow> bool" where
  "is_authority reg name = (case hm_get reg name of None \<Rightarrow> False | Some m \<Rightarrow> tm_tier m = Authority)"

definition authority_tables :: "tier_registry \<Rightarrow> string list" where
  "authority_tables reg = map fst (filter (\<lambda>(_, m). tm_tier m = Authority) reg)"

definition table_count :: "tier_registry \<Rightarrow> nat" where
  "table_count reg = length reg"

subsection \<open>capability.rs\<close>

datatype lifecycle = Initialization | Simulation

record lifecycle_guard =
  lg_lifecycle :: lifecycle

definition lifecycle_guard_new :: lifecycle_guard where
  "lifecycle_guard_new = \<lparr>lg_lifecycle = Initialization\<rparr>"

definition lg_is_simulation :: "lifecycle_guard \<Rightarrow> bool" where
  "lg_is_simulation g \<longleftrightarrow> lg_lifecycle g = Simulation"

definition lg_is_initialization :: "lifecycle_guard \<Rightarrow> bool" where
  "lg_is_initialization g \<longleftrightarrow> lg_lifecycle g = Initialization"

definition lg_advance_to_simulation :: "lifecycle_guard \<Rightarrow> core_error + lifecycle_guard" where
  "lg_advance_to_simulation g =
     (if lg_is_simulation g
      then Inl (InvalidPhase ''already in Simulation phase, cannot advance again'')
      else Inr (g\<lparr>lg_lifecycle := Simulation\<rparr>))"

subsection \<open>Properties\<close>

lemma tick_le_iff [simp]: "Tick a \<le> Tick b \<longleftrightarrow> a \<le> b" "Tick a < Tick b \<longleftrightarrow> a < b"
  by (simp_all add: less_eq_tick_def less_tick_def)

lemma u64_less_minus: "(w :: u64) < - 1 \<longleftrightarrow> unat w < 2 ^ 64 - 1" "(w :: u64) < - 2 \<longleftrightarrow> unat w < 2 ^ 64 - 2"
  by (simp_all add: word_less_nat_alt unsigned_minus_1_eq_mask mask_eq_exp_minus_1)

lemma u64_plus_one: "unat (w :: u64) < 2 ^ 64 - 1 \<Longrightarrow> unat (w + 1) = unat w + 1"
  by (simp add: unat_word_ariths)

lemma parse_u64_show_u64: "parse_u64 (show_u64 w) = Inr (uint w)"
proof -
  have "int (unat w) \<le> u64_max"
    using uint_bounded [of w] by (simp add: u64_max_def)
  then show ?thesis by (simp add: show_u64_def parse_u64_show_nat)
qed

lemma strip_prefix_or_show: "\<not> is_dec p \<Longrightarrow> strip_prefix_or p (show_u64 w) = show_u64 w"
proof -
  assume p: "\<not> is_dec p"
  obtain c cs where c: "show_u64 w = c # cs" by (cases "show_u64 w") (auto simp: show_u64_def)
  then have "c \<in> set (show_nat (unat w))" by (simp add: show_u64_def)
  from show_nat_digits [OF this] p have "c \<noteq> p" by (auto simp: is_dec_def)
  with c show ?thesis by simp
qed

lemma parse_id_roundtrip:
  "parse_id p (p # show_u64 w) = Inr w"
  "\<not> is_dec p \<Longrightarrow> parse_id p (show_u64 w) = Inr w"
  by (simp_all add: parse_id_def parse_u64_show_u64 strip_prefix_or_show)

text \<open>Identifiers survive their text form: parsing what \<open>Display\<close> prints for a table
  or row identifier gives it back, with or without the type prefix, for every \<open>u64\<close>; and
  whatever the parser accepts, with or without a prefix, is a decimal number below
  $2^{64}$.\<close>

theorem id_text_roundtrip:
  "table_id_from_str (table_id_display t) = Inr t
   \<and> row_id_from_str (row_id_display r) = Inr r
   \<and> table_id_from_str (show_u64 (table_id_as_u64 t)) = Inr t
   \<and> row_id_from_str (show_u64 (row_id_as_u64 r)) = Inr r
   \<and> (is_ok (table_id_from_str s) \<longleftrightarrow> is_ok (parse_u64 (strip_prefix_or CHR ''T'' s)))
   \<and> table_id_from_str (CHR ''R'' # s) = Inl (InvalidId (CHR ''R'' # s))"
proof -
  have nd: "\<not> is_dec CHR ''T''" "\<not> is_dec CHR ''R''" by (simp_all add: is_dec_def digit_val_def)
  have bad: "parse_u64 (CHR ''R'' # s) = Inl PIE_InvalidDigit"
    by (simp add: parse_u64_def digit_val_def)
  show ?thesis
    by (simp add: table_id_from_str_def row_id_from_str_def table_id_display_def
      row_id_display_def parse_id_roundtrip nd is_ok_iff)
      (auto simp: parse_id_def bad)
qed

lemma tick_next_le_MAX: "tick_next t \<le> tick_MAX"
  by (cases t) (auto simp: tick_next_def tick_MAX_def less_eq_tick_def not_le inc_le)

lemma tick_next_greater: "t < tick_MAX \<Longrightarrow> t < tick_next t \<and> tick_prev (tick_next t) = Some t"
proof -
  assume t: "t < tick_MAX"
  obtain w where w: "t = Tick w" by (cases t)
  have lt: "w < - 2" using t by (simp add: w tick_MAX_def)
  then have u: "unat (w + 1) = unat w + 1" by (intro u64_plus_one) (simp add: u64_less_minus)
  then have "w < w + 1" "\<not> w + 1 < 1" "\<not> - 2 \<le> w"
    using lt by (simp_all add: word_less_nat_alt not_le)
  then show ?thesis by (simp add: w tick_next_def tick_MAX_def tick_prev_def)
qed

text \<open>Ticks increase strictly up to \<open>Tick::MAX\<close> and stay there: \<open>next\<close> never yields the
  reserved sentinel and never goes back from a valid tick, \<open>prev\<close> undoes it below the
  maximum, and $n$ applications from zero give tick $n$ as long as that is valid.\<close>

theorem tick_next_monotone:
  "tick_next t \<le> tick_MAX
   \<and> (t < tick_MAX \<longrightarrow> t < tick_next t \<and> tick_prev (tick_next t) = Some t)
   \<and> tick_next tick_MAX = tick_MAX
   \<and> (n \<le> unat (tick_as_u64 tick_MAX) \<longrightarrow> (tick_next ^^ n) tick_ZERO = Tick (of_nat n))"
proof -
  have "n \<le> unat (tick_as_u64 tick_MAX) \<Longrightarrow> (tick_next ^^ n) tick_ZERO = Tick (of_nat n)"
  proof (induction n)
    case (Suc n)
    have le: "Suc n \<le> 2 ^ 64 - 2" using Suc.prems by (simp add: tick_MAX_def)
    have u: "unat (of_nat n :: u64) = n" using le by (simp add: unat_of_nat)
    have "(of_nat n :: u64) < tick_as_u64 tick_MAX"
      using le u by (simp add: tick_MAX_def word_less_nat_alt)
    then have "tick_next (Tick (of_nat n)) = Tick (of_nat (Suc n))"
      by (simp add: tick_next_def add.commute not_le [symmetric])
    with Suc show ?case by simp
  qed (simp add: tick_ZERO_def)
  then show ?thesis
    using tick_next_le_MAX tick_next_greater by (simp add: tick_next_def)
qed

theorem tick_next_monotone_witness:
  "tick_next (Tick 41) = Tick 42 \<and> Tick 41 < tick_next (Tick 41)
   \<and> (tick_next ^^ 3) tick_ZERO = Tick 3"
proof -
  have "Tick 41 < tick_MAX" by (simp add: tick_MAX_def)
  moreover have "(3 :: nat) \<le> unat (tick_as_u64 tick_MAX)" by (simp add: tick_MAX_def)
  ultimately show ?thesis using tick_next_monotone [of "Tick 41" 3]
    by (simp add: tick_next_def tick_MAX_def)
qed

interpretation rpm: keyed_store rpm_new position_of
  "\<lambda>r (b, off) m. rpm_insert m r b off" "\<lambda>r m. snd (rpm_remove m r)" rpm_ok
  by unfold_locales
    (auto simp: rpm_new_def position_of_def rpm_insert_def rpm_remove_def rpm_ok_def row_id.expand
      split: prod.splits)

text \<open>The position map behaves as a finite map from row identifiers to storage
  positions: insertion overwrites exactly its own row, removal returns the position it
  forgets and leaves every other row, \<open>len\<close> counts each row once and \<open>row_ids\<close>
  lists exactly the mapped rows.\<close>

theorem row_position_map_correct:
  assumes "rpm_ok m"
  shows "rpm_ok (rpm_insert m r b off) \<and> rpm_ok (snd (rpm_remove m r))
     \<and> position_of (rpm_insert m r b off) = (position_of m)(r \<mapsto> (b, off))
     \<and> fst (rpm_remove m r) = position_of m r
     \<and> position_of (snd (rpm_remove m r)) = (position_of m)(r := None)
     \<and> rpm_contains m r = (position_of m r \<noteq> None)
     \<and> rpm_len (rpm_insert m r b off) = (if rpm_contains m r then rpm_len m else rpm_len m + 1)
     \<and> rpm_len (snd (rpm_remove m r)) = (if rpm_contains m r then rpm_len m - 1 else rpm_len m)
     \<and> set (rpm_row_ids m) = dom (position_of m) \<and> distinct (rpm_row_ids m)
     \<and> position_of (rpm_clear m) = Map.empty"
proof -
  have ins: "position_of (rpm_insert m r b off) = (position_of m)(r \<mapsto> (b, off))"
    using rpm.lookup_insert [OF assms, of r "(b, off)"] by auto
  have rem: "position_of (snd (rpm_remove m r)) = (position_of m)(r := None)"
    using rpm.lookup_remove [OF assms, of r] by auto
  have ok: "rpm_ok (rpm_insert m r b off)" "rpm_ok (snd (rpm_remove m r))"
    using rpm.ok_insert [OF assms, of r "(b, off)"] rpm.ok_remove [OF assms, of r] by simp_all
  have len: "rpm_len (rpm_insert m r b off) = (if rpm_contains m r then rpm_len m else rpm_len m + 1)"
    "rpm_len (snd (rpm_remove m r)) = (if rpm_contains m r then rpm_len m - 1 else rpm_len m)"
    using assms by (simp_all add: rpm_len_def rpm_insert_def rpm_remove_def rpm_contains_def
      rpm_ok_def hm_length_insert hm_length_remove)
  have ids: "set (rpm_row_ids m) = dom (position_of m)"
  proof (rule set_eqI)
    fix x
    show "x \<in> set (rpm_row_ids m) \<longleftrightarrow> x \<in> dom (position_of m)"
      by (cases x) (force simp: rpm_row_ids_def position_of_def domIff map_of_eq_None_iff)
  qed
  have "distinct (rpm_row_ids m)"
    using assms unfolding rpm_ok_def hm_ok_def rpm_row_ids_def
    by (simp add: distinct_map comp_inj_on inj_on_def)
  moreover have "fst (rpm_remove m r) = position_of m r" "rpm_contains m r = (position_of m r \<noteq> None)"
    "position_of (rpm_clear m) = Map.empty"
    by (auto simp: rpm_remove_def rpm_clear_def position_of_def rpm_contains_def hm_contains_def)
  ultimately show ?thesis using ins rem ok len ids by blast
qed

theorem row_position_map_correct_witness:
  "rpm_row_ids (rpm_insert (rpm_insert rpm_new (RowId 7) 0 0) (RowId 7) 2 5) = [RowId 7]
   \<and> position_of (rpm_insert (rpm_insert rpm_new (RowId 7) 0 0) (RowId 7) 2 5) (RowId 7) = Some (2, 5)
   \<and> rpm_len (rpm_insert (rpm_insert rpm_new (RowId 7) 0 0) (RowId 7) 2 5) = 1"
proof -
  have "rpm_ok (rpm_insert rpm_new (RowId 7) 0 0)"
    by (simp add: rpm_ok_def rpm_insert_def rpm_new_def hm_ok_def)
  from row_position_map_correct [OF this, of "RowId 7" 2 5]
  have "position_of (rpm_insert (rpm_insert rpm_new (RowId 7) 0 0) (RowId 7) 2 5) (RowId 7) = Some (2, 5)"
    by simp
  then show ?thesis
    by (simp add: rpm_row_ids_def rpm_insert_def rpm_new_def rpm_len_def position_of_def)
qed

lemma tier_register_ok: "hm_ok reg \<Longrightarrow> tier_register reg n t ow d = Inr reg' \<Longrightarrow> hm_ok reg'"
  by (auto simp: tier_register_def split: option.splits)

text \<open>A table keeps the tier it was first registered with: registering fails exactly on a
  name that is present, a success adds that one entry, and \<open>authority_tables\<close> lists
  exactly the tables for which \<open>is_authority\<close> holds, once each.\<close>

theorem tier_register_first_wins:
  assumes "hm_ok reg"
  shows "is_ok (tier_register reg n t ow d) = (hm_get reg n = None)
     \<and> (\<forall>reg'. tier_register reg n t ow d = Inr reg' \<longrightarrow>
          hm_ok reg' \<and> table_count reg' = table_count reg + 1
          \<and> hm_get reg' = (hm_get reg)(n \<mapsto> \<lparr>tm_tier = t, tm_owner_subsystem = ow, tm_description = d\<rparr>))
     \<and> (\<forall>m. m \<in> set (authority_tables reg) \<longleftrightarrow> is_authority reg m)
     \<and> distinct (authority_tables reg)"
proof -
  have auth: "m \<in> set (authority_tables reg) \<longleftrightarrow> is_authority reg m" for m
    using hm_ok_iff_get [OF assms]
    by (force simp: authority_tables_def is_authority_def image_iff split: option.splits)
  have "distinct (authority_tables reg)"
    using assms unfolding authority_tables_def hm_ok_def by (rule distinct_map_filter)
  with auth show ?thesis
    using assms by (auto simp: tier_register_def table_count_def hm_length_insert hm_contains_def
      fun_eq_iff split: option.splits)
qed

theorem tier_register_first_wins_witness:
  "\<exists>reg. tier_register tier_registry_new ''prices'' Authority ''econ'' ''d'' = Inr reg
     \<and> authority_tables reg = [''prices'']
     \<and> \<not> is_ok (tier_register reg ''prices'' Derived ''ui'' ''d'')"
proof -
  let ?m = "\<lparr>tm_tier = Authority, tm_owner_subsystem = ''econ'', tm_description = ''d''\<rparr>"
  have reg: "tier_register tier_registry_new ''prices'' Authority ''econ'' ''d'' = Inr [(''prices'', ?m)]"
    by (simp add: tier_register_def tier_registry_new_def)
  have ok: "hm_ok [(''prices'', ?m)]" by (simp add: hm_ok_def)
  show ?thesis
    using reg tier_register_first_wins [OF ok, of "''prices''" Derived "''ui''" "''d''"]
    by (intro exI [of _ "[(''prices'', ?m)]"]) (simp add: authority_tables_def)
qed

end
