(* ===== verification/Relation_Graph.thy ===== *)
theory Relation_Graph
  imports Core_Types
begin

section \<open>The relation graph (scharnhorst\_schema: error.rs, relation.rs)\<close>

text \<open>
  Tables and the foreign-key edges between them: a vector of edges with an adjacency
  index from table names to edge numbers. \<open>rg_inv\<close> says that the index lists, per
  table, the numbers of its outgoing edges in order. The two cycle searches are the
  loops of the source with their explicit stacks (head of the list: top of the stack),
  with termination proofs; both are proved against the reachability relation \<open>rg_rel\<close>.
\<close>

datatype schema_error =
    TableAlreadyExists string
  | TableNotFound string
  | InvalidTableName string
  | ColumnNotFound string
  | DuplicateColumn string
  | RelationAlreadyExists string string
  | RelationNotFound string string
  | CircularRelation string
  | InvalidSemantic string
  | RegistryFrozen
  | MigrationVersionMismatch string string
  | NoMigrationPath string string
  | ManifestSerialization string
  | ManifestDeserialization string
  | PhaseError string
  | SchemaGeneric string
  | SchemaCore core_error

datatype relation_kind = OneToMany | ManyToMany | Composition

record relation_edge =
  re_from :: string
  re_to :: string
  re_kind :: relation_kind
  re_from_column :: string
  re_to_column :: "string option"

record relation_graph =
  rg_edges :: "relation_edge list"
  rg_adjacency :: "string \<rightharpoonup> nat list"

definition relation_graph_new :: relation_graph where
  "relation_graph_new = \<lparr>rg_edges = [], rg_adjacency = Map.empty\<rparr>"

text \<open>\<open>adjacency.entry(k).or_default().push(idx)\<close>\<close>

definition adj_push :: "string \<Rightarrow> nat \<Rightarrow> (string \<rightharpoonup> nat list) \<Rightarrow> (string \<rightharpoonup> nat list)" where
  "adj_push k idx adj = adj(k \<mapsto> (case adj k of None \<Rightarrow> [] | Some is \<Rightarrow> is) @ [idx])"

definition find_edge :: "relation_graph \<Rightarrow> string \<Rightarrow> string \<Rightarrow> relation_edge option" where
  "find_edge g from to = find (\<lambda>e. re_from e = from \<and> re_to e = to) (rg_edges g)"

definition edges_get :: "relation_graph \<Rightarrow> nat \<Rightarrow> relation_edge option" where
  "edges_get g i = (if i < length (rg_edges g) then Some (rg_edges g ! i) else None)"

definition edges_from :: "relation_graph \<Rightarrow> string \<Rightarrow> relation_edge list" where
  "edges_from g table =
     (case rg_adjacency g table of None \<Rightarrow> [] | Some indices \<Rightarrow> List.map_filter (edges_get g) indices)"

lemma edges_from_subset: "set (edges_from g t) \<subseteq> set (rg_edges g)"
  by (auto simp: edges_from_def List.map_filter_def edges_get_def split: option.splits if_splits)

definition rg_tables :: "relation_graph \<Rightarrow> string set" where
  "rg_tables g = set (concat (map (\<lambda>e. [re_from e, re_to e]) (rg_edges g)))"

text \<open>The loop of \<open>would_create_cycle\<close>.\<close>

definition dfs_universe :: "relation_graph \<Rightarrow> string list \<Rightarrow> string set" where
  "dfs_universe g stack = set stack \<union> re_to ` set (rg_edges g)"

function cycle_dfs :: "relation_graph \<Rightarrow> string \<Rightarrow> string set \<Rightarrow> string list \<Rightarrow> bool" where
  "cycle_dfs g start visited [] = False"
| "cycle_dfs g start visited (current # stack) =
     (if current = start then True
      else if current \<in> visited then cycle_dfs g start visited stack
      else cycle_dfs g start (insert current visited)
             (rev (map re_to (edges_from g current)) @ stack))"
  by pat_completeness auto

lemma finite_dfs_universe [simp]: "finite (dfs_universe g stack)"
  by (simp add: dfs_universe_def)

termination cycle_dfs
proof (relation "(\<lambda>(g, start, visited, stack). card (dfs_universe g stack - visited))
    <*mlex*> measure (\<lambda>(g, start, visited, stack). length stack)")
  fix g start visited current stack
  assume "(current :: string) \<noteq> start"
  { assume "current \<in> visited"
    have "card (dfs_universe g stack - visited) \<le> card (dfs_universe g (current # stack) - visited)"
      by (rule card_mono) (auto simp: dfs_universe_def)
    then show "((g, start, visited, stack), g, start, visited, current # stack)
      \<in> (\<lambda>(g, start, visited, stack). card (dfs_universe g stack - visited))
        <*mlex*> measure (\<lambda>(g, start, visited, stack). length stack)"
      by (auto simp: mlex_prod_def) }
  { assume "current \<notin> visited"
    have "card (dfs_universe g (rev (map re_to (edges_from g current)) @ stack) - insert current visited)
      < card (dfs_universe g (current # stack) - visited)"
      by (rule psubset_card_mono)
        (use edges_from_subset [of g current] \<open>current \<notin> visited\<close> in
          \<open>auto simp: dfs_universe_def\<close>)
    then show "((g, start, insert current visited, rev (map re_to (edges_from g current)) @ stack),
        g, start, visited, current # stack)
      \<in> (\<lambda>(g, start, visited, stack). card (dfs_universe g stack - visited))
        <*mlex*> measure (\<lambda>(g, start, visited, stack). length stack)"
      by (auto simp: mlex_prod_def) }
qed (auto intro: wf_mlex)

definition would_create_cycle :: "relation_graph \<Rightarrow> string \<Rightarrow> string \<Rightarrow> bool" where
  "would_create_cycle g start target = cycle_dfs g start {} [target]"

definition add_edge_unchecked :: "relation_graph \<Rightarrow> relation_edge \<Rightarrow> relation_graph" where
  "add_edge_unchecked g e =
     g\<lparr>rg_edges := rg_edges g @ [e],
       rg_adjacency := adj_push (re_from e) (length (rg_edges g)) (rg_adjacency g)\<rparr>"

definition add_edge :: "relation_graph \<Rightarrow> relation_edge \<Rightarrow> schema_error + relation_graph" where
  "add_edge g e =
     (if find_edge g (re_from e) (re_to e) \<noteq> None
      then Inl (RelationAlreadyExists (re_from e) (re_to e))
      else if would_create_cycle g (re_from e) (re_to e)
      then Inl (CircularRelation (re_from e @ '' -> '' @ re_to e))
      else Inr (g\<lparr>rg_edges := rg_edges g @ [e],
                  rg_adjacency := adj_push (re_from e) (length (rg_edges g)) (rg_adjacency g)\<rparr>))"

definition rebuild_adjacency :: "relation_graph \<Rightarrow> relation_graph" where
  "rebuild_adjacency g =
     g\<lparr>rg_adjacency := fold (\<lambda>(idx, e). adj_push (re_from e) idx) (enumerate 0 (rg_edges g)) Map.empty\<rparr>"

text \<open>\<open>iter().position(p)\<close> and \<open>Vec::remove\<close>\<close>

fun position :: "('a \<Rightarrow> bool) \<Rightarrow> 'a list \<Rightarrow> nat option" where
  "position p [] = None"
| "position p (x # xs) = (if p x then Some 0 else map_option Suc (position p xs))"

definition remove_at :: "nat \<Rightarrow> 'a list \<Rightarrow> 'a list" where
  "remove_at i xs = take i xs @ drop (Suc i) xs"

definition remove_edge :: "relation_graph \<Rightarrow> string \<Rightarrow> string \<Rightarrow> schema_error + relation_graph" where
  "remove_edge g from to =
     rbind (ok_or (position (\<lambda>e. re_from e = from \<and> re_to e = to) (rg_edges g))
       (RelationNotFound from to)) (\<lambda>pos.
     Inr (rebuild_adjacency (g\<lparr>rg_edges := remove_at pos (rg_edges g)\<rparr>)))"

text \<open>
  \<open>detect_cycles\<close>. The colours of the source; a table without an entry has none. A
  stack entry \<open>(True, n)\<close> enters \<open>n\<close>, \<open>(False, n)\<close> leaves it. The iteration order of
  the \<open>HashSet\<close> of tables is the argument \<open>all_tables\<close>.
\<close>

datatype color = White | Gray | Black

record cycle_state =
  cs_colors :: "string \<rightharpoonup> color"
  cs_path :: "string list"
  cs_cycles :: "string list list"

definition color_open :: "color option \<Rightarrow> bool" where
  "color_open c \<longleftrightarrow> c \<noteq> Some Gray \<and> c \<noteq> Some Black"

definition pushed_edges :: "relation_graph \<Rightarrow> (string \<rightharpoonup> color) \<Rightarrow> string \<Rightarrow> (bool \<times> string) list" where
  "pushed_edges g colors node =
     rev (map (\<lambda>e. (True, re_to e))
       (filter (\<lambda>e. colors (re_to e) = Some White \<or> colors (re_to e) = Some Gray) (edges_from g node)))"

function cycle_loop :: "relation_graph \<Rightarrow> cycle_state \<Rightarrow> (bool \<times> string) list \<Rightarrow> cycle_state" where
  "cycle_loop g st [] = st"
| "cycle_loop g st ((False, node) # stack) =
     cycle_loop g (st\<lparr>cs_path := butlast (cs_path st),
                      cs_colors := (cs_colors st)(node \<mapsto> Black)\<rparr>) stack"
| "cycle_loop g st ((True, node) # stack) =
     (if cs_colors st node = Some Black then cycle_loop g st stack
      else if cs_colors st node = Some Gray then
        cycle_loop g (st\<lparr>cs_cycles := cs_cycles st @
          [drop (case position (\<lambda>n. n = node) (cs_path st) of None \<Rightarrow> 0 | Some i \<Rightarrow> i) (cs_path st)]\<rparr>) stack
      else
        (let colors = (cs_colors st)(node \<mapsto> Gray) in
         cycle_loop g (st\<lparr>cs_colors := colors, cs_path := cs_path st @ [node]\<rparr>)
           (pushed_edges g colors node @ (False, node) # stack)))"
  by pat_completeness auto

definition loop_universe :: "relation_graph \<Rightarrow> cycle_state \<Rightarrow> (bool \<times> string) list \<Rightarrow> string set" where
  "loop_universe g st stack =
     {n \<in> snd ` set stack \<union> re_to ` set (rg_edges g). color_open (cs_colors st n)}"

lemma finite_loop_universe [simp]: "finite (loop_universe g st stack)"
  by (simp add: loop_universe_def)

abbreviation loop_order where
  "loop_order \<equiv> (\<lambda>(g, st, stack). card (loop_universe g st stack))
     <*mlex*> measure (\<lambda>(g :: relation_graph, st :: cycle_state, stack). length stack)"

lemma loop_order_pop:
  assumes "\<And>n. color_open (cs_colors st' n) \<Longrightarrow> color_open (cs_colors st n)"
  shows "((g, st', stack), (g, st, x # stack)) \<in> loop_order"
proof -
  have "card (loop_universe g st' stack) \<le> card (loop_universe g st (x # stack))"
    by (rule card_mono) (use assms in \<open>auto simp: loop_universe_def\<close>)
  then show ?thesis by (auto simp: mlex_prod_def)
qed

lemma loop_order_enter:
  assumes "color_open (cs_colors st node)"
    and "cs_colors st' = (cs_colors st)(node \<mapsto> Gray)"
  shows "((g, st', pushed_edges g c node @ (False, node) # stack), (g, st, (True, node) # stack))
    \<in> loop_order"
proof -
  have sub: "loop_universe g st' (pushed_edges g c node @ (False, node) # stack)
      \<subseteq> loop_universe g st ((True, node) # stack) - {node}"
    using assms(2) edges_from_subset [of g node]
    by (auto simp: loop_universe_def pushed_edges_def color_open_def split: if_splits)
  have "node \<in> loop_universe g st ((True, node) # stack)"
    using assms(1) by (simp add: loop_universe_def)
  then have "loop_universe g st' (pushed_edges g c node @ (False, node) # stack)
      \<subset> loop_universe g st ((True, node) # stack)"
    using sub by blast
  from psubset_card_mono [OF _ this] show ?thesis by (simp add: mlex_prod_def)
qed

termination cycle_loop
  by (relation loop_order)
    (auto intro!: wf_mlex loop_order_pop loop_order_enter simp: color_open_def split: if_splits)

fun cycle_starts :: "relation_graph \<Rightarrow> cycle_state \<Rightarrow> string list \<Rightarrow> cycle_state" where
  "cycle_starts g st [] = st"
| "cycle_starts g st (start_node # rest) =
     (if cs_colors st start_node \<noteq> Some White then cycle_starts g st rest
      else cycle_starts g (cycle_loop g st [(True, start_node)]) rest)"

definition detect_cycles :: "relation_graph \<Rightarrow> string list \<Rightarrow> string list list" where
  "detect_cycles g all_tables =
     cs_cycles (cycle_starts g
       \<lparr>cs_colors = map_of (map (\<lambda>t. (t, White)) all_tables), cs_path = [], cs_cycles = []\<rparr>
       all_tables)"

subsection \<open>The adjacency index\<close>

definition rg_rel :: "relation_graph \<Rightarrow> (string \<times> string) set" where
  "rg_rel g = (\<lambda>e. (re_from e, re_to e)) ` set (rg_edges g)"

definition outgoing :: "relation_edge list \<Rightarrow> string \<Rightarrow> nat list" where
  "outgoing es t = filter (\<lambda>i. re_from (es ! i) = t) [0..<length es]"

definition rg_inv :: "relation_graph \<Rightarrow> bool" where
  "rg_inv g \<longleftrightarrow> (\<forall>t. outgoing (rg_edges g) t
      = (case rg_adjacency g t of None \<Rightarrow> [] | Some is \<Rightarrow> is))"

definition rg_unique :: "relation_graph \<Rightarrow> bool" where
  "rg_unique g \<longleftrightarrow> distinct (map (\<lambda>e. (re_from e, re_to e)) (rg_edges g))"

lemma outgoing_snoc:
  "outgoing (es @ [e]) t = outgoing es t @ (if re_from e = t then [length es] else [])"
  unfolding outgoing_def by (auto simp: nth_append intro!: filter_cong)

lemma map_nth_outgoing: "map ((!) es) (outgoing es t) = filter (\<lambda>e. re_from e = t) es"
proof (induction es rule: rev_induct)
  case (snoc e es)
  have "map ((!) (es @ [e])) (outgoing es t) = map ((!) es) (outgoing es t)"
    by (auto simp: outgoing_def nth_append)
  with snoc show ?case by (simp add: outgoing_snoc)
qed (simp add: outgoing_def)

lemma edges_from_eq: "rg_inv g \<Longrightarrow> edges_from g t = filter (\<lambda>e. re_from e = t) (rg_edges g)"
proof -
  assume "rg_inv g"
  then have o: "outgoing (rg_edges g) t = (case rg_adjacency g t of None \<Rightarrow> [] | Some is \<Rightarrow> is)"
    by (simp add: rg_inv_def)
  have "\<forall>i \<in> set (outgoing (rg_edges g) t). edges_get g i = Some (rg_edges g ! i)"
    by (auto simp: outgoing_def edges_get_def)
  then have "List.map_filter (edges_get g) (outgoing (rg_edges g) t)
    = map ((!) (rg_edges g)) (outgoing (rg_edges g) t)"
    by (induction "outgoing (rg_edges g) t") (auto simp: List.map_filter_def filter_id_conv)
  then show ?thesis
    using o map_nth_outgoing [of "rg_edges g" t]
    by (auto simp: edges_from_def List.map_filter_def split: option.splits)
qed

lemma successors_edges_from:
  "rg_inv g \<Longrightarrow> re_to ` set (edges_from g t) = rg_rel g `` {t}"
  by (auto simp: edges_from_eq rg_rel_def)

lemma rg_inv_push [inv_intros]:
  "rg_inv g \<Longrightarrow> rg_inv (g\<lparr>rg_edges := rg_edges g @ [e],
     rg_adjacency := adj_push (re_from e) (length (rg_edges g)) (rg_adjacency g)\<rparr>)"
  by (auto simp: rg_inv_def outgoing_snoc adj_push_def split: option.splits)

lemma adj_fold_outgoing:
  "(case fold (\<lambda>(idx, e). adj_push (re_from e) idx) (enumerate 0 es) Map.empty t of
      None \<Rightarrow> [] | Some is \<Rightarrow> is) = outgoing es t"
proof (induction es arbitrary: t rule: rev_induct)
  case (snoc e es)
  show ?case
    using snoc [of t] by (auto simp: enumerate_append_eq outgoing_snoc adj_push_def split: option.splits)
qed (simp add: outgoing_def)

lemma rg_inv_rebuild [inv_intros]: "rg_inv (rebuild_adjacency g)"
  by (simp add: rg_inv_def rebuild_adjacency_def adj_fold_outgoing)

subsection \<open>The search of \<open>would_create_cycle\<close>\<close>

lemma exit_closed_set:
  assumes "(x, t) \<in> R\<^sup>*" and "x \<in> V" and "t \<notin> V" and "\<forall>v \<in> V. R `` {v} \<subseteq> V \<union> S"
  shows "\<exists>y \<in> S - V. (y, t) \<in> R\<^sup>*"
  using assms(1,2)
proof (induction rule: converse_rtrancl_induct)
  case (step x y)
  then show ?case using assms(4) by (cases "y \<in> V") blast+
qed (use assms(3) in blast)

lemma cycle_dfs_correct:
  assumes "rg_inv g" and "start \<notin> visited"
    and "\<forall>v \<in> visited. rg_rel g `` {v} \<subseteq> visited \<union> set stack"
  shows "cycle_dfs g start visited stack \<longleftrightarrow> (\<exists>x \<in> set stack. (x, start) \<in> (rg_rel g)\<^sup>*)"
  using assms
proof (induction g start visited stack rule: cycle_dfs.induct)
  case (2 g start visited current stack)
  let ?R = "rg_rel g"
  have succ: "set (rev (map re_to (edges_from g current))) = ?R `` {current}"
    using successors_edges_from [OF "2.prems"(1), of current] by simp
  consider "current = start" | "current \<noteq> start" "current \<in> visited"
    | "current \<noteq> start" "current \<notin> visited" by blast
  then show ?case
  proof cases
    case 2
    have closed: "\<forall>v \<in> visited. ?R `` {v} \<subseteq> visited \<union> set stack"
      using "2.prems"(3) 2(2) by auto
    have "(current, start) \<in> ?R\<^sup>* \<Longrightarrow> \<exists>y \<in> set stack. (y, start) \<in> ?R\<^sup>*"
      using exit_closed_set [OF _ 2(2) "2.prems"(2) closed] by blast
    with 2 "2.IH"(1) [OF 2 "2.prems"(1,2) closed] show ?thesis by auto
  next
    case 3
    have closed: "\<forall>v \<in> insert current visited. ?R `` {v} \<subseteq> insert current visited
        \<union> set (rev (map re_to (edges_from g current)) @ stack)"
      using "2.prems"(3) succ by auto
    have "start \<notin> insert current visited" using 3(1) "2.prems"(2) by auto
    from "2.IH"(2) [OF 3 "2.prems"(1) this closed]
    have "cycle_dfs g start visited (current # stack)
      \<longleftrightarrow> (\<exists>x \<in> ?R `` {current} \<union> set stack. (x, start) \<in> ?R\<^sup>*)"
      using 3 succ by auto
    moreover have "(current, start) \<in> ?R\<^sup>* \<longleftrightarrow> (\<exists>x \<in> ?R `` {current}. (x, start) \<in> ?R\<^sup>*)"
      using 3(1) by (auto elim: converse_rtranclE intro: converse_rtrancl_into_rtrancl)
    ultimately show ?thesis by auto
  qed simp
qed simp

lemma would_create_cycle_iff:
  "rg_inv g \<Longrightarrow> would_create_cycle g start target \<longleftrightarrow> (target, start) \<in> (rg_rel g)\<^sup>*"
  using cycle_dfs_correct [of g start "{}" "[target]"] by (simp add: would_create_cycle_def del: cycle_dfs.simps)

lemma find_edge_None: "find_edge g a b = None \<longleftrightarrow> (a, b) \<notin> rg_rel g"
  by (auto simp: find_edge_def find_None_iff rg_rel_def)

lemma rg_rel_push:
  "rg_rel (g\<lparr>rg_edges := rg_edges g @ [e], rg_adjacency := adj\<rparr>) = insert (re_from e, re_to e) (rg_rel g)"
  by (auto simp: rg_rel_def)

lemma add_edge_inv [inv_intros]:
  assumes "add_edge g e = Inr g'" and "rg_inv g" and "rg_unique g" and "acyclic (rg_rel g)"
  shows "rg_inv g' \<and> rg_unique g' \<and> acyclic (rg_rel g')"
proof -
  from assms(1) have new: "(re_from e, re_to e) \<notin> rg_rel g" "(re_to e, re_from e) \<notin> (rg_rel g)\<^sup>*"
    and g': "g' = g\<lparr>rg_edges := rg_edges g @ [e],
       rg_adjacency := adj_push (re_from e) (length (rg_edges g)) (rg_adjacency g)\<rparr>"
    using would_create_cycle_iff [OF assms(2), of "re_from e" "re_to e"]
      find_edge_None [of g "re_from e" "re_to e"]
    by (auto simp: add_edge_def split: if_splits)
  with assms show ?thesis
    using rg_inv_push [OF assms(2), of e]
    by (auto simp: rg_rel_push acyclic_insert) (auto simp: rg_unique_def rg_rel_def)
qed

text \<open>C18: \<open>add_edge\<close> accepts an edge exactly when it is new and closes no cycle: an existing
  pair is refused as a duplicate, a pair whose target already reaches its source as
  circular, and every other edge is added at the end. The depth-first search behind
  it terminates on every graph. The adjacency index, the uniqueness of pairs and the
  acyclicity of the graph are kept.\<close>

theorem add_edge_correct:
  assumes "rg_inv g" and "rg_unique g"
  shows "(case add_edge g e of
      Inl err \<Rightarrow>
        (if (re_from e, re_to e) \<in> rg_rel g
         then err = RelationAlreadyExists (re_from e) (re_to e)
         else err = CircularRelation (re_from e @ '' -> '' @ re_to e)
              \<and> \<not> acyclic (insert (re_from e, re_to e) (rg_rel g)))
    | Inr g' \<Rightarrow> rg_inv g' \<and> rg_unique g' \<and> rg_edges g' = rg_edges g @ [e]
        \<and> (re_from e, re_to e) \<notin> rg_rel g
        \<and> (re_to e, re_from e) \<notin> (rg_rel g)\<^sup>*
        \<and> (acyclic (rg_rel g) \<longrightarrow> acyclic (rg_rel g')))"
proof -
  have unique: "find_edge g (re_from e) (re_to e) = None \<Longrightarrow>
      distinct (map (\<lambda>e. (re_from e, re_to e)) (rg_edges g @ [e]))"
    using assms(2) by (auto simp: rg_unique_def find_edge_None rg_rel_def)
  show ?thesis
    using would_create_cycle_iff [OF assms(1), of "re_from e" "re_to e"]
      find_edge_None [of g "re_from e" "re_to e"] rg_inv_push [OF assms(1), of e] unique
    by (auto simp: add_edge_def rg_rel_push acyclic_insert rg_unique_def)
qed

theorem add_edge_correct_witness:
  "\<exists>g. add_edge relation_graph_new \<lparr>re_from = ''a'', re_to = ''b'', re_kind = OneToMany,
        re_from_column = ''x'', re_to_column = None\<rparr> = Inr g
     \<and> rg_inv g \<and> acyclic (rg_rel g)"
proof -
  let ?e = "\<lparr>re_from = ''a'', re_to = ''b'', re_kind = OneToMany, re_from_column = ''x'',
        re_to_column = None\<rparr>"
  have inv: "rg_inv relation_graph_new" "rg_unique relation_graph_new"
    by (simp_all add: rg_inv_def rg_unique_def relation_graph_new_def outgoing_def)
  have "would_create_cycle relation_graph_new ''a'' ''b'' = False"
    by (simp add: would_create_cycle_def relation_graph_new_def edges_from_def)
  then have "is_ok (add_edge relation_graph_new ?e)"
    by (simp add: add_edge_def find_edge_def) (simp add: relation_graph_new_def)
  then obtain g where g: "add_edge relation_graph_new ?e = Inr g" by (auto simp: is_ok_iff)
  have "acyclic (rg_rel relation_graph_new)"
    by (simp add: rg_rel_def relation_graph_new_def acyclic_def)
  with add_edge_correct [OF inv, of ?e] g show ?thesis by simp
qed

subsection \<open>Removal\<close>

lemma position_Some:
  "position p xs = Some i \<Longrightarrow> i < length xs \<and> p (xs ! i)"
  by (induction xs arbitrary: i) (auto split: if_splits)

lemma position_None: "position p xs = None \<longleftrightarrow> (\<forall>x \<in> set xs. \<not> p x)"
  by (induction xs) auto

lemma remove_at_split: "i < length xs \<Longrightarrow> xs = take i xs @ xs ! i # drop (Suc i) xs"
  by (rule id_take_nth_drop)

lemma map_remove_at: "map f (remove_at i xs) = remove_at i (map f xs)"
  by (simp add: remove_at_def take_map drop_map)

lemma distinct_remove_at:
  assumes "distinct xs" and "i < length xs"
  shows "distinct (remove_at i xs) \<and> set (remove_at i xs) = set xs - {xs ! i}"
proof -
  have xs: "xs = take i xs @ xs ! i # drop (Suc i) xs" using remove_at_split [OF assms(2)] .
  then have "distinct (take i xs @ xs ! i # drop (Suc i) xs)" using assms(1) by simp
  then have "distinct (remove_at i xs)" "xs ! i \<notin> set (remove_at i xs)"
    by (auto simp: remove_at_def)
  moreover have "set xs = insert (xs ! i) (set (remove_at i xs))"
    by (subst xs) (auto simp: remove_at_def)
  ultimately show ?thesis by auto
qed

lemma remove_edge_cases:
  assumes "rg_unique g"
  shows "case remove_edge g a b of
      Inl err \<Rightarrow> err = RelationNotFound a b \<and> (a, b) \<notin> rg_rel g
    | Inr g' \<Rightarrow> (a, b) \<in> rg_rel g \<and> rg_rel g' = rg_rel g - {(a, b)} \<and> rg_inv g' \<and> rg_unique g'"
proof (cases "position (\<lambda>e. re_from e = a \<and> re_to e = b) (rg_edges g)")
  case None
  then have "(a, b) \<notin> rg_rel g" by (auto simp: position_None rg_rel_def)
  with None show ?thesis by (simp add: remove_edge_def)
next
  case (Some i)
  from position_Some [OF this]
  have i: "i < length (map (\<lambda>e. (re_from e, re_to e)) (rg_edges g))" "map (\<lambda>e. (re_from e, re_to e)) (rg_edges g) ! i = (a, b)" by simp_all
  define g' where "g' = rebuild_adjacency (g\<lparr>rg_edges := remove_at i (rg_edges g)\<rparr>)"
  have res: "remove_edge g a b = Inr g'" using Some by (simp add: remove_edge_def g'_def)
  have es: "map (\<lambda>e. (re_from e, re_to e)) (rg_edges g') = remove_at i (map (\<lambda>e. (re_from e, re_to e)) (rg_edges g))"
    by (simp add: g'_def rebuild_adjacency_def map_remove_at)
  have rel: "rg_rel h = set (map (\<lambda>e. (re_from e, re_to e)) (rg_edges h))" for h by (simp add: rg_rel_def)
  have "distinct (map (\<lambda>e. (re_from e, re_to e)) (rg_edges g))" using assms by (simp add: rg_unique_def)
  from distinct_remove_at [OF this i(1)]
  have "rg_unique g'" "rg_rel g' = rg_rel g - {(a, b)}"
    unfolding rg_unique_def rel es i(2) by simp_all
  moreover have "(a, b) \<in> rg_rel g" unfolding rel using i nth_mem by metis
  moreover have "rg_inv g'" unfolding g'_def by (rule rg_inv_rebuild)
  ultimately show ?thesis using res by simp
qed

lemma remove_edge_inv [inv_intros]:
  assumes "remove_edge g a b = Inr g'" and "rg_unique g" and "acyclic (rg_rel g)"
  shows "rg_inv g' \<and> rg_unique g' \<and> acyclic (rg_rel g')"
  using remove_edge_cases [OF assms(2), of a b] assms(1,3)
    acyclic_subset [of "rg_rel g" "rg_rel g - {(a, b)}"] by auto

text \<open>\<open>remove_edge\<close> fails exactly on a pair that is not an edge; otherwise it removes that
  pair and nothing else, rebuilds a correct adjacency index, and keeps uniqueness and
  acyclicity. Removing an edge just added restores the edge list.\<close>

theorem remove_edge_correct:
  assumes "rg_unique g"
  shows "(case remove_edge g a b of
      Inl err \<Rightarrow> err = RelationNotFound a b \<and> (a, b) \<notin> rg_rel g
    | Inr g' \<Rightarrow> (a, b) \<in> rg_rel g \<and> rg_rel g' = rg_rel g - {(a, b)} \<and> rg_inv g' \<and> rg_unique g'
        \<and> (acyclic (rg_rel g) \<longrightarrow> acyclic (rg_rel g')))
     \<and> (\<forall>e g'. add_edge g e = Inr g' \<longrightarrow>
          (\<exists>g''. remove_edge g' (re_from e) (re_to e) = Inr g'' \<and> rg_edges g'' = rg_edges g))"
proof -
  note rem = remove_edge_cases [OF assms, of a b]
  have "\<exists>g''. remove_edge g' (re_from e) (re_to e) = Inr g'' \<and> rg_edges g'' = rg_edges g"
    if "add_edge g e = Inr g'" for e g'
  proof -
    from that have g': "rg_edges g' = rg_edges g @ [e]" "find_edge g (re_from e) (re_to e) = None"
      by (auto simp: add_edge_def split: if_splits)
    have "\<forall>x \<in> set es. \<not> p x \<Longrightarrow> p y \<Longrightarrow> position p (es @ [y]) = Some (length es)"
      for p es and y :: relation_edge
      by (induction es) auto
    from this [of "rg_edges g" "\<lambda>x. re_from x = re_from e \<and> re_to x = re_to e" e] g'
    show ?thesis
      by (simp add: remove_edge_def find_edge_def find_None_iff rebuild_adjacency_def remove_at_def)
  qed
  moreover have "case remove_edge g a b of Inl err \<Rightarrow> True
    | Inr g' \<Rightarrow> acyclic (rg_rel g) \<longrightarrow> acyclic (rg_rel g')"
    using rem acyclic_subset [of "rg_rel g" "rg_rel g - {(a, b)}"]
    by (auto split: sum.splits)
  ultimately show ?thesis using rem by (auto split: sum.splits)
qed

theorem remove_edge_correct_witness:
  "\<exists>g'. remove_edge (add_edge_unchecked relation_graph_new \<lparr>re_from = ''a'', re_to = ''b'',
        re_kind = OneToMany, re_from_column = ''x'', re_to_column = None\<rparr>) ''a'' ''b'' = Inr g'
     \<and> rg_rel g' = {}"
proof -
  let ?g = "add_edge_unchecked relation_graph_new \<lparr>re_from = ''a'', re_to = ''b'',
        re_kind = OneToMany, re_from_column = ''x'', re_to_column = None\<rparr>"
  have u: "rg_unique ?g" and r: "rg_rel ?g = {(''a'', ''b'')}"
    by (simp_all add: rg_unique_def rg_rel_def add_edge_unchecked_def relation_graph_new_def)
  show ?thesis
    using remove_edge_correct [OF u, of "''a''" "''b''"] r
    by (cases "remove_edge ?g ''a'' ''b''") auto
qed

subsection \<open>The three-colour search\<close>

definition is_cycle :: "(string \<times> string) set \<Rightarrow> string list \<Rightarrow> bool" where
  "is_cycle R c \<longleftrightarrow> c \<noteq> [] \<and> successively (\<lambda>a b. (a, b) \<in> R) (c @ [hd c])"

fun spath :: "(string \<times> string) set \<Rightarrow> (bool \<times> string) list \<Rightarrow> string list \<Rightarrow> bool" where
  "spath R [] rp \<longleftrightarrow> rp = []"
| "spath R ((True, x) # s) rp \<longleftrightarrow> (rp \<noteq> [] \<longrightarrow> (hd rp, x) \<in> R) \<and> spath R s rp"
| "spath R ((False, n) # s) rp \<longleftrightarrow> rp \<noteq> [] \<and> hd rp = n \<and> (tl rp \<noteq> [] \<longrightarrow> (hd (tl rp), n) \<in> R)
     \<and> spath R s (tl rp)"

fun sacc :: "(string \<times> string) set \<Rightarrow> string set \<Rightarrow> (bool \<times> string) list \<Rightarrow> string set \<Rightarrow> bool" where
  "sacc R B [] acc \<longleftrightarrow> True"
| "sacc R B ((True, x) # s) acc \<longleftrightarrow> sacc R B s (insert x acc)"
| "sacc R B ((False, n) # s) acc \<longleftrightarrow> R `` {n} \<subseteq> B \<union> acc \<and> sacc R B s {n}"

definition colored :: "cycle_state \<Rightarrow> color \<Rightarrow> string set" where
  "colored st c = {n. cs_colors st n = Some c}"

text \<open>
  The loop invariant. The grey tables are the path; every stack entry belongs to an edge
  from the table the path ends with at that depth (\<open>spath\<close>); reported cycles are cycles;
  and while none is reported, the black tables are closed under edges, acyclic, and the
  successors of a grey table are black or still on the stack above it (\<open>sacc\<close>).
\<close>

definition loop_inv :: "relation_graph \<Rightarrow> cycle_state \<Rightarrow> (bool \<times> string) list \<Rightarrow> bool" where
  "loop_inv g st stack \<longleftrightarrow>
     rg_tables g \<subseteq> dom (cs_colors st)
   \<and> colored st Gray = set (cs_path st) \<and> distinct (cs_path st)
   \<and> spath (rg_rel g) stack (rev (cs_path st))
   \<and> (\<forall>c \<in> set (cs_cycles st). is_cycle (rg_rel g) c)
   \<and> (cs_cycles st = [] \<longrightarrow>
        rg_rel g `` colored st Black \<subseteq> colored st Black
      \<and> acyclic {(a, b) \<in> rg_rel g. a \<in> colored st Black}
      \<and> sacc (rg_rel g) (colored st Black) stack {})"

lemma sacc_mono:
  "sacc R B s acc \<Longrightarrow> B \<subseteq> B' \<Longrightarrow> B \<union> acc \<subseteq> B' \<union> acc' \<Longrightarrow> sacc R B' s acc'"
proof (induction R B s acc arbitrary: acc' rule: sacc.induct)
  case (2 R B x s acc)
  have "sacc R B' s (insert x acc')" by (rule "2.IH") (use "2.prems" in auto)
  then show ?case by simp
next
  case (3 R B n s acc)
  have "sacc R B' s {n}" by (rule "3.IH") (use "3.prems" in auto)
  with "3.prems" show ?case by auto
qed simp

lemma spath_successively: "spath R s rp \<Longrightarrow> successively (\<lambda>a b. (b, a) \<in> R) rp"
proof (induction R s rp rule: spath.induct)
  case (3 R n s rp)
  then show ?case by (cases rp; cases "tl rp") auto
qed auto

lemma acyclic_extend:
  assumes "acyclic {(a, b) \<in> R. a \<in> B}" and "R `` B \<subseteq> B" and "R `` {n} \<subseteq> B" and "n \<notin> B"
  shows "acyclic {(a, b) \<in> R. a \<in> insert n B}"
proof -
  let ?S = "{(a, b) \<in> R. a \<in> insert n B}"
  have stay: "b \<in> B \<and> (a, b) \<in> {(a, b) \<in> R. a \<in> B}\<^sup>+" if "(a, b) \<in> ?S\<^sup>+" "a \<in> B" for a b
    using that
  proof (induction rule: trancl_induct)
    case (step y z)
    then have "z \<in> B" "(y, z) \<in> {(a, b) \<in> R. a \<in> B}" using assms(2,4) by auto
    with step show ?case by (meson trancl.trancl_into_trancl)
  qed (use assms(2,4) in auto)
  have "(x, x) \<notin> ?S\<^sup>+" for x
  proof
    assume x: "(x, x) \<in> ?S\<^sup>+"
    show False
    proof (cases "x \<in> B")
      case True
      from stay [OF x True] assms(1) show False by (auto simp: acyclic_def)
    next
      case False
      from tranclD [OF x] obtain y where y: "(x, y) \<in> ?S" "(y, x) \<in> ?S\<^sup>*" by blast
      with False assms(3) have "x = n" "y \<in> B" by auto
      moreover from y(2) have "y = x \<or> (y, x) \<in> ?S\<^sup>+" by (auto dest: rtranclD)
      ultimately show False using stay [of y x] False by blast
    qed
  qed
  then show ?thesis by (auto simp: acyclic_def)
qed

lemma is_cycle_not_acyclic: "is_cycle R c \<Longrightarrow> \<not> acyclic R"
proof -
  assume c: "is_cycle R c"
  have "successively (\<lambda>a b. (a, b) \<in> R) (x # xs) \<Longrightarrow> (x, last (x # xs)) \<in> R\<^sup>*" for x xs
    by (induction xs arbitrary: x) (auto intro: converse_rtrancl_into_rtrancl)
  from this [of "hd c" "tl c"] c have "(hd c, last c) \<in> R\<^sup>*" "(last c, hd c) \<in> R"
    by (auto simp: is_cycle_def successively_append_iff simp del: last.simps)
  then have "(hd c, hd c) \<in> R\<^sup>+" by (rule rtrancl_into_trancl1)
  then show ?thesis by (auto simp: acyclic_def)
qed

lemma path_suffix_cycle:
  assumes "spath R s (rev path)" and "x \<in> set path" and "(last path, x) \<in> R"
  shows "is_cycle R (drop (case position (\<lambda>n. n = x) path of None \<Rightarrow> 0 | Some i \<Rightarrow> i) path)"
proof -
  obtain i where i: "position (\<lambda>n. n = x) path = Some i"
    using assms(2) by (cases "position (\<lambda>n. n = x) path") (auto simp: position_None)
  from position_Some [OF i] have lt: "i < length path" "path ! i = x" by auto
  have "successively (\<lambda>a b. (a, b) \<in> R) path"
    using spath_successively [OF assms(1)] by (simp add: successively_rev)
  then have "successively (\<lambda>a b. (a, b) \<in> R) (drop i path)"
    by (metis append_take_drop_id successively_append_iff)
  with lt i assms(3) show ?thesis
    by (simp add: is_cycle_def successively_append_iff hd_drop_conv_nth)
qed

lemma loop_inv_leave:
  assumes "loop_inv g st ((False, n) # stack)"
  shows "loop_inv g (st\<lparr>cs_path := butlast (cs_path st), cs_colors := (cs_colors st)(n \<mapsto> Black)\<rparr>) stack"
proof -
  have "cs_path st \<noteq> []" "hd (rev (cs_path st)) = n"
    using assms by (auto simp: loop_inv_def)
  then obtain p where p: "cs_path st = p @ [n]"
    by (metis append_butlast_last_id hd_rev)
  let ?st = "st\<lparr>cs_path := p, cs_colors := (cs_colors st)(n \<mapsto> Black)\<rparr>"
  have col: "colored ?st Black = insert n (colored st Black)"
    "colored ?st Gray = colored st Gray - {n}"
    by (auto simp: colored_def)
  have gray: "colored st Gray = insert n (set p)" using assms p by (simp add: loop_inv_def)
  then have "n \<in> colored st Gray" by simp
  then have nb: "n \<notin> colored st Black" by (simp add: colored_def)
  have "sacc (rg_rel g) (insert n (colored st Black)) stack {}"
    if "sacc (rg_rel g) (colored st Black) stack {n}"
    by (rule sacc_mono [OF that]) auto
  moreover have "acyclic {(a, b) \<in> rg_rel g. a \<in> insert n (colored st Black)}"
    if "cs_cycles st = []"
    by (rule acyclic_extend) (use that assms nb in \<open>simp_all add: loop_inv_def\<close>)
  ultimately have "loop_inv g ?st stack"
    using assms p gray unfolding loop_inv_def col by auto
  then show ?thesis using p by simp
qed

lemma loop_inv_skip:
  assumes "loop_inv g st ((True, n) # stack)" and "cs_colors st n = Some Black"
  shows "loop_inv g st stack"
proof -
  have "sacc (rg_rel g) (colored st Black) stack {n} \<Longrightarrow> sacc (rg_rel g) (colored st Black) stack {}"
    by (erule sacc_mono) (use assms(2) in \<open>auto simp: colored_def\<close>)
  with assms show ?thesis by (auto simp: loop_inv_def)
qed

lemma loop_inv_report:
  assumes "loop_inv g st ((True, n) # stack)" and "cs_colors st n = Some Gray"
  shows "loop_inv g (st\<lparr>cs_cycles := cs_cycles st @
    [drop (case position (\<lambda>m. m = n) (cs_path st) of None \<Rightarrow> 0 | Some i \<Rightarrow> i) (cs_path st)]\<rparr>) stack"
proof -
  have n: "n \<in> set (cs_path st)" using assms by (auto simp: loop_inv_def colored_def)
  with assms have "spath (rg_rel g) stack (rev (cs_path st))" "(last (cs_path st), n) \<in> rg_rel g"
    by (auto simp: loop_inv_def hd_rev)
  from path_suffix_cycle [OF this(1) n this(2)] assms show ?thesis
    by (auto simp: loop_inv_def colored_def)
qed

lemma spath_pushed:
  "spath R ((False, n) # s) rp \<Longrightarrow> \<forall>x \<in> set xs. fst x \<and> (n, snd x) \<in> R \<Longrightarrow> spath R (xs @ (False, n) # s) rp"
proof (induction xs)
  case (Cons x xs)
  then show ?case by (cases x) auto
qed simp

lemma sacc_pushed: "\<forall>x \<in> set xs. fst x \<Longrightarrow> sacc R B (xs @ s) acc = sacc R B s (snd ` set xs \<union> acc)"
proof (induction xs arbitrary: acc)
  case (Cons x xs)
  then show ?case by (cases x) (auto simp: insert_commute Un_commute)
qed simp

lemma loop_inv_enter:
  assumes "rg_inv g" and "loop_inv g st ((True, n) # stack)" and "color_open (cs_colors st n)"
    and "colors = (cs_colors st)(n \<mapsto> Gray)"
  shows "loop_inv g (st\<lparr>cs_colors := colors, cs_path := cs_path st @ [n]\<rparr>)
    (pushed_edges g colors n @ (False, n) # stack)"
proof -
  let ?st = "st\<lparr>cs_colors := colors, cs_path := cs_path st @ [n]\<rparr>"
  have col: "colored ?st Black = colored st Black" "colored ?st Gray = insert n (colored st Gray)"
    "n \<notin> colored st Gray"
    using assms(3,4) by (auto simp: colored_def color_open_def)
  have edges: "re_to ` set (edges_from g n) = rg_rel g `` {n}"
    by (rule successors_edges_from [OF assms(1)])
  then have pushed: "\<forall>x \<in> set (pushed_edges g colors n). fst x \<and> (n, snd x) \<in> rg_rel g"
    by (auto simp: pushed_edges_def)
  have "rg_rel g `` {n} \<subseteq> rg_tables g" by (auto simp: rg_rel_def rg_tables_def)
  then have "rg_rel g `` {n} \<subseteq> dom colors"
    using assms(2,4) by (auto simp: loop_inv_def)
  then have succ: "rg_rel g `` {n} \<subseteq> colored st Black \<union> snd ` set (pushed_edges g colors n)"
  proof (intro subsetI)
    fix m assume m: "m \<in> rg_rel g `` {n}" and dom: "rg_rel g `` {n} \<subseteq> dom colors"
    from m edges obtain e where e: "e \<in> set (edges_from g n)" "m = re_to e" by blast
    from m dom obtain c where c: "colors m = Some c" by blast
    show "m \<in> colored st Black \<union> snd ` set (pushed_edges g colors n)"
    proof (cases c)
      case Black
      with c assms(4) show ?thesis by (simp add: colored_def split: if_splits)
    qed (use c e in \<open>force simp: pushed_edges_def\<close>)+
  qed
  have "spath (rg_rel g) (pushed_edges g colors n @ (False, n) # stack) (rev (cs_path ?st))"
    by (rule spath_pushed) (use pushed assms(2) in \<open>auto simp: loop_inv_def hd_rev\<close>)
  moreover have "cs_cycles st = [] \<Longrightarrow>
      sacc (rg_rel g) (colored st Black) (pushed_edges g colors n @ (False, n) # stack) {}"
    using pushed succ assms(2) by (auto simp: sacc_pushed loop_inv_def)
  ultimately show ?thesis
    using assms(2,4) col(3) unfolding loop_inv_def col(1,2) by auto
qed

lemma loop_inv_result:
  assumes "rg_inv g" and "loop_inv g st stack"
  shows "loop_inv g (cycle_loop g st stack) []"
  using assms
proof (induction g st stack rule: cycle_loop.induct)
  case (2 g st n stack)
  then show ?case using loop_inv_leave by simp
next
  case (3 g st n stack)
  consider "cs_colors st n = Some Black" | "cs_colors st n = Some Gray" | "color_open (cs_colors st n)"
    by (auto simp: color_open_def)
  then show ?case
  proof cases
    case 1
    with "3.IH"(1) "3.prems" loop_inv_skip show ?thesis by simp
  next
    case 2
    with "3.IH"(2) "3.prems" loop_inv_report show ?thesis by simp
  next
    case c: 3
    with "3.IH"(3) "3.prems" loop_inv_enter [OF "3.prems" c refl] show ?thesis
      by (simp add: color_open_def Let_def)
  qed
qed simp

lemma cycle_loop_closed:
  "\<not> color_open (cs_colors st n) \<Longrightarrow> \<not> color_open (cs_colors (cycle_loop g st stack) n)"
proof (induction g st stack rule: cycle_loop.induct)
  case (3 g st m stack)
  show ?case
    using "3.IH" "3.prems" by (cases "m = n") (simp_all add: color_open_def Let_def)
qed (simp_all add: color_open_def)

lemma cycle_loop_start:
  "cs_colors st n = Some White \<Longrightarrow> \<not> color_open (cs_colors (cycle_loop g st [(True, n)]) n)"
  by (simp add: Let_def) (rule cycle_loop_closed, simp add: color_open_def)

lemma cycle_loop_dom: "n \<in> dom (cs_colors st) \<Longrightarrow> n \<in> dom (cs_colors (cycle_loop g st stack))"
proof (induction g st stack rule: cycle_loop.induct)
  case (2 g st m stack)
  then show ?case by (simp add: domIff)
next
  case (3 g st m stack)
  then show ?case by (simp add: domIff Let_def)
qed simp

lemma cycle_starts_inv:
  assumes "rg_inv g" and "loop_inv g st []" and "set ts \<subseteq> dom (cs_colors st)"
    and "\<forall>n \<in> done. \<not> color_open (cs_colors st n)"
  shows "loop_inv g (cycle_starts g st ts) []
     \<and> (\<forall>n \<in> set ts \<union> done. \<not> color_open (cs_colors (cycle_starts g st ts) n))"
  using assms(2-)
proof (induction ts arbitrary: st "done")
  case (Cons t ts)
  show ?case
  proof (cases "cs_colors st t = Some White")
    case False
    with Cons.prems(2) have "\<not> color_open (cs_colors st t)"
      by (auto simp: color_open_def) (metis color.exhaust)
    with Cons.IH [OF Cons.prems(1), of "insert t done"] Cons.prems False show ?thesis by simp
  next
    case True
    let ?st = "cycle_loop g st [(True, t)]"
    have path: "cs_path st = []" using Cons.prems(1) by (simp add: loop_inv_def)
    then have "loop_inv g st [(True, t)]" using Cons.prems(1) by (simp add: loop_inv_def)
    then have inv: "loop_inv g ?st []" by (rule loop_inv_result [OF assms(1)])
    have closed: "\<forall>n \<in> insert t done. \<not> color_open (cs_colors ?st n)"
      using Cons.prems(3) cycle_loop_start [OF True] cycle_loop_closed [of st _ g "[(True, t)]"]
      by (simp del: cycle_loop.simps)
    have "set ts \<subseteq> dom (cs_colors ?st)" 
      by (intro subsetI cycle_loop_dom) (use Cons.prems(2) in auto)
    from Cons.IH [OF inv this closed] True show ?thesis by simp
  qed
qed simp

lemma detect_cycles_spec:
  assumes "rg_inv g" and "set all_tables = rg_tables g"
  shows "detect_cycles g all_tables = [] \<Longrightarrow> acyclic (rg_rel g)"
    and "c \<in> set (detect_cycles g all_tables) \<Longrightarrow> is_cycle (rg_rel g) c"
proof -
  let ?s0 = "\<lparr>cs_colors = map_of (map (\<lambda>t. (t, White)) all_tables), cs_path = [], cs_cycles = []\<rparr>"
  define st where "st = cycle_starts g ?s0 all_tables"
  have colors: "cs_colors ?s0 n = (if n \<in> set all_tables then Some White else None)" for n
    by (simp add: map_of_map_restrict)
  have empty: "colored ?s0 Gray = {}" "colored ?s0 Black = {}"
    unfolding colored_def colors by simp_all
  have "set all_tables \<subseteq> dom (cs_colors ?s0)" unfolding dom_def colors by auto
  moreover from this have "loop_inv g ?s0 []"
    unfolding loop_inv_def empty using assms(2) by (auto simp: acyclic_def)
  ultimately have inv: "loop_inv g st []" and closed: "\<forall>n \<in> rg_tables g. \<not> color_open (cs_colors st n)"
    using cycle_starts_inv [OF assms(1), of ?s0 all_tables "{}"] assms(2) by (simp_all add: st_def)
  have "rg_tables g \<subseteq> colored st Black"
    using inv closed by (auto simp: loop_inv_def colored_def color_open_def)
  then have "{(a, b) \<in> rg_rel g. a \<in> colored st Black} = rg_rel g"
    by (auto simp: rg_rel_def rg_tables_def)
  then have "cs_cycles st = [] \<Longrightarrow> acyclic (rg_rel g)"
    and "\<forall>c \<in> set (cs_cycles st). is_cycle (rg_rel g) c"
    using inv by (simp_all add: loop_inv_def)
  then show "detect_cycles g all_tables = [] \<Longrightarrow> acyclic (rg_rel g)"
    and "c \<in> set (detect_cycles g all_tables) \<Longrightarrow> is_cycle (rg_rel g) c"
    by (simp_all add: detect_cycles_def st_def)
qed

lemma detect_cycles_acyclic:
  assumes "rg_inv g" and "set all_tables = rg_tables g" and "acyclic (rg_rel g)"
  shows "detect_cycles g all_tables = []"
  using detect_cycles_spec(2) [OF assms(1,2)] is_cycle_not_acyclic assms(3)
  by (metis list.set_intros(1) neq_Nil_conv)

text \<open>\<open>detect_cycles\<close> terminates and is exact, for every iteration order of the table set:
  it reports no cycle precisely when the graph is acyclic, and everything it reports is a
  path of edges that returns to its first table.\<close>

theorem detect_cycles_correct:
  assumes "rg_inv g" and "set all_tables = rg_tables g"
  shows "(detect_cycles g all_tables = [] \<longleftrightarrow> acyclic (rg_rel g))
     \<and> (\<forall>c \<in> set (detect_cycles g all_tables). is_cycle (rg_rel g) c)"
  using detect_cycles_spec [OF assms] detect_cycles_acyclic [OF assms] by blast

theorem detect_cycles_correct_witness:
  "\<exists>g. rg_rel g = {(''a'', ''b''), (''b'', ''a'')} \<and> detect_cycles g [''a'', ''b''] \<noteq> []"
proof -
  let ?e = "\<lambda>a b. \<lparr>re_from = a, re_to = b, re_kind = Composition, re_from_column = ''x'',
        re_to_column = None\<rparr>"
  let ?g = "add_edge_unchecked (add_edge_unchecked relation_graph_new (?e ''a'' ''b'')) (?e ''b'' ''a'')"
  have rel: "rg_rel ?g = {(''a'', ''b''), (''b'', ''a'')}"
    by (auto simp: rg_rel_def add_edge_unchecked_def relation_graph_new_def)
  have "rg_inv relation_graph_new" by (simp add: rg_inv_def relation_graph_new_def outgoing_def)
  then have inv: "rg_inv ?g" unfolding add_edge_unchecked_def by (intro rg_inv_push)
  have tables: "set [''a'', ''b''] = rg_tables ?g"
    by (auto simp: rg_tables_def add_edge_unchecked_def relation_graph_new_def)
  have "(''a'', ''a'') \<in> (rg_rel ?g)\<^sup>+"
    unfolding rel by (rule trancl_into_trancl2 [where b = "''b''"]) auto
  then have "\<not> acyclic (rg_rel ?g)" by (auto simp: acyclic_def)
  with detect_cycles_correct [OF inv tables] rel show ?thesis by blast
qed

end
