(* ===== verification/Schema.thy ===== *)
theory Schema
  imports Relation_Graph
begin

section \<open>Table specifications, manifests and the registry (scharnhorst\_schema)\<close>

text \<open>
  field\_semantic.rs, table\_spec.rs, manifest.rs and registry.rs. A table specification
  keeps its columns in a vector with an index by name; the registry owns the
  specifications and the relation graph and can be frozen. Operations that may fail after
  a first mutation return the result and the state. The iteration order of a \<open>HashSet\<close>
  is the argument \<open>hash_order\<close>. Reading and writing TOML or JSON text is left to serde;
  what \<open>Deserialize\<close> does with the parsed fields is \<open>table_spec_deserialize\<close>.
\<close>

subsection \<open>field\_semantic.rs and table\_spec.rs\<close>

datatype field_semantic =
    SemId
  | ForeignKey string
  | SemName
  | Tag
  | Position2D
  | Position3D
  | Quantity
  | Percent
  | DurationTicks
  | Timestamp
  | Raw

definition is_numeric :: "field_semantic \<Rightarrow> bool" where
  "is_numeric s \<longleftrightarrow> s \<in> {Quantity, Percent, DurationTicks, Timestamp, Position2D, Position3D}"

definition is_spatial :: "field_semantic \<Rightarrow> bool" where
  "is_spatial s \<longleftrightarrow> s \<in> {Position2D, Position3D}"

fun is_reference :: "field_semantic \<Rightarrow> bool" where
  "is_reference (ForeignKey target_table) = True"
| "is_reference _ = False"

record column_spec =
  col_name :: string
  col_semantic :: field_semantic
  col_storage_type :: string
  col_nullable :: bool

definition column_spec_new :: "string \<Rightarrow> field_semantic \<Rightarrow> string \<Rightarrow> column_spec" where
  "column_spec_new n sem ty =
     \<lparr>col_name = n, col_semantic = sem, col_storage_type = ty, col_nullable = False\<rparr>"

definition with_nullable :: "column_spec \<Rightarrow> bool \<Rightarrow> column_spec" where
  "with_nullable c b = c\<lparr>col_nullable := b\<rparr>"

record table_spec =
  ts_name :: string
  ts_columns :: "column_spec list"
  ts_column_index :: "string \<rightharpoonup> nat"
  ts_tier :: state_tier

definition table_spec_eq :: "table_spec \<Rightarrow> table_spec \<Rightarrow> bool" where
  "table_spec_eq a b \<longleftrightarrow> ts_name a = ts_name b \<and> ts_columns a = ts_columns b \<and> ts_tier a = ts_tier b"

definition table_spec_new :: "string \<Rightarrow> table_spec" where
  "table_spec_new n =
     \<lparr>ts_name = n, ts_columns = [], ts_column_index = Map.empty, ts_tier = Authority\<rparr>"

definition with_column :: "table_spec \<Rightarrow> column_spec \<Rightarrow> schema_error + table_spec" where
  "with_column t col =
     (if ts_column_index t (col_name col) \<noteq> None then Inl (DuplicateColumn (col_name col))
      else Inr (t\<lparr>ts_columns := ts_columns t @ [col],
                  ts_column_index := (ts_column_index t)(col_name col \<mapsto> length (ts_columns t))\<rparr>))"

definition column_by_name :: "table_spec \<Rightarrow> string \<Rightarrow> column_spec option" where
  "column_by_name t n = (case ts_column_index t n of None \<Rightarrow> None
     | Some idx \<Rightarrow> if idx < length (ts_columns t) then Some (ts_columns t ! idx) else None)"

definition column_index_of :: "table_spec \<Rightarrow> string \<Rightarrow> nat option" where
  "column_index_of t n = ts_column_index t n"

definition primary_key_column :: "table_spec \<Rightarrow> column_spec option" where
  "primary_key_column t = find (\<lambda>c. col_semantic c = SemId) (ts_columns t)"

definition foreign_key_columns :: "table_spec \<Rightarrow> column_spec list" where
  "foreign_key_columns t = filter (\<lambda>c. is_reference (col_semantic c)) (ts_columns t)"

text \<open>Collecting pairs into a \<open>HashMap\<close>: a later pair replaces an earlier one of its key.\<close>

definition rebuild_index :: "table_spec \<Rightarrow> table_spec" where
  "rebuild_index t =
     t\<lparr>ts_column_index := fold (\<lambda>(i, c) m. m(col_name c \<mapsto> i)) (enumerate 0 (ts_columns t)) Map.empty\<rparr>"

definition table_spec_deserialize :: "string \<Rightarrow> column_spec list \<Rightarrow> state_tier option \<Rightarrow> table_spec" where
  "table_spec_deserialize n cols tier =
     rebuild_index \<lparr>ts_name = n, ts_columns = cols, ts_column_index = Map.empty,
       ts_tier = (case tier of None \<Rightarrow> Authority | Some t \<Rightarrow> t)\<rparr>"

subsection \<open>manifest.rs\<close>

record mod_fingerprint =
  mf_mod_id :: string
  mf_version :: string
  mf_table_specs :: "string list"
  mf_content_hash :: string

record schema_manifest =
  sm_schema_version :: string
  sm_tables :: "table_spec list"
  sm_relations :: "relation_edge list"
  sm_mod_fingerprints :: "mod_fingerprint list"
  sm_metadata :: "(string \<times> string) list"

definition schema_manifest_new :: "string \<Rightarrow> schema_manifest" where
  "schema_manifest_new v = \<lparr>sm_schema_version = v, sm_tables = [], sm_relations = [],
     sm_mod_fingerprints = [], sm_metadata = []\<rparr>"

definition with_table :: "schema_manifest \<Rightarrow> table_spec \<Rightarrow> schema_manifest" where
  "with_table m t = m\<lparr>sm_tables := sm_tables m @ [t]\<rparr>"

definition with_relation :: "schema_manifest \<Rightarrow> relation_edge \<Rightarrow> schema_manifest" where
  "with_relation m e = m\<lparr>sm_relations := sm_relations m @ [e]\<rparr>"

definition with_mod_fingerprint :: "schema_manifest \<Rightarrow> mod_fingerprint \<Rightarrow> schema_manifest" where
  "with_mod_fingerprint m f = m\<lparr>sm_mod_fingerprints := sm_mod_fingerprints m @ [f]\<rparr>"

definition with_metadata :: "schema_manifest \<Rightarrow> string \<Rightarrow> string \<Rightarrow> schema_manifest" where
  "with_metadata m k v = m\<lparr>sm_metadata := hm_insert k v (sm_metadata m)\<rparr>"

record migrated_schema_manifest =
  mm_manifest :: schema_manifest
  mm_original_version :: string
  mm_applied_migrations :: "string list"

definition migrated_new :: "schema_manifest \<Rightarrow> string \<Rightarrow> migrated_schema_manifest" where
  "migrated_new m v = \<lparr>mm_manifest = m, mm_original_version = v, mm_applied_migrations = []\<rparr>"

definition record_migration :: "migrated_schema_manifest \<Rightarrow> string \<Rightarrow> migrated_schema_manifest" where
  "record_migration m n = m\<lparr>mm_applied_migrations := mm_applied_migrations m @ [n]\<rparr>"

subsection \<open>registry.rs\<close>

record schema_registry =
  sr_tables :: "(string \<times> table_spec) list"
  sr_relations :: relation_graph
  sr_frozen :: bool
  sr_mod_fingerprints :: "mod_fingerprint list"
  sr_migrated_manifest :: "migrated_schema_manifest option"

definition schema_registry_new :: schema_registry where
  "schema_registry_new = \<lparr>sr_tables = [], sr_relations = relation_graph_new, sr_frozen = False,
     sr_mod_fingerprints = [], sr_migrated_manifest = None\<rparr>"

definition freeze :: "schema_registry \<Rightarrow> schema_registry" where
  "freeze r = r\<lparr>sr_frozen := True\<rparr>"

definition store_mod_fingerprints :: "schema_registry \<Rightarrow> mod_fingerprint list \<Rightarrow> schema_error + schema_registry" where
  "store_mod_fingerprints r fs =
     (if sr_frozen r then Inl RegistryFrozen else Inr (r\<lparr>sr_mod_fingerprints := fs\<rparr>))"

definition set_migrated_manifest :: "schema_registry \<Rightarrow> migrated_schema_manifest \<Rightarrow> schema_error + schema_registry" where
  "set_migrated_manifest r m =
     (if sr_frozen r then Inl RegistryFrozen else Inr (r\<lparr>sr_migrated_manifest := Some m\<rparr>))"

definition register :: "schema_registry \<Rightarrow> table_spec \<Rightarrow> schema_error + schema_registry" where
  "register r spec =
     (if ts_name spec = [] then Inl (InvalidTableName (ts_name spec))
      else if sr_frozen r then Inl RegistryFrozen
      else if hm_contains (sr_tables r) (ts_name spec) then Inl (TableAlreadyExists (ts_name spec))
      else Inr (r\<lparr>sr_tables := hm_insert (ts_name spec) spec (sr_tables r)\<rparr>))"

definition registry_get :: "schema_registry \<Rightarrow> string \<Rightarrow> schema_error + table_spec" where
  "registry_get r n = ok_or (hm_get (sr_tables r) n) (TableNotFound n)"

definition registry_remove :: "schema_registry \<Rightarrow> string \<Rightarrow> schema_error + (table_spec \<times> schema_registry)" where
  "registry_remove r n =
     (if sr_frozen r then Inl RegistryFrozen
      else (case hm_get (sr_tables r) n of
          None \<Rightarrow> Inl (TableNotFound n)
        | Some spec \<Rightarrow> Inr (spec, r\<lparr>sr_tables := hm_remove n (sr_tables r)\<rparr>)))"

definition add_relation :: "schema_registry \<Rightarrow> relation_edge \<Rightarrow> schema_error + schema_registry" where
  "add_relation r e =
     (if sr_frozen r then Inl RegistryFrozen
      else if \<not> hm_contains (sr_tables r) (re_from e) then Inl (TableNotFound (re_from e))
      else if \<not> hm_contains (sr_tables r) (re_to e) then Inl (TableNotFound (re_to e))
      else rbind (add_edge (sr_relations r) e) (\<lambda>g. Inr (r\<lparr>sr_relations := g\<rparr>)))"

definition remove_relation :: "schema_registry \<Rightarrow> string \<Rightarrow> string \<Rightarrow> schema_error + schema_registry" where
  "remove_relation r from to =
     (if sr_frozen r then Inl RegistryFrozen
      else rbind (remove_edge (sr_relations r) from to) (\<lambda>g. Inr (r\<lparr>sr_relations := g\<rparr>)))"

definition children_of :: "schema_registry \<Rightarrow> string \<Rightarrow> string list" where
  "children_of r n = map re_to (edges_from (sr_relations r) n)"

text \<open>
  A loop with \<open>?\<close> over a mutated state: the state reached when the first call fails is
  kept.
\<close>

fun for_each_mut :: "('s \<Rightarrow> 'a \<Rightarrow> 'e + 's) \<Rightarrow> 's \<Rightarrow> 'a list \<Rightarrow> ('e + unit) \<times> 's" where
  "for_each_mut f s [] = (Inr (), s)"
| "for_each_mut f s (x # xs) = (case f s x of Inl e \<Rightarrow> (Inl e, s) | Inr s' \<Rightarrow> for_each_mut f s' xs)"

definition load_from_manifest ::
  "(string list \<Rightarrow> string list) \<Rightarrow> (string list \<Rightarrow> string) \<Rightarrow> schema_registry \<Rightarrow> migrated_schema_manifest
     \<Rightarrow> (schema_error + unit) \<times> schema_registry" where
  "load_from_manifest hash_order debug_fmt r migrated =
     (if sr_frozen r then (Inl RegistryFrozen, r)
      else
       (let r1 = r\<lparr>sr_migrated_manifest := Some migrated,
                   sr_mod_fingerprints := sm_mod_fingerprints (mm_manifest migrated)\<rparr> in
        case for_each_mut register r1 (sm_tables (mm_manifest migrated)) of
          (Inl e, r2) \<Rightarrow> (Inl e, r2)
        | (Inr _, r2) \<Rightarrow>
           (case for_each_mut add_relation r2 (sm_relations (mm_manifest migrated)) of
              (Inl e, r3) \<Rightarrow> (Inl e, r3)
            | (Inr _, r3) \<Rightarrow>
               (case detect_cycles (sr_relations r3)
                   (hash_order (concat (map (\<lambda>e. [re_from e, re_to e]) (rg_edges (sr_relations r3))))) of
                  [] \<Rightarrow> (Inr (), r3)
                | c # cs \<Rightarrow> (Inl (CircularRelation
                    (''cycle detected in relation graph: '' @ debug_fmt c)), r3)))))"

definition export_manifest :: "schema_registry \<Rightarrow> string \<Rightarrow> schema_manifest" where
  "export_manifest r v =
     (let m1 = foldl with_table (schema_manifest_new v) (map snd (sr_tables r));
          m2 = foldl with_relation m1 (rg_edges (sr_relations r))
      in foldl with_mod_fingerprint m2 (sr_mod_fingerprints r))"

text \<open>The mutating calls of the registry as one step function.\<close>

datatype registry_op =
    OpRegister table_spec
  | OpRemove string
  | OpAddRelation relation_edge
  | OpRemoveRelation string string
  | OpStoreFingerprints "mod_fingerprint list"
  | OpSetMigrated migrated_schema_manifest
  | OpLoad migrated_schema_manifest

definition lift_step :: "'e + 's \<Rightarrow> 's \<Rightarrow> ('e + unit) \<times> 's" where
  "lift_step res s = (case res of Inl e \<Rightarrow> (Inl e, s) | Inr s' \<Rightarrow> (Inr (), s'))"

fun registry_step ::
  "(string list \<Rightarrow> string list) \<Rightarrow> (string list \<Rightarrow> string) \<Rightarrow> registry_op \<Rightarrow> schema_registry
     \<Rightarrow> (schema_error + unit) \<times> schema_registry" where
  "registry_step ho dbg (OpRegister spec) r = lift_step (register r spec) r"
| "registry_step ho dbg (OpRemove n) r = lift_step (rbind (registry_remove r n) (\<lambda>(_, r'). Inr r')) r"
| "registry_step ho dbg (OpAddRelation e) r = lift_step (add_relation r e) r"
| "registry_step ho dbg (OpRemoveRelation a b) r = lift_step (remove_relation r a b) r"
| "registry_step ho dbg (OpStoreFingerprints fs) r = lift_step (store_mod_fingerprints r fs) r"
| "registry_step ho dbg (OpSetMigrated m) r = lift_step (set_migrated_manifest r m) r"
| "registry_step ho dbg (OpLoad m) r = load_from_manifest ho dbg r m"

subsection \<open>Columns\<close>

definition ts_inv :: "table_spec \<Rightarrow> bool" where
  "ts_inv t \<longleftrightarrow> distinct (map col_name (ts_columns t))
     \<and> ts_column_index t = (\<lambda>n. position (\<lambda>c. col_name c = n) (ts_columns t))"

lemma position_snoc:
  "position p (xs @ [x]) = (case position p xs of Some i \<Rightarrow> Some i
     | None \<Rightarrow> if p x then Some (length xs) else None)"
  by (induction xs) (auto split: option.splits)

lemma position_name_None: "position (\<lambda>c. f c = n) xs = None \<longleftrightarrow> n \<notin> set (map f xs)"
  by (auto simp: position_None)

lemma rebuild_index_distinct:
  "distinct (map col_name cols) \<Longrightarrow>
   fold (\<lambda>(i, c) m. m(col_name c \<mapsto> i)) (enumerate 0 cols) Map.empty
     = (\<lambda>n. position (\<lambda>c. col_name c = n) cols)"
proof (induction cols rule: rev_induct)
  case (snoc c cols)
  have IH: "fold (\<lambda>(i, c) m. m(col_name c \<mapsto> i)) (enumerate 0 cols) Map.empty
    = (\<lambda>n. position (\<lambda>c. col_name c = n) cols)"
    by (intro snoc.IH) (use snoc.prems in simp)
  have "fold (\<lambda>(i, c) m. m(col_name c \<mapsto> i)) (enumerate 0 (cols @ [c])) Map.empty
    = (\<lambda>n. position (\<lambda>c. col_name c = n) cols)(col_name c \<mapsto> length cols)"
    unfolding enumerate_append_eq fold_append comp_apply IH by simp
  moreover have "position (\<lambda>x. col_name x = col_name c) cols = None"
    using snoc.prems by (auto simp: position_name_None)
  then have "(\<lambda>n. position (\<lambda>c. col_name c = n) cols)(col_name c \<mapsto> length cols)
    = (\<lambda>n. position (\<lambda>c. col_name c = n) (cols @ [c]))"
    by (auto simp: fun_eq_iff position_snoc split: option.splits)
  ultimately show ?case by (rule trans)
qed (simp add: fun_eq_iff)

lemma ts_inv_new: "ts_inv (table_spec_new n)"
  by (simp add: ts_inv_def table_spec_new_def)

lemma ts_inv_with_column [inv_intros]:
  assumes "ts_inv t" and "with_column t c = Inr t'"
  shows "ts_inv t'"
proof -
  have t': "t' = t\<lparr>ts_columns := ts_columns t @ [c],
      ts_column_index := (ts_column_index t)(col_name c \<mapsto> length (ts_columns t))\<rparr>"
    and none: "position (\<lambda>x. col_name x = col_name c) (ts_columns t) = None"
    using assms by (auto simp: with_column_def ts_inv_def split: if_splits)
  have "col_name c \<notin> set (map col_name (ts_columns t))" using none position_name_None by metis
  with assms(1) none show ?thesis
    by (auto simp: t' ts_inv_def fun_eq_iff position_snoc split: option.splits)
qed

lemma column_by_name_find:
  "ts_inv t \<Longrightarrow> column_by_name t n = find (\<lambda>c. col_name c = n) (ts_columns t)"
proof -
  assume inv: "ts_inv t"
  have "(case position p xs of None \<Rightarrow> None | Some i \<Rightarrow> if i < length xs then Some (xs ! i) else None)
    = find p xs" for p and xs :: "column_spec list"
    by (induction xs) (auto split: option.splits)
  with inv show ?thesis by (simp add: column_by_name_def ts_inv_def)
qed

text \<open>C22: The column index always agrees with the column vector: \<open>with_column\<close> refuses exactly
  the names that are present, and keeps names distinct and the index exact; lookup by name
  finds the column of that name; and a table read back from its serialised name, columns
  and tier is the same table, index included.\<close>

theorem table_spec_index_correct:
  assumes "ts_inv t"
  shows "is_ok (with_column t c) = (col_name c \<notin> set (map col_name (ts_columns t)))
     \<and> (\<forall>t'. with_column t c = Inr t' \<longrightarrow> ts_inv t' \<and> ts_columns t' = ts_columns t @ [c]
            \<and> column_by_name t' (col_name c) = Some c)
     \<and> column_by_name t n = find (\<lambda>c. col_name c = n) (ts_columns t)
     \<and> table_spec_deserialize (ts_name t) (ts_columns t) (Some (ts_tier t)) = t"
proof -
  have ok: "is_ok (with_column t c) = (col_name c \<notin> set (map col_name (ts_columns t)))"
    using assms position_name_None [of col_name "col_name c" "ts_columns t"]
    by (auto simp: with_column_def ts_inv_def)
  have new: "ts_inv t' \<and> ts_columns t' = ts_columns t @ [c] \<and> column_by_name t' (col_name c) = Some c"
    if "with_column t c = Inr t'" for t'
  proof -
    have inv: "ts_inv t'" using ts_inv_with_column [OF assms that] .
    have cols: "ts_columns t' = ts_columns t @ [c]"
      using that by (auto simp: with_column_def split: if_splits)
    have "column_by_name t' (col_name c) = Some c"
      using that by (auto simp: with_column_def column_by_name_def split: if_splits)
    with inv cols show ?thesis by simp
  qed
  have "table_spec_deserialize (ts_name t) (ts_columns t) (Some (ts_tier t)) = t"
    using assms by (simp add: table_spec_deserialize_def rebuild_index_def rebuild_index_distinct ts_inv_def)
  with ok new column_by_name_find [OF assms] show ?thesis by blast
qed

theorem table_spec_index_correct_witness:
  "\<exists>t. with_column (table_spec_new ''t'') (column_spec_new ''id'' SemId ''i64'') = Inr t
     \<and> column_by_name t ''id'' = Some (column_spec_new ''id'' SemId ''i64'')"
  using table_spec_index_correct [OF ts_inv_new, of "''t''" "column_spec_new ''id'' SemId ''i64''"]
  by (auto simp: is_ok_iff table_spec_new_def column_spec_new_def)

subsection \<open>The registry invariant\<close>

definition sr_inv :: "schema_registry \<Rightarrow> bool" where
  "sr_inv r \<longleftrightarrow> hm_ok (sr_tables r)
     \<and> (\<forall>(n, t) \<in> set (sr_tables r). ts_name t = n \<and> n \<noteq> [])
     \<and> rg_inv (sr_relations r) \<and> rg_unique (sr_relations r) \<and> acyclic (rg_rel (sr_relations r))"

text \<open>Every relation connects registered tables.\<close>

definition sr_closed :: "schema_registry \<Rightarrow> bool" where
  "sr_closed r \<longleftrightarrow> rg_tables (sr_relations r) \<subseteq> dom (hm_get (sr_tables r))"

lemma sr_inv_new: "sr_inv schema_registry_new" "sr_closed schema_registry_new"
  by (simp_all add: sr_inv_def sr_closed_def schema_registry_new_def relation_graph_new_def rg_inv_def
    outgoing_def rg_unique_def rg_rel_def rg_tables_def acyclic_def)

lemma set_hm_insert: "set (hm_insert k v m) \<subseteq> insert (k, v) (set m)"
  by (induction m) auto

lemma set_hm_remove: "set (hm_remove k m) \<subseteq> set m"
  by (induction m) auto

lemma sr_inv_register [inv_intros]:
  "sr_inv r \<Longrightarrow> register r spec = Inr r' \<Longrightarrow> sr_inv r'"
  using set_hm_insert [of "ts_name spec" spec "sr_tables r"]
  by (fastforce simp: sr_inv_def register_def split: if_splits)

lemma sr_closed_register: "sr_closed r \<Longrightarrow> register r spec = Inr r' \<Longrightarrow> sr_closed r'"
  by (fastforce simp: sr_closed_def register_def split: if_splits)

lemma sr_inv_add_relation [inv_intros]:
  assumes "sr_inv r" and "add_relation r e = Inr r'"
  shows "sr_inv r'"
proof -
  obtain g where g: "add_edge (sr_relations r) e = Inr g" "r' = r\<lparr>sr_relations := g\<rparr>"
    using assms(2) by (auto simp: add_relation_def split: if_splits)
  with add_edge_inv [of "sr_relations r" e g] assms(1) show ?thesis by (simp add: sr_inv_def)
qed

lemma rg_tables_snoc:
  "rg_tables (g\<lparr>rg_edges := es @ [e], rg_adjacency := adj\<rparr>)
     = insert (re_from e) (insert (re_to e) (rg_tables (g\<lparr>rg_edges := es\<rparr>)))"
  by (auto simp: rg_tables_def)

lemma sr_closed_add_relation: "sr_closed r \<Longrightarrow> add_relation r e = Inr r' \<Longrightarrow> sr_closed r'"
  by (auto simp: sr_closed_def add_relation_def add_edge_def rg_tables_snoc hm_contains_def split: if_splits)

lemma sr_inv_remove_relation [inv_intros]:
  assumes "sr_inv r" and "remove_relation r a b = Inr r'"
  shows "sr_inv r'"
proof -
  obtain g where g: "remove_edge (sr_relations r) a b = Inr g" "r' = r\<lparr>sr_relations := g\<rparr>"
    using assms(2) by (auto simp: remove_relation_def split: if_splits)
  with remove_edge_inv [of "sr_relations r" a b g] assms(1) show ?thesis by (simp add: sr_inv_def)
qed

lemma sr_inv_remove [inv_intros]:
  "sr_inv r \<Longrightarrow> registry_remove r n = Inr (t, r') \<Longrightarrow> sr_inv r'"
  using set_hm_remove [of n "sr_tables r"]
  by (fastforce simp: sr_inv_def registry_remove_def split: if_splits option.splits)

lemma for_each_mut_invariant:
  assumes "\<And>s x s'. P s \<Longrightarrow> f s x = Inr s' \<Longrightarrow> P s'" and "P s"
  shows "P (snd (for_each_mut f s xs))"
  using assms(2) by (induction xs arbitrary: s) (auto split: sum.splits intro: assms(1))

lemma sr_inv_cong:
  "sr_tables r' = sr_tables r \<Longrightarrow> sr_relations r' = sr_relations r \<Longrightarrow> sr_inv r' = sr_inv r"
  by (simp add: sr_inv_def)

lemma sr_inv_load [inv_intros]: "sr_inv r \<Longrightarrow> sr_inv (snd (load_from_manifest ho dbg r m))"
proof -
  assume inv: "sr_inv r"
  define r1 where "r1 = r\<lparr>sr_migrated_manifest := Some m,
                   sr_mod_fingerprints := sm_mod_fingerprints (mm_manifest m)\<rparr>"
  define r2 where "r2 = snd (for_each_mut register r1 (sm_tables (mm_manifest m)))"
  have "sr_inv r1" using inv by (simp add: r1_def sr_inv_def)
  then have "sr_inv r2" unfolding r2_def
    by (intro for_each_mut_invariant [where P = sr_inv]) (rule sr_inv_register)
  then have "sr_inv (snd (for_each_mut add_relation r2 (sm_relations (mm_manifest m))))"
    by (intro for_each_mut_invariant [where P = sr_inv]) (rule sr_inv_add_relation)
  with inv \<open>sr_inv r2\<close> show ?thesis
    by (auto simp: load_from_manifest_def r1_def [symmetric] r2_def Let_def
      split: prod.splits sum.splits list.splits)
qed

lemma sr_inv_step [inv_intros]: "sr_inv r \<Longrightarrow> sr_inv (snd (registry_step ho dbg x r))"
proof (cases x)
  case (OpLoad m)
  assume "sr_inv r"
  with OpLoad show ?thesis by (simp add: sr_inv_load)
qed (auto simp: lift_step_def store_mod_fingerprints_def set_migrated_manifest_def
  split: sum.splits intro: inv_intros sr_inv_cong [THEN iffD2])

interpretation reg: closable "registry_step ho dbg" sr_frozen for ho dbg
proof
  fix r :: schema_registry and x
  assume "sr_frozen r"
  then show "snd (registry_step ho dbg x r) = r \<and> \<not> is_ok (fst (registry_step ho dbg x r))"
    by (cases x) (auto simp: lift_step_def register_def registry_remove_def add_relation_def
      remove_relation_def store_mod_fingerprints_def set_migrated_manifest_def load_from_manifest_def)
qed

text \<open>Whatever calls are made on a registry, table names stay non-empty, unique and equal
  to the names of their specifications, and the relation graph stays indexed, free of
  duplicates and acyclic, even when a call fails half-way; once frozen, every further
  mutating call fails and leaves the registry as it was.\<close>

theorem registry_run_safe:
  assumes "sr_inv r"
  shows "sr_inv (snd (closable.run (registry_step ho dbg) ops r))
     \<and> snd (closable.run (registry_step ho dbg) ops (freeze r)) = freeze r
     \<and> (\<forall>res \<in> set (fst (closable.run (registry_step ho dbg) ops (freeze r))). \<not> is_ok res)"
proof -
  have "sr_inv (snd (closable.run (registry_step ho dbg) ops r))"
    using assms
  proof (induction ops arbitrary: r)
    case (Cons x xs)
    from Cons.IH [OF sr_inv_step [OF Cons.prems, of ho dbg x]] show ?case
      by (simp add: case_prod_beta Let_def)
  qed simp
  moreover have "sr_frozen (freeze r)" by (simp add: freeze_def)
  ultimately show ?thesis using reg.closed_run by blast
qed

theorem registry_run_safe_witness:
  "sr_inv (snd (closable.run (registry_step remdups concat)
     [OpRegister (table_spec_new ''a''), OpRegister (table_spec_new ''a'')] schema_registry_new))"
  using registry_run_safe [OF sr_inv_new(1)] by blast

subsection \<open>Export and load\<close>

lemma hm_insert_fresh: "k \<notin> fst ` set m \<Longrightarrow> hm_insert k v m = m @ [(k, v)]"
  by (induction m) auto

lemma register_all:
  assumes "\<not> sr_frozen r" and "distinct (map fst (sr_tables r) @ map ts_name ts)"
    and "\<forall>t \<in> set ts. ts_name t \<noteq> []"
  shows "for_each_mut register r ts
    = (Inr (), r\<lparr>sr_tables := sr_tables r @ map (\<lambda>t. (ts_name t, t)) ts\<rparr>)"
  using assms
proof (induction ts arbitrary: r)
  case (Cons t ts)
  have new: "ts_name t \<notin> fst ` set (sr_tables r)" using Cons.prems(2) by auto
  then have "register r t = Inr (r\<lparr>sr_tables := sr_tables r @ [(ts_name t, t)]\<rparr>)"
    using Cons.prems by (simp add: register_def hm_contains_def map_of_eq_None_iff hm_insert_fresh)
  then show ?case using Cons by simp
qed simp

lemma add_edge_succeeds:
  assumes "rg_inv g" and "(re_from e, re_to e) \<notin> rg_rel g"
    and "acyclic (insert (re_from e, re_to e) (rg_rel g))"
  shows "add_edge g e = Inr (add_edge_unchecked g e)"
proof -
  have "(re_to e, re_from e) \<notin> (rg_rel g)\<^sup>*" using assms(3) by (simp add: acyclic_insert)
  with assms show ?thesis
    by (simp add: add_edge_def would_create_cycle_iff find_edge_None add_edge_unchecked_def)
qed

lemma add_relation_all:
  assumes "\<not> sr_frozen r" and "rg_inv (sr_relations r)"
    and "distinct (map (\<lambda>e. (re_from e, re_to e)) (rg_edges (sr_relations r) @ es))"
    and "acyclic ((\<lambda>e. (re_from e, re_to e)) ` set (rg_edges (sr_relations r) @ es))"
    and "\<forall>e \<in> set es. hm_contains (sr_tables r) (re_from e) \<and> hm_contains (sr_tables r) (re_to e)"
  shows "\<exists>g. for_each_mut add_relation r es = (Inr (), r\<lparr>sr_relations := g\<rparr>)
     \<and> rg_inv g \<and> rg_edges g = rg_edges (sr_relations r) @ es"
  using assms
proof (induction es arbitrary: r)
  case Nil
  then show ?case by (auto intro: exI [of _ "sr_relations r"])
next
  case (Cons e es)
  let ?f = "\<lambda>e. (re_from e, re_to e)"
  let ?g = "add_edge_unchecked (sr_relations r) e"
  have new: "?f e \<notin> rg_rel (sr_relations r)" using Cons.prems(3) by (auto simp: rg_rel_def)
  have "acyclic (insert (?f e) (rg_rel (sr_relations r)))"
    by (rule acyclic_subset [OF Cons.prems(4)]) (auto simp: rg_rel_def)
  from add_edge_succeeds [OF Cons.prems(2) new this]
  have "add_relation r e = Inr (r\<lparr>sr_relations := ?g\<rparr>)"
    using Cons.prems by (simp add: add_relation_def)
  moreover have "rg_inv ?g" unfolding add_edge_unchecked_def by (rule rg_inv_push [OF Cons.prems(2)])
  ultimately show ?case
    using Cons.IH [of "r\<lparr>sr_relations := ?g\<rparr>"] Cons.prems
    by (simp add: add_edge_unchecked_def)
qed

lemma foldl_with:
  "foldl with_table m ts = m\<lparr>sm_tables := sm_tables m @ ts\<rparr>"
  "foldl with_relation m es = m\<lparr>sm_relations := sm_relations m @ es\<rparr>"
  "foldl with_mod_fingerprint m fs = m\<lparr>sm_mod_fingerprints := sm_mod_fingerprints m @ fs\<rparr>"
    apply (induction ts arbitrary: m; simp add: with_table_def)
   apply (induction es arbitrary: m; simp add: with_relation_def)
  apply (induction fs arbitrary: m; simp add: with_mod_fingerprint_def)
  done

lemma export_manifest_eq:
  "export_manifest r v = \<lparr>sm_schema_version = v, sm_tables = map snd (sr_tables r),
     sm_relations = rg_edges (sr_relations r), sm_mod_fingerprints = sr_mod_fingerprints r,
     sm_metadata = []\<rparr>"
  by (simp add: export_manifest_def foldl_with schema_manifest_new_def Let_def)

lemma tables_by_name: "sr_inv r \<Longrightarrow> map (\<lambda>t. (ts_name t, t)) (map snd (sr_tables r)) = sr_tables r"
  by (force simp: sr_inv_def intro: map_idI)

text \<open>A saved schema loads back: for a registry in which every relation connects
  registered tables, loading the exported manifest into an empty registry succeeds (the
  global cycle check included, whatever the hash order) and yields the same tables, the
  same relations in the same order and the same fingerprints.\<close>

theorem export_load_roundtrip:
  assumes "sr_inv r" and "sr_closed r" and "\<And>xs. set (hash_order xs) = set xs"
  shows "\<exists>r'. load_from_manifest hash_order dbg schema_registry_new (migrated_new (export_manifest r v) v)
        = (Inr (), r')
     \<and> sr_tables r' = sr_tables r \<and> rg_edges (sr_relations r') = rg_edges (sr_relations r)
     \<and> sr_mod_fingerprints r' = sr_mod_fingerprints r \<and> sr_inv r'
     \<and> children_of r' n = children_of r n"
proof -
  let ?mm = "migrated_new (export_manifest r v) v"
  define r1 where "r1 = schema_registry_new\<lparr>sr_migrated_manifest := Some ?mm,
      sr_mod_fingerprints := sr_mod_fingerprints r\<rparr>"
  define r2 where "r2 = r1\<lparr>sr_tables := sr_tables r\<rparr>"
  have reg: "for_each_mut register r1 (map snd (sr_tables r)) = (Inr (), r2)"
  proof -
    have "map ts_name (map snd (sr_tables r)) = map fst (sr_tables r)"
      using assms(1) by (auto simp: sr_inv_def)
    then have "distinct (map fst (sr_tables r1) @ map ts_name (map snd (sr_tables r)))"
      using assms(1) by (simp add: sr_inv_def hm_ok_def r1_def schema_registry_new_def del: map_map)
    moreover have "\<forall>t \<in> set (map snd (sr_tables r)). ts_name t \<noteq> []"
      using assms(1) by (auto simp: sr_inv_def)
    moreover have "\<not> sr_frozen r1" "sr_tables r1 = []" by (simp_all add: r1_def schema_registry_new_def)
    ultimately show ?thesis
      using register_all [of r1 "map snd (sr_tables r)"] tables_by_name [OF assms(1)]
      by (simp add: r2_def)
  qed
  have r2: "\<not> sr_frozen r2" "sr_relations r2 = relation_graph_new" "sr_tables r2 = sr_tables r"
    by (simp_all add: r2_def r1_def schema_registry_new_def)
  have "\<exists>g. for_each_mut add_relation r2 (rg_edges (sr_relations r)) = (Inr (), r2\<lparr>sr_relations := g\<rparr>)
     \<and> rg_inv g \<and> rg_edges g = rg_edges (sr_relations r2) @ rg_edges (sr_relations r)"
  proof (rule add_relation_all)
    show "\<forall>e \<in> set (rg_edges (sr_relations r)). hm_contains (sr_tables r2) (re_from e)
        \<and> hm_contains (sr_tables r2) (re_to e)"
    proof
      fix e assume "e \<in> set (rg_edges (sr_relations r))"
      then have "re_from e \<in> rg_tables (sr_relations r)" "re_to e \<in> rg_tables (sr_relations r)"
        by (auto simp: rg_tables_def)
      with assms(2) show "hm_contains (sr_tables r2) (re_from e) \<and> hm_contains (sr_tables r2) (re_to e)"
        by (auto simp: sr_closed_def r2 hm_contains_def)
    qed
  qed (use assms(1) r2 sr_inv_new(1) in
    \<open>simp_all add: sr_inv_def rg_unique_def rg_rel_def relation_graph_new_def schema_registry_new_def\<close>)
  then obtain g where g: "for_each_mut add_relation r2 (rg_edges (sr_relations r)) = (Inr (), r2\<lparr>sr_relations := g\<rparr>)"
    "rg_inv g" "rg_edges g = rg_edges (sr_relations r)"
    by (auto simp: r2 relation_graph_new_def)
  have rel: "rg_rel g = rg_rel (sr_relations r)" "rg_unique g"
    using g(3) assms(1) by (simp_all add: rg_rel_def rg_unique_def sr_inv_def)
  have "detect_cycles g (hash_order (concat (map (\<lambda>e. [re_from e, re_to e]) (rg_edges g)))) = []"
    by (rule detect_cycles_acyclic [OF g(2)])
      (use assms(1,3) rel in \<open>simp_all add: rg_tables_def sr_inv_def\<close>)
  with reg g have load: "load_from_manifest hash_order dbg schema_registry_new ?mm = (Inr (), r2\<lparr>sr_relations := g\<rparr>)"
    by (simp add: load_from_manifest_def schema_registry_new_def migrated_new_def export_manifest_eq r1_def)
  have "children_of (r2\<lparr>sr_relations := g\<rparr>) n = children_of r n"
    using assms(1) g by (simp add: children_of_def edges_from_eq sr_inv_def)
  moreover have "sr_inv (r2\<lparr>sr_relations := g\<rparr>)"
    using assms(1) rel g by (simp add: sr_inv_def r2)
  ultimately show ?thesis
    using load g(3) by (intro exI [of _ "r2\<lparr>sr_relations := g\<rparr>"]) (simp add: r2_def r1_def)
qed

definition demo_registry :: "schema_error + schema_registry" where
  "demo_registry =
     rbind (register schema_registry_new (table_spec_new ''army'')) (\<lambda>r1.
     rbind (register r1 (table_spec_new ''unit'')) (\<lambda>r2.
     add_relation r2 \<lparr>re_from = ''army'', re_to = ''unit'', re_kind = Composition,
       re_from_column = ''id'', re_to_column = None\<rparr>))"

lemma demo_registry_ok:
  assumes "demo_registry = Inr r"
  shows "sr_inv r \<and> sr_closed r"
proof -
  from assms obtain r1 r2 e where steps: "register schema_registry_new (table_spec_new ''army'') = Inr r1"
    "register r1 (table_spec_new ''unit'') = Inr r2" "add_relation r2 e = Inr r"
    unfolding demo_registry_def by auto
  have "sr_inv r1" "sr_closed r1"
    using sr_inv_register [OF sr_inv_new(1) steps(1)] sr_closed_register [OF sr_inv_new(2) steps(1)] by simp_all
  then have "sr_inv r2" "sr_closed r2"
    using sr_inv_register [OF _ steps(2)] sr_closed_register [OF _ steps(2)] by simp_all
  then show ?thesis
    using sr_inv_add_relation [OF _ steps(3)] sr_closed_add_relation [OF _ steps(3)] by simp
qed

lemma demo_registry_some: "is_ok demo_registry"
  by (simp add: demo_registry_def register_def schema_registry_new_def table_spec_new_def
    hm_contains_def add_relation_def add_edge_def find_edge_def relation_graph_new_def
    would_create_cycle_def edges_from_def)

theorem export_load_roundtrip_witness:
  "\<exists>r r'. demo_registry = Inr r \<and> load_from_manifest remdups concat schema_registry_new
        (migrated_new (export_manifest r ''1'') ''1'') = (Inr (), r')
     \<and> children_of r' ''army'' = children_of r ''army''"
proof -
  obtain r where r: "demo_registry = Inr r" using demo_registry_some by (auto simp: is_ok_iff)
  with demo_registry_ok [OF r] export_load_roundtrip [of r remdups concat "''1''" "''army''"]
  show ?thesis by fastforce
qed

text \<open>Removing a table does not remove its relations. In a registry with a relation
  between two tables, \<open>remove\<close> succeeds, the graph still has the edge to the table that is
  gone, and the manifest exported from that registry no longer loads.\<close>

theorem registry_remove_dangling:
  "\<exists>r t r'. demo_registry = Inr r \<and> registry_remove r ''unit'' = Inr (t, r')
     \<and> \<not> sr_closed r' \<and> children_of r' ''army'' = [''unit'']
     \<and> fst (load_from_manifest hash_order dbg schema_registry_new
          (migrated_new (export_manifest r' v) v)) = Inl (TableNotFound ''unit'')"
proof -
  let ?e = "\<lparr>re_from = ''army'', re_to = ''unit'', re_kind = Composition,
       re_from_column = ''id'', re_to_column = None\<rparr>"
  let ?g = "\<lparr>rg_edges = [?e], rg_adjacency = [''army'' \<mapsto> [0]]\<rparr>"
  let ?r = "\<lparr>sr_tables = [(''army'', table_spec_new ''army''), (''unit'', table_spec_new ''unit'')],
     sr_relations = ?g, sr_frozen = False, sr_mod_fingerprints = [], sr_migrated_manifest = None\<rparr>"
  let ?r' = "?r\<lparr>sr_tables := [(''army'', table_spec_new ''army'')]\<rparr>"
  have "demo_registry = Inr ?r"
    by (simp add: demo_registry_def register_def schema_registry_new_def table_spec_new_def
      hm_contains_def add_relation_def add_edge_def find_edge_def relation_graph_new_def
      would_create_cycle_def edges_from_def adj_push_def)
  moreover have "registry_remove ?r ''unit'' = Inr (table_spec_new ''unit'', ?r')"
    by (simp add: registry_remove_def)
  moreover have "\<not> sr_closed ?r'" by (auto simp: sr_closed_def rg_tables_def)
  moreover have "children_of ?r' ''army'' = [''unit'']"
    by (simp add: children_of_def edges_from_def List.map_filter_def edges_get_def)
  moreover have "fst (load_from_manifest hash_order dbg schema_registry_new
          (migrated_new (export_manifest ?r' v) v)) = Inl (TableNotFound ''unit'')"
    by (simp add: load_from_manifest_def schema_registry_new_def migrated_new_def export_manifest_eq
      register_def hm_contains_def table_spec_new_def add_relation_def)
  ultimately show ?thesis by blast
qed

end
