(* ===== verification/Migrations.thy ===== *)
theory Migrations
  imports Schema
begin

section \<open>Schema migrations (scharnhorst\_schema: migration.rs)\<close>

text \<open>
  Named steps between schema versions, kept per source version, and the breadth-first
  search for a shortest chain to the target version. The migration functions are data of
  the registry. The search loop is a total function; it is proved sound, complete and
  shortest, and applying the chain it finds never meets a version mismatch.
\<close>

record migration =
  mig_name :: string
  mig_from_version :: string
  mig_to_version :: string
  mig_fn :: "schema_manifest \<Rightarrow> schema_error + schema_manifest"

record migration_registry =
  mr_migrations :: "(string \<times> migration list) list"
  mr_target_version :: string

definition migration_apply :: "migration \<Rightarrow> schema_manifest \<Rightarrow> schema_error + schema_manifest" where
  "migration_apply m man =
     (if sm_schema_version man \<noteq> mig_from_version m
      then Inl (MigrationVersionMismatch (mig_from_version m) (sm_schema_version man))
      else rbind (mig_fn m man) (\<lambda>man'. Inr (man'\<lparr>sm_schema_version := mig_to_version m\<rparr>)))"

definition migration_registry_new :: migration_registry where
  "migration_registry_new = \<lparr>mr_migrations = [], mr_target_version = []\<rparr>"

definition with_target_version :: "migration_registry \<Rightarrow> string \<Rightarrow> migration_registry" where
  "with_target_version r v = r\<lparr>mr_target_version := v\<rparr>"

definition migrations_at :: "migration_registry \<Rightarrow> string \<Rightarrow> migration list" where
  "migrations_at r v = (case hm_get (mr_migrations r) v of None \<Rightarrow> [] | Some ms \<Rightarrow> ms)"

definition migration_register :: "migration_registry \<Rightarrow> migration \<Rightarrow> migration_registry" where
  "migration_register r m =
     r\<lparr>mr_migrations := hm_insert (mig_from_version m)
        (migrations_at r (mig_from_version m) @ [m]) (mr_migrations r)\<rparr>"

type_synonym bfs_queue = "(string \<times> migration list) list"

definition bfs_push :: "migration_registry \<Rightarrow> string \<Rightarrow> migration list \<Rightarrow> bfs_queue" where
  "bfs_push r v path = map (\<lambda>m. (mig_to_version m, path @ [m])) (migrations_at r v)"

function bfs_loop :: "migration_registry \<Rightarrow> string set \<Rightarrow> bfs_queue \<Rightarrow> migration list option" where
  "bfs_loop r visited [] = None"
| "bfs_loop r visited ((current_version, path) # queue) =
     (if current_version = mr_target_version r then Some path
      else if current_version \<in> visited then bfs_loop r visited queue
      else bfs_loop r (insert current_version visited) (queue @ bfs_push r current_version path))"
  by pat_completeness auto

definition bfs_universe :: "migration_registry \<Rightarrow> bfs_queue \<Rightarrow> string set" where
  "bfs_universe r queue =
     fst ` set queue \<union> (\<Union>(v, ms) \<in> set (mr_migrations r). mig_to_version ` set ms)"

lemma finite_bfs_universe [simp]: "finite (bfs_universe r queue)"
  by (auto simp: bfs_universe_def)

lemma bfs_push_universe: "fst ` set (bfs_push r v path) \<subseteq> bfs_universe r queue"
  by (cases "hm_get (mr_migrations r) v")
    (auto simp: bfs_push_def migrations_at_def bfs_universe_def dest!: map_of_SomeD)

termination bfs_loop
proof (relation "(\<lambda>(r, visited, queue). card (bfs_universe r queue - visited))
    <*mlex*> measure (\<lambda>(r, visited, queue). length queue)")
  fix r visited and v :: string and path queue
  show "((r, visited, queue), r, visited, (v, path) # queue)
      \<in> (\<lambda>(r, visited, queue). card (bfs_universe r queue - visited))
        <*mlex*> measure (\<lambda>(r, visited, queue). length queue)"
  proof -
    have "card (bfs_universe r queue - visited) \<le> card (bfs_universe r ((v, path) # queue) - visited)"
      by (rule card_mono) (simp, auto simp: bfs_universe_def)
    then show ?thesis by (auto simp: mlex_prod_def)
  qed
next
  fix r visited and v :: string and path queue
  assume v: "v \<notin> visited"
  have "bfs_universe r (queue @ bfs_push r v path) \<subseteq> bfs_universe r ((v, path) # queue)"
    using bfs_push_universe [of r v path "[]"] by (auto simp: bfs_universe_def)
  moreover have "v \<in> bfs_universe r ((v, path) # queue)" by (simp add: bfs_universe_def)
  ultimately have "card (bfs_universe r (queue @ bfs_push r v path) - insert v visited)
      < card (bfs_universe r ((v, path) # queue) - visited)"
    using v by (intro psubset_card_mono) auto
  then show "((r, insert v visited, queue @ bfs_push r v path), r, visited, (v, path) # queue)
      \<in> (\<lambda>(r, visited, queue). card (bfs_universe r queue - visited))
        <*mlex*> measure (\<lambda>(r, visited, queue). length queue)"
    by (simp add: mlex_prod_def)
qed (auto intro: wf_mlex)

definition find_migration_path :: "migration_registry \<Rightarrow> string \<Rightarrow> migration list option" where
  "find_migration_path r from_version =
     (if from_version = mr_target_version r then Some []
      else bfs_loop r {} [(from_version, [])])"

fun apply_path :: "migration list \<Rightarrow> schema_manifest \<Rightarrow> string list
    \<Rightarrow> schema_error + (schema_manifest \<times> string list)" where
  "apply_path [] man applied = Inr (man, applied)"
| "apply_path (m # ms) man applied =
     rbind (migration_apply m man) (\<lambda>man'. apply_path ms man' (applied @ [mig_name m]))"

definition with_applied_migrations :: "migrated_schema_manifest \<Rightarrow> string list \<Rightarrow> migrated_schema_manifest" where
  "with_applied_migrations mm ns = mm\<lparr>mm_applied_migrations := ns\<rparr>"

definition apply_migrations ::
  "migration_registry \<Rightarrow> schema_manifest \<Rightarrow> schema_error + migrated_schema_manifest" where
  "apply_migrations r man =
     (let original_version = sm_schema_version man in
      if original_version = mr_target_version r then Inr (migrated_new man original_version)
      else rbind (ok_or (find_migration_path r original_version)
             (NoMigrationPath original_version (mr_target_version r))) (\<lambda>path.
           rbind (apply_path path man []) (\<lambda>(man', applied).
           Inr (with_applied_migrations (migrated_new man' original_version) applied))))"

subsection \<open>The search\<close>

fun chain :: "migration_registry \<Rightarrow> string \<Rightarrow> migration list \<Rightarrow> string \<Rightarrow> bool" where
  "chain r v [] w \<longleftrightarrow> v = w"
| "chain r v (m # ms) w \<longleftrightarrow> m \<in> set (migrations_at r v) \<and> chain r (mig_to_version m) ms w"

definition mr_inv :: "migration_registry \<Rightarrow> bool" where
  "mr_inv r \<longleftrightarrow> hm_ok (mr_migrations r) \<and> (\<forall>v. \<forall>m \<in> set (migrations_at r v). mig_from_version m = v)"

lemma chain_snoc: "chain r v (ms @ [m]) w \<longleftrightarrow> (\<exists>u. chain r v ms u \<and> m \<in> set (migrations_at r u) \<and> mig_to_version m = w)"
  by (induction ms arbitrary: v) auto

lemma mr_inv_register [inv_intros]: "mr_inv r \<Longrightarrow> mr_inv (migration_register r m)"
  by (auto simp: mr_inv_def migration_register_def migrations_at_def split: option.splits if_splits)

text \<open>
  The invariant of the search: queue entries are chains from the start in order of length,
  at most one longer than the first; \<open>d\<close> is the length at which a version was visited,
  and each migration from a visited version leads to a version that was visited, or is
  queued, at most one step later.
\<close>

definition bfs_inv :: "migration_registry \<Rightarrow> string \<Rightarrow> (string \<Rightarrow> nat) \<Rightarrow> string set \<Rightarrow> bfs_queue \<Rightarrow> bool" where
  "bfs_inv r src d visited queue \<longleftrightarrow>
     (\<forall>(v, p) \<in> set queue. chain r src p v)
   \<and> sorted (map (length \<circ> snd) queue)
   \<and> (\<forall>(v, p) \<in> set queue. length p \<le> Suc (length (snd (hd queue))))
   \<and> (\<forall>u \<in> visited. \<forall>(v, p) \<in> set queue. d u \<le> length p)
   \<and> mr_target_version r \<notin> visited
   \<and> (src \<in> visited \<and> d src = 0 \<or> (src, []) \<in> set queue)
   \<and> (\<forall>u \<in> visited. \<forall>m \<in> set (migrations_at r u).
        (mig_to_version m \<in> visited \<and> d (mig_to_version m) \<le> Suc (d u))
      \<or> (\<exists>p. (mig_to_version m, p) \<in> set queue \<and> length p \<le> Suc (d u)))"

lemma bfs_prefix:
  assumes inv: "bfs_inv r src d visited queue" and "chain r src ms v"
  shows "(v \<in> visited \<and> d v \<le> length ms) \<or> (\<exists>(w, p) \<in> set queue. length p \<le> length ms)"
  using assms(2)
proof (induction ms arbitrary: v rule: rev_induct)
  case Nil
  then show ?case using inv by (auto simp: bfs_inv_def)
next
  case (snoc m ms)
  then obtain u where u: "chain r src ms u" "m \<in> set (migrations_at r u)" "mig_to_version m = v"
    by (auto simp: chain_snoc)
  from snoc.IH [OF u(1)] show ?case
  proof
    assume "u \<in> visited \<and> d u \<le> length ms"
    with inv u(2,3) have "(v \<in> visited \<and> d v \<le> Suc (d u)) \<or> (\<exists>p. (v, p) \<in> set queue \<and> length p \<le> Suc (d u))"
      unfolding bfs_inv_def by blast
    with \<open>u \<in> visited \<and> d u \<le> length ms\<close> show ?thesis by fastforce
  qed fastforce
qed

lemma bfs_inv_skip:
  assumes "bfs_inv r src d visited ((v, p) # queue)" and "v \<in> visited"
  shows "bfs_inv r src d visited queue"
proof -
  have dv: "d v \<le> length p" using assms by (auto simp: bfs_inv_def)
  have sorted: "sorted (map (length \<circ> snd) queue)" "\<forall>(w, q) \<in> set queue. length p \<le> length q \<and> length q \<le> Suc (length p)"
    using assms(1) by (auto simp: bfs_inv_def)
  then have "\<forall>(w, q) \<in> set queue. length q \<le> Suc (length (snd (hd queue)))"
    by (cases queue) fastforce+
  moreover have "src \<in> visited \<and> d src = 0 \<or> (src, []) \<in> set queue"
    using assms dv by (auto simp: bfs_inv_def)
  moreover have "(mig_to_version m \<in> visited \<and> d (mig_to_version m) \<le> Suc (d u))
      \<or> (\<exists>p. (mig_to_version m, p) \<in> set queue \<and> length p \<le> Suc (d u))"
    if "u \<in> visited" "m \<in> set (migrations_at r u)" for u m
  proof -
    from that assms(1) have "(mig_to_version m \<in> visited \<and> d (mig_to_version m) \<le> Suc (d u))
      \<or> (\<exists>q. (mig_to_version m, q) \<in> set ((v, p) # queue) \<and> length q \<le> Suc (d u))"
      unfolding bfs_inv_def by blast
    with dv assms(2) show ?thesis by auto
  qed
  ultimately show ?thesis using assms(1) sorted unfolding bfs_inv_def by auto
qed

lemma bfs_inv_visit:
  assumes "bfs_inv r src d visited ((v, p) # queue)" and "v \<notin> visited" and "v \<noteq> mr_target_version r"
  shows "bfs_inv r src (d(v := length p)) (insert v visited) (queue @ bfs_push r v p)"
proof -
  have q: "\<forall>(w, q) \<in> set queue. length p \<le> length q \<and> length q \<le> Suc (length p)"
    and s: "sorted (map (length \<circ> snd) queue)" and ch: "chain r src p v"
    using assms(1) by (auto simp: bfs_inv_def)
  have push: "\<forall>(w, q) \<in> set (bfs_push r v p). length q = Suc (length p) \<and> chain r src q w"
    using ch by (auto simp: bfs_push_def chain_snoc)
  have pushed: "(w, x) \<in> set (queue @ bfs_push r v p) \<Longrightarrow> length p \<le> length x \<and> length x \<le> Suc (length p)" for w x
    using q push by fastforce
  have le: "sorted (map (length \<circ> snd) (queue @ bfs_push r v p))"
  proof -
    have "map (length \<circ> snd) (bfs_push r v p) = replicate (length (bfs_push r v p)) (Suc (length p))"
      using push by (intro replicate_eqI) auto
    then show ?thesis using s q by (auto simp: sorted_append)
  qed
  have head: "\<forall>(w, x) \<in> set (queue @ bfs_push r v p). length x \<le> Suc (length (snd (hd (queue @ bfs_push r v p))))"
  proof (cases "queue @ bfs_push r v p")
    case (Cons a b)
    then have "length p \<le> length (snd a)" using pushed [of "fst a" "snd a"] by simp
    then show ?thesis using pushed Cons by (fastforce dest: le_trans)
  qed simp
  have succ: "(mig_to_version m \<in> insert v visited \<and> (d(v := length p)) (mig_to_version m) \<le> Suc ((d(v := length p)) u))
      \<or> (\<exists>q. (mig_to_version m, q) \<in> set (queue @ bfs_push r v p) \<and> length q \<le> Suc ((d(v := length p)) u))"
    if u: "u \<in> insert v visited" and m: "m \<in> set (migrations_at r u)" for u m
  proof (cases "u = v")
    case True
    then have "(mig_to_version m, p @ [m]) \<in> set (bfs_push r v p)" using m by (simp add: bfs_push_def)
    with True show ?thesis by fastforce
  next
    case False
    with u m assms(1) have "(mig_to_version m \<in> visited \<and> d (mig_to_version m) \<le> Suc (d u))
      \<or> (\<exists>q. (mig_to_version m, q) \<in> set ((v, p) # queue) \<and> length q \<le> Suc (d u))"
      unfolding bfs_inv_def by blast
    with False assms(2) show ?thesis by auto
  qed
  have "\<forall>u \<in> insert v visited. \<forall>(w, x) \<in> set (queue @ bfs_push r v p). (d(v := length p)) u \<le> length x"
    using assms(1) pushed by (fastforce simp: bfs_inv_def dest: le_trans)
  moreover have "src \<in> insert v visited \<and> (d(v := length p)) src = 0 \<or> (src, []) \<in> set (queue @ bfs_push r v p)"
    using assms(1,2) by (auto simp: bfs_inv_def)
  moreover have "\<forall>(w, x) \<in> set (queue @ bfs_push r v p). chain r src x w"
    using assms(1) push by (auto simp: bfs_inv_def)
  ultimately show ?thesis
    unfolding bfs_inv_def using le head succ assms by (auto simp: bfs_inv_def)
qed

lemma bfs_loop_correct:
  assumes "bfs_inv r src d visited queue"
  shows "case bfs_loop r visited queue of
      None \<Rightarrow> \<not> (\<exists>ms. chain r src ms (mr_target_version r))
    | Some p \<Rightarrow> chain r src p (mr_target_version r)
        \<and> (\<forall>ms. chain r src ms (mr_target_version r) \<longrightarrow> length p \<le> length ms)"
  using assms
proof (induction r visited queue arbitrary: d rule: bfs_loop.induct)
  case (1 r visited)
  then show ?case using bfs_prefix [OF 1] by (auto simp: bfs_inv_def)
next
  case (2 r visited v p queue)
  show ?case
  proof (cases "v = mr_target_version r")
    case True
    have "length p \<le> length ms" if "chain r src ms v" for ms
    proof -
      have "v \<notin> visited" using "2.prems" True by (simp add: bfs_inv_def)
      with bfs_prefix [OF "2.prems" that]
      obtain w q where "(w, q) \<in> set ((v, p) # queue)" "length q \<le> length ms" by fastforce
      moreover have "\<forall>(w, q) \<in> set ((v, p) # queue). length p \<le> length q"
        using "2.prems" by (auto simp: bfs_inv_def)
      ultimately show ?thesis by fastforce
    qed
    with True "2.prems" show ?thesis by (simp add: bfs_inv_def)
  next
    case False
    then show ?thesis
    proof (cases "v \<in> visited")
      case True
      from "2.IH"(1) [OF False True bfs_inv_skip [OF "2.prems" True]] False True show ?thesis by simp
    next
      case new: False
      from "2.IH"(2) [OF False new bfs_inv_visit [OF "2.prems" new False]] False new show ?thesis by simp
    qed
  qed
qed

lemma find_migration_path_spec:
  "case find_migration_path r src of
      None \<Rightarrow> \<not> (\<exists>ms. chain r src ms (mr_target_version r))
    | Some p \<Rightarrow> chain r src p (mr_target_version r)
        \<and> (\<forall>ms. chain r src ms (mr_target_version r) \<longrightarrow> length p \<le> length ms)"
proof (cases "src = mr_target_version r")
  case False
  have "bfs_inv r src (\<lambda>_. 0) {} [(src, [])]" by (simp add: bfs_inv_def)
  from bfs_loop_correct [OF this] False show ?thesis by (simp add: find_migration_path_def)
qed (simp add: find_migration_path_def)

text \<open>The migration search returns a shortest chain of registered migrations from the
  saved version to the target version, and fails only when there is no chain at all; it
  terminates on every registry, cycles between versions included.\<close>

theorem find_migration_path_shortest:
  "(find_migration_path r src = None \<longleftrightarrow> \<not> (\<exists>ms. chain r src ms (mr_target_version r)))
   \<and> (\<forall>p. find_migration_path r src = Some p \<longrightarrow>
        chain r src p (mr_target_version r)
      \<and> (\<forall>ms. chain r src ms (mr_target_version r) \<longrightarrow> length p \<le> length ms))"
  using find_migration_path_spec [of r src] by (auto split: option.splits)

definition demo_migration :: "string \<Rightarrow> string \<Rightarrow> migration" where
  "demo_migration a b = \<lparr>mig_name = a @ ''_'' @ b, mig_from_version = a, mig_to_version = b, mig_fn = Inr\<rparr>"

definition demo_migrations :: migration_registry where
  "demo_migrations = with_target_version (foldl migration_register migration_registry_new
     [demo_migration ''1'' ''2'', demo_migration ''2'' ''1'', demo_migration ''2'' ''3'',
      demo_migration ''1'' ''3'']) ''3''"

lemma demo_migrations_simps:
  "mr_migrations demo_migrations =
      [(''1'', [demo_migration ''1'' ''2'', demo_migration ''1'' ''3'']),
       (''2'', [demo_migration ''2'' ''1'', demo_migration ''2'' ''3''])]"
  "mr_target_version demo_migrations = ''3''"
  by (simp_all add: demo_migrations_def with_target_version_def migration_register_def
    migration_registry_new_def migrations_at_def demo_migration_def)

theorem find_migration_path_shortest_witness:
  "find_migration_path demo_migrations ''1'' = Some [demo_migration ''1'' ''3'']
   \<and> chain demo_migrations ''1'' [demo_migration ''1'' ''3''] ''3''"
proof -
  have "find_migration_path demo_migrations ''1'' = Some [demo_migration ''1'' ''3'']"
    by (simp add: find_migration_path_def demo_migrations_simps bfs_push_def migrations_at_def)
       (simp add: demo_migration_def)
  then show ?thesis using find_migration_path_shortest [of demo_migrations "''1''"] demo_migrations_simps(2) by auto
qed

subsection \<open>Applying the chain\<close>

lemma apply_path_version:
  assumes "mr_inv r" and "chain r (sm_schema_version man) path w"
    and "apply_path path man applied = Inr (man', applied')"
  shows "sm_schema_version man' = w \<and> applied' = applied @ map mig_name path"
  using assms(2,3)
proof (induction path arbitrary: man applied)
  case (Cons m ms)
  then obtain man1 where man1: "migration_apply m man = Inr man1"
    "apply_path ms man1 (applied @ [mig_name m]) = Inr (man', applied')" by auto
  then have "sm_schema_version man1 = mig_to_version m"
    by (auto simp: migration_apply_def split: if_splits)
  with Cons.IH [of man1 "applied @ [mig_name m]"] Cons.prems(1) man1(2) show ?case by simp
qed auto

lemma apply_path_error:
  assumes "mr_inv r" and "chain r (sm_schema_version man) path w" and "apply_path path man applied = Inl e"
  shows "\<exists>m \<in> set path. \<exists>x. mig_fn m x = Inl e"
  using assms(2,3)
proof (induction path arbitrary: man applied)
  case (Cons m ms)
  then have from_v: "mig_from_version m = sm_schema_version man"
    using assms(1) by (auto simp: mr_inv_def)
  show ?case
  proof (cases "migration_apply m man")
    case (Inl e')
    with Cons.prems(2) have "e' = e" by simp
    with Inl from_v show ?thesis by (auto simp: migration_apply_def rbind_Inl_iff)
  next
    case (Inr man1)
    then have "sm_schema_version man1 = mig_to_version m"
      by (auto simp: migration_apply_def split: if_splits)
    with Cons.IH [of man1 "applied @ [mig_name m]"] Cons.prems Inr show ?thesis by auto
  qed
qed simp



end
