(* ===== verification/Content.thy ===== *)
theory Content
  imports Migrations "HOL-Library.Char_ord" "HOL-Library.List_Lexorder" "HOL-Library.Multiset"
begin

section \<open>The content loader (scharnhorst\_content)\<close>

text \<open>
  lifecycle.rs (the six load phases and the coordinator loop), overlay.rs (mod overlays
  merged by priority), name\_resolution.rs (stable identifiers per name and table),
  fingerprint.rs (content hashes and their comparison) and manifest.rs. The coordinator
  runs a caller-supplied phase runner, which may fail and may keep its own state; the loop
  is a partial function, \<open>None\<close> meaning that it does not return. A panic of the source
  (overflow of an unchecked addition in a build with overflow checks) is a value.
\<close>

unbundle bit_operations_syntax

datatype content_error =
    OverlayNotFound string
  | OverlayConflict string
  | NameResolutionFailed string
  | DuplicateName string
  | CompilationFailed string string
  | SchemaMismatch string string
  | ModFingerprintMismatch string string string
  | ContentManifestSerialization string
  | InvalidPhaseTransition string string
  | PhaseAlreadyCompleted string
  | ContentRegistryFrozen
  | ContentIo string
  | ContentGeneric string
  | ContentCore core_error
  | ContentSchema schema_error
  | ContentArrowStore string

subsection \<open>lifecycle.rs\<close>

datatype load_phase =
    SnapshotDeserialize
  | ModCoordination
  | SchemaMigration
  | ContentCompilation
  | SchemaFreeze
  | SimulationStart

fun phase_ord :: "load_phase \<Rightarrow> nat" where
  "phase_ord SnapshotDeserialize = 0"
| "phase_ord ModCoordination = 1"
| "phase_ord SchemaMigration = 2"
| "phase_ord ContentCompilation = 3"
| "phase_ord SchemaFreeze = 4"
| "phase_ord SimulationStart = 5"

lemma phase_ord_inj: "phase_ord a = phase_ord b \<Longrightarrow> a = b"
  by (cases a; cases b) simp_all

instantiation load_phase :: linorder
begin

definition less_eq_load_phase :: "load_phase \<Rightarrow> load_phase \<Rightarrow> bool" where
  "less_eq_load_phase a b \<longleftrightarrow> phase_ord a \<le> phase_ord b"

definition less_load_phase :: "load_phase \<Rightarrow> load_phase \<Rightarrow> bool" where
  "less_load_phase a b \<longleftrightarrow> phase_ord a < phase_ord b"

instance
  by standard (auto simp: less_eq_load_phase_def less_load_phase_def intro: phase_ord_inj)

end

fun load_phase_name :: "load_phase \<Rightarrow> string" where
  "load_phase_name SnapshotDeserialize = ''SnapshotDeserialize''"
| "load_phase_name ModCoordination = ''ModCoordination''"
| "load_phase_name SchemaMigration = ''SchemaMigration''"
| "load_phase_name ContentCompilation = ''ContentCompilation''"
| "load_phase_name SchemaFreeze = ''SchemaFreeze''"
| "load_phase_name SimulationStart = ''SimulationStart''"

fun load_phase_next :: "load_phase \<Rightarrow> load_phase option" where
  "load_phase_next SnapshotDeserialize = Some ModCoordination"
| "load_phase_next ModCoordination = Some SchemaMigration"
| "load_phase_next SchemaMigration = Some ContentCompilation"
| "load_phase_next ContentCompilation = Some SchemaFreeze"
| "load_phase_next SchemaFreeze = Some SimulationStart"
| "load_phase_next SimulationStart = None"

record load_lifecycle =
  ll_current :: "load_phase option"
  ll_completed :: "load_phase list"
  ll_manifest :: "schema_manifest option"
  ll_migrated :: "migrated_schema_manifest option"
  ll_final_mods :: "mod_fingerprint list"
  ll_frozen :: bool

definition load_lifecycle_new :: load_lifecycle where
  "load_lifecycle_new = \<lparr>ll_current = None, ll_completed = [], ll_manifest = None, ll_migrated = None,
     ll_final_mods = [], ll_frozen = False\<rparr>"

definition advance :: "load_lifecycle \<Rightarrow> content_error + (load_phase \<times> load_lifecycle)" where
  "advance l =
     rbind (case ll_current l of
        None \<Rightarrow> Inr SnapshotDeserialize
      | Some phase \<Rightarrow> ok_or (load_phase_next phase)
          (InvalidPhaseTransition (load_phase_name phase) ''(none)'')) (\<lambda>next.
     case ll_current l of
        None \<Rightarrow> Inr (next, l\<lparr>ll_current := Some next\<rparr>)
      | Some current \<Rightarrow>
          if current \<in> set (ll_completed l) then Inl (PhaseAlreadyCompleted (load_phase_name current))
          else Inr (next, l\<lparr>ll_completed := ll_completed l @ [current], ll_current := Some next\<rparr>))"

definition finish :: "load_lifecycle \<Rightarrow> load_lifecycle" where
  "finish l =
     (case ll_current l of
        None \<Rightarrow> l
      | Some current \<Rightarrow>
          if current \<in> set (ll_completed l) then l
          else l\<lparr>ll_completed := ll_completed l @ [current]\<rparr>)\<lparr>ll_current := None\<rparr>"

definition start_phase :: "load_lifecycle \<Rightarrow> load_phase \<Rightarrow> content_error + load_lifecycle" where
  "start_phase l phase =
     (case ll_current l of
        Some current \<Rightarrow>
          if current \<ge> phase
          then Inl (InvalidPhaseTransition (load_phase_name current) (load_phase_name phase))
          else Inr (l\<lparr>ll_current := Some phase\<rparr>)
      | None \<Rightarrow> Inr (l\<lparr>ll_current := Some phase\<rparr>))"

definition is_completed :: "load_lifecycle \<Rightarrow> load_phase \<Rightarrow> bool" where
  "is_completed l p \<longleftrightarrow> p \<in> set (ll_completed l)"

definition is_finished :: "load_lifecycle \<Rightarrow> bool" where
  "is_finished l \<longleftrightarrow> length (ll_completed l) = 6"

text \<open>
  The coordinator loop. \<open>phase_runner\<close> gets the closure state, the lifecycle and the
  phase, and returns its result with the two states it leaves.
\<close>

type_synonym 'w phase_runner =
  "'w \<Rightarrow> load_lifecycle \<Rightarrow> load_phase \<Rightarrow> (content_error + unit) \<times> load_lifecycle \<times> 'w"

partial_function (option) coordinator_run ::
  "'w phase_runner \<Rightarrow> 'w \<Rightarrow> load_lifecycle \<Rightarrow> ((content_error + load_lifecycle) \<times> 'w) option" where
  "coordinator_run phase_runner w lifecycle =
     (case advance lifecycle of
        Inl e \<Rightarrow> Some (Inl e, w)
      | Inr (phase, l1) \<Rightarrow>
         (case phase_runner w l1 phase of
            (Inl e, l2, w') \<Rightarrow> Some (Inl e, w')
          | (Inr _, l2, w') \<Rightarrow>
             (if ll_current l2 = Some SimulationStart then Some (Inr (finish l2), w')
              else coordinator_run phase_runner w' l2)))"

subsection \<open>overlay.rs\<close>

datatype merge_strategy = MReplace | MAppend | MPrepend | MAdd | MMin | MMax

record overlay_entry =
  oe_path :: string
  oe_value :: string
  oe_strategy :: merge_strategy

record overlay_layer =
  ol_mod_id :: string
  ol_priority :: int
  ol_entries :: "(string \<times> overlay_entry) list"

definition overlay_layer_new :: "string \<Rightarrow> int \<Rightarrow> overlay_layer" where
  "overlay_layer_new m p = \<lparr>ol_mod_id = m, ol_priority = p, ol_entries = []\<rparr>"

definition with_entry :: "overlay_layer \<Rightarrow> overlay_entry \<Rightarrow> overlay_layer" where
  "with_entry l e = l\<lparr>ol_entries := hm_insert (oe_path e) e (ol_entries l)\<rparr>"

definition layer_get :: "overlay_layer \<Rightarrow> string \<Rightarrow> overlay_entry option" where
  "layer_get l path = hm_get (ol_entries l) path"

record overlay_resolver =
  or_base :: "(string \<times> string) list"
  or_layers :: "overlay_layer list"

definition overlay_resolver_new :: overlay_resolver where
  "overlay_resolver_new = \<lparr>or_base = [], or_layers = []\<rparr>"

definition with_base :: "overlay_resolver \<Rightarrow> string \<Rightarrow> string \<Rightarrow> overlay_resolver" where
  "with_base r path v = r\<lparr>or_base := hm_insert path v (or_base r)\<rparr>"

definition add_layer :: "overlay_resolver \<Rightarrow> overlay_layer \<Rightarrow> overlay_resolver" where
  "add_layer r l = r\<lparr>or_layers := sort_key ol_priority (or_layers r @ [l])\<rparr>"

text \<open>
  \<open>overflow_checks\<close> is the build setting: with it an \<open>i64\<close> addition that overflows
  panics, without it the sum wraps.
\<close>

datatype overlay_fault = Panicked | Failed content_error

definition wrap_i64 :: "int \<Rightarrow> int" where
  "wrap_i64 i = (i + 2 ^ 63) mod 2 ^ 64 - 2 ^ 63"

definition plain_add_i64 :: "bool \<Rightarrow> int \<Rightarrow> int \<Rightarrow> overlay_fault + int" where
  "plain_add_i64 overflow_checks a b =
     (if in_i64 (a + b) then Inr (a + b)
      else if overflow_checks then Inl Panicked else Inr (wrap_i64 (a + b)))"

definition parse_operands :: "string \<Rightarrow> string \<Rightarrow> string \<Rightarrow> overlay_fault + (int \<times> int)" where
  "parse_operands verb base overlay =
     rbind (map_err (\<lambda>_. Failed (OverlayConflict (''cannot '' @ verb @ '' non-integer base: '' @ base)))
       (parse_i64 base)) (\<lambda>b.
     rbind (map_err (\<lambda>_. Failed (OverlayConflict (''cannot '' @ verb @ '' non-integer overlay: '' @ overlay)))
       (parse_i64 overlay)) (\<lambda>ov. Inr (b, ov)))"

fun apply_strategy :: "bool \<Rightarrow> string \<Rightarrow> string \<Rightarrow> merge_strategy \<Rightarrow> overlay_fault + string" where
  "apply_strategy oc base overlay MReplace = Inr overlay"
| "apply_strategy oc base overlay MAppend = Inr (base @ overlay)"
| "apply_strategy oc base overlay MPrepend = Inr (overlay @ base)"
| "apply_strategy oc base overlay MAdd =
     rbind (parse_operands ''add'' base overlay) (\<lambda>(b, ov).
     rbind (plain_add_i64 oc b ov) (\<lambda>r. Inr (show_int r)))"
| "apply_strategy oc base overlay MMin =
     rbind (parse_operands ''min'' base overlay) (\<lambda>(b, ov). Inr (show_int (min b ov)))"
| "apply_strategy oc base overlay MMax =
     rbind (parse_operands ''max'' base overlay) (\<lambda>(b, ov). Inr (show_int (max b ov)))"

definition overlay_resolve :: "bool \<Rightarrow> overlay_resolver \<Rightarrow> string \<Rightarrow> overlay_fault + string" where
  "overlay_resolve oc r path =
     rbind (ok_or (hm_get (or_base r) path) (Failed (OverlayNotFound path))) (\<lambda>base.
     try_fold (\<lambda>current layer. case layer_get layer path of
         None \<Rightarrow> Inr current
       | Some entry \<Rightarrow> apply_strategy oc current (oe_value entry) (oe_strategy entry))
       base (or_layers r))"

definition known_paths :: "overlay_resolver \<Rightarrow> string list" where
  "known_paths r = map fst (or_base r) @ concat (map (\<lambda>l. map fst (ol_entries l)) (or_layers r))"

definition overlay_apply :: "bool \<Rightarrow> overlay_resolver \<Rightarrow> overlay_fault + (string \<times> string) list" where
  "overlay_apply oc r =
     try_fold (\<lambda>result path. rbind (overlay_resolve oc r path) (\<lambda>v. Inr (hm_insert path v result)))
       [] (known_paths r)"

subsection \<open>name\_resolution.rs\<close>

record name_resolver =
  nr_name_to_id :: "(string \<times> row_id) list"
  nr_id_to_name :: "(row_id \<times> string) list"
  nr_next_id :: u64

definition name_resolver_new :: name_resolver where
  "name_resolver_new = \<lparr>nr_name_to_id = [], nr_id_to_name = [], nr_next_id = 0\<rparr>"

definition saturating_succ :: "u64 \<Rightarrow> u64" where
  "saturating_succ w = (if w = - 1 then w else w + 1)"

definition assign_id :: "name_resolver \<Rightarrow> string \<Rightarrow> row_id \<times> name_resolver" where
  "assign_id r name =
     (let i = RowId (nr_next_id r) in
      (i, r\<lparr>nr_next_id := saturating_succ (nr_next_id r),
            nr_name_to_id := hm_insert name i (nr_name_to_id r),
            nr_id_to_name := hm_insert i name (nr_id_to_name r)\<rparr>))"

definition name_register :: "name_resolver \<Rightarrow> string \<Rightarrow> content_error + (row_id \<times> name_resolver)" where
  "name_register r name =
     (if hm_contains (nr_name_to_id r) name then Inl (DuplicateName name) else Inr (assign_id r name))"

definition name_resolve :: "name_resolver \<Rightarrow> string \<Rightarrow> content_error + row_id" where
  "name_resolve r name = ok_or (hm_get (nr_name_to_id r) name) (NameResolutionFailed name)"

definition name_of :: "name_resolver \<Rightarrow> row_id \<Rightarrow> content_error + string" where
  "name_of r i = ok_or (hm_get (nr_id_to_name r) i) (NameResolutionFailed (show_u64 (row_id_as_u64 i)))"

definition resolve_or_assign :: "name_resolver \<Rightarrow> string \<Rightarrow> row_id \<times> name_resolver" where
  "resolve_or_assign r name =
     (case hm_get (nr_name_to_id r) name of Some i \<Rightarrow> (i, r) | None \<Rightarrow> assign_id r name)"

record namespace_resolver =
  ns_tables :: "(string \<times> name_resolver) list"
  ns_next_id :: u64

definition namespace_resolver_new :: namespace_resolver where
  "namespace_resolver_new = \<lparr>ns_tables = [], ns_next_id = 0\<rparr>"

definition ns_entry :: "namespace_resolver \<Rightarrow> string \<Rightarrow> name_resolver" where
  "ns_entry ns table =
     (case hm_get (ns_tables ns) table of None \<Rightarrow> name_resolver_new | Some r \<Rightarrow> r)\<lparr>nr_next_id := ns_next_id ns\<rparr>"

text \<open>
  \<open>namespace(table)\<close> hands out a mutable reference; \<open>f\<close> is what the caller does with it.
\<close>

definition namespace_with :: "namespace_resolver \<Rightarrow> string \<Rightarrow> (name_resolver \<Rightarrow> name_resolver) \<Rightarrow> namespace_resolver" where
  "namespace_with ns table f = ns\<lparr>ns_tables := hm_insert table (f (ns_entry ns table)) (ns_tables ns)\<rparr>"

definition sync_next_id :: "namespace_resolver \<Rightarrow> namespace_resolver" where
  "sync_next_id ns = ns\<lparr>ns_next_id :=
     (if ns_tables ns = [] then 0 else Max (set (map (nr_next_id \<circ> snd) (ns_tables ns))))\<rparr>"

definition ns_resolve :: "namespace_resolver \<Rightarrow> string \<Rightarrow> string \<Rightarrow> content_error + row_id" where
  "ns_resolve ns table name =
     rbind (ok_or (hm_get (ns_tables ns) table) (NameResolutionFailed (''table: '' @ table)))
       (\<lambda>r. name_resolve r name)"

definition ns_resolve_or_assign :: "namespace_resolver \<Rightarrow> string \<Rightarrow> string \<Rightarrow> row_id \<times> namespace_resolver" where
  "ns_resolve_or_assign ns table name =
     (let (i, r) = resolve_or_assign (ns_entry ns table) name in
      (i, ns\<lparr>ns_tables := hm_insert table r (ns_tables ns), ns_next_id := nr_next_id r\<rparr>))"

definition ns_name_of :: "namespace_resolver \<Rightarrow> string \<Rightarrow> row_id \<Rightarrow> content_error + string" where
  "ns_name_of ns table i =
     rbind (ok_or (hm_get (ns_tables ns) table) (NameResolutionFailed (''table: '' @ table)))
       (\<lambda>r. name_of r i)"

subsection \<open>fingerprint.rs and manifest.rs\<close>

definition fxhash64 :: "string \<Rightarrow> u64" where
  "fxhash64 data = foldl (\<lambda>h c. (h * 0x00000100000001b3) XOR of_nat (of_char c)) 0x517cc1b727220a95 data"

fun semantic_debug :: "(string \<Rightarrow> string) \<Rightarrow> field_semantic \<Rightarrow> string" where
  "semantic_debug ds SemId = ''Id''"
| "semantic_debug ds (ForeignKey t) = ''ForeignKey { target_table: '' @ ds t @ '' }''"
| "semantic_debug ds SemName = ''Name''"
| "semantic_debug ds Tag = ''Tag''"
| "semantic_debug ds Position2D = ''Position2D''"
| "semantic_debug ds Position3D = ''Position3D''"
| "semantic_debug ds Quantity = ''Quantity''"
| "semantic_debug ds Percent = ''Percent''"
| "semantic_debug ds DurationTicks = ''DurationTicks''"
| "semantic_debug ds Timestamp = ''Timestamp''"
| "semantic_debug ds Raw = ''Raw''"

fun join :: "string \<Rightarrow> string list \<Rightarrow> string" where
  "join sep [] = []"
| "join sep [x] = x"
| "join sep (x # xs) = x @ sep @ join sep xs"

fun show_hex_nat :: "nat \<Rightarrow> string" where
  "show_hex_nat n =
     (let d = (\<lambda>k. if k < 10 then digit_char k else char_of (87 + k)) in
      if n < 16 then [d n] else show_hex_nat (n div 16) @ [d (n mod 16)])"

declare show_hex_nat.simps [simp del]

definition spec_text :: "(string \<Rightarrow> string) \<Rightarrow> table_spec \<Rightarrow> string" where
  "spec_text ds spec = '':'' @ ts_name spec @ concat (map (\<lambda>col.
     ''|'' @ col_name col @ ''='' @ col_storage_type col @ '':'' @ semantic_debug ds (col_semantic col)
       @ (if col_nullable col then ''?n'' else [])) (ts_columns spec))"

definition hash_text :: "(string \<Rightarrow> string) \<Rightarrow> mod_fingerprint \<Rightarrow> string \<Rightarrow> table_spec list \<Rightarrow> string" where
  "hash_text ds fp seed specs =
     mf_mod_id fp @ '':'' @ mf_version fp @ '':'' @ join '','' (sort (mf_table_specs fp)) @ '':'' @ seed
     @ concat (map (spec_text ds)
         (sort_key ts_name (filter (\<lambda>s. ts_name s \<in> set (mf_table_specs fp)) specs)))"

text \<open>\<open>ds\<close> is the \<open>Debug\<close> form of a string (quotes and escapes).\<close>

definition compute_hash :: "(string \<Rightarrow> string) \<Rightarrow> mod_fingerprint \<Rightarrow> string \<Rightarrow> table_spec list \<Rightarrow> mod_fingerprint" where
  "compute_hash ds fp seed specs =
     fp\<lparr>mf_content_hash := show_hex_nat (unat (fxhash64 (hash_text ds fp seed specs)))\<rparr>"

record fingerprint_comparison =
  fc_missing :: "mod_fingerprint list"
  fc_extra :: "mod_fingerprint list"
  fc_mismatched :: "(mod_fingerprint \<times> mod_fingerprint) list"

definition fingerprints_compare :: "mod_fingerprint list \<Rightarrow> mod_fingerprint list \<Rightarrow> fingerprint_comparison" where
  "fingerprints_compare stored available =
     (let stored_ids = set (map mf_mod_id stored); available_ids = set (map mf_mod_id available) in
      \<lparr>fc_missing = filter (\<lambda>fp. mf_mod_id fp \<notin> available_ids) stored,
       fc_extra = filter (\<lambda>fp. mf_mod_id fp \<notin> stored_ids) available,
       fc_mismatched = List.map_filter (\<lambda>s.
         case find (\<lambda>a. mf_mod_id a = mf_mod_id s) available of
           None \<Rightarrow> None
         | Some a \<Rightarrow> if mf_content_hash a \<noteq> mf_content_hash s \<or> mf_version a \<noteq> mf_version s
             then Some (s, a) else None) stored\<rparr>)"

definition is_exact_match :: "fingerprint_comparison \<Rightarrow> bool" where
  "is_exact_match c \<longleftrightarrow> fc_missing c = [] \<and> fc_extra c = [] \<and> fc_mismatched c = []"

definition manifest_from_registry :: "schema_registry \<Rightarrow> mod_fingerprint list \<Rightarrow> string \<Rightarrow> schema_manifest" where
  "manifest_from_registry r fps ev =
     (let tables = List.map_filter (\<lambda>n. case registry_get r n of Inl _ \<Rightarrow> None | Inr t \<Rightarrow> Some t)
                     (map fst (sr_tables r));
          m0 = with_metadata (schema_manifest_new ev) ''engine_version'' ev;
          m1 = foldl with_table m0 tables;
          m2 = foldl with_relation m1 (rg_edges (sr_relations r))
      in foldl with_mod_fingerprint m2 fps)"

definition manifest_engine_version :: "schema_manifest \<Rightarrow> string" where
  "manifest_engine_version m =
     (case hm_get (sm_metadata m) ''engine_version'' of None \<Rightarrow> sm_schema_version m | Some v \<Rightarrow> v)"

definition migrated_from_manifest :: "schema_manifest \<Rightarrow> string \<Rightarrow> migrated_schema_manifest" where
  "migrated_from_manifest m tv =
     (let n0 = schema_manifest_new tv;
          n1 = foldl with_table n0 (sm_tables m);
          n2 = foldl with_relation n1 (sm_relations m);
          n3 = foldl with_mod_fingerprint n2 (sm_mod_fingerprints m);
          n4 = foldl (\<lambda>n (k, v). with_metadata n k v) n3 (sm_metadata m)
      in migrated_new n4 (sm_schema_version m))"

subsection \<open>The load lifecycle\<close>

inductive lifecycle_reachable :: "load_lifecycle \<Rightarrow> bool" where
  lr_new: "lifecycle_reachable load_lifecycle_new"
| lr_advance: "lifecycle_reachable l \<Longrightarrow> advance l = Inr (p, l') \<Longrightarrow> lifecycle_reachable l'"
| lr_finish: "lifecycle_reachable l \<Longrightarrow> lifecycle_reachable (finish l)"
| lr_start: "lifecycle_reachable l \<Longrightarrow> start_phase l p = Inr l' \<Longrightarrow> lifecycle_reachable l'"

definition all_phases :: "load_phase list" where
  "all_phases = [SnapshotDeserialize, ModCoordination, SchemaMigration, ContentCompilation,
     SchemaFreeze, SimulationStart]"

lemma set_all_phases: "set all_phases = UNIV"
  using load_phase.exhaust by (auto simp: all_phases_def)

lemma reachable_distinct: "lifecycle_reachable l \<Longrightarrow> distinct (ll_completed l)"
proof (induction rule: lifecycle_reachable.induct)
  case (lr_advance l p l')
  then show ?case by (auto simp: advance_def split: option.splits if_splits)
next
  case (lr_finish l)
  then show ?case by (auto simp: finish_def split: option.splits)
next
  case (lr_start l p l')
  then show ?case by (auto simp: start_phase_def split: option.splits if_splits)
qed (simp add: load_lifecycle_new_def)

lemma advance_current: "advance l = Inr (p, l') \<Longrightarrow> ll_current l' = Some p"
  by (auto simp: advance_def split: option.splits if_splits)

lemma advance_increases: "advance l = Inr (p, l') \<Longrightarrow> ll_current l = Some q \<Longrightarrow> q < p"
  by (cases q) (auto simp: advance_def less_load_phase_def split: if_splits)

text \<open>For every lifecycle reached by any sequence of \<open>advance\<close>, \<open>finish\<close> and \<open>start_phase\<close>
  calls, no phase is recorded twice, and the test by length in \<open>is_finished\<close> holds exactly
  when all six phases are completed; \<open>advance\<close> and \<open>start_phase\<close> only move forward.\<close>

theorem lifecycle_finished_iff:
  assumes "lifecycle_reachable l"
  shows "distinct (ll_completed l) \<and> (is_finished l \<longleftrightarrow> (\<forall>p. is_completed l p))
     \<and> (\<forall>p l' q. advance l = Inr (p, l') \<and> ll_current l = Some q \<longrightarrow> q < p)
     \<and> (\<forall>p l' q. start_phase l p = Inr l' \<and> ll_current l = Some q \<longrightarrow> q < p)"
proof -
  have d: "distinct (ll_completed l)" by (rule reachable_distinct [OF assms])
  have c6: "card (UNIV :: load_phase set) = 6"
    unfolding set_all_phases [symmetric] by (subst distinct_card) (simp_all add: all_phases_def)
  have fin: "finite (UNIV :: load_phase set)" unfolding set_all_phases [symmetric] by simp
  have "length (ll_completed l) = card (set (ll_completed l))" using d by (simp add: distinct_card)
  then have "is_finished l \<longleftrightarrow> set (ll_completed l) = UNIV"
    using c6 card_subset_eq [OF fin, of "set (ll_completed l)"] by (auto simp: is_finished_def)
  then show ?thesis
    using d advance_increases
    by (auto simp: is_completed_def start_phase_def split: if_splits)
qed

theorem lifecycle_finished_iff_witness:
  "\<not> is_finished (finish load_lifecycle_new) \<and> \<not> is_completed (finish load_lifecycle_new) SchemaFreeze"
proof -
  have "lifecycle_reachable (finish load_lifecycle_new)" by (intro lr_finish lr_new)
  from lifecycle_finished_iff [OF this] show ?thesis
    by (simp add: is_completed_def finish_def load_lifecycle_new_def)
qed

text \<open>
  What the coordinator is meant to do: hand the phases to the runner one after the other,
  stop at its first error, and mark everything completed at the end.
\<close>

definition enter_phase :: "load_lifecycle \<Rightarrow> load_phase \<Rightarrow> load_lifecycle" where
  "enter_phase l p = l\<lparr>ll_completed := ll_completed l @ (case ll_current l of None \<Rightarrow> [] | Some c \<Rightarrow> [c]),
     ll_current := Some p\<rparr>"

fun drive :: "'w phase_runner \<Rightarrow> load_phase list \<Rightarrow> 'w \<Rightarrow> load_lifecycle \<Rightarrow> (content_error + load_lifecycle) \<times> 'w" where
  "drive runner [] w l = (Inr (finish l), w)"
| "drive runner (p # ps) w l =
     (case runner w (enter_phase l p) p of
        (Inl e, l', w') \<Rightarrow> (Inl e, w')
      | (Inr _, l', w') \<Rightarrow> drive runner ps w' l')"

definition runner_keeps_phase :: "'w phase_runner \<Rightarrow> bool" where
  "runner_keeps_phase runner \<longleftrightarrow> (\<forall>w l p. case runner w l p of
     (r, l', w') \<Rightarrow> ll_current l' = ll_current l \<and> ll_completed l' = ll_completed l)"

lemma advance_enter:
  assumes "ll_current l = Some c" and "load_phase_next c = Some p" and "c \<notin> set (ll_completed l)"
  shows "advance l = Inr (p, enter_phase l p)"
  using assms by (simp add: advance_def enter_phase_def)

lemma coordinator_from:
  assumes keeps: "runner_keeps_phase runner"
    and "all_phases = done @ c # ps" and "ll_current l = Some c" and "ll_completed l = done" and "ps \<noteq> []"
  shows "coordinator_run runner w l = Some (drive runner ps w l)"
  using assms(2-)
proof (induction ps arbitrary: "done" c l w)
  case (Cons p ps)
  have "distinct (done @ c # p # ps)" unfolding Cons.prems(1) [symmetric] by (simp add: all_phases_def)
  then have "c \<notin> set (ll_completed l)" using Cons.prems(3) by auto
  moreover have "load_phase_next c = Some p"
    using Cons.prems(1) unfolding all_phases_def
    by (auto simp: Cons_eq_append_conv)
  ultimately have adv: "advance l = Inr (p, enter_phase l p)"
    using advance_enter [OF Cons.prems(2)] by simp
  obtain r l' w' where run: "runner w (enter_phase l p) p = (r, l', w')" by (cases "runner w (enter_phase l p) p")
  then have l': "ll_current l' = Some p" "ll_completed l' = done @ [c]"
    using keeps Cons.prems(2,3) by (auto simp: runner_keeps_phase_def enter_phase_def dest!: spec [of _ w] spec [of _ "enter_phase l p"] spec [of _ p])
  show ?case
  proof (cases r)
    case (Inl e)
    with adv run show ?thesis by (simp add: coordinator_run.simps)
  next
    case (Inr u)
    show ?thesis
    proof (cases ps)
      case Nil
      then have "p = SimulationStart"
        using Cons.prems(1) by (auto simp: all_phases_def Cons_eq_append_conv)
      with adv run Inr l' Nil show ?thesis by (simp add: coordinator_run.simps [of runner w l])
    next
      case (Cons q qs)
      then have "p \<noteq> SimulationStart"
        using Cons.prems(1) by (auto simp: all_phases_def Cons_eq_append_conv)
      with Cons.IH [of "done @ [c]" p l' w'] Cons.prems(1) Cons adv run Inr l' show ?thesis
        by (simp add: coordinator_run.simps [of runner w l])
    qed
  qed
qed simp

text \<open>The coordinator loop returns, and does what it should: as long as the phase runner
  leaves the phase bookkeeping alone, a run from a new lifecycle hands the six phases to
  the runner in order, each once, stops with the runner's first error, and otherwise ends
  with all six phases completed in order.\<close>

theorem coordinator_run_correct:
  assumes "runner_keeps_phase runner"
  shows "coordinator_run runner w load_lifecycle_new = Some (drive runner all_phases w load_lifecycle_new)
     \<and> (\<forall>l w'. drive runner all_phases w load_lifecycle_new = (Inr l, w') \<longrightarrow>
           ll_completed l = all_phases \<and> is_finished l \<and> ll_current l = None)"
proof -
  let ?l0 = "load_lifecycle_new" and ?first = "SnapshotDeserialize"
  have adv: "advance ?l0 = Inr (?first, enter_phase ?l0 ?first)"
    by (simp add: advance_def enter_phase_def load_lifecycle_new_def)
  have keeps: "runner w l p = (r, l', w') \<Longrightarrow> ll_current l' = ll_current l \<and> ll_completed l' = ll_completed l"
    for w l p r l' w' using assms by (fastforce simp: runner_keeps_phase_def split: prod.splits)
  obtain r l' w' where run: "runner w (enter_phase ?l0 ?first) ?first = (r, l', w')"
    by (cases "runner w (enter_phase ?l0 ?first) ?first")
  have l': "ll_current l' = Some ?first" "ll_completed l' = []"
    using keeps [OF run] by (simp_all add: enter_phase_def load_lifecycle_new_def)
  have "coordinator_run runner w ?l0 = Some (drive runner all_phases w ?l0)"
    using adv run l' coordinator_from [OF assms, of "[]" ?first "tl all_phases" l' w']
    by (cases r) (simp_all add: coordinator_run.simps [of runner w] all_phases_def)
  moreover have "drive runner ps w l = (Inr l2, w2) \<Longrightarrow> distinct (ll_completed l @ (case ll_current l of None \<Rightarrow> [] | Some c \<Rightarrow> [c]) @ ps)
      \<Longrightarrow> ll_completed l2 = ll_completed l @ (case ll_current l of None \<Rightarrow> [] | Some c \<Rightarrow> [c]) @ ps \<and> ll_current l2 = None"
    for ps w l l2 w2
  proof (induction ps arbitrary: w l)
    case Nil
    then show ?case by (auto simp: finish_def split: option.splits)
  next
    case (Cons p ps)
    obtain r l' w' where run: "runner w (enter_phase l p) p = (r, l', w')" by (cases "runner w (enter_phase l p) p")
    with Cons.prems(1) obtain u where "r = Inr u" by (cases r) auto
    then show ?case
      using Cons.prems Cons.IH [of w' l'] run keeps [OF run] by (auto simp: enter_phase_def)
  qed
  from this [of all_phases w ?l0] have "\<forall>l w'. drive runner all_phases w ?l0 = (Inr l, w') \<longrightarrow>
      ll_completed l = all_phases \<and> is_finished l \<and> ll_current l = None"
    by (auto simp: load_lifecycle_new_def all_phases_def is_finished_def)
  ultimately show ?thesis by blast
qed

theorem coordinator_run_correct_witness:
  "\<exists>l. coordinator_run (\<lambda>w l p. (Inr (), l, w @ [p])) [] load_lifecycle_new = Some (Inr l, all_phases)
     \<and> is_finished l"
proof -
  let ?run = "\<lambda>w l p. (Inr (), l, w @ [p]) :: (content_error + unit) \<times> load_lifecycle \<times> load_phase list"
  have "runner_keeps_phase ?run" by (simp add: runner_keeps_phase_def)
  from coordinator_run_correct [OF this, of "[]"] show ?thesis
    by (auto simp: all_phases_def)
qed

subsection \<open>Overlays\<close>

lemma sort_key_snoc_sorted: "sort_key f (sort_key f xs @ [y]) = sort_key f (xs @ [y])"
proof (rule properties_for_sort_key)
  fix k
  have st: "filter (\<lambda>x. f k = f x) (sort_key f zs) = filter (\<lambda>x. f k = f x) zs" for zs
    using sort_key_stable [of f "f k" zs] by (simp add: eq_commute [of "f k"])
  show "filter (\<lambda>x. f k = f x) (sort_key f (xs @ [y])) = filter (\<lambda>x. f k = f x) (sort_key f xs @ [y])"
    unfolding st filter_append by (rule refl)
qed simp_all

lemma layers_sorted:
  "or_layers (foldl add_layer overlay_resolver_new ls) = sort_key ol_priority ls"
proof (induction ls rule: rev_induct)
  case (snoc l ls)
  then show ?case by (simp add: add_layer_def sort_key_snoc_sorted del: sort_key_simps)
qed (simp add: overlay_resolver_new_def)

lemma overlay_resolve_cong:
  "or_base r = or_base r' \<Longrightarrow> or_layers r = or_layers r' \<Longrightarrow> overlay_resolve oc r = overlay_resolve oc r'"
  by (simp add: overlay_resolve_def fun_eq_iff)

lemma try_fold_Inr_prefix:
  "try_fold f s (xs @ ys) = Inr t \<longleftrightarrow> (\<exists>u. try_fold f s xs = Inr u \<and> try_fold f u ys = Inr t)"
  by (simp add: try_fold_append)

text \<open>Overlays apply in order of priority, whatever the order in which the layers were
  added: the layers are always sorted, layers of equal priority in the order they came;
  with distinct priorities two resolvers with the same base and the same set of layers
  resolve every path alike; and a \<open>Replace\<close> entry of a layer whose priority is above all
  others decides the value, whenever the path resolves below it.\<close>

theorem overlay_priority_order:
  assumes "or_layers r = sort_key ol_priority ls"
  shows "or_layers (foldl add_layer overlay_resolver_new ls) = sort_key ol_priority ls
     \<and> (mset ls = mset ls' \<and> distinct (map ol_priority ls) \<longrightarrow>
          overlay_resolve oc r path = overlay_resolve oc (r\<lparr>or_layers := sort_key ol_priority ls'\<rparr>) path)
     \<and> (\<forall>top e v. layer_get top path = Some e \<and> oe_strategy e = MReplace
          \<and> (\<forall>l \<in> set ls. ol_priority l < ol_priority top) \<and> overlay_resolve oc r path = Inr v \<longrightarrow>
          overlay_resolve oc (add_layer r top) path = Inr (oe_value e))"
proof -
  have perm: "sort_key ol_priority ls = sort_key ol_priority ls'"
    if "mset ls = mset ls'" "distinct (map ol_priority ls)"
    using that by (intro sort_key_inj_key_eq) (simp_all add: distinct_map)
  have top: "overlay_resolve oc (add_layer r top) path = Inr (oe_value e)"
    if "layer_get top path = Some e" "oe_strategy e = MReplace"
      "\<forall>l \<in> set ls. ol_priority l < ol_priority top" "overlay_resolve oc r path = Inr v" for top e v
  proof -
    have "sorted (map ol_priority (or_layers r @ [top]))"
      using that(3) by (auto simp: assms sorted_append intro: less_imp_le)
    then have "or_layers (add_layer r top) = or_layers r @ [top]"
      by (simp add: add_layer_def sort_key_id_if_sorted del: sorted_wrt_append)
    with that show ?thesis
      by (auto simp: overlay_resolve_def try_fold_append add_layer_def)
  qed
  show ?thesis
  proof (intro conjI)
    show "mset ls = mset ls' \<and> distinct (map ol_priority ls) \<longrightarrow>
          overlay_resolve oc r path = overlay_resolve oc (r\<lparr>or_layers := sort_key ol_priority ls'\<rparr>) path"
      using perm assms overlay_resolve_cong [of r "r\<lparr>or_layers := sort_key ol_priority ls'\<rparr>"] by simp
  qed (use layers_sorted top in blast)+
qed

theorem overlay_priority_order_witness:
  "overlay_resolve True (add_layer
      (add_layer (with_base overlay_resolver_new ''p'' ''1'')
        (with_entry (overlay_layer_new ''a'' 5) \<lparr>oe_path = ''p'', oe_value = ''7'', oe_strategy = MAppend\<rparr>))
      (with_entry (overlay_layer_new ''b'' 9) \<lparr>oe_path = ''p'', oe_value = ''42'', oe_strategy = MReplace\<rparr>))
    ''p'' = Inr ''42''"
proof -
  let ?a = "with_entry (overlay_layer_new ''a'' 5) \<lparr>oe_path = ''p'', oe_value = ''7'', oe_strategy = MAppend\<rparr>"
  let ?b = "with_entry (overlay_layer_new ''b'' 9) \<lparr>oe_path = ''p'', oe_value = ''42'', oe_strategy = MReplace\<rparr>"
  let ?r = "add_layer (with_base overlay_resolver_new ''p'' ''1'') ?a"
  have layers: "or_layers ?r = sort_key ol_priority [?a]"
    by (simp add: add_layer_def with_base_def overlay_resolver_new_def)
  have "overlay_resolve True ?r ''p'' = Inr ''17''"
    by (simp add: overlay_resolve_def add_layer_def with_base_def overlay_resolver_new_def
      with_entry_def overlay_layer_new_def layer_get_def)
  moreover have "layer_get ?b ''p'' = Some \<lparr>oe_path = ''p'', oe_value = ''42'', oe_strategy = MReplace\<rparr>"
    "\<forall>l \<in> set [?a]. ol_priority l < ol_priority ?b"
    by (simp_all add: layer_get_def with_entry_def overlay_layer_new_def)
  ultimately show ?thesis
    using overlay_priority_order [OF layers, of "[?a]" True "''p''"] by fastforce
qed

lemma overlay_apply_fold:
  "try_fold (\<lambda>result path. rbind (overlay_resolve oc r path) (\<lambda>v. Inr (hm_insert path v result))) acc ps = Inr m
   \<longleftrightarrow> (\<forall>p \<in> set ps. is_ok (overlay_resolve oc r p))
      \<and> m = fold (\<lambda>p. hm_insert p (projr (overlay_resolve oc r p))) ps acc"
proof (induction ps arbitrary: acc)
  case (Cons p ps)
  show ?case
    by (cases "overlay_resolve oc r p") (auto simp: Cons.IH)
qed auto

lemma hm_get_fold_insert:
  "hm_get (fold (\<lambda>p. hm_insert p (f p)) ps acc) q = (if q \<in> set ps then Some (f q) else hm_get acc q)"
  by (induction ps arbitrary: acc) auto

text \<open>\<open>apply\<close> resolves everything or fails: it returns exactly when every known path
  resolves, and then maps each known path to its resolved value and nothing else. In
  particular one overlay entry for a path without a base value makes the whole
  application fail, even a \<open>Replace\<close>.\<close>

theorem overlay_apply_correct:
  "(is_ok (overlay_apply oc r) \<longleftrightarrow> (\<forall>p \<in> set (known_paths r). is_ok (overlay_resolve oc r p)))
   \<and> (\<forall>m. overlay_apply oc r = Inr m \<longrightarrow>
        (\<forall>p. hm_get m p = (if p \<in> set (known_paths r) then Some (projr (overlay_resolve oc r p)) else None)))
   \<and> (\<forall>l p e. l \<in> set (or_layers r) \<and> layer_get l p = Some e \<and> hm_get (or_base r) p = None
        \<longrightarrow> \<not> is_ok (overlay_apply oc r))"
proof -
  have ok: "is_ok (overlay_apply oc r) \<longleftrightarrow> (\<forall>p \<in> set (known_paths r). is_ok (overlay_resolve oc r p))"
    unfolding overlay_apply_def is_ok_iff overlay_apply_fold by blast
  have "\<not> is_ok (overlay_apply oc r)"
    if "l \<in> set (or_layers r)" "layer_get l p = Some e" "hm_get (or_base r) p = None" for l p e
  proof -
    have "p \<in> set (known_paths r)"
      using that by (force simp: known_paths_def layer_get_def dest: map_of_SomeD)
    moreover have "\<not> is_ok (overlay_resolve oc r p)" using that(3) by (simp add: overlay_resolve_def)
    ultimately show ?thesis using ok by blast
  qed
  with ok show ?thesis
    by (auto simp: overlay_apply_def overlay_apply_fold hm_get_fold_insert)
qed

theorem overlay_apply_correct_witness:
  "\<not> is_ok (overlay_apply True (add_layer overlay_resolver_new
      (with_entry (overlay_layer_new ''a'' 5) \<lparr>oe_path = ''p'', oe_value = ''7'', oe_strategy = MReplace\<rparr>)))"
proof -
  let ?e = "\<lparr>oe_path = ''p'', oe_value = ''7'', oe_strategy = MReplace\<rparr>"
  let ?l = "with_entry (overlay_layer_new ''a'' 5) ?e"
  let ?r = "add_layer overlay_resolver_new ?l"
  have "?l \<in> set (or_layers ?r)" "layer_get ?l ''p'' = Some ?e" "hm_get (or_base ?r) ''p'' = None"
    by (simp_all add: add_layer_def overlay_resolver_new_def layer_get_def with_entry_def overlay_layer_new_def)
  with overlay_apply_correct [of True ?r] show ?thesis by blast
qed

lemma wrap_i64_low: "- (2 ^ 64) \<le> i \<Longrightarrow> i < - (2 ^ 63) \<Longrightarrow> wrap_i64 i = i + 2 ^ 64"
proof -
  assume i: "- (2 ^ 64) \<le> i" "i < - (2 ^ 63)"
  have "(i + 2 ^ 63) mod 2 ^ 64 = (i + 2 ^ 63 + 2 ^ 64) mod 2 ^ 64"
    by (rule mod_add_self2 [symmetric])
  also have "\<dots> = i + 2 ^ 63 + 2 ^ 64" using i by (intro mod_pos_pos_trivial) simp_all
  finally show ?thesis by (simp add: wrap_i64_def)
qed

lemma wrap_i64_high: "2 ^ 63 \<le> i \<Longrightarrow> i < 2 ^ 64 \<Longrightarrow> wrap_i64 i = i - 2 ^ 64"
proof -
  assume i: "2 ^ 63 \<le> i" "i < 2 ^ 64"
  have "(i + 2 ^ 63) mod 2 ^ 64 = (i + 2 ^ 63 - 2 ^ 64 + 2 ^ 64) mod 2 ^ 64"
    by (simp only: diff_add_cancel)
  also have "\<dots> = (i + 2 ^ 63 - 2 ^ 64) mod 2 ^ 64" by (rule mod_add_self2)
  also have "\<dots> = i + 2 ^ 63 - 2 ^ 64" using i by (intro mod_pos_pos_trivial) simp_all
  finally show ?thesis by (simp add: wrap_i64_def)
qed

text \<open>The numeric strategies compute on \<open>i64\<close>: on the decimal text of two in-range
  numbers \<open>Add\<close>, \<open>Min\<close> and \<open>Max\<close> give the text of sum, minimum and maximum, and a base
  that is not an integer is a conflict. The sum of \<open>Add\<close> is not checked: when it leaves
  the range, a build with overflow checks panics and one without wraps around.\<close>

theorem numeric_strategies:
  assumes "in_i64 a" and "in_i64 b"
  shows "apply_strategy oc (show_int a) (show_int b) MMin = Inr (show_int (min a b))
     \<and> apply_strategy oc (show_int a) (show_int b) MMax = Inr (show_int (max a b))
     \<and> (in_i64 (a + b) \<longrightarrow> apply_strategy oc (show_int a) (show_int b) MAdd = Inr (show_int (a + b)))
     \<and> (\<not> in_i64 (a + b) \<longrightarrow>
          apply_strategy True (show_int a) (show_int b) MAdd = Inl Panicked
        \<and> (\<exists>w. apply_strategy False (show_int a) (show_int b) MAdd = Inr (show_int w)
             \<and> in_i64 w \<and> w \<noteq> a + b \<and> (w = a + b - 2 ^ 64 \<or> w = a + b + 2 ^ 64)))"
proof -
  have p: "parse_operands verb (show_int a) (show_int b) = Inr (a, b)" for verb
    using assms by (simp add: parse_operands_def parse_i64_show_int)
  have "in_i64 (wrap_i64 (a + b)) \<and> (wrap_i64 (a + b) = a + b - 2 ^ 64 \<or> wrap_i64 (a + b) = a + b + 2 ^ 64)"
    if "\<not> in_i64 (a + b)"
    using that assms wrap_i64_low [of "a + b"] wrap_i64_high [of "a + b"]
    by (auto simp: int_range_defs)
  then show ?thesis by (auto simp: p plain_add_i64_def)
qed

theorem numeric_strategies_witness:
  "apply_strategy True (show_int 9223372036854775807) (show_int 1) MAdd = Inl Panicked
   \<and> apply_strategy True (show_int 40) (show_int 2) MAdd = Inr (show_int 42)"
  using numeric_strategies [of "9223372036854775807" 1 True] numeric_strategies [of 40 2 True]
  by (simp add: int_range_defs)

subsection \<open>Names\<close>

text \<open>
  The two maps are inverse to each other and every identifier in use is below the next
  one. Identifier \<open>u64::MAX\<close> is where the counter saturates.
\<close>

definition nr_inv :: "name_resolver \<Rightarrow> bool" where
  "nr_inv r \<longleftrightarrow> hm_ok (nr_name_to_id r) \<and> hm_ok (nr_id_to_name r)
     \<and> (\<forall>n i. hm_get (nr_name_to_id r) n = Some i \<longleftrightarrow> hm_get (nr_id_to_name r) i = Some n)
     \<and> (\<forall>i n. hm_get (nr_id_to_name r) i = Some n \<longrightarrow> row_id_as_u64 i < nr_next_id r)"

lemma nr_inv_new: "nr_inv name_resolver_new"
  by (simp add: nr_inv_def name_resolver_new_def)

lemma saturating_succ_less: "w < - 1 \<Longrightarrow> w < saturating_succ w" for w :: u64
  using u64_plus_one [of w] u64_less_minus(1) [of w]
  by (auto simp: saturating_succ_def word_less_nat_alt)

lemma nr_inv_raise: "nr_inv r \<Longrightarrow> nr_next_id r \<le> k \<Longrightarrow> nr_inv (r\<lparr>nr_next_id := k\<rparr>)"
  by (auto simp: nr_inv_def intro: less_le_trans)

lemma assign_id_inv:
  assumes "nr_inv r" and "nr_next_id r < - 1" and "hm_get (nr_name_to_id r) n = None"
  shows "nr_inv (snd (assign_id r n))"
proof -
  let ?i = "RowId (nr_next_id r)"
  have fresh: "hm_get (nr_id_to_name r) ?i = None"
    using assms(1) by (cases "hm_get (nr_id_to_name r) ?i") (auto simp: nr_inv_def)
  have less: "nr_next_id r < saturating_succ (nr_next_id r)" by (rule saturating_succ_less [OF assms(2)])
  have bij: "hm_get (nr_name_to_id r) m = Some i \<longleftrightarrow> hm_get (nr_id_to_name r) i = Some m" for m i
    using assms(1) by (simp add: nr_inv_def)
  have not_n: "hm_get (nr_id_to_name r) i \<noteq> Some n" for i
    using bij [of n i] assms(3) by simp
  have below: "hm_get (nr_id_to_name r) i = Some m \<Longrightarrow> row_id_as_u64 i < saturating_succ (nr_next_id r)" for m i
    using assms(1) less by (auto simp: nr_inv_def intro: less_trans)
  show ?thesis
    using assms(1,3) less fresh bij below not_n unfolding nr_inv_def assign_id_def Let_def snd_conv
    by (auto split: if_splits)
qed

lemma resolve_or_assign_inv:
  "nr_inv r \<Longrightarrow> nr_next_id r < - 1 \<Longrightarrow> nr_inv (snd (resolve_or_assign r n))"
  by (auto simp: resolve_or_assign_def assign_id_inv split: option.splits)

text \<open>C20: Names and identifiers correspond one to one as long as the counter has not reached
  \<open>u64::MAX\<close>: \<open>register\<close> refuses exactly the known names, a new name gets an identifier
  nobody has, resolving and looking up by identifier are inverse, known names keep their
  identifiers, and \<open>resolve_or_assign\<close> is idempotent.\<close>

theorem name_resolver_bijective:
  assumes "nr_inv r" and "nr_next_id r < - 1"
  shows "(is_ok (name_register r n) \<longleftrightarrow> \<not> is_ok (name_resolve r n))
     \<and> (\<forall>i r'. name_register r n = Inr (i, r') \<longrightarrow>
          nr_inv r' \<and> name_resolve r' n = Inr i \<and> name_of r' i = Inr n \<and> \<not> is_ok (name_of r i)
        \<and> (\<forall>m j. name_resolve r m = Inr j \<longrightarrow> name_resolve r' m = Inr j \<and> name_of r' j = Inr m))
     \<and> (\<forall>m i. name_resolve r m = Inr i \<longleftrightarrow> name_of r i = Inr m)
     \<and> (let (i, r') = resolve_or_assign r n in
          nr_inv r' \<and> name_resolve r' n = Inr i \<and> resolve_or_assign r' n = (i, r'))"
proof -
  have inv: "hm_get (nr_name_to_id r) m = Some i \<longleftrightarrow> hm_get (nr_id_to_name r) i = Some m" for m i
    using assms(1) by (simp add: nr_inv_def)
  have fresh: "hm_get (nr_id_to_name r) (RowId (nr_next_id r)) = None"
    using assms(1) by (cases "hm_get (nr_id_to_name r) (RowId (nr_next_id r))") (auto simp: nr_inv_def)
  have reg: "nr_inv r' \<and> name_resolve r' n = Inr i \<and> name_of r' i = Inr n \<and> \<not> is_ok (name_of r i)
        \<and> (\<forall>m j. name_resolve r m = Inr j \<longrightarrow> name_resolve r' m = Inr j \<and> name_of r' j = Inr m)"
    if "name_register r n = Inr (i, r')" for i r'
  proof -
    have none: "hm_get (nr_name_to_id r) n = None" and r': "assign_id r n = (i, r')"
      using that by (auto simp: name_register_def hm_contains_def split: if_splits)
    have "nr_inv r'" using assign_id_inv [OF assms none] r' by simp
    moreover have "hm_get (nr_id_to_name r) j \<noteq> Some n" for j using inv [of n j] none by simp
    ultimately show ?thesis using none r' fresh inv
      by (auto simp: assign_id_def Let_def name_resolve_def name_of_def is_ok_iff)
  qed
  have roa: "let (i, r') = resolve_or_assign r n in
          nr_inv r' \<and> name_resolve r' n = Inr i \<and> resolve_or_assign r' n = (i, r')"
    using resolve_or_assign_inv [OF assms, of n]
    by (auto simp: resolve_or_assign_def assign_id_def Let_def name_resolve_def split: option.splits)
  have "is_ok (name_register r n) \<longleftrightarrow> \<not> is_ok (name_resolve r n)"
    by (cases "hm_get (nr_name_to_id r) n") (auto simp: name_register_def name_resolve_def hm_contains_def)
  with reg roa inv show ?thesis by (auto simp: name_resolve_def name_of_def)
qed

theorem name_resolver_bijective_witness:
  "\<exists>i r. name_register name_resolver_new ''FRA'' = Inr (i, r) \<and> name_of r i = Inr ''FRA''"
proof -
  have "is_ok (name_register name_resolver_new ''FRA'')"
    by (simp add: name_register_def name_resolver_new_def hm_contains_def)
  moreover have "nr_next_id name_resolver_new < - 1"
    by (simp add: name_resolver_new_def u64_less_minus)
  ultimately show ?thesis
    using name_resolver_bijective [OF nr_inv_new, of "''FRA''"] by (auto simp: is_ok_iff)
qed

text \<open>
  Across tables: each table's resolver is consistent below the shared counter, and no two
  tables share an identifier.
\<close>

definition ns_inv :: "namespace_resolver \<Rightarrow> bool" where
  "ns_inv ns \<longleftrightarrow> hm_ok (ns_tables ns)
     \<and> (\<forall>t r. hm_get (ns_tables ns) t = Some r \<longrightarrow> nr_inv (r\<lparr>nr_next_id := ns_next_id ns\<rparr>))
     \<and> (\<forall>t t' r r' i. hm_get (ns_tables ns) t = Some r \<and> hm_get (ns_tables ns) t' = Some r'
          \<and> hm_get (nr_id_to_name r) i \<noteq> None \<and> hm_get (nr_id_to_name r') i \<noteq> None \<longrightarrow> t = t')"

lemma saturating_succ_le: "w \<le> saturating_succ w" for w :: u64
proof (cases "w = - 1")
  case False
  then have "w < - 1" by (simp add: order_less_le)
  then show ?thesis by (rule less_imp_le [OF saturating_succ_less])
qed (simp add: saturating_succ_def)

lemma resolve_or_assign_facts:
  assumes "nr_inv r" and "nr_next_id r < - 1" and "resolve_or_assign r n = (i, r')"
  shows "nr_inv r'" and "nr_next_id r \<le> nr_next_id r'" and "hm_get (nr_id_to_name r') i = Some n"
    and "hm_get (nr_id_to_name r) j = Some m \<Longrightarrow> hm_get (nr_id_to_name r') j = Some m"
    and "hm_get (nr_id_to_name r') j \<noteq> None \<Longrightarrow> hm_get (nr_id_to_name r) j \<noteq> None \<or> j = RowId (nr_next_id r)"
    and "hm_get (nr_name_to_id r') n = Some i"
proof -
  show "nr_inv r'" using resolve_or_assign_inv [OF assms(1,2), of n] assms(3) by simp
  have fresh: "hm_get (nr_id_to_name r) (RowId (nr_next_id r)) = None"
    using assms(1) by (cases "hm_get (nr_id_to_name r) (RowId (nr_next_id r))") (auto simp: nr_inv_def)
  have bij: "hm_get (nr_name_to_id r) m = Some i \<longleftrightarrow> hm_get (nr_id_to_name r) i = Some m" for m i
    using assms(1) by (simp add: nr_inv_def)
  show "nr_next_id r \<le> nr_next_id r'" "hm_get (nr_id_to_name r') i = Some n"
    "hm_get (nr_id_to_name r) j = Some m \<Longrightarrow> hm_get (nr_id_to_name r') j = Some m"
    "hm_get (nr_id_to_name r') j \<noteq> None \<Longrightarrow> hm_get (nr_id_to_name r) j \<noteq> None \<or> j = RowId (nr_next_id r)"
    "hm_get (nr_name_to_id r') n = Some i"
    using assms(3) fresh bij saturating_succ_le
    by (auto simp: resolve_or_assign_def assign_id_def Let_def split: option.splits if_splits)
qed

lemma ns_entry_facts:
  assumes "ns_inv ns"
  shows "nr_inv (ns_entry ns t)" and "nr_next_id (ns_entry ns t) = ns_next_id ns"
    and "hm_get (ns_tables ns) t = Some r \<Longrightarrow> nr_id_to_name (ns_entry ns t) = nr_id_to_name r
           \<and> nr_name_to_id (ns_entry ns t) = nr_name_to_id r"
    and "hm_get (nr_id_to_name (ns_entry ns t)) i \<noteq> None \<Longrightarrow> hm_get (ns_tables ns) t \<noteq> None"
  using assms by (auto simp: ns_entry_def ns_inv_def nr_inv_def name_resolver_new_def split: option.splits)

lemma ns_id_below:
  assumes "ns_inv ns" and "hm_get (ns_tables ns) t = Some r" and "hm_get (nr_id_to_name r) i \<noteq> None"
  shows "row_id_as_u64 i < ns_next_id ns"
  using assms by (fastforce simp: ns_inv_def nr_inv_def)

lemma ns_resolve_or_assign_inv:
  assumes "ns_inv ns" and "ns_next_id ns < - 1" and "ns_resolve_or_assign ns t n = (i, ns')"
  shows "ns_inv ns'"
proof -
  obtain r where r: "resolve_or_assign (ns_entry ns t) n = (i, r)"
    and ns': "ns' = ns\<lparr>ns_tables := hm_insert t r (ns_tables ns), ns_next_id := nr_next_id r\<rparr>"
    using assms(3) by (auto simp: ns_resolve_or_assign_def Let_def split: prod.splits)
  note e = ns_entry_facts [OF assms(1)]
  have next_lt: "nr_next_id (ns_entry ns t) < - 1" using assms(2) e(2) by simp
  note f = resolve_or_assign_facts [OF e(1) next_lt r]
  have le: "ns_next_id ns \<le> nr_next_id r" using f(2) e(2) by simp
  have other: "nr_inv (q\<lparr>nr_next_id := nr_next_id r\<rparr>)" if "hm_get (ns_tables ns) t' = Some q" for t' q
    using nr_inv_raise [of "q\<lparr>nr_next_id := ns_next_id ns\<rparr>" "nr_next_id r"] assms(1) that le
    by (simp add: ns_inv_def)
  have clash: "t' = t"
    if "hm_get (ns_tables ns) t' = Some q" "hm_get (nr_id_to_name q) j \<noteq> None"
      "hm_get (nr_id_to_name r) j \<noteq> None" for t' q j
  proof -
    have "row_id_as_u64 j < ns_next_id ns" by (rule ns_id_below [OF assms(1) that(1,2)])
    then have "j \<noteq> RowId (nr_next_id (ns_entry ns t))" using e(2) by auto
    then have old: "hm_get (nr_id_to_name (ns_entry ns t)) j \<noteq> None" using f(5) that(3) by blast
    then obtain r0 where "hm_get (ns_tables ns) t = Some r0" using e(4) by blast
    with that old e(3) assms(1) show ?thesis unfolding ns_inv_def by metis
  qed
  have tables: "hm_get (ns_tables ns') t' = (if t' = t then Some r else hm_get (ns_tables ns) t')" for t'
    by (simp add: ns')
  have "a = b"
    if "hm_get (ns_tables ns') a = Some p" "hm_get (ns_tables ns') b = Some q"
      "hm_get (nr_id_to_name p) j \<noteq> None" "hm_get (nr_id_to_name q) j \<noteq> None" for a b p q j
  proof (cases "a = t \<or> b = t")
    case True
    with that show ?thesis unfolding tables using clash by (metis option.inject)
  next
    case False
    with that assms(1) show ?thesis unfolding tables ns_inv_def by (metis (full_types))
  qed
  moreover have "hm_ok (ns_tables ns')" using assms(1) by (simp add: ns' ns_inv_def)
  moreover have "nr_inv (p\<lparr>nr_next_id := ns_next_id ns'\<rparr>)" if "hm_get (ns_tables ns') a = Some p" for a p
    using that f(1) other unfolding tables by (auto simp: ns' split: if_splits)
  ultimately show ?thesis unfolding ns_inv_def by blast
qed

text \<open>Identifiers handed out by the namespace resolver are unique across all tables, as
  long as the shared counter has not saturated: assigning keeps every table consistent,
  the answer resolves back to the name in its table, and every earlier identifier of every
  table keeps its name.\<close>

theorem namespace_ids_unique:
  assumes "ns_inv ns" and "ns_next_id ns < - 1" and "ns_resolve_or_assign ns t n = (i, ns')"
  shows "ns_inv ns' \<and> ns_resolve ns' t n = Inr i \<and> ns_name_of ns' t i = Inr n
     \<and> (\<forall>t' m. ns_name_of ns' t' i = Inr m \<longrightarrow> t' = t \<and> m = n)
     \<and> (\<forall>t' j m. ns_name_of ns t' j = Inr m \<longrightarrow> ns_name_of ns' t' j = Inr m)"
proof -
  obtain r where r: "resolve_or_assign (ns_entry ns t) n = (i, r)"
    and ns': "ns' = ns\<lparr>ns_tables := hm_insert t r (ns_tables ns), ns_next_id := nr_next_id r\<rparr>"
    using assms(3) by (auto simp: ns_resolve_or_assign_def Let_def split: prod.splits)
  note e = ns_entry_facts [OF assms(1)]
  have next_lt: "nr_next_id (ns_entry ns t) < - 1" using assms(2) e(2) by simp
  note f = resolve_or_assign_facts [OF e(1) next_lt r]
  have inv: "ns_inv ns'" by (rule ns_resolve_or_assign_inv [OF assms])
  have old: "ns_name_of ns' t' j = Inr m" if "ns_name_of ns t' j = Inr m" for t' j m
    using that f(4) [of j m] e(3) [of t] by (auto simp: ns_name_of_def ns' name_of_def)
  have "t' = t \<and> m = n" if m: "ns_name_of ns' t' i = Inr m" for t' m
  proof -
    from m obtain q where q: "hm_get (ns_tables ns') t' = Some q" "hm_get (nr_id_to_name q) i = Some m"
      by (auto simp: ns_name_of_def name_of_def)
    have "hm_get (ns_tables ns') t = Some r" by (simp add: ns')
    with q f(3) inv have "t' = t" unfolding ns_inv_def by blast
    with q f(3) \<open>hm_get (ns_tables ns') t = Some r\<close> show ?thesis by simp
  qed
  moreover have "ns_resolve ns' t n = Inr i" "ns_name_of ns' t i = Inr n"
    using f(3,6) by (simp_all add: ns_resolve_def ns_name_of_def ns' name_resolve_def name_of_def)
  ultimately show ?thesis using inv old by blast
qed

theorem namespace_ids_unique_witness:
  "\<exists>i ns. ns_resolve_or_assign namespace_resolver_new ''actors'' ''FRA'' = (i, ns)
     \<and> ns_name_of ns ''actors'' i = Inr ''FRA''"
proof -
  obtain i ns where r: "ns_resolve_or_assign namespace_resolver_new ''actors'' ''FRA'' = (i, ns)"
    by (cases "ns_resolve_or_assign namespace_resolver_new ''actors'' ''FRA''")
  have "ns_inv namespace_resolver_new" "ns_next_id namespace_resolver_new < - 1"
    by (simp_all add: ns_inv_def namespace_resolver_new_def u64_less_minus)
  from namespace_ids_unique [OF this r] r show ?thesis by blast
qed

text \<open>The mutable access \<open>namespace\<close> resets the table's counter to the shared one, so two
  registrations in one table without \<open>sync_next_id\<close> in between both succeed and receive the
  same identifier: the first name no longer corresponds to its identifier.\<close>

theorem namespace_without_sync_reuses_id:
  "\<exists>i r1 ns1 r2.
     name_register (ns_entry namespace_resolver_new ''actors'') ''FRA'' = Inr (i, r1)
   \<and> ns1 = namespace_with namespace_resolver_new ''actors'' (\<lambda>_. r1)
   \<and> name_register (ns_entry ns1 ''actors'') ''ENG'' = Inr (i, r2)
   \<and> name_resolve r2 ''FRA'' = Inr i \<and> name_resolve r2 ''ENG'' = Inr i
   \<and> name_of r2 i = Inr ''ENG''"
  by (simp add: name_register_def ns_entry_def namespace_resolver_new_def name_resolver_new_def
    hm_contains_def assign_id_def namespace_with_def name_resolve_def name_of_def Let_def)

subsection \<open>Fingerprints\<close>

lemma sort_key_perm:
  assumes "mset xs = mset ys" and "distinct (map f xs)"
  shows "sort_key f xs = sort_key f ys"
  using assms by (intro sort_key_inj_key_eq) (simp_all add: distinct_map)

lemma hash_text_perm:
  assumes "mset (mf_table_specs fp) = mset ns" and "mset specs = mset specs'"
    and "distinct (map ts_name specs)"
  shows "hash_text ds fp seed specs = hash_text ds (fp\<lparr>mf_table_specs := ns\<rparr>) seed specs'"
proof -
  have "sort (mf_table_specs fp) = sort ns" using assms(1) by (intro properties_for_sort) simp_all
  moreover have set_eq: "set (mf_table_specs fp) = set ns" using assms(1) mset_eq_setD by blast
  moreover have "sort_key ts_name (filter (\<lambda>s. ts_name s \<in> set ns) specs)
      = sort_key ts_name (filter (\<lambda>s. ts_name s \<in> set ns) specs')"
    using assms(2,3) by (intro sort_key_perm) (simp_all add: distinct_map_filter)
  ultimately show ?thesis by (simp add: hash_text_def)
qed

text \<open>A mod's content hash does not depend on the order in which its tables are listed or
  the specifications are given, and comparing a save's fingerprints with the installed
  mods reports an exact match exactly when both have the same mods and, for each stored
  mod, the first installed one of its name has the same hash and version.\<close>

theorem fingerprints_order_independent:
  assumes "mset (mf_table_specs fp) = mset ns" and "mset specs = mset specs'"
    and "distinct (map ts_name specs)"
  shows "mf_content_hash (compute_hash ds fp seed specs)
       = mf_content_hash (compute_hash ds (fp\<lparr>mf_table_specs := ns\<rparr>) seed specs')
     \<and> (is_exact_match (fingerprints_compare stored available) \<longleftrightarrow>
          mf_mod_id ` set stored = mf_mod_id ` set available
        \<and> (\<forall>s \<in> set stored. \<forall>a. find (\<lambda>a. mf_mod_id a = mf_mod_id s) available = Some a \<longrightarrow>
             mf_content_hash a = mf_content_hash s \<and> mf_version a = mf_version s))"
proof -
  have "mf_content_hash (compute_hash ds fp seed specs)
       = mf_content_hash (compute_hash ds (fp\<lparr>mf_table_specs := ns\<rparr>) seed specs')"
    using hash_text_perm [OF assms] by (simp add: compute_hash_def)
  moreover have "fc_mismatched (fingerprints_compare stored available) = [] \<longleftrightarrow>
      (\<forall>s \<in> set stored. \<forall>a. find (\<lambda>a. mf_mod_id a = mf_mod_id s) available = Some a \<longrightarrow>
             mf_content_hash a = mf_content_hash s \<and> mf_version a = mf_version s)"
    by (fastforce simp: fingerprints_compare_def List.map_filter_def filter_empty_conv
      split: option.splits if_splits)
  ultimately show ?thesis
    by (auto simp: is_exact_match_def fingerprints_compare_def filter_empty_conv)
qed

theorem fingerprints_order_independent_witness:
  "mf_content_hash (compute_hash id \<lparr>mf_mod_id = ''m'', mf_version = ''1'',
      mf_table_specs = [''b'', ''a''], mf_content_hash = []\<rparr> ''s'' [table_spec_new ''b'', table_spec_new ''a''])
   = mf_content_hash (compute_hash id \<lparr>mf_mod_id = ''m'', mf_version = ''1'',
      mf_table_specs = [''a'', ''b''], mf_content_hash = []\<rparr> ''s'' [table_spec_new ''a'', table_spec_new ''b''])"
  using fingerprints_order_independent [of "\<lparr>mf_mod_id = ''m'', mf_version = ''1'',
      mf_table_specs = [''b'', ''a''], mf_content_hash = []\<rparr>" "[''a'', ''b'']"
      "[table_spec_new ''b'', table_spec_new ''a'']" "[table_spec_new ''a'', table_spec_new ''b'']"]
  by (simp add: table_spec_new_def)

end
