(* ===== verification/Arrow_Data.thy ===== *)
theory Arrow_Data
  imports Schema
begin

section \<open>Cells and columns (scharnhorst\_arrow\_store: error.rs, store.rs from line 1556)\<close>

text \<open>
  The store keeps its rows in Arrow record batches and receives values as JSON. Arrow,
  serde and the floating-point type are not part of the repository: they are the type
  parameters and the two function records \<open>json_api\<close> and \<open>arrow_api\<close> below, and
  \<open>arrow_ok\<close> collects what the store relies on. The functions of store.rs that convert
  JSON values, build one-row patches and patch columns, down to the bit-level handling of
  the null buffer, are modelled over them and shown to update exactly the addressed cells.
\<close>

unbundle bit_operations_syntax

subsection \<open>error.rs\<close>

datatype arrow_store_error =
    SETableNotFound string
  | SETableAlreadyExists string
  | SEPartitionNotFound string
  | SESnapshotNotFound u64
  | SETickNotFound string u64
  | SEIndexNotFound string
  | SEDuplicateRowId string u64
  | SEPrimaryKeyViolation string string
  | SEForeignKeyViolation string string
  | SEInvalidMutationMode string
  | SESchema string
  | SEArrow string
  | SEIo string
  | SELockPoisoned string
  | SELifecycle string
  | SEUnimplemented string
  | SETypeMismatch string string string
  | SEGeneric string

subsection \<open>JSON values and Arrow arrays\<close>

record ('j, 'fl) json_api =
  js_null :: 'j
  js_is_null :: "'j \<Rightarrow> bool"
  js_is_number :: "'j \<Rightarrow> bool"
  js_as_i64 :: "'j \<Rightarrow> int option"
  js_as_u64 :: "'j \<Rightarrow> int option"
  js_as_f64 :: "'j \<Rightarrow> 'fl option"
  js_as_bool :: "'j \<Rightarrow> bool option"
  js_string :: "'j \<Rightarrow> string option"
  js_debug :: "'j \<Rightarrow> string"
  js_to_string :: "'j \<Rightarrow> string"
  fl_in_i64_range :: "'fl \<Rightarrow> bool"
  fl_as_i64 :: "'fl \<Rightarrow> int"
  fl_in_u64_range :: "'fl \<Rightarrow> bool"
  fl_as_u64 :: "'fl \<Rightarrow> int"
  fl_of_int :: "int \<Rightarrow> 'fl"
  fl_eq :: "'fl \<Rightarrow> 'fl \<Rightarrow> bool"
  fl_show :: "'fl \<Rightarrow> string"

datatype data_type = Int64 | Int32 | UInt64 | Float64 | Boolean | Utf8 | LargeUtf8 | OtherType string

text \<open>The native values of the primitive arrays the store uses.\<close>

datatype 'fl native = NInt int | NFloat 'fl

text \<open>A schema field: name, type, nullability.\<close>

type_synonym field = "string \<times> data_type \<times> bool"

record ('b, 'a, 's, 'fl) arrow_api =
  ar_num_rows :: "'b \<Rightarrow> nat"
  ar_num_columns :: "'b \<Rightarrow> nat"
  ar_column :: "'b \<Rightarrow> nat \<Rightarrow> 'a"
  ar_schema :: "'b \<Rightarrow> 's"
  ar_try_new :: "'s \<Rightarrow> 'a list \<Rightarrow> string + 'b"
  ar_index_of :: "'s \<Rightarrow> string \<Rightarrow> string + nat"
  ar_fields :: "'s \<Rightarrow> field list"
  ar_schema_new :: "field list \<Rightarrow> 's"
  ar_data_type :: "'a \<Rightarrow> data_type"
  ar_type_debug :: "data_type \<Rightarrow> string"
  ar_len :: "'a \<Rightarrow> nat"
  ar_is_null :: "'a \<Rightarrow> nat \<Rightarrow> bool"
  ar_slice :: "'a \<Rightarrow> nat \<Rightarrow> nat \<Rightarrow> 'a"
  ar_prim :: "data_type \<Rightarrow> 'a \<Rightarrow> bool"
  ar_prim_values :: "'a \<Rightarrow> 'fl native list"
  ar_prim_value :: "'a \<Rightarrow> nat \<Rightarrow> 'fl native"
  ar_null_bytes :: "'a \<Rightarrow> 8 word list option"
  ar_prim_new :: "data_type \<Rightarrow> 'fl native list \<Rightarrow> bool list option \<Rightarrow> 'a"
  ar_prim_from :: "data_type \<Rightarrow> 'fl native option list \<Rightarrow> 'a"
  ar_bool :: "'a \<Rightarrow> bool"
  ar_bool_value :: "'a \<Rightarrow> nat \<Rightarrow> bool"
  ar_bool_from :: "bool option list \<Rightarrow> 'a"
  ar_str :: "data_type \<Rightarrow> 'a \<Rightarrow> bool"
  ar_str_value :: "'a \<Rightarrow> nat \<Rightarrow> string"
  ar_str_from :: "data_type \<Rightarrow> string option list \<Rightarrow> 'a"

subsection \<open>JSON to columns\<close>

definition json_to_i64 :: "('j, 'fl) json_api \<Rightarrow> 'j \<Rightarrow> arrow_store_error + int" where
  "json_to_i64 J v =
     (case js_as_i64 J v of
        Some i \<Rightarrow> Inr i
      | None \<Rightarrow> (case js_as_f64 J v of
          Some f \<Rightarrow> if fl_in_i64_range J f then Inr (fl_as_i64 J f)
            else Inl (SESchema (''value '' @ fl_show J f @ '' out of range for i64''))
        | None \<Rightarrow> Inl (SESchema (''expected i64, got '' @ js_debug J v))))"

definition json_to_i32 :: "('j, 'fl) json_api \<Rightarrow> 'j \<Rightarrow> arrow_store_error + int" where
  "json_to_i32 J v =
     rbind (ok_or (case js_as_i64 J v of Some i \<Rightarrow> Some i | None \<Rightarrow> map_option (fl_as_i64 J) (js_as_f64 J v))
       (SESchema (''expected i32, got '' @ js_debug J v))) (\<lambda>i.
     if in_range (- (2 ^ 31)) (2 ^ 31 - 1) i then Inr i
     else Inl (SESchema (''value '' @ show_int i @ '' out of range for i32'')))"

definition json_to_u64 :: "('j, 'fl) json_api \<Rightarrow> 'j \<Rightarrow> arrow_store_error + int" where
  "json_to_u64 J v =
     (case js_as_u64 J v of
        Some u \<Rightarrow> Inr u
      | None \<Rightarrow> (case js_as_i64 J v of
          Some i \<Rightarrow> if 0 \<le> i then Inr i
            else Inl (SESchema (''negative value '' @ show_int i @ '' for u64''))
        | None \<Rightarrow> (case js_as_f64 J v of
            Some f \<Rightarrow>
              if fl_in_u64_range J f \<and> fl_eq J (fl_of_int J (fl_as_u64 J f)) f then Inr (fl_as_u64 J f)
              else Inl (SESchema (''value '' @ fl_show J f @ '' out of range for u64''))
          | None \<Rightarrow> Inl (SESchema (''expected u64, got '' @ js_debug J v)))))"

definition json_to_f64 :: "('j, 'fl) json_api \<Rightarrow> 'j \<Rightarrow> arrow_store_error + 'fl" where
  "json_to_f64 J v =
     ok_or (case js_as_f64 J v of Some f \<Rightarrow> Some f | None \<Rightarrow> map_option (fl_of_int J) (js_as_i64 J v))
       (SESchema (''expected f64, got '' @ js_debug J v))"

definition json_to_bool :: "('j, 'fl) json_api \<Rightarrow> 'j \<Rightarrow> arrow_store_error + bool" where
  "json_to_bool J v = ok_or (js_as_bool J v) (SESchema (''expected bool, got '' @ js_debug J v))"

definition json_to_string :: "('j, 'fl) json_api \<Rightarrow> 'j \<Rightarrow> arrow_store_error + string" where
  "json_to_string J v =
     (case js_string J v of
        Some s \<Rightarrow> Inr s
      | None \<Rightarrow> if js_is_null J v then Inr []
          else Inl (SESchema (''expected utf8 string, got '' @ js_to_string J v)))"

definition unsupported_json_type :: "('b, 'a, 's, 'fl) arrow_api \<Rightarrow> data_type \<Rightarrow> arrow_store_error" where
  "unsupported_json_type A dt =
     SESchema (''unsupported data type for JSON conversion: '' @ ar_type_debug A dt)"

definition json_value_to_array ::
  "('j, 'fl) json_api \<Rightarrow> ('b, 'a, 's, 'fl) arrow_api \<Rightarrow> 'j \<Rightarrow> data_type \<Rightarrow> arrow_store_error + 'a" where
  "json_value_to_array J A v dt =
     (if js_is_null J v then
        (case dt of
           Int64 \<Rightarrow> Inr (ar_prim_from A Int64 [None])
         | Int32 \<Rightarrow> Inr (ar_prim_from A Int32 [None])
         | UInt64 \<Rightarrow> Inr (ar_prim_from A UInt64 [None])
         | Float64 \<Rightarrow> Inr (ar_prim_from A Float64 [None])
         | Boolean \<Rightarrow> Inr (ar_bool_from A [None])
         | Utf8 \<Rightarrow> Inr (ar_str_from A Utf8 [None])
         | LargeUtf8 \<Rightarrow> Inr (ar_str_from A LargeUtf8 [None])
         | OtherType t \<Rightarrow> Inl (unsupported_json_type A dt))
      else
        (case dt of
           Int64 \<Rightarrow> rbind (json_to_i64 J v) (\<lambda>i. Inr (ar_prim_from A Int64 [Some (NInt i)]))
         | Int32 \<Rightarrow> rbind (json_to_i32 J v) (\<lambda>i. Inr (ar_prim_from A Int32 [Some (NInt i)]))
         | UInt64 \<Rightarrow> rbind (json_to_u64 J v) (\<lambda>i. Inr (ar_prim_from A UInt64 [Some (NInt i)]))
         | Float64 \<Rightarrow> rbind (json_to_f64 J v) (\<lambda>f. Inr (ar_prim_from A Float64 [Some (NFloat f)]))
         | Boolean \<Rightarrow> rbind (json_to_bool J v) (\<lambda>b. Inr (ar_bool_from A [Some b]))
         | Utf8 \<Rightarrow> rbind (json_to_string J v) (\<lambda>s. Inr (ar_str_from A Utf8 [Some s]))
         | LargeUtf8 \<Rightarrow> rbind (json_to_string J v) (\<lambda>s. Inr (ar_str_from A LargeUtf8 [Some s]))
         | OtherType t \<Rightarrow> Inl (unsupported_json_type A dt)))"

definition json_value_to_u64 :: "('j, 'fl) json_api \<Rightarrow> 'j \<Rightarrow> u64 option" where
  "json_value_to_u64 J v =
     (if js_is_number J v then map_option word_of_int (js_as_u64 J v)
      else (case js_string J v of
          Some s \<Rightarrow> (case parse_u64 s of Inl _ \<Rightarrow> None | Inr i \<Rightarrow> Some (word_of_int i))
        | None \<Rightarrow> None))"

definition json_map_to_record_batch ::
  "('j, 'fl) json_api \<Rightarrow> ('b, 'a, 's, 'fl) arrow_api \<Rightarrow> (string \<times> 'j) list \<Rightarrow> 's
     \<Rightarrow> arrow_store_error + 'b" where
  "json_map_to_record_batch J A values schema =
     rbind (map_result (\<lambda>(n, dt, nullable).
       json_value_to_array J A (case map_of values n of None \<Rightarrow> js_null J | Some v \<Rightarrow> v) dt)
       (ar_fields A schema)) (\<lambda>columns.
     map_err (\<lambda>e. SEArrow (''json_map_to_record_batch: '' @ e)) (ar_try_new A schema columns))"

subsection \<open>One-row patches\<close>

definition slice_array_to_single :: "('b, 'a, 's, 'fl) arrow_api \<Rightarrow> 'a \<Rightarrow> nat \<Rightarrow> 'a" where
  "slice_array_to_single A arr idx = ar_slice A arr idx 1"

definition build_update_patch ::
  "('j, 'fl) json_api \<Rightarrow> ('b, 'a, 's, 'fl) arrow_api \<Rightarrow> 'b \<Rightarrow> nat \<Rightarrow> nat \<Rightarrow> 'j \<Rightarrow> arrow_store_error + 'b" where
  "build_update_patch J A src row_idx col_idx new_value =
     rbind (map_result (\<lambda>c.
       if c = col_idx then json_value_to_array J A new_value (ar_data_type A (ar_column A src c))
       else Inr (slice_array_to_single A (ar_column A src c) row_idx))
       [0..<ar_num_columns A src]) (\<lambda>columns.
     map_err (\<lambda>e. SEArrow (''build_update_patch: '' @ e)) (ar_try_new A (ar_schema A src) columns))"

definition make_null_array :: "('b, 'a, 's, 'fl) arrow_api \<Rightarrow> data_type \<Rightarrow> arrow_store_error + 'a" where
  "make_null_array A dt =
     (case dt of
        Int64 \<Rightarrow> Inr (ar_prim_from A Int64 [None])
      | Int32 \<Rightarrow> Inr (ar_prim_from A Int32 [None])
      | UInt64 \<Rightarrow> Inr (ar_prim_from A UInt64 [None])
      | Float64 \<Rightarrow> Inr (ar_prim_from A Float64 [None])
      | Boolean \<Rightarrow> Inr (ar_bool_from A [None])
      | Utf8 \<Rightarrow> Inr (ar_str_from A Utf8 [None])
      | LargeUtf8 \<Rightarrow> Inr (ar_str_from A LargeUtf8 [None])
      | OtherType t \<Rightarrow> Inl (SESchema (''unsupported null array type: '' @ ar_type_debug A dt)))"

definition build_null_patch :: "('b, 'a, 's, 'fl) arrow_api \<Rightarrow> 'b \<Rightarrow> nat \<Rightarrow> arrow_store_error + 'b" where
  "build_null_patch A src row_idx =
     rbind (map_result (\<lambda>c.
       case ar_fields A (ar_schema A src) ! c of (n, dt, nullable) \<Rightarrow>
         if nullable then make_null_array A (ar_data_type A (ar_column A src c))
         else Inr (slice_array_to_single A (ar_column A src c) row_idx))
       [0..<ar_num_columns A src]) (\<lambda>columns.
     map_err (\<lambda>e. SEArrow (''build_null_patch: '' @ e)) (ar_try_new A (ar_schema A src) columns))"

subsection \<open>Patching columns\<close>

definition initial_null_bytes :: "('b, 'a, 's, 'fl) arrow_api \<Rightarrow> 'a \<Rightarrow> 8 word list" where
  "initial_null_bytes A orig =
     (let num_bytes = (ar_len A orig + 7) div 8 in
      case ar_null_bytes A orig of
        Some src \<Rightarrow> take (min num_bytes (length src)) src
      | None \<Rightarrow> replicate num_bytes 0xFF)"

definition set_null_bit :: "nat \<Rightarrow> bool \<Rightarrow> 8 word list \<Rightarrow> 8 word list" where
  "set_null_bit i valid bytes =
     (if i div 8 < length bytes
      then bytes[i div 8 := (if valid then bytes ! (i div 8) OR push_bit (i mod 8) 1
                             else bytes ! (i div 8) AND NOT (push_bit (i mod 8) 1))]
      else bytes)"

definition patch_prim_step ::
  "('b, 'a, 's, 'fl) arrow_api \<Rightarrow> nat \<Rightarrow> 'a \<Rightarrow> nat \<times> nat \<Rightarrow> 'fl native list \<times> 8 word list
     \<Rightarrow> 'fl native list \<times> 8 word list" where
  "patch_prim_step A len patch p st =
     (case p of (target_row, patch_row) \<Rightarrow> case st of (values, null_bytes) \<Rightarrow>
        if target_row \<ge> len \<or> patch_row \<ge> ar_len A patch then (values, null_bytes)
        else if ar_is_null A patch patch_row then (values, set_null_bit target_row False null_bytes)
        else (values[target_row := ar_prim_value A patch patch_row], set_null_bit target_row True null_bytes))"

definition patch_primitive_array ::
  "('b, 'a, 's, 'fl) arrow_api \<Rightarrow> data_type \<Rightarrow> 'a \<Rightarrow> 'a \<Rightarrow> (nat \<times> nat) list \<Rightarrow> arrow_store_error + 'a" where
  "patch_primitive_array A dt orig patch patches =
     (if \<not> ar_prim A dt orig then Inl (SESchema ''primitive downcast failed'')
      else if \<not> ar_prim A dt patch then Inl (SESchema ''primitive patch downcast failed'')
      else
        (let len = ar_len A orig;
             (values, null_bytes) = fold (patch_prim_step A len patch) patches
               (ar_prim_values A orig, initial_null_bytes A orig);
             nulls = (if \<exists>b \<in> set null_bytes. b \<noteq> 0xFF
               then Some (map (\<lambda>i. i div 8 < length null_bytes
                   \<and> (null_bytes ! (i div 8)) AND push_bit (i mod 8) 1 \<noteq> 0) [0..<len])
               else None)
         in Inr (ar_prim_new A dt values nulls)))"

definition patch_option_list :: "nat \<Rightarrow> (nat \<Rightarrow> 'c option) \<Rightarrow> (nat \<times> nat) list \<Rightarrow> 'c option list \<Rightarrow> 'c option list" where
  "patch_option_list patch_len patch_at patches values =
     fold (\<lambda>(target_row, patch_row) vs.
       if target_row < length vs \<and> patch_row < patch_len then vs[target_row := patch_at patch_row] else vs)
       patches values"

definition patch_boolean_array ::
  "('b, 'a, 's, 'fl) arrow_api \<Rightarrow> 'a \<Rightarrow> 'a \<Rightarrow> (nat \<times> nat) list \<Rightarrow> arrow_store_error + 'a" where
  "patch_boolean_array A orig patch patches =
     (if \<not> ar_bool A orig then Inl (SESchema ''boolean downcast failed'')
      else if \<not> ar_bool A patch then Inl (SESchema ''boolean patch downcast failed'')
      else Inr (ar_bool_from A (patch_option_list (ar_len A patch)
        (\<lambda>i. if ar_is_null A patch i then None else Some (ar_bool_value A patch i)) patches
        (map (\<lambda>i. if ar_is_null A orig i then None else Some (ar_bool_value A orig i)) [0..<ar_len A orig]))))"

definition patch_string_array ::
  "('b, 'a, 's, 'fl) arrow_api \<Rightarrow> data_type \<Rightarrow> 'a \<Rightarrow> 'a \<Rightarrow> (nat \<times> nat) list \<Rightarrow> arrow_store_error + 'a" where
  "patch_string_array A dt orig patch patches =
     (if \<not> ar_str A dt orig then Inl (SESchema ''string downcast failed'')
      else if \<not> ar_str A dt patch then Inl (SESchema ''string patch downcast failed'')
      else Inr (ar_str_from A dt (patch_option_list (ar_len A patch)
        (\<lambda>i. if ar_is_null A patch i then None else Some (ar_str_value A patch i)) patches
        (map (\<lambda>i. if ar_is_null A orig i then None else Some (ar_str_value A orig i)) [0..<ar_len A orig]))))"

definition patch_array_values ::
  "('b, 'a, 's, 'fl) arrow_api \<Rightarrow> 'a \<Rightarrow> 'a \<Rightarrow> (nat \<times> nat) list \<Rightarrow> arrow_store_error + 'a" where
  "patch_array_values A orig patch patches =
     (case ar_data_type A orig of
        Int64 \<Rightarrow> patch_primitive_array A Int64 orig patch patches
      | Int32 \<Rightarrow> patch_primitive_array A Int32 orig patch patches
      | UInt64 \<Rightarrow> patch_primitive_array A UInt64 orig patch patches
      | Float64 \<Rightarrow> patch_primitive_array A Float64 orig patch patches
      | Boolean \<Rightarrow> patch_boolean_array A orig patch patches
      | Utf8 \<Rightarrow> patch_string_array A Utf8 orig patch patches
      | LargeUtf8 \<Rightarrow> patch_string_array A LargeUtf8 orig patch patches
      | OtherType t \<Rightarrow> Inl (SESchema (''unsupported patch type: '' @ ar_type_debug A (OtherType t))))"

definition patch_record_batch ::
  "('b, 'a, 's, 'fl) arrow_api \<Rightarrow> 'b \<Rightarrow> 'b \<Rightarrow> (nat \<times> nat) list \<Rightarrow> arrow_store_error + 'b" where
  "patch_record_batch A original patch_batch patches =
     rbind (map_result (\<lambda>c. patch_array_values A (ar_column A original c) (ar_column A patch_batch c) patches)
       [0..<ar_num_columns A original]) (\<lambda>columns.
     map_err (\<lambda>e. SEArrow (''rebuild patched batch: '' @ e)) (ar_try_new A (ar_schema A original) columns))"

definition array_value_to_string ::
  "('j, 'fl) json_api \<Rightarrow> ('b, 'a, 's, 'fl) arrow_api \<Rightarrow> ('a \<Rightarrow> string) \<Rightarrow> 'a \<Rightarrow> nat \<Rightarrow> string" where
  "array_value_to_string J A array_debug arr row_idx =
     (if ar_is_null A arr row_idx then ''null''
      else (case ar_data_type A arr of
          Boolean \<Rightarrow> if ar_bool A arr then (if ar_bool_value A arr row_idx then ''true'' else ''false'') else []
        | Utf8 \<Rightarrow> if ar_str A Utf8 arr then ar_str_value A arr row_idx else []
        | LargeUtf8 \<Rightarrow> if ar_str A LargeUtf8 arr then ar_str_value A arr row_idx else []
        | OtherType t \<Rightarrow> array_debug arr
        | dt \<Rightarrow> if ar_prim A dt arr then
              (case ar_prim_value A arr row_idx of NInt i \<Rightarrow> show_int i | NFloat f \<Rightarrow> fl_show J f)
            else []))"

subsection \<open>What the store relies on\<close>

datatype 'fl cell = CNative "'fl native" | CBool bool | CStr string

fun prim_type :: "data_type \<Rightarrow> bool" where
  "prim_type Int64 = True"
| "prim_type Int32 = True"
| "prim_type UInt64 = True"
| "prim_type Float64 = True"
| "prim_type _ = False"

definition supported :: "data_type \<Rightarrow> bool" where
  "supported dt \<longleftrightarrow> prim_type dt \<or> dt = Boolean \<or> dt = Utf8 \<or> dt = LargeUtf8"

definition cell_at :: "('b, 'a, 's, 'fl) arrow_api \<Rightarrow> 'a \<Rightarrow> nat \<Rightarrow> 'fl cell option" where
  "cell_at A a i =
     (if ar_is_null A a i then None
      else Some (if prim_type (ar_data_type A a) then CNative (ar_prim_value A a i)
                 else if ar_data_type A a = Boolean then CBool (ar_bool_value A a i)
                 else CStr (ar_str_value A a i)))"

definition cells :: "('b, 'a, 's, 'fl) arrow_api \<Rightarrow> 'a \<Rightarrow> 'fl cell option list" where
  "cells A a = map (cell_at A a) [0..<ar_len A a]"

text \<open>
  An array whose null buffer, if there is one, starts at its first row (Arrow slices share
  a buffer and start later), and whose value buffer agrees with its rows.
\<close>

definition unsliced :: "('b, 'a, 's, 'fl) arrow_api \<Rightarrow> 'a \<Rightarrow> bool" where
  "unsliced A a \<longleftrightarrow>
     map (ar_prim_value A a) [0..<ar_len A a] = ar_prim_values A a
   \<and> (case ar_null_bytes A a of
        None \<Rightarrow> \<forall>i < ar_len A a. \<not> ar_is_null A a i
      | Some bs \<Rightarrow> (ar_len A a + 7) div 8 \<le> length bs
          \<and> (\<forall>i < ar_len A a. ar_is_null A a i \<longleftrightarrow> \<not> bit (bs ! (i div 8)) (i mod 8)))"

text \<open>
  Documented behaviour of the Arrow constructors and of downcasts: a downcast succeeds
  exactly on the array's own type, an array built from values and nulls has them, a slice
  has the rows it covers, and a record batch can be built from columns that match its
  schema in number, type, length and nullability.
\<close>

definition arrow_downcasts_ok :: "('b, 'a, 's, 'fl) arrow_api \<Rightarrow> bool" where
  "arrow_downcasts_ok A \<longleftrightarrow>
     (\<forall>a dt. prim_type dt \<longrightarrow> ar_prim A dt a = (ar_data_type A a = dt))
   \<and> (\<forall>a. ar_bool A a = (ar_data_type A a = Boolean))
   \<and> (\<forall>a dt. dt = Utf8 \<or> dt = LargeUtf8 \<longrightarrow> ar_str A dt a = (ar_data_type A a = dt))"

definition arrow_prim_new_ok :: "('b, 'a, 's, 'fl) arrow_api \<Rightarrow> bool" where
  "arrow_prim_new_ok A \<longleftrightarrow>
     (\<forall>dt vs nulls. prim_type dt \<and> (\<forall>bs. nulls = Some bs \<longrightarrow> length bs = length vs) \<longrightarrow>
        ar_data_type A (ar_prim_new A dt vs nulls) = dt
      \<and> unsliced A (ar_prim_new A dt vs nulls)
      \<and> cells A (ar_prim_new A dt vs nulls) =
          map (\<lambda>i. if (case nulls of None \<Rightarrow> True | Some bs \<Rightarrow> bs ! i)
              then Some (CNative (vs ! i)) else None) [0..<length vs])"

definition arrow_from_ok :: "('b, 'a, 's, 'fl) arrow_api \<Rightarrow> bool" where
  "arrow_from_ok A \<longleftrightarrow>
     (\<forall>dt vs. prim_type dt \<longrightarrow> ar_data_type A (ar_prim_from A dt vs) = dt
        \<and> unsliced A (ar_prim_from A dt vs)
        \<and> cells A (ar_prim_from A dt vs) = map (map_option CNative) vs)
   \<and> (\<forall>vs. ar_data_type A (ar_bool_from A vs) = Boolean
        \<and> cells A (ar_bool_from A vs) = map (map_option CBool) vs)
   \<and> (\<forall>dt vs. dt = Utf8 \<or> dt = LargeUtf8 \<longrightarrow> ar_data_type A (ar_str_from A dt vs) = dt
        \<and> cells A (ar_str_from A dt vs) = map (map_option CStr) vs)"

definition arrow_slice_ok :: "('b, 'a, 's, 'fl) arrow_api \<Rightarrow> bool" where
  "arrow_slice_ok A \<longleftrightarrow>
     (\<forall>a i. i < ar_len A a \<longrightarrow>
        ar_data_type A (ar_slice A a i 1) = ar_data_type A a \<and> cells A (ar_slice A a i 1) = [cell_at A a i])"

definition arrow_arrays_ok :: "('b, 'a, 's, 'fl) arrow_api \<Rightarrow> bool" where
  "arrow_arrays_ok A \<longleftrightarrow>
     arrow_downcasts_ok A \<and> arrow_prim_new_ok A \<and> arrow_from_ok A \<and> arrow_slice_ok A"

lemma length_cells [simp]: "length (cells A a) = ar_len A a"
  by (simp add: cells_def)

lemma nth_cells [simp]: "i < ar_len A a \<Longrightarrow> cells A a ! i = cell_at A a i"
  by (simp add: cells_def)

lemma cells_len: "cells A a = xs \<Longrightarrow> ar_len A a = length xs"
  by (metis length_cells)

subsection \<open>The null buffer\<close>

lemma length_set_null_bit [simp]: "length (set_null_bit i v bs) = length bs"
  by (simp add: set_null_bit_def)

lemma bit_byte_set:
  "k < 8 \<Longrightarrow> m < 8 \<Longrightarrow> bit ((w :: 8 word) OR 2 ^ k) m \<longleftrightarrow> bit w m \<or> m = k"
  "k < 8 \<Longrightarrow> m < 8 \<Longrightarrow> bit ((w :: 8 word) AND NOT (2 ^ k)) m \<longleftrightarrow> bit w m \<and> m \<noteq> k"
  by (auto simp: bit_simps)

lemma set_null_bit_bit:
  assumes "t < 8 * length bs" and "i < 8 * length bs"
  shows "bit (set_null_bit t v bs ! (i div 8)) (i mod 8) \<longleftrightarrow> (if i = t then v else bit (bs ! (i div 8)) (i mod 8))"
proof -
  have t: "t div 8 < length bs" and i: "i div 8 < length bs" using assms by auto
  have "i = t \<longleftrightarrow> i div 8 = t div 8 \<and> i mod 8 = t mod 8"
    by (metis div_mult_mod_eq)
  with t i show ?thesis
    by (cases "i div 8 = t div 8") (auto simp: set_null_bit_def bit_byte_set)
qed

lemma all_ones_bit: "k < 8 \<Longrightarrow> bit (0xFF :: 8 word) k"
proof -
  assume "k < 8"
  have "(0xFF :: 8 word) = - 1" by simp
  with \<open>k < 8\<close> show ?thesis by (simp only: bit_minus_1_iff) simp
qed

lemma byte_bit_test: "((w :: 8 word) AND push_bit k 1 \<noteq> 0) \<longleftrightarrow> bit w k"
  by (simp add: bit_iff_and_push_bit_not_eq_0)

text \<open>The cells a value buffer and a null buffer stand for.\<close>

definition buffer_cells :: "nat \<Rightarrow> 'fl native list \<times> 8 word list \<Rightarrow> 'fl cell option list" where
  "buffer_cells n st = (case st of (vs, bs) \<Rightarrow>
     map (\<lambda>i. if bit (bs ! (i div 8)) (i mod 8) then Some (CNative (vs ! i)) else None) [0..<n])"

lemma buffer_cells_step:
  assumes "length vs = n" and "n \<le> 8 * length bs" and "prim_type (ar_data_type A patch)"
  shows "buffer_cells n (patch_prim_step A n patch (t, p) (vs, bs))
     = (if t < n \<and> p < ar_len A patch then (buffer_cells n (vs, bs))[t := cell_at A patch p]
        else buffer_cells n (vs, bs))"
proof (cases "t < n \<and> p < ar_len A patch")
  case True
  then have t: "t < 8 * length bs" using assms(2) by simp
  have "bit (set_null_bit t v bs ! (i div 8)) (i mod 8) \<longleftrightarrow> (if i = t then v else bit (bs ! (i div 8)) (i mod 8))"
    if "i < n" for i v using set_null_bit_bit [OF t, of i v] that assms(2) by simp
  then show ?thesis
    using True assms
    by (intro nth_equalityI)
      (auto simp: buffer_cells_def patch_prim_step_def cell_at_def nth_list_update)
qed (auto simp: patch_prim_step_def)

lemma patch_prim_step_lengths:
  "length (fst (patch_prim_step A n patch p st)) = length (fst st)"
  "length (snd (patch_prim_step A n patch p st)) = length (snd st)"
  by (auto simp: patch_prim_step_def split: prod.splits)

lemma buffer_cells_fold:
  assumes "length (fst st) = n" and "n \<le> 8 * length (snd st)" and "prim_type (ar_data_type A patch)"
  shows "buffer_cells n (fold (patch_prim_step A n patch) ps st)
      = patch_option_list (ar_len A patch) (cell_at A patch) ps (buffer_cells n st)
    \<and> length (fst (fold (patch_prim_step A n patch) ps st)) = n
    \<and> length (snd (fold (patch_prim_step A n patch) ps st)) = length (snd st)"
  using assms
proof (induction ps arbitrary: st)
  case (Cons x ps)
  obtain t p where x: "x = (t, p)" by force
  obtain vs bs where st: "st = (vs, bs)" by force
  have len: "length (buffer_cells n st) = n" by (simp add: buffer_cells_def st)
  let ?st = "patch_prim_step A n patch x st"
  have "length (fst ?st) = n" "n \<le> 8 * length (snd ?st)" "length (snd ?st) = length (snd st)"
    using Cons.prems by (simp_all add: patch_prim_step_lengths)
  with Cons.IH [of ?st] Cons.prems show ?case
    using buffer_cells_step [of vs n bs A patch t p] len
    by (simp add: patch_option_list_def x st)
qed (simp add: patch_option_list_def)

lemma length_patch_option_list [simp]: "length (patch_option_list n f ps vs) = length vs"
  unfolding patch_option_list_def
  by (induction ps arbitrary: vs) auto

lemma patch_option_list_map:
  "map (map_option g) (patch_option_list n f ps vs)
     = patch_option_list n (\<lambda>i. map_option g (f i)) ps (map (map_option g) vs)"
  unfolding patch_option_list_def
  by (induction ps arbitrary: vs) (auto simp: map_update)

lemma patch_option_list_nth:
  assumes "i < length vs"
  shows "patch_option_list n f ps vs ! i
     = (case find (\<lambda>(t, p). t = i \<and> p < n) (rev ps) of None \<Rightarrow> vs ! i | Some (t, p) \<Rightarrow> f p)"
  unfolding patch_option_list_def
proof (induction ps rule: rev_induct)
  case (snoc x xs)
  have "length (fold (\<lambda>(t, p) vs. if t < length vs \<and> p < n then vs[t := f p] else vs) xs vs) = length vs"
    using length_patch_option_list [of n f xs vs] unfolding patch_option_list_def .
  with snoc assms show ?case by (cases x) (auto simp: nth_list_update)
qed simp

lemma buffer_cells_initial:
  assumes "unsliced A a" and "prim_type (ar_data_type A a)"
  shows "buffer_cells (ar_len A a) (ar_prim_values A a, initial_null_bytes A a) = cells A a"
    and "length (initial_null_bytes A a) = (ar_len A a + 7) div 8"
    and "length (ar_prim_values A a) = ar_len A a"
proof -
  have vals: "ar_prim_values A a = map (ar_prim_value A a) [0..<ar_len A a]"
    using assms(1) by (simp add: unsliced_def)
  then show "length (ar_prim_values A a) = ar_len A a" by simp
  show len: "length (initial_null_bytes A a) = (ar_len A a + 7) div 8"
    using assms(1) by (auto simp: initial_null_bytes_def unsliced_def Let_def split: option.splits)
  have "bit (initial_null_bytes A a ! (i div 8)) (i mod 8) \<longleftrightarrow> \<not> ar_is_null A a i" if "i < ar_len A a" for i
  proof -
    have "i div 8 < (ar_len A a + 7) div 8" using that by auto
    with that assms(1) all_ones_bit [of "i mod 8"] show ?thesis
      by (auto simp: initial_null_bytes_def unsliced_def Let_def split: option.splits)
  qed
  then show "buffer_cells (ar_len A a) (ar_prim_values A a, initial_null_bytes A a) = cells A a"
    using assms(2) by (auto simp: buffer_cells_def cells_def cell_at_def vals intro!: map_cong)
qed

lemma buffer_cells_nulls:
  assumes "length bs = (n + 7) div 8" and "length vs = n"
  shows "buffer_cells n (vs, bs)
     = map (\<lambda>i. if (case (if \<exists>b \<in> set bs. b \<noteq> 0xFF
            then Some (map (\<lambda>i. i div 8 < length bs \<and> (bs ! (i div 8)) AND push_bit (i mod 8) 1 \<noteq> 0) [0..<n])
            else None) of None \<Rightarrow> True | Some ns \<Rightarrow> ns ! i)
         then Some (CNative (vs ! i)) else None) [0..<n]"
proof -
  have "i div 8 < length bs" if "i < n" for i using that assms(1) by auto
  moreover have "bit (bs ! (i div 8)) (i mod 8)" if "i < n" "\<forall>b \<in> set bs. b = 0xFF" for i
    using that calculation all_ones_bit [of "i mod 8"] by (metis mod_less_divisor nth_mem zero_less_numeral)
  ultimately show ?thesis
    by (auto simp: buffer_cells_def byte_bit_test intro!: map_cong simp del: push_bit_of_1)
qed

lemma patch_primitive_array_cells:
  assumes A: "arrow_arrays_ok A" and dt: "prim_type dt" "ar_data_type A orig = dt" "ar_data_type A patch = dt"
    and u: "unsliced A orig"
  shows "\<exists>a. patch_primitive_array A dt orig patch ps = Inr a \<and> ar_data_type A a = dt \<and> unsliced A a
    \<and> cells A a = patch_option_list (ar_len A patch) (cell_at A patch) ps (cells A orig)"
proof -
  let ?n = "ar_len A orig"
  note init = buffer_cells_initial [OF u]
  obtain vs bs where st: "fold (patch_prim_step A ?n patch) ps
      (ar_prim_values A orig, initial_null_bytes A orig) = (vs, bs)" by force
  have "prim_type (ar_data_type A patch)" using dt by simp
  from buffer_cells_fold [OF _ _ this, of "(ar_prim_values A orig, initial_null_bytes A orig)" ?n ps]
  have vb: "buffer_cells ?n (vs, bs) = patch_option_list (ar_len A patch) (cell_at A patch) ps (cells A orig)"
    "length vs = ?n" "length bs = (?n + 7) div 8"
    using init dt by (auto simp: st)
  have down: "ar_prim A dt orig" "ar_prim A dt patch"
    using A dt by (simp_all add: arrow_arrays_ok_def arrow_downcasts_ok_def)
  define nulls where "nulls = (if \<exists>b \<in> set bs. b \<noteq> 0xFF
            then Some (map (\<lambda>i. i div 8 < length bs \<and> (bs ! (i div 8)) AND push_bit (i mod 8) 1 \<noteq> 0) [0..<?n])
            else None)"
  have "patch_primitive_array A dt orig patch ps = Inr (ar_prim_new A dt vs nulls)"
    unfolding patch_primitive_array_def nulls_def using down by (simp only: st Let_def prod.case) simp
  moreover have "\<forall>b. nulls = Some b \<longrightarrow> length b = length vs"
    using vb(2) by (simp add: nulls_def split: if_split)
  moreover have "arrow_prim_new_ok A" using A by (simp add: arrow_arrays_ok_def)
  ultimately show ?thesis
    using dt(1) vb(1,2) buffer_cells_nulls [OF vb(3,2), folded nulls_def]
    by (simp add: arrow_prim_new_ok_def)
qed

lemma patch_boolean_array_cells:
  assumes A: "arrow_arrays_ok A" and dt: "ar_data_type A orig = Boolean" "ar_data_type A patch = Boolean"
  shows "\<exists>a. patch_boolean_array A orig patch ps = Inr a \<and> ar_data_type A a = Boolean
    \<and> cells A a = patch_option_list (ar_len A patch) (cell_at A patch) ps (cells A orig)"
proof -
  have "map_option CBool (if ar_is_null A a i then None else Some (ar_bool_value A a i)) = cell_at A a i"
    if "ar_data_type A a = Boolean" for a i using that by (simp add: cell_at_def)
  then show ?thesis
    using A dt
    by (simp add: arrow_arrays_ok_def arrow_downcasts_ok_def arrow_from_ok_def patch_boolean_array_def
        patch_option_list_map cells_def o_def del: option.map_sel)
qed

lemma patch_string_array_cells:
  assumes A: "arrow_arrays_ok A" and t: "dt = Utf8 \<or> dt = LargeUtf8"
    and dt: "ar_data_type A orig = dt" "ar_data_type A patch = dt"
  shows "\<exists>a. patch_string_array A dt orig patch ps = Inr a \<and> ar_data_type A a = dt
    \<and> cells A a = patch_option_list (ar_len A patch) (cell_at A patch) ps (cells A orig)"
proof -
  have val: "map_option CStr (if ar_is_null A a i then None else Some (ar_str_value A a i)) = cell_at A a i"
    if "ar_data_type A a = dt" for a i using that t by (auto simp: cell_at_def)
  have "ar_str A dt orig" "ar_str A dt patch"
    using A dt t by (auto simp: arrow_arrays_ok_def arrow_downcasts_ok_def)
  moreover have "ar_data_type A (ar_str_from A dt vs) = dt" "cells A (ar_str_from A dt vs) = map (map_option CStr) vs"
    for vs using A t by (auto simp: arrow_arrays_ok_def arrow_from_ok_def)
  ultimately show ?thesis
    using val dt by (simp add: patch_string_array_def patch_option_list_map cells_def [of A orig] o_def)
qed

lemma patch_array_values_cells:
  assumes "arrow_arrays_ok A" and "supported (ar_data_type A orig)" and "ar_data_type A patch = ar_data_type A orig"
    and "prim_type (ar_data_type A orig) \<Longrightarrow> unsliced A orig"
  shows "\<exists>a. patch_array_values A orig patch ps = Inr a \<and> ar_data_type A a = ar_data_type A orig
    \<and> (prim_type (ar_data_type A orig) \<longrightarrow> unsliced A a)
    \<and> cells A a = patch_option_list (ar_len A patch) (cell_at A patch) ps (cells A orig)"
  using assms patch_primitive_array_cells [OF assms(1), of "ar_data_type A orig" orig patch ps]
    patch_boolean_array_cells [OF assms(1), of orig patch ps]
    patch_string_array_cells [OF assms(1), of "ar_data_type A orig" orig patch ps]
  by (cases "ar_data_type A orig") (auto simp: patch_array_values_def supported_def)

subsection \<open>Record batches\<close>

text \<open>
  Columns fit a schema when they agree with it in number, type, length and nullability.
  A record batch can be built from exactly such columns and then has them.
\<close>

definition fits :: "('b, 'a, 's, 'fl) arrow_api \<Rightarrow> 's \<Rightarrow> 'a list \<Rightarrow> nat \<Rightarrow> bool" where
  "fits A s cs n \<longleftrightarrow> length cs = length (ar_fields A s) \<and> cs \<noteq> []
     \<and> (\<forall>i < length cs. case ar_fields A s ! i of (name, dt, nullable) \<Rightarrow>
          ar_data_type A (cs ! i) = dt \<and> ar_len A (cs ! i) = n \<and> (nullable \<or> None \<notin> set (cells A (cs ! i))))"

definition columns :: "('b, 'a, 's, 'fl) arrow_api \<Rightarrow> 'b \<Rightarrow> 'a list" where
  "columns A b = map (ar_column A b) [0..<ar_num_columns A b]"

definition arrow_batches_ok :: "('b, 'a, 's, 'fl) arrow_api \<Rightarrow> bool" where
  "arrow_batches_ok A \<longleftrightarrow>
     (\<forall>fs. ar_fields A (ar_schema_new A fs) = fs)
   \<and> (\<forall>s n i. ar_index_of A s n = Inr i \<longrightarrow> i < length (ar_fields A s) \<and> fst (ar_fields A s ! i) = n)
   \<and> (\<forall>s n. n \<in> fst ` set (ar_fields A s) \<longrightarrow> is_ok (ar_index_of A s n))
   \<and> (\<forall>s cs n. fits A s cs n \<longrightarrow> (\<exists>b. ar_try_new A s cs = Inr b))
   \<and> (\<forall>s cs b. ar_try_new A s cs = Inr b \<longrightarrow> ar_schema A b = s \<and> columns A b = cs
        \<and> fits A s cs (ar_num_rows A b))"

definition batch_ok :: "('b, 'a, 's, 'fl) arrow_api \<Rightarrow> 'b \<Rightarrow> bool" where
  "batch_ok A b \<longleftrightarrow> fits A (ar_schema A b) (columns A b) (ar_num_rows A b)"

definition batch_cells :: "('b, 'a, 's, 'fl) arrow_api \<Rightarrow> 'b \<Rightarrow> 'fl cell option list list" where
  "batch_cells A b = map (cells A) (columns A b)"

text \<open>A batch the store can patch: supported column types, buffers that start at row 0.\<close>

definition patchable :: "('b, 'a, 's, 'fl) arrow_api \<Rightarrow> 'b \<Rightarrow> bool" where
  "patchable A b \<longleftrightarrow> batch_ok A b \<and> (\<forall>a \<in> set (columns A b). supported (ar_data_type A a)
     \<and> (prim_type (ar_data_type A a) \<longrightarrow> unsliced A a))"

lemma columns_simps [simp]:
  "length (columns A b) = ar_num_columns A b"
  "i < ar_num_columns A b \<Longrightarrow> columns A b ! i = ar_column A b i"
  by (simp_all add: columns_def)

lemma batch_fits: "batch_ok A b \<Longrightarrow> fits A (ar_schema A b) (columns A b) (ar_num_rows A b)"
  by (simp add: batch_ok_def)

lemma try_new_fits: "arrow_batches_ok A \<Longrightarrow> fits A s cs n \<Longrightarrow> \<exists>b. ar_try_new A s cs = Inr b \<and> ar_schema A b = s \<and> columns A b = cs \<and> batch_ok A b"
  unfolding batch_ok_def arrow_batches_ok_def by metis

lemma try_new_Inr: "arrow_batches_ok A \<Longrightarrow> ar_try_new A s cs = Inr b \<Longrightarrow> ar_schema A b = s \<and> columns A b = cs \<and> batch_ok A b"
  by (simp add: arrow_batches_ok_def batch_ok_def)

lemma index_of_Inr:
  "arrow_batches_ok A \<Longrightarrow> batch_ok A b \<Longrightarrow> ar_index_of A (ar_schema A b) n = Inr i
   \<Longrightarrow> i < ar_num_columns A b \<and> fst (ar_fields A (ar_schema A b) ! i) = n"
  using batch_fits [of A b] unfolding arrow_batches_ok_def fits_def by auto

lemma fits_column:
  assumes "fits A s cs n" and "i < length cs"
  shows "ar_len A (cs ! i) = n" "ar_data_type A (cs ! i) = fst (snd (ar_fields A s ! i))"
    "\<not> snd (snd (ar_fields A s ! i)) \<Longrightarrow> None \<notin> set (cells A (cs ! i))"
  using assms by (auto simp: fits_def split_beta)

lemma fits_cong_cells:
  assumes "fits A s cs n" and "length ds = length cs"
    and "\<And>i. i < length cs \<Longrightarrow> ar_data_type A (ds ! i) = ar_data_type A (cs ! i) \<and> ar_len A (ds ! i) = m"
    and "\<And>i. i < length cs \<Longrightarrow> None \<in> set (cells A (ds ! i)) \<Longrightarrow> snd (snd (ar_fields A s ! i))"
  shows "fits A s ds m"
  using assms unfolding fits_def by (auto simp: split_beta)

lemma set_patch_option_list: "set (patch_option_list n f ps vs) \<subseteq> set vs \<union> f ` {..<n}"
  unfolding patch_option_list_def
proof (induction ps arbitrary: vs)
  case (Cons x ps)
  obtain t p where x: "x = (t, p)" by force
  show ?case
  proof (cases "t < length vs \<and> p < n")
    case True
    then have "set (vs[t := f p]) \<subseteq> set vs \<union> f ` {..<n}"
      by (auto dest: set_update_subset_insert [THEN subsetD])
    with True Cons.IH [of "vs[t := f p]"] show ?thesis by (auto simp: x)
  qed (use Cons.IH [of vs] in \<open>auto simp: x\<close>)
qed simp

lemma cells_image: "cell_at A a ` {..<ar_len A a} = set (cells A a)"
  by (auto simp: cells_def)

lemma num_rows_column:
  assumes "batch_ok A b" and "i < ar_num_columns A b"
  shows "ar_len A (ar_column A b i) = ar_num_rows A b"
  using fits_column(1) [OF batch_fits [OF assms(1)], of i] assms(2) by simp

lemma map_result_all:
  assumes "\<And>x. x \<in> set xs \<Longrightarrow> \<exists>y. f x = Inr y \<and> P x y"
  shows "\<exists>ys. map_result f xs = Inr ys \<and> list_all2 P xs ys"
  using assms
proof (induction xs)
  case (Cons x xs)
  from Cons.prems [of x] obtain y where "f x = Inr y" "P x y" by auto
  moreover from Cons obtain ys where "map_result f xs = Inr ys" "list_all2 P xs ys" by auto
  ultimately show ?case by auto
qed simp

lemma patch_record_batch_cells:
  assumes A: "arrow_arrays_ok A" "arrow_batches_ok A" and p: "patchable A orig"
    and ok: "batch_ok A patch" and s: "ar_schema A patch = ar_schema A orig"
  shows "\<exists>b. patch_record_batch A orig patch ps = Inr b \<and> ar_schema A b = ar_schema A orig
     \<and> ar_num_columns A b = ar_num_columns A orig \<and> ar_num_rows A b = ar_num_rows A orig \<and> patchable A b
     \<and> (\<forall>c < ar_num_columns A orig. cells A (ar_column A b c)
          = patch_option_list (ar_num_rows A patch) (cell_at A (ar_column A patch c)) ps (cells A (ar_column A orig c)))"
proof -
  let ?n = "ar_num_columns A orig" and ?R = "ar_num_rows A orig"
  have oko: "batch_ok A orig" using p by (simp add: patchable_def)
  note fo = batch_fits [OF oko] and fp = batch_fits [OF ok]
  have np: "ar_num_columns A patch = ?n" using fo fp s by (simp add: fits_def)
  have ty: "ar_data_type A (ar_column A patch c) = ar_data_type A (ar_column A orig c)" if "c < ?n" for c
    using fits_column(2) [OF fo, of c] fits_column(2) [OF fp, of c] s np that by simp
  let ?P = "\<lambda>c a. ar_data_type A a = ar_data_type A (ar_column A orig c)
      \<and> (prim_type (ar_data_type A (ar_column A orig c)) \<longrightarrow> unsliced A a)
      \<and> cells A a = patch_option_list (ar_num_rows A patch) (cell_at A (ar_column A patch c)) ps (cells A (ar_column A orig c))"
  have sup: "supported (ar_data_type A (ar_column A orig c))
      \<and> (prim_type (ar_data_type A (ar_column A orig c)) \<longrightarrow> unsliced A (ar_column A orig c))" if "c < ?n" for c
    using p that by (auto simp: patchable_def columns_def)
  have "\<exists>a. patch_array_values A (ar_column A orig c) (ar_column A patch c) ps = Inr a \<and> ?P c a"
    if "c \<in> set [0..<?n]" for c
    using patch_array_values_cells [OF A(1), of "ar_column A orig c" "ar_column A patch c" ps] sup [of c] ty [of c]
      num_rows_column [OF ok, of c] np that by auto
  then have "\<exists>cs. map_result (\<lambda>c. patch_array_values A (ar_column A orig c) (ar_column A patch c) ps) [0..<?n] = Inr cs
      \<and> list_all2 ?P [0..<?n] cs" by (rule map_result_all)
  then obtain cs where cs:
    "map_result (\<lambda>c. patch_array_values A (ar_column A orig c) (ar_column A patch c) ps) [0..<?n] = Inr cs"
    "length cs = ?n" "\<And>c. c < ?n \<Longrightarrow> ?P c (cs ! c)"
    by (auto simp: list_all2_conv_all_nth)
  have "fits A (ar_schema A orig) cs ?R"
  proof (rule fits_cong_cells [OF fo])
    fix c assume c: "c < length (columns A orig)"
    then have len: "ar_len A (cs ! c) = ar_len A (ar_column A orig c)"
      using cells_len [of A "cs ! c"] cs(3) [of c] by simp
    then show "ar_data_type A (cs ! c) = ar_data_type A (columns A orig ! c) \<and> ar_len A (cs ! c) = ?R"
      using cs(3) [of c] c num_rows_column [OF oko, of c] by simp
    assume "None \<in> set (cells A (cs ! c))"
    moreover have "cell_at A (ar_column A patch c) ` {..<ar_num_rows A patch} = set (cells A (ar_column A patch c))"
      using num_rows_column [OF ok, of c] np c cells_image [of A "ar_column A patch c"] by simp
    ultimately have "None \<in> set (cells A (ar_column A orig c)) \<or> None \<in> set (cells A (ar_column A patch c))"
      using cs(3) [of c] c set_patch_option_list by fastforce
    then show "snd (snd (ar_fields A (ar_schema A orig) ! c))"
      using fits_column(3) [OF fo, of c] fits_column(3) [OF fp, of c] s np c by auto
  qed (simp add: cs(2))
  from try_new_fits [OF A(2) this] obtain b where b: "ar_try_new A (ar_schema A orig) cs = Inr b"
    "ar_schema A b = ar_schema A orig" "columns A b = cs" "batch_ok A b" by auto
  have nc: "ar_num_columns A b = ?n" using b(3) cs(2) by (metis columns_simps(1))
  moreover have cb: "ar_column A b c = cs ! c" if "c < ?n" for c using b(3) that nc by (metis columns_simps(2))
  moreover have "?n > 0" using fo by (auto simp: fits_def columns_def)
  then have "ar_num_rows A b = ?R"
    using num_rows_column [OF b(4), of 0] num_rows_column [OF oko, of 0] nc cs(3) [of 0] cb [of 0]
      cells_len [of A "cs ! 0"] by simp
  moreover have "patchable A b"
    using sup cs(3) by (auto simp: patchable_def b(3,4) in_set_conv_nth cs(2))
  ultimately show ?thesis
    using b cs by (auto simp: patch_record_batch_def)
qed

subsection \<open>One-row patches\<close>

text \<open>The cell a JSON value stands for in a column of a given type.\<close>

definition json_cell :: "('j, 'fl) json_api \<Rightarrow> ('b, 'a, 's, 'fl) arrow_api \<Rightarrow> 'j \<Rightarrow> data_type
     \<Rightarrow> arrow_store_error + 'fl cell option" where
  "json_cell J A v dt =
     (if \<not> supported dt then Inl (unsupported_json_type A dt)
      else if js_is_null J v then Inr None
      else if dt = Boolean then rbind (json_to_bool J v) (\<lambda>b. Inr (Some (CBool b)))
      else if dt = Float64 then rbind (json_to_f64 J v) (\<lambda>f. Inr (Some (CNative (NFloat f))))
      else if prim_type dt then rbind (if dt = Int64 then json_to_i64 J v else if dt = Int32 then json_to_i32 J v
        else json_to_u64 J v) (\<lambda>i. Inr (Some (CNative (NInt i))))
      else rbind (json_to_string J v) (\<lambda>s. Inr (Some (CStr s))))"

lemma json_value_to_array_cell:
  assumes "arrow_arrays_ok A"
  shows "case json_cell J A v dt of
      Inl e \<Rightarrow> json_value_to_array J A v dt = Inl e
    | Inr c \<Rightarrow> \<exists>a. json_value_to_array J A v dt = Inr a \<and> ar_data_type A a = dt \<and> cells A a = [c]"
proof -
  have f: "arrow_from_ok A" using assms by (simp add: arrow_arrays_ok_def)
  show ?thesis
    using f unfolding arrow_from_ok_def json_cell_def json_value_to_array_def supported_def
    by (cases dt) (auto simp: rbind_Inl_iff split: sum.splits)
qed

definition row_cells :: "('b, 'a, 's, 'fl) arrow_api \<Rightarrow> 'b \<Rightarrow> nat \<Rightarrow> 'fl cell option list" where
  "row_cells A b r = map (\<lambda>a. cell_at A a r) (columns A b)"

lemma slice_single_cells:
  assumes "arrow_arrays_ok A" and "r < ar_len A a"
  shows "ar_data_type A (slice_array_to_single A a r) = ar_data_type A a"
    and "cells A (slice_array_to_single A a r) = [cell_at A a r]"
  using assms by (auto simp: arrow_arrays_ok_def arrow_slice_ok_def slice_array_to_single_def)

text \<open>What a builder of one-row patches does, column by column.\<close>

lemma one_row_patch:
  assumes A: "arrow_arrays_ok A" "arrow_batches_ok A"
    and src: "batch_ok A src" and cs: "length cs = ar_num_columns A src"
    and col: "\<And>c. c < ar_num_columns A src \<Longrightarrow>
      ar_data_type A (cs ! c) = ar_data_type A (ar_column A src c) \<and> cells A (cs ! c) = [vs ! c]"
    and len: "length vs = ar_num_columns A src"
  shows "(\<And>c. c < ar_num_columns A src \<Longrightarrow> vs ! c = None \<Longrightarrow> snd (snd (ar_fields A (ar_schema A src) ! c)))
      \<Longrightarrow> \<exists>b. ar_try_new A (ar_schema A src) cs = Inr b"
    and "ar_try_new A (ar_schema A src) cs = Inr b \<Longrightarrow>
      ar_schema A b = ar_schema A src \<and> ar_num_rows A b = 1 \<and> batch_ok A b \<and> row_cells A b 0 = vs"
proof -
  note fs = batch_fits [OF src]
  have one: "ar_len A (cs ! c) = 1" if "c < ar_num_columns A src" for c
    using cells_len [of A "cs ! c"] col [OF that] by simp
  {
    assume "\<And>c. c < ar_num_columns A src \<Longrightarrow> vs ! c = None \<Longrightarrow> snd (snd (ar_fields A (ar_schema A src) ! c))"
    then have "fits A (ar_schema A src) cs 1"
      using one col cs by (intro fits_cong_cells [OF fs]) auto
    from try_new_fits [OF A(2) this] show "\<exists>b. ar_try_new A (ar_schema A src) cs = Inr b" by blast
  }
  assume "ar_try_new A (ar_schema A src) cs = Inr b"
  from try_new_Inr [OF A(2) this] have b: "ar_schema A b = ar_schema A src" "columns A b = cs" "batch_ok A b" by auto
  have nc: "ar_num_columns A b = ar_num_columns A src" using b(2) cs by (metis columns_simps(1))
  moreover have "ar_num_columns A src > 0" using fs by (auto simp: fits_def columns_def)
  ultimately have "ar_num_rows A b = 1"
    using num_rows_column [OF b(3), of 0] one [of 0] b(2) by (metis columns_simps(2))
  moreover have "row_cells A b 0 = vs"
  proof (rule nth_equalityI)
    fix c assume "c < length (row_cells A b 0)"
    then have c: "c < ar_num_columns A src" by (simp add: row_cells_def b(2) cs)
    then show "row_cells A b 0 ! c = vs ! c"
      using col [OF c] one [OF c] nth_cells [of 0 A "cs ! c"] cs by (simp add: row_cells_def b(2))
  qed (simp add: row_cells_def b(2) cs len)
  ultimately show "ar_schema A b = ar_schema A src \<and> ar_num_rows A b = 1 \<and> batch_ok A b \<and> row_cells A b 0 = vs"
    using b(1,3) by simp
qed


lemma map_result_nth:
  "map_result f xs = Inr ys \<Longrightarrow> length ys = length xs \<and> (\<forall>i < length xs. f (xs ! i) = Inr (ys ! i))"
  by (induction xs arbitrary: ys) (auto simp: nth_Cons split: nat.splits sum.splits)

text \<open>An update patch holds the source row with one cell replaced; a null patch holds
  nulls in the nullable columns and the source row in the others.\<close>

lemma build_update_patch_cells:
  assumes A: "arrow_arrays_ok A" "arrow_batches_ok A" and src: "batch_ok A src" and r: "r < ar_num_rows A src"
    and c: "c < ar_num_columns A src"
    and v: "json_cell J A v (ar_data_type A (ar_column A src c)) = Inr x"
    and n: "x = None \<Longrightarrow> snd (snd (ar_fields A (ar_schema A src) ! c))"
  shows "\<exists>b. build_update_patch J A src r c v = Inr b \<and> ar_schema A b = ar_schema A src
     \<and> ar_num_rows A b = 1 \<and> batch_ok A b \<and> row_cells A b 0 = (row_cells A src r)[c := x]"
proof -
  let ?n = "ar_num_columns A src" and ?vs = "(row_cells A src r)[c := x]"
  let ?f = "\<lambda>d. if d = c then json_value_to_array J A v (ar_data_type A (ar_column A src d))
       else Inr (slice_array_to_single A (ar_column A src d) r)"
  have "\<exists>a. ?f d = Inr a \<and> (ar_data_type A a = ar_data_type A (ar_column A src d) \<and> cells A a = [?vs ! d])"
    if "d \<in> set [0..<?n]" for d
    using that c v json_value_to_array_cell [OF A(1), of J v "ar_data_type A (ar_column A src d)"]
      slice_single_cells [OF A(1), of r "ar_column A src d"] num_rows_column [OF src, of d] r
    by (auto simp: row_cells_def)
  then have "\<exists>cs. map_result ?f [0..<?n] = Inr cs \<and> list_all2 (\<lambda>d a. ar_data_type A a = ar_data_type A (ar_column A src d)
      \<and> cells A a = [?vs ! d]) [0..<?n] cs" by (rule map_result_all)
  then obtain cs where cs: "map_result ?f [0..<?n] = Inr cs" "length cs = ?n"
    "\<And>d. d < ?n \<Longrightarrow> ar_data_type A (cs ! d) = ar_data_type A (ar_column A src d) \<and> cells A (cs ! d) = [?vs ! d]"
    by (auto simp: list_all2_conv_all_nth)
  have len: "length ?vs = ?n" by (simp add: row_cells_def)
  have "snd (snd (ar_fields A (ar_schema A src) ! d))" if "d < ?n" "?vs ! d = None" for d
  proof (cases "d = c")
    case False
    then have "cell_at A (ar_column A src d) r = None" using that by (simp add: row_cells_def)
    then have "None \<in> set (cells A (ar_column A src d))"
      using nth_mem [of r "cells A (ar_column A src d)"] r num_rows_column [OF src, of d] that by simp
    then show ?thesis using fits_column(3) [OF batch_fits [OF src], of d] that by auto
  qed (use that n len in \<open>simp add: nth_list_update\<close>)
  from one_row_patch(1) [OF A src cs(2,3) len this] obtain b where b: "ar_try_new A (ar_schema A src) cs = Inr b" by blast
  from one_row_patch(2) [OF A src cs(2,3) len b] show ?thesis
    unfolding build_update_patch_def cs(1) by (simp add: b)
qed

lemma build_null_patch_cells:
  assumes A: "arrow_arrays_ok A" "arrow_batches_ok A" and r: "r < ar_num_rows A src" and p: "patchable A src"
  shows "\<exists>b. build_null_patch A src r = Inr b \<and> ar_schema A b = ar_schema A src \<and> ar_num_rows A b = 1
     \<and> batch_ok A b \<and> row_cells A b 0 = map (\<lambda>c. if snd (snd (ar_fields A (ar_schema A src) ! c)) then None
          else cell_at A (ar_column A src c) r) [0..<ar_num_columns A src]"
proof -
  have src: "batch_ok A src" using p by (simp add: patchable_def)
  let ?n = "ar_num_columns A src"
  let ?vs = "map (\<lambda>c. if snd (snd (ar_fields A (ar_schema A src) ! c)) then None
          else cell_at A (ar_column A src c) r) [0..<?n]"
  let ?f = "\<lambda>c. case ar_fields A (ar_schema A src) ! c of (n, dt, nullable) \<Rightarrow>
         if nullable then make_null_array A (ar_data_type A (ar_column A src c))
         else Inr (slice_array_to_single A (ar_column A src c) r)"
  have null: "\<exists>a. make_null_array A dt = Inr a \<and> ar_data_type A a = dt \<and> cells A a = [None]"
    if "supported dt" for dt
    using A(1) that unfolding arrow_arrays_ok_def arrow_from_ok_def supported_def
    by (cases dt) (auto simp: make_null_array_def)
  have "\<exists>a. ?f d = Inr a \<and> (ar_data_type A a = ar_data_type A (ar_column A src d) \<and> cells A a = [?vs ! d])"
    if "d \<in> set [0..<?n]" for d
  proof -
    have "supported (ar_data_type A (ar_column A src d))"
      using p that by (auto simp: patchable_def columns_def)
    from null [OF this] show ?thesis
      using that slice_single_cells [OF A(1), of r "ar_column A src d"] num_rows_column [OF src, of d] r
      by (auto simp: split_beta)
  qed
  then have "\<exists>cs. map_result ?f [0..<?n] = Inr cs \<and> list_all2 (\<lambda>d a. ar_data_type A a = ar_data_type A (ar_column A src d)
      \<and> cells A a = [?vs ! d]) [0..<?n] cs" by (rule map_result_all)
  then obtain cs where cs: "map_result ?f [0..<?n] = Inr cs" "length cs = ?n"
    "\<And>d. d < ?n \<Longrightarrow> ar_data_type A (cs ! d) = ar_data_type A (ar_column A src d) \<and> cells A (cs ! d) = [?vs ! d]"
    by (auto simp: list_all2_conv_all_nth)
  have len: "length ?vs = ?n" by simp
  have "snd (snd (ar_fields A (ar_schema A src) ! d))" if "d < ?n" "?vs ! d = None" for d
  proof (rule ccontr)
    assume nn: "\<not> snd (snd (ar_fields A (ar_schema A src) ! d))"
    then have "None \<in> set (cells A (ar_column A src d))"
      using nth_mem [of r "cells A (ar_column A src d)"] r num_rows_column [OF src, of d] that by simp
    then show False using fits_column(3) [OF batch_fits [OF src], of d] that nn by auto
  qed
  from one_row_patch(1) [OF A src cs(2,3) len this] obtain b where b: "ar_try_new A (ar_schema A src) cs = Inr b" by blast
  from one_row_patch(2) [OF A src cs(2,3) len b] show ?thesis
    unfolding build_null_patch_def cs(1) by (simp add: b)
qed

subsection \<open>An implementation of the interface\<close>

text \<open>
  Columns as a type, the cells of the shared buffer, and the offset and length of the
  slice, as in Arrow: a slice shares the buffer, and the null buffer is that of the whole
  buffer. The laws hold of it, so the hypotheses above can be met.
\<close>

datatype lcol = LCol data_type "int cell option list" nat nat

fun lrows :: "lcol \<Rightarrow> int cell option list" where
  "lrows (LCol dt buf off n) = take n (drop off buf)"

fun ltype :: "lcol \<Rightarrow> data_type" where
  "ltype (LCol dt buf off n) = dt"

definition lcell :: "lcol \<Rightarrow> nat \<Rightarrow> int cell option" where
  "lcell a i = (if i < length (lrows a) then lrows a ! i else None)"

fun cell_native :: "int cell option \<Rightarrow> int native" where
  "cell_native (Some (CNative v)) = v"
| "cell_native _ = NInt 0"

fun cell_bool :: "int cell option \<Rightarrow> bool" where
  "cell_bool (Some (CBool b)) = b"
| "cell_bool _ = False"

fun cell_str :: "int cell option \<Rightarrow> string" where
  "cell_str (Some (CStr s)) = s"
| "cell_str _ = []"

definition pack_byte :: "int cell option list \<Rightarrow> nat \<Rightarrow> 8 word" where
  "pack_byte buf j = horner_sum of_bool 2 (map (\<lambda>k. 8 * j + k < length buf \<and> buf ! (8 * j + k) \<noteq> None) [0..<8])"

fun lnull_bytes :: "lcol \<Rightarrow> 8 word list option" where
  "lnull_bytes (LCol dt buf off n) =
     (if None \<in> set buf then Some (map (pack_byte buf) [0..<(length buf + 7) div 8]) else None)"

definition fresh_col :: "data_type \<Rightarrow> int cell option list \<Rightarrow> lcol" where
  "fresh_col dt cs = LCol dt cs 0 (length cs)"

fun lfind :: "field list \<Rightarrow> string \<Rightarrow> nat \<Rightarrow> string + nat" where
  "lfind [] n i = Inl ''no such column''"
| "lfind (f # fs) n i = (if fst f = n then Inr i else lfind fs n (Suc i))"

definition lnum_rows :: "lcol list \<Rightarrow> nat" where
  "lnum_rows cs = (case cs of [] \<Rightarrow> 0 | c # _ \<Rightarrow> length (lrows c))"

definition lfit :: "field list \<Rightarrow> lcol list \<Rightarrow> bool" where
  "lfit fs cs \<longleftrightarrow> length cs = length fs \<and> cs \<noteq> []
     \<and> list_all2 (\<lambda>(name, dt, nullable) c. ltype c = dt \<and> length (lrows c) = lnum_rows cs
         \<and> (nullable \<or> None \<notin> set (map (\<lambda>i. lcell c i) [0..<length (lrows c)]))) fs cs"

definition list_arrow :: "(field list \<times> lcol list, lcol, field list, int) arrow_api" where
  "list_arrow = \<lparr>
     ar_num_rows = \<lambda>b. lnum_rows (snd b),
     ar_num_columns = \<lambda>b. length (snd b),
     ar_column = \<lambda>b i. snd b ! i,
     ar_schema = fst,
     ar_try_new = \<lambda>s cs. if lfit s cs then Inr (s, cs) else Inl ''columns do not match schema'',
     ar_index_of = \<lambda>s n. lfind s n 0,
     ar_fields = \<lambda>s. s,
     ar_schema_new = \<lambda>fs. fs,
     ar_data_type = ltype,
     ar_type_debug = \<lambda>dt. ''type'',
     ar_len = \<lambda>a. length (lrows a),
     ar_is_null = \<lambda>a i. lcell a i = None,
     ar_slice = \<lambda>a i n. (case a of LCol dt buf off len \<Rightarrow> LCol dt buf (off + i) n),
     ar_prim = \<lambda>dt a. ltype a = dt,
     ar_prim_values = \<lambda>a. map cell_native (lrows a),
     ar_prim_value = \<lambda>a i. cell_native (lcell a i),
     ar_null_bytes = lnull_bytes,
     ar_prim_new = \<lambda>dt vs nulls. fresh_col dt (map (\<lambda>i. if (case nulls of None \<Rightarrow> True | Some bs \<Rightarrow> bs ! i)
        then Some (CNative (vs ! i)) else None) [0..<length vs]),
     ar_prim_from = \<lambda>dt vs. fresh_col dt (map (map_option CNative) vs),
     ar_bool = \<lambda>a. ltype a = Boolean,
     ar_bool_value = \<lambda>a i. cell_bool (lcell a i),
     ar_bool_from = \<lambda>vs. fresh_col Boolean (map (map_option CBool) vs),
     ar_str = \<lambda>dt a. ltype a = dt,
     ar_str_value = \<lambda>a i. cell_str (lcell a i),
     ar_str_from = \<lambda>dt vs. fresh_col dt (map (map_option CStr) vs)\<rparr>"

lemma list_arrow_simps [simp]:
  "ar_num_rows list_arrow b = lnum_rows (snd b)"
  "ar_num_columns list_arrow b = length (snd b)"
  "ar_column list_arrow b i = snd b ! i"
  "ar_schema list_arrow b = fst b"
  "ar_try_new list_arrow s cs = (if lfit s cs then Inr (s, cs) else Inl ''columns do not match schema'')"
  "ar_index_of list_arrow s n = lfind s n 0"
  "ar_fields list_arrow s = s"
  "ar_schema_new list_arrow s = s"
  "ar_data_type list_arrow = ltype"
  "ar_len list_arrow a = length (lrows a)"
  "ar_is_null list_arrow a i = (lcell a i = None)"
  "ar_slice list_arrow (LCol dt buf off len) i m = LCol dt buf (off + i) m"
  "ar_prim list_arrow dt a = (ltype a = dt)"
  "ar_prim_values list_arrow a = map cell_native (lrows a)"
  "ar_prim_value list_arrow a i = cell_native (lcell a i)"
  "ar_null_bytes list_arrow = lnull_bytes"
  "ar_prim_new list_arrow dt vs nulls = fresh_col dt (map (\<lambda>i. if (case nulls of None \<Rightarrow> True | Some bs \<Rightarrow> bs ! i)
        then Some (CNative (vs ! i)) else None) [0..<length vs])"
  "ar_prim_from list_arrow dt ns = fresh_col dt (map (map_option CNative) ns)"
  "ar_bool list_arrow a = (ltype a = Boolean)"
  "ar_bool_value list_arrow a i = cell_bool (lcell a i)"
  "ar_bool_from list_arrow bs = fresh_col Boolean (map (map_option CBool) bs)"
  "ar_str list_arrow dt a = (ltype a = dt)"
  "ar_str_value list_arrow a i = cell_str (lcell a i)"
  "ar_str_from list_arrow dt ss = fresh_col dt (map (map_option CStr) ss)"
  by (simp_all add: list_arrow_def)

lemma fresh_col_simps [simp]: "lrows (fresh_col dt cs) = cs" "ltype (fresh_col dt cs) = dt"
  by (simp_all add: fresh_col_def)

lemma pack_byte_bit: "i < length buf \<Longrightarrow> bit (pack_byte buf (i div 8)) (i mod 8) \<longleftrightarrow> buf ! i \<noteq> None"
  by (simp add: pack_byte_def bit_horner_sum_bit_word_iff nth_map_upt)

lemma fresh_unsliced: "unsliced list_arrow (fresh_col dt cs)"
proof -
  have "lcell (fresh_col dt cs) i = cs ! i" if "i < length cs" for i using that by (simp add: lcell_def)
  moreover have "cs ! i \<noteq> None" if "i < length cs" "None \<notin> set cs" for i using that by (metis nth_mem)
  ultimately show ?thesis
    by (auto simp: unsliced_def fresh_col_def [of dt] pack_byte_bit lcell_def intro!: nth_equalityI)
qed

lemma cells_fresh:
  "prim_type dt \<Longrightarrow> cells list_arrow (fresh_col dt (map (map_option CNative) ns)) = map (map_option CNative) ns"
  "cells list_arrow (fresh_col Boolean (map (map_option CBool) bs)) = map (map_option CBool) bs"
  "dt = Utf8 \<or> dt = LargeUtf8 \<Longrightarrow>
     cells list_arrow (fresh_col dt (map (map_option CStr) ss)) = map (map_option CStr) ss"
  by (auto simp: cells_def cell_at_def lcell_def map_eq_conv intro!: nth_equalityI split: option.splits)

lemma list_arrow_arrays_ok: "arrow_arrays_ok list_arrow"
proof -
  have "cells list_arrow (ar_prim_new list_arrow dt vs nulls) =
          map (\<lambda>i. if (case nulls of None \<Rightarrow> True | Some bs \<Rightarrow> bs ! i) then Some (CNative (vs ! i)) else None) [0..<length vs]"
    if "prim_type dt" for dt vs nulls
    using cells_fresh(1) [OF that, of "map (\<lambda>i. if (case nulls of None \<Rightarrow> True | Some bs \<Rightarrow> bs ! i)
        then Some (vs ! i) else None) [0..<length vs]"]
    by (simp add: o_def if_distrib cong: if_cong)
  then have "arrow_prim_new_ok list_arrow"
    by (simp add: arrow_prim_new_ok_def fresh_unsliced)
  moreover have "arrow_from_ok list_arrow"
    using cells_fresh by (simp add: arrow_from_ok_def fresh_unsliced)
  moreover have "arrow_slice_ok list_arrow"
    unfolding arrow_slice_ok_def
  proof (intro allI impI)
    fix a i assume "i < ar_len list_arrow a"
    then show "ar_data_type list_arrow (ar_slice list_arrow a i 1) = ar_data_type list_arrow a
        \<and> cells list_arrow (ar_slice list_arrow a i 1) = [cell_at list_arrow a i]"
      by (cases a) (auto simp: cells_def cell_at_def lcell_def)
  qed
  ultimately show ?thesis by (simp add: arrow_arrays_ok_def arrow_downcasts_ok_def)
qed

lemma lfind_Inr: "lfind fs n k = Inr i \<Longrightarrow> k \<le> i \<and> i < k + length fs \<and> fst (fs ! (i - k)) = n"
proof (induction fs arbitrary: k)
  case (Cons f fs)
  from Cons.IH [of "Suc k"] Cons.prems show ?case
    by (auto simp: nth_Cons split: if_splits nat.splits) (metis Suc_diff_Suc Suc_le_lessD diff_Suc_Suc nat.inject)
qed simp

lemma lfind_ok: "n \<in> fst ` set fs \<Longrightarrow> is_ok (lfind fs n k)"
  by (induction fs arbitrary: k) auto

lemma lfit_fits: "fits list_arrow s cs n \<longleftrightarrow> lfit s cs \<and> n = lnum_rows cs"
proof -
  have cell: "(cell_at list_arrow c i = None) = (lcell c i = None)" for c i by (simp add: cell_at_def)
  have none: "None \<in> set (cells list_arrow c) \<longleftrightarrow> None \<in> set (map (lcell c) [0..<length (lrows c)])" for c
    using cell by (simp add: cells_def image_iff eq_commute [of None])
  have "fits list_arrow s cs n \<Longrightarrow> n = lnum_rows cs"
    by (cases cs) (force simp: fits_def lnum_rows_def split_beta)+
  moreover have "fits list_arrow s cs (lnum_rows cs) = lfit s cs"
    unfolding fits_def lfit_def list_all2_conv_all_nth none list_arrow_simps split_beta
    by (rule conj_cong [OF refl conj_cong [OF refl]]) (simp only: simp_thms)
  ultimately show ?thesis by metis
qed

lemma list_arrow_batches_ok: "arrow_batches_ok list_arrow"
proof -
  have "columns list_arrow (s, cs) = cs" for s cs by (rule nth_equalityI) simp_all
  then show ?thesis
    using lfind_Inr [of _ _ 0] lfind_ok by (auto simp: arrow_batches_ok_def lfit_fits)
qed

subsection \<open>Properties\<close>

definition demo_fields :: "field list" where
  "demo_fields = [(''id'', UInt64, False), (''name'', Utf8, True)]"

definition demo_batch :: "field list \<times> lcol list" where
  "demo_batch = (demo_fields,
     [fresh_col UInt64 [Some (CNative (NInt 1)), Some (CNative (NInt 2))],
      fresh_col Utf8 [Some (CStr ''a''), None]])"

definition demo_patch :: "field list \<times> lcol list" where
  "demo_patch = (demo_fields, [fresh_col UInt64 [Some (CNative (NInt 7))], fresh_col Utf8 [Some (CStr ''z'')]])"

lemma columns_list_arrow [simp]: "columns list_arrow b = snd b"
  by (rule nth_equalityI) simp_all

lemma demo_batch_patchable: "patchable list_arrow demo_batch" "batch_ok list_arrow demo_patch"
proof -
  have "lfit demo_fields (snd demo_batch)" "lfit demo_fields (snd demo_patch)"
    by (simp_all add: lfit_def demo_batch_def demo_patch_def demo_fields_def lnum_rows_def lcell_def atLeast0_lessThan_Suc)
  then show "patchable list_arrow demo_batch" "batch_ok list_arrow demo_patch"
    by (auto simp: patchable_def batch_ok_def lfit_fits demo_batch_def demo_patch_def supported_def fresh_unsliced)
qed

text \<open>C6: Patching a record batch changes exactly the addressed cells. For a list of
  (target row, patch row) pairs, the cell of every column at a target row becomes the cell
  of the last pair for that row whose patch row exists; pairs that point outside the batch
  or the patch are ignored, every other cell, the schema and the row count stay, nulls
  included, although primitive columns go through a bit-packed null buffer.\<close>

theorem patch_record_batch_correct:
  assumes "arrow_arrays_ok A" and "arrow_batches_ok A" and "patchable A orig" and "batch_ok A patch"
    and "ar_schema A patch = ar_schema A orig"
  shows "\<exists>b. patch_record_batch A orig patch ps = Inr b \<and> ar_schema A b = ar_schema A orig
     \<and> ar_num_rows A b = ar_num_rows A orig \<and> patchable A b
     \<and> (\<forall>c < ar_num_columns A orig. \<forall>r < ar_num_rows A orig. cell_at A (ar_column A b c) r
          = (case find (\<lambda>(t, p). t = r \<and> p < ar_num_rows A patch) (rev ps) of
               None \<Rightarrow> cell_at A (ar_column A orig c) r
             | Some (t, p) \<Rightarrow> cell_at A (ar_column A patch c) p))"
proof -
  from patch_record_batch_cells [OF assms, of ps] obtain b where b:
    "patch_record_batch A orig patch ps = Inr b" "ar_schema A b = ar_schema A orig"
    "ar_num_columns A b = ar_num_columns A orig" "ar_num_rows A b = ar_num_rows A orig" "patchable A b"
    "\<forall>c < ar_num_columns A orig. cells A (ar_column A b c)
      = patch_option_list (ar_num_rows A patch) (cell_at A (ar_column A patch c)) ps (cells A (ar_column A orig c))"
    by blast
  have ok: "batch_ok A b" "batch_ok A orig" using assms(3) b(5) by (simp_all add: patchable_def)
  have "cell_at A (ar_column A b c) r = (case find (\<lambda>(t, p). t = r \<and> p < ar_num_rows A patch) (rev ps) of
               None \<Rightarrow> cell_at A (ar_column A orig c) r
             | Some (t, p) \<Rightarrow> cell_at A (ar_column A patch c) p)"
    if "c < ar_num_columns A orig" "r < ar_num_rows A orig" for c r
  proof -
    have len: "r < ar_len A (ar_column A b c)" "r < ar_len A (ar_column A orig c)"
      using num_rows_column [OF ok(1), of c] num_rows_column [OF ok(2), of c] b(3,4) that by simp_all
    have "cell_at A (ar_column A b c) r = patch_option_list (ar_num_rows A patch)
        (cell_at A (ar_column A patch c)) ps (cells A (ar_column A orig c)) ! r"
      using nth_cells [OF len(1)] b(6) that(1) by simp
    also have "\<dots> = (case find (\<lambda>(t, p). t = r \<and> p < ar_num_rows A patch) (rev ps) of
               None \<Rightarrow> cells A (ar_column A orig c) ! r
             | Some (t, p) \<Rightarrow> cell_at A (ar_column A patch c) p)"
      using len(2) by (intro patch_option_list_nth) simp
    finally show ?thesis unfolding nth_cells [OF len(2)] .
  qed
  with b show ?thesis by blast
qed

theorem patch_record_batch_correct_witness:
  "\<exists>b. patch_record_batch list_arrow demo_batch demo_patch [(1, 0), (5, 0), (0, 9)] = Inr b
     \<and> cell_at list_arrow (ar_column list_arrow b 0) 1 = Some (CNative (NInt 7))
     \<and> cell_at list_arrow (ar_column list_arrow b 1) 1 = Some (CStr ''z'')
     \<and> cell_at list_arrow (ar_column list_arrow b 1) 0 = Some (CStr ''a'')"
proof -
  have s: "ar_schema list_arrow demo_patch = ar_schema list_arrow demo_batch"
    by (simp add: demo_batch_def demo_patch_def)
  from patch_record_batch_correct [OF list_arrow_arrays_ok list_arrow_batches_ok demo_batch_patchable s,
      of "[(1, 0), (5, 0), (0, 9)]"]
  obtain b where b: "patch_record_batch list_arrow demo_batch demo_patch [(1, 0), (5, 0), (0, 9)] = Inr b"
    and c: "\<forall>c < 2. \<forall>r < 2. cell_at list_arrow (ar_column list_arrow b c) r
      = (case find (\<lambda>(t, p). t = r \<and> p < 1) (rev [(1, 0), (5, 0), (0, 9)]) of
               None \<Rightarrow> cell_at list_arrow (ar_column list_arrow demo_batch c) r
             | Some (t, p) \<Rightarrow> cell_at list_arrow (ar_column list_arrow demo_patch c) p)"
    by (auto simp: demo_batch_def demo_patch_def lnum_rows_def)
  from c [rule_format, of 0 1] c [rule_format, of 1 1] c [rule_format, of 1 0] b show ?thesis
    by (simp add: demo_batch_def demo_patch_def cell_at_def lcell_def)
qed

text \<open>The null buffer of a column that is a slice of a longer one is read from the
  start of the shared buffer: patching nothing turns a valid cell of the slice into a null.\<close>

theorem patch_sliced_column_wrong_null:
  "let a = LCol Int64 [None, Some (CNative (NInt 5))] 1 1 in
     cells list_arrow a = [Some (CNative (NInt 5))]
   \<and> (\<exists>b. patch_primitive_array list_arrow Int64 a (fresh_col Int64 []) [] = Inr b \<and> cells list_arrow b = [None])"
proof -
  have pb: "pack_byte [None, Some (CNative (NInt 5))] 0 = 2"
    by (simp add: pack_byte_def upt_rec nth_Cons horner_sum_simps split: nat.splits)
  have "(2 :: 8 word) AND 1 = 0" by code_simp
  then show ?thesis
    by (simp add: Let_def cells_def cell_at_def lcell_def patch_primitive_array_def initial_null_bytes_def pb)
qed

end
