(* ===== verification/Indices.thy ===== *)
theory Indices
  imports Arrow_Data
begin

section \<open>Key indices and partitions (scharnhorst\_arrow\_store: index.rs, partition.rs)\<close>

text \<open>
  Both key indices have a hot layer with the latest location of every key and an optional
  cold layer with all of them. The contract the two share is the locale \<open>layered_index\<close>:
  the hot layer is what the newest entry of the history would be. It is interpreted once on
  the primary and once on the foreign key index. Partitions map region names to batches.
\<close>

subsection \<open>Locations\<close>

text \<open>A location is a tick, a batch index and a row index.\<close>

type_synonym location = "tick \<times> nat \<times> nat"

record row_location =
  loc_tick :: tick
  loc_batch_index :: nat
  loc_row_index :: nat
  loc_row_id :: row_id

text \<open>What the hot layer holds after an entry: the new location unless it is older.\<close>

definition newer :: "location option \<Rightarrow> location \<Rightarrow> location" where
  "newer old new = (case old of None \<Rightarrow> new | Some l \<Rightarrow> if fst l \<le> fst new then new else l)"

definition newest :: "location list \<Rightarrow> location option" where
  "newest ls = fold (\<lambda>l acc. Some (newer acc l)) ls None"

subsection \<open>PrimaryKeyIndex\<close>

record primary_key_index =
  pk_latest_entries :: "(string \<times> location) list"
  pk_historical_entries :: "(string \<times> location list) list option"

definition pk_new :: primary_key_index where
  "pk_new = \<lparr>pk_latest_entries = [], pk_historical_entries = Some []\<rparr>"

definition pk_with_history :: "bool \<Rightarrow> primary_key_index" where
  "pk_with_history enabled =
     \<lparr>pk_latest_entries = [], pk_historical_entries = (if enabled then Some [] else None)\<rparr>"

definition pk_insert :: "primary_key_index \<Rightarrow> string \<Rightarrow> tick \<Rightarrow> nat \<Rightarrow> nat \<Rightarrow> primary_key_index" where
  "pk_insert ix key tick batch_idx row_idx =
     (let should_update = (case hm_get (pk_latest_entries ix) key of
            Some (existing_tick, _, _) \<Rightarrow> existing_tick \<le> tick
          | None \<Rightarrow> True);
          ix1 = (if should_update
            then ix\<lparr>pk_latest_entries := hm_insert key (tick, batch_idx, row_idx) (pk_latest_entries ix)\<rparr>
            else ix)
      in case pk_historical_entries ix1 of
           Some hist \<Rightarrow> ix1\<lparr>pk_historical_entries := Some (hm_insert key
             ((case hm_get hist key of None \<Rightarrow> [] | Some es \<Rightarrow> es) @ [(tick, batch_idx, row_idx)]) hist)\<rparr>
         | None \<Rightarrow> ix1)"

definition pk_lookup :: "primary_key_index \<Rightarrow> string \<Rightarrow> location list option" where
  "pk_lookup ix key = (case pk_historical_entries ix of None \<Rightarrow> None | Some hist \<Rightarrow> hm_get hist key)"

definition pk_lookup_latest :: "primary_key_index \<Rightarrow> string \<Rightarrow> location option" where
  "pk_lookup_latest ix key = hm_get (pk_latest_entries ix) key"

definition pk_remove_key :: "primary_key_index \<Rightarrow> string \<Rightarrow> location list option \<times> primary_key_index" where
  "pk_remove_key ix key = (pk_lookup ix key,
     ix\<lparr>pk_latest_entries := hm_remove key (pk_latest_entries ix),
        pk_historical_entries := map_option (hm_remove key) (pk_historical_entries ix)\<rparr>)"

definition pk_keys :: "primary_key_index \<Rightarrow> string list" where
  "pk_keys ix = map fst (pk_latest_entries ix)"

definition pk_is_empty :: "primary_key_index \<Rightarrow> bool" where
  "pk_is_empty ix \<longleftrightarrow> pk_latest_entries ix = []"

definition pk_len :: "primary_key_index \<Rightarrow> nat" where
  "pk_len ix = length (pk_latest_entries ix)"

definition pk_history_enabled :: "primary_key_index \<Rightarrow> bool" where
  "pk_history_enabled ix \<longleftrightarrow> pk_historical_entries ix \<noteq> None"

subsection \<open>ForeignKeyIndex\<close>

record foreign_key_index =
  fk_column_name :: string
  fk_target_table :: string
  fk_latest_entries :: "(string \<times> location) list"
  fk_historical_entries :: "(string \<times> location list) list option"

definition fk_new :: "string \<Rightarrow> string \<Rightarrow> foreign_key_index" where
  "fk_new column target = \<lparr>fk_column_name = column, fk_target_table = target,
     fk_latest_entries = [], fk_historical_entries = Some []\<rparr>"

definition fk_with_history :: "string \<Rightarrow> string \<Rightarrow> bool \<Rightarrow> foreign_key_index" where
  "fk_with_history column target enabled = \<lparr>fk_column_name = column, fk_target_table = target,
     fk_latest_entries = [], fk_historical_entries = (if enabled then Some [] else None)\<rparr>"

definition fk_insert :: "foreign_key_index \<Rightarrow> string \<Rightarrow> tick \<Rightarrow> nat \<Rightarrow> nat \<Rightarrow> foreign_key_index" where
  "fk_insert ix key tick batch_idx row_idx =
     (let should_update = (case hm_get (fk_latest_entries ix) key of
            Some (existing_tick, _, _) \<Rightarrow> existing_tick \<le> tick
          | None \<Rightarrow> True);
          ix1 = (if should_update
            then ix\<lparr>fk_latest_entries := hm_insert key (tick, batch_idx, row_idx) (fk_latest_entries ix)\<rparr>
            else ix)
      in case fk_historical_entries ix1 of
           Some hist \<Rightarrow> ix1\<lparr>fk_historical_entries := Some (hm_insert key
             ((case hm_get hist key of None \<Rightarrow> [] | Some es \<Rightarrow> es) @ [(tick, batch_idx, row_idx)]) hist)\<rparr>
         | None \<Rightarrow> ix1)"

definition fk_lookup :: "foreign_key_index \<Rightarrow> string \<Rightarrow> location list option" where
  "fk_lookup ix key = (case fk_historical_entries ix of None \<Rightarrow> None | Some hist \<Rightarrow> hm_get hist key)"

definition fk_lookup_latest :: "foreign_key_index \<Rightarrow> string \<Rightarrow> location option" where
  "fk_lookup_latest ix key = hm_get (fk_latest_entries ix) key"

definition fk_remove_key :: "foreign_key_index \<Rightarrow> string \<Rightarrow> location list option \<times> foreign_key_index" where
  "fk_remove_key ix key = (fk_lookup ix key,
     ix\<lparr>fk_latest_entries := hm_remove key (fk_latest_entries ix),
        fk_historical_entries := map_option (hm_remove key) (fk_historical_entries ix)\<rparr>)"

definition fk_keys :: "foreign_key_index \<Rightarrow> string list" where
  "fk_keys ix = map fst (fk_latest_entries ix)"

definition fk_is_empty :: "foreign_key_index \<Rightarrow> bool" where
  "fk_is_empty ix \<longleftrightarrow> fk_latest_entries ix = []"

definition fk_len :: "foreign_key_index \<Rightarrow> nat" where
  "fk_len ix = length (fk_latest_entries ix)"

definition fk_history_enabled :: "foreign_key_index \<Rightarrow> bool" where
  "fk_history_enabled ix \<longleftrightarrow> fk_historical_entries ix \<noteq> None"

subsection \<open>partition.rs\<close>

record 'b partition =
  pt_region_id :: string
  pt_batches :: "'b list"

definition partition_new :: "string \<Rightarrow> 'b partition" where
  "partition_new region = \<lparr>pt_region_id = region, pt_batches = []\<rparr>"

definition add_batch :: "'b partition \<Rightarrow> 'b \<Rightarrow> 'b partition" where
  "add_batch p b = p\<lparr>pt_batches := pt_batches p @ [b]\<rparr>"

definition partition_is_empty :: "'b partition \<Rightarrow> bool" where
  "partition_is_empty p \<longleftrightarrow> pt_batches p = []"

type_synonym 'b partition_map = "(string \<times> 'b partition) list"

definition partition_map_new :: "'b partition_map" where
  "partition_map_new = []"

definition partition_get :: "'b partition_map \<Rightarrow> string \<Rightarrow> arrow_store_error + 'b partition" where
  "partition_get m region = ok_or (hm_get m region) (SEPartitionNotFound region)"

text \<open>\<open>get_mut\<close> hands out a reference: the caller's update is a function argument.\<close>

definition partition_get_mut ::
  "'b partition_map \<Rightarrow> string \<Rightarrow> ('b partition \<Rightarrow> 'b partition) \<Rightarrow> arrow_store_error + 'b partition_map" where
  "partition_get_mut m region f =
     rbind (ok_or (hm_get m region) (SEPartitionNotFound region)) (\<lambda>p. Inr (hm_insert region (f p) m))"

definition partition_get_or_create ::
  "'b partition_map \<Rightarrow> string \<Rightarrow> ('b partition \<Rightarrow> 'b partition) \<Rightarrow> 'b partition_map" where
  "partition_get_or_create m region f =
     hm_insert region (f (case hm_get m region of None \<Rightarrow> partition_new region | Some p \<Rightarrow> p)) m"

definition partition_insert :: "'b partition_map \<Rightarrow> string \<Rightarrow> 'b partition \<Rightarrow> 'b partition_map" where
  "partition_insert m region p = hm_insert region p m"

definition partition_remove :: "'b partition_map \<Rightarrow> string \<Rightarrow> 'b partition option \<times> 'b partition_map" where
  "partition_remove m region = (hm_get m region, hm_remove region m)"

definition partition_contains :: "'b partition_map \<Rightarrow> string \<Rightarrow> bool" where
  "partition_contains m region = hm_contains m region"

definition region_ids :: "'b partition_map \<Rightarrow> string list" where
  "region_ids m = map fst m"

record 'b partition_snapshot =
  ps_region_id :: string
  ps_tick :: tick
  ps_batches :: "'b list"

definition partition_snapshot_new :: "string \<Rightarrow> tick \<Rightarrow> 'b list \<Rightarrow> 'b partition_snapshot" where
  "partition_snapshot_new region t bs = \<lparr>ps_region_id = region, ps_tick = t, ps_batches = bs\<rparr>"

subsection \<open>The contract of a layered index\<close>

lemma newest_snoc: "newest (ls @ [l]) = Some (newer (newest ls) l)"
  by (simp add: newest_def)

lemma newest_Nil [simp]: "newest [] = None"
  by (simp add: newest_def)

lemma newest_Some:
  "ls \<noteq> [] \<Longrightarrow> \<exists>l. newest ls = Some l \<and> l \<in> set ls \<and> (\<forall>m \<in> set ls. fst m \<le> fst l)"
proof (induction ls rule: rev_induct)
  case (snoc x xs)
  show ?case
  proof (cases "xs = []")
    case True then show ?thesis by (simp add: newest_def newer_def)
  next
    case False
    with snoc.IH obtain l where "newest xs = Some l" "l \<in> set xs" "\<forall>m \<in> set xs. fst m \<le> fst l" by auto
    then show ?thesis by (cases "fst l \<le> fst x") (auto simp: newest_snoc newer_def)
  qed
qed simp

lemma newest_eq_last:
  assumes "newest ls = Some l"
  shows "\<exists>xs ys. ls = xs @ l # ys \<and> (\<forall>m \<in> set ys. fst m < fst l)"
  using assms
proof (induction ls arbitrary: l rule: rev_induct)
  case (snoc x xs)
  show ?case
  proof (cases "newest xs")
    case None
    then have "l = x" using snoc.prems by (simp add: newest_snoc newer_def)
    then show ?thesis by (intro exI [of _ xs] exI [of _ "[]"]) simp
  next
    case (Some m)
    from snoc.IH [OF this] obtain as bs where *: "xs = as @ m # bs" "\<forall>n \<in> set bs. fst n < fst m" by auto
    show ?thesis
    proof (cases "fst m \<le> fst x")
      case True
      then have "l = x" using snoc.prems Some by (simp add: newest_snoc newer_def)
      then show ?thesis by (intro exI [of _ xs] exI [of _ "[]"]) simp
    next
      case False
      then have "l = m" using snoc.prems Some by (simp add: newest_snoc newer_def)
      then show ?thesis using * False by (intro exI [of _ as] exI [of _ "bs @ [x]"]) auto
    qed
  qed
qed simp

datatype index_op = Ins string location | Rem string

text \<open>The abstract index: for every key the locations entered since it was last removed.\<close>

fun log_step :: "index_op \<Rightarrow> (string \<Rightarrow> location list) \<Rightarrow> string \<Rightarrow> location list" where
  "log_step (Ins k l) h = h(k := h k @ [l])"
| "log_step (Rem k) h = h(k := [])"

definition log_of :: "index_op list \<Rightarrow> string \<Rightarrow> location list" where
  "log_of ops = fold log_step ops (\<lambda>_. [])"

locale layered_index =
  fixes empty :: "bool \<Rightarrow> 'ix"
    and ins :: "'ix \<Rightarrow> string \<Rightarrow> location \<Rightarrow> 'ix"
    and rem :: "'ix \<Rightarrow> string \<Rightarrow> 'ix"
    and latest :: "'ix \<Rightarrow> string \<Rightarrow> location option"
    and history :: "'ix \<Rightarrow> string \<Rightarrow> location list option"
    and enabled :: "'ix \<Rightarrow> bool"
  assumes latest_empty: "latest (empty e) k = None"
    and latest_ins: "latest (ins ix k l) k' = (if k' = k then Some (newer (latest ix k) l) else latest ix k')"
    and latest_rem: "latest (rem ix k) k' = (if k' = k then None else latest ix k')"
    and enabled_empty: "enabled (empty e) = e"
    and enabled_ins: "enabled (ins ix k l) = enabled ix"
    and enabled_rem: "enabled (rem ix k) = enabled ix"
    and history_empty: "history (empty e) k = None"
    and history_ins: "history (ins ix k l) k' =
      (if k' = k \<and> enabled ix then Some ((case history ix k of None \<Rightarrow> [] | Some h \<Rightarrow> h) @ [l]) else history ix k')"
    and history_rem: "history (rem ix k) k' = (if k' = k then None else history ix k')"
begin

fun step :: "index_op \<Rightarrow> 'ix \<Rightarrow> 'ix" where
  "step (Ins k l) ix = ins ix k l"
| "step (Rem k) ix = rem ix k"

lemma refines_log:
  fixes ops e
  defines "ix \<equiv> fold step ops (empty e)"
  shows "enabled ix = e
    \<and> latest ix k = newest (log_of ops k)
    \<and> history ix k = (if e \<and> log_of ops k \<noteq> [] then Some (log_of ops k) else None)"
  unfolding ix_def log_of_def
proof (induction ops arbitrary: k rule: rev_induct)
  case Nil
  then show ?case by (simp add: latest_empty history_empty enabled_empty)
next
  case (snoc x xs)
  show ?case
  proof (cases x)
    case (Ins j l)
    then show ?thesis
      using snoc [of j] snoc [of k] by (auto simp: latest_ins history_ins enabled_ins newest_snoc)
  next
    case (Rem j)
    then show ?thesis
      using snoc [of j] snoc [of k] by (auto simp: latest_rem history_rem enabled_rem)
  qed
qed

lemma latest_is_newest:
  assumes "latest (fold step ops (empty True)) k = Some l"
  shows "\<exists>h. history (fold step ops (empty True)) k = Some h \<and> l \<in> set h \<and> (\<forall>m \<in> set h. fst m \<le> fst l)"
proof -
  have "newest (log_of ops k) = Some l" using refines_log [of ops True k] assms by simp
  moreover from this have "log_of ops k \<noteq> []" by auto
  ultimately show ?thesis using refines_log [of ops True k] newest_Some [of "log_of ops k"] by auto
qed

end

lemma pk_insert_simps:
  "pk_lookup_latest (pk_insert ix k t b r) k' =
     (if k' = k then Some (newer (pk_lookup_latest ix k) (t, b, r)) else pk_lookup_latest ix k')"
  "pk_history_enabled (pk_insert ix k t b r) = pk_history_enabled ix"
  "pk_lookup (pk_insert ix k t b r) k' =
     (if k' = k \<and> pk_history_enabled ix
      then Some ((case pk_lookup ix k of None \<Rightarrow> [] | Some h \<Rightarrow> h) @ [(t, b, r)]) else pk_lookup ix k')"
  by (auto simp: pk_insert_def pk_lookup_latest_def pk_lookup_def pk_history_enabled_def newer_def Let_def
      split: option.splits)

lemma fk_insert_simps:
  "fk_lookup_latest (fk_insert ix k t b r) k' =
     (if k' = k then Some (newer (fk_lookup_latest ix k) (t, b, r)) else fk_lookup_latest ix k')"
  "fk_history_enabled (fk_insert ix k t b r) = fk_history_enabled ix"
  "fk_lookup (fk_insert ix k t b r) k' =
     (if k' = k \<and> fk_history_enabled ix
      then Some ((case fk_lookup ix k of None \<Rightarrow> [] | Some h \<Rightarrow> h) @ [(t, b, r)]) else fk_lookup ix k')"
  by (auto simp: fk_insert_def fk_lookup_latest_def fk_lookup_def fk_history_enabled_def newer_def Let_def
      split: option.splits)

lemma pk_remove_simps:
  "pk_lookup_latest (snd (pk_remove_key ix k)) k' = (if k' = k then None else pk_lookup_latest ix k')"
  "pk_history_enabled (snd (pk_remove_key ix k)) = pk_history_enabled ix"
  "pk_lookup (snd (pk_remove_key ix k)) k' = (if k' = k then None else pk_lookup ix k')"
  by (auto simp: pk_remove_key_def pk_lookup_latest_def pk_lookup_def pk_history_enabled_def split: option.splits)

lemma pk_with_history_simps:
  "pk_lookup_latest (pk_with_history e) k = None"
  "pk_history_enabled (pk_with_history e) = e"
  "pk_lookup (pk_with_history e) k = None"
  by (auto simp: pk_with_history_def pk_lookup_latest_def pk_lookup_def pk_history_enabled_def)

definition pk_ins :: "primary_key_index \<Rightarrow> string \<Rightarrow> location \<Rightarrow> primary_key_index" where
  "pk_ins ix k l = (case l of (t, b, r) \<Rightarrow> pk_insert ix k t b r)"

lemma fk_remove_simps:
  "fk_lookup_latest (snd (fk_remove_key ix k)) k' = (if k' = k then None else fk_lookup_latest ix k')"
  "fk_history_enabled (snd (fk_remove_key ix k)) = fk_history_enabled ix"
  "fk_lookup (snd (fk_remove_key ix k)) k' = (if k' = k then None else fk_lookup ix k')"
  by (auto simp: fk_remove_key_def fk_lookup_latest_def fk_lookup_def fk_history_enabled_def split: option.splits)

lemma fk_with_history_simps:
  "fk_lookup_latest (fk_with_history c t e) k = None"
  "fk_history_enabled (fk_with_history c t e) = e"
  "fk_lookup (fk_with_history c t e) k = None"
  by (auto simp: fk_with_history_def fk_lookup_latest_def fk_lookup_def fk_history_enabled_def)

definition fk_ins :: "foreign_key_index \<Rightarrow> string \<Rightarrow> location \<Rightarrow> foreign_key_index" where
  "fk_ins ix k l = (case l of (t, b, r) \<Rightarrow> fk_insert ix k t b r)"

interpretation pki: layered_index pk_with_history pk_ins "\<lambda>ix k. snd (pk_remove_key ix k)"
  pk_lookup_latest pk_lookup pk_history_enabled
  by unfold_locales
    (simp_all add: pk_ins_def pk_insert_simps pk_remove_simps pk_with_history_simps split: prod.split)

interpretation fki: layered_index "fk_with_history c t" fk_ins "\<lambda>ix k. snd (fk_remove_key ix k)"
  fk_lookup_latest fk_lookup fk_history_enabled for c t
  by unfold_locales
    (simp_all add: fk_ins_def fk_insert_simps fk_remove_simps fk_with_history_simps split: prod.split)

lemma pk_new_with_history: "pk_new = pk_with_history True"
  by (simp add: pk_new_def pk_with_history_def)

lemma fk_new_with_history: "fk_new c t = fk_with_history c t True"
  by (simp add: fk_new_def fk_with_history_def)

subsection \<open>Properties\<close>

text \<open>Operations of a primary key index as a sequence.\<close>

fun pk_op :: "index_op \<Rightarrow> primary_key_index \<Rightarrow> primary_key_index" where
  "pk_op (Ins k (t, b, r)) ix = pk_insert ix k t b r"
| "pk_op (Rem k) ix = snd (pk_remove_key ix k)"

fun fk_op :: "index_op \<Rightarrow> foreign_key_index \<Rightarrow> foreign_key_index" where
  "fk_op (Ins k (t, b, r)) ix = fk_insert ix k t b r"
| "fk_op (Rem k) ix = snd (fk_remove_key ix k)"

lemma pk_op_step: "pk_op = pki.step"
proof (intro ext)
  fix x ix show "pk_op x ix = pki.step x ix" by (cases "(x, ix)" rule: pk_op.cases) (simp_all add: pk_ins_def)
qed

lemma fk_op_step: "fk_op = fki.step"
proof (intro ext)
  fix x ix show "fk_op x ix = fki.step x ix" by (cases "(x, ix)" rule: fk_op.cases) (simp_all add: fk_ins_def)
qed

text \<open>C14: Both key indices refine a log of entries: after any sequence of insertions and
  removals, the latest location of a key is the newest one entered since its last removal
  (the last among those with the greatest tick), the history is the whole log, and a key is
  in the one layer exactly when it is in the other.\<close>

theorem key_indices_refine_log:
  "pk_lookup_latest (fold pk_op ops pk_new) k = newest (log_of ops k)
   \<and> pk_lookup (fold pk_op ops pk_new) k = (if log_of ops k = [] then None else Some (log_of ops k))
   \<and> pk_lookup_latest (fold pk_op ops (pk_with_history False)) k = newest (log_of ops k)
   \<and> pk_lookup (fold pk_op ops (pk_with_history False)) k = None
   \<and> fk_lookup_latest (fold fk_op ops (fk_new c t)) k = newest (log_of ops k)
   \<and> fk_lookup (fold fk_op ops (fk_new c t)) k = (if log_of ops k = [] then None else Some (log_of ops k))
   \<and> (newest (log_of ops k) = None \<longleftrightarrow> log_of ops k = [])
   \<and> (\<forall>l. newest (log_of ops k) = Some l \<longrightarrow>
        (\<exists>xs ys. log_of ops k = xs @ l # ys \<and> (\<forall>m \<in> set xs. fst m \<le> fst l) \<and> (\<forall>m \<in> set ys. fst m < fst l)))"
proof -
  have "(newest ls = None) = (ls = [])" for ls using newest_Some [of ls] by (cases "ls = []") auto
  moreover have "\<exists>xs ys. ls = xs @ l # ys \<and> (\<forall>m \<in> set xs. fst m \<le> fst l) \<and> (\<forall>m \<in> set ys. fst m < fst l)"
    if "newest ls = Some l" for ls l
  proof -
    from newest_eq_last [OF that] obtain xs ys where *: "ls = xs @ l # ys" "\<forall>m \<in> set ys. fst m < fst l" by blast
    with newest_Some [of ls] that have "\<forall>m \<in> set xs. fst m \<le> fst l" by (metis Un_iff append_is_Nil_conv list.distinct(1) option.inject set_append)
    with * show ?thesis by blast
  qed
  ultimately show ?thesis
    using pki.refines_log [of ops _ k] fki.refines_log [of ops c t True k]
    by (simp add: pk_op_step fk_op_step pk_new_with_history fk_new_with_history)
qed

theorem key_indices_refine_log_witness:
  "let ops = [Ins ''a'' (Tick 5, 0, 1), Ins ''a'' (Tick 3, 2, 0), Ins ''b'' (Tick 1, 0, 0), Rem ''b''] in
     pk_lookup_latest (fold pk_op ops pk_new) ''a'' = Some (Tick 5, 0, 1)
   \<and> fk_lookup (fold fk_op ops (fk_new ''c'' ''t'')) ''b'' = None"
proof -
  let ?ops = "[Ins ''a'' (Tick 5, 0, 1), Ins ''a'' (Tick 3, 2, 0), Ins ''b'' (Tick 1, 0, 0), Rem ''b'']"
  have "newest (log_of ?ops ''a'') = Some (Tick 5, 0, 1)" "log_of ?ops ''b'' = []"
    by (simp_all add: log_of_def newest_def newer_def)
  then show ?thesis
    using key_indices_refine_log [of ?ops "''a''"] key_indices_refine_log [of ?ops "''b''" "''c''" "''t''"]
    by (simp add: Let_def)
qed

text \<open>Partitions behave as a map from regions: what \<open>get_or_create\<close> hands out for
  modification is stored under its region and no other, a fresh region starts empty under
  its own name, \<open>get\<close> and \<open>get_mut\<close> fail exactly on absent regions, and removal returns what
  was stored.\<close>

theorem partition_map_correct:
  "(\<forall>g. partition_get (partition_get_or_create m region f) g =
      (if g = region
       then Inr (f (if partition_contains m region then the (hm_get m region) else partition_new region))
       else partition_get m g))
   \<and> (is_ok (partition_get m region) \<longleftrightarrow> partition_contains m region)
   \<and> partition_get_mut m region f =
      (if partition_contains m region then Inr (partition_insert m region (f (the (hm_get m region))))
       else Inl (SEPartitionNotFound region))
   \<and> partition_remove (partition_insert m region p) region = (Some p, hm_remove region (partition_insert m region p))
   \<and> partition_get (snd (partition_remove m region)) region = Inl (SEPartitionNotFound region)
   \<and> pt_batches (add_batch p b) = pt_batches p @ [b]"
  by (auto simp: partition_get_def partition_get_or_create_def partition_contains_def hm_contains_def
      partition_get_mut_def partition_insert_def partition_remove_def add_batch_def is_ok_iff
      split: option.splits)

end
