(* ===== verification/Tables.thy ===== *)
theory Tables
  imports Indices "HOL-Library.Multiset"
begin

section \<open>Versioned tables and diff application (versioned\_table.rs, store.rs from line 1262)\<close>

text \<open>
  A table keeps, per tick, a list of record batches, and maps row identifiers to a batch
  index and a row offset. This theory models the table and the four functions that apply a
  diff to it, with the state they leave behind on an error. Hash map iteration order is the
  pair of functions \<open>iteration\<close>: any reordering of the entries.
\<close>

subsection \<open>versioned\_table.rs\<close>

datatype mutation_mode = AppendOnly | Patchable | RebuildPerTick

record 'b versioned_table =
  vt_name :: string
  vt_mutation_mode :: mutation_mode
  vt_spec :: "table_spec option"
  vt_versions :: "(tick \<times> 'b list) list"
  vt_primary_key_index :: primary_key_index
  vt_foreign_key_indices :: "foreign_key_index list"
  vt_partitions :: "'b partition_map"
  vt_position_map :: row_position_map

definition versioned_table_new :: "string \<Rightarrow> mutation_mode \<Rightarrow> 'b versioned_table" where
  "versioned_table_new name mode = \<lparr>
     vt_name = name, vt_mutation_mode = mode, vt_spec = None, vt_versions = [],
     vt_primary_key_index = pk_new, vt_foreign_key_indices = [],
     vt_partitions = partition_map_new, vt_position_map = rpm_new\<rparr>"

definition set_spec :: "'b versioned_table \<Rightarrow> table_spec \<Rightarrow> 'b versioned_table" where
  "set_spec t spec = t\<lparr>vt_spec := Some spec\<rparr>"

definition insert_version :: "'b versioned_table \<Rightarrow> tick \<Rightarrow> 'b list \<Rightarrow> 'b versioned_table" where
  "insert_version t tick batches = t\<lparr>vt_versions := hm_insert tick batches (vt_versions t)\<rparr>"

definition get_version :: "'b versioned_table \<Rightarrow> tick \<Rightarrow> 'b list option" where
  "get_version t tick = hm_get (vt_versions t) tick"

definition latest_tick :: "'b versioned_table \<Rightarrow> tick option" where
  "latest_tick t = (case map fst (vt_versions t) of [] \<Rightarrow> None | k # ks \<Rightarrow> Some (fold max ks k))"

definition add_foreign_key_index :: "'b versioned_table \<Rightarrow> foreign_key_index \<Rightarrow> 'b versioned_table" where
  "add_foreign_key_index t ix = t\<lparr>vt_foreign_key_indices := vt_foreign_key_indices t @ [ix]\<rparr>"

subsection \<open>Storage types (store.rs 45--197)\<close>

record ('j, 'a) type_entry =
  te_data_type :: data_type
  te_json_to_array :: "'j \<Rightarrow> arrow_store_error + 'a"
  te_null_array :: "arrow_store_error + 'a"

type_synonym ('j, 'a) type_registry = "(string \<times> ('j, 'a) type_entry) list"

definition type_registry_new :: "('j, 'a) type_registry" where
  "type_registry_new = []"

definition type_register ::
  "('j, 'a) type_registry \<Rightarrow> string \<Rightarrow> data_type \<Rightarrow> ('j \<Rightarrow> arrow_store_error + 'a) \<Rightarrow> (arrow_store_error + 'a)
     \<Rightarrow> ('j, 'a) type_registry" where
  "type_register reg name dt f g =
     hm_insert name \<lparr>te_data_type = dt, te_json_to_array = f, te_null_array = g\<rparr> reg"

definition type_get :: "('j, 'a) type_registry \<Rightarrow> string \<Rightarrow> ('j, 'a) type_entry option" where
  "type_get reg name = hm_get reg name"

definition resolve_data_type :: "('j, 'a) type_registry \<Rightarrow> string \<Rightarrow> arrow_store_error + data_type" where
  "resolve_data_type reg name =
     ok_or (map_option te_data_type (hm_get reg name)) (SESchema (''unsupported storage type: '' @ name))"

definition default_type_registry ::
  "('j, 'fl) json_api \<Rightarrow> ('b, 'a, 's, 'fl) arrow_api \<Rightarrow> ('j, 'a) type_registry" where
  "default_type_registry J A =
     (let r0 = type_registry_new;
          r1 = type_register r0 ''i64'' Int64
            (\<lambda>v. rbind (json_to_i64 J v) (\<lambda>i. Inr (ar_prim_from A Int64 [Some (NInt i)])))
            (Inr (ar_prim_from A Int64 [Some (NInt 0)]));
          r2 = type_register r1 ''i32'' Int32
            (\<lambda>v. rbind (json_to_i32 J v) (\<lambda>i. Inr (ar_prim_from A Int32 [Some (NInt i)])))
            (Inr (ar_prim_from A Int32 [Some (NInt 0)]));
          r3 = type_register r2 ''u64'' UInt64
            (\<lambda>v. rbind (json_to_u64 J v) (\<lambda>i. Inr (ar_prim_from A UInt64 [Some (NInt i)])))
            (Inr (ar_prim_from A UInt64 [Some (NInt 0)]));
          r4 = type_register r3 ''f64'' Float64
            (\<lambda>v. rbind (json_to_f64 J v) (\<lambda>f. Inr (ar_prim_from A Float64 [Some (NFloat f)])))
            (Inr (ar_prim_from A Float64 [Some (NFloat (fl_of_int J 0))]));
          r5 = type_register r4 ''utf8'' Utf8
            (\<lambda>v. rbind (json_to_string J v) (\<lambda>s. Inr (ar_str_from A Utf8 [Some s])))
            (Inr (ar_str_from A Utf8 [Some []]));
          r6 = type_register r5 ''large_utf8'' LargeUtf8
            (\<lambda>v. rbind (json_to_string J v) (\<lambda>s. Inr (ar_str_from A LargeUtf8 [Some s])))
            (Inr (ar_str_from A LargeUtf8 [Some []]))
      in type_register r6 ''bool'' Boolean
            (\<lambda>v. rbind (json_to_bool J v) (\<lambda>b. Inr (ar_bool_from A [Some b])))
            (Inr (ar_bool_from A [Some False])))"

subsection \<open>Iteration over hash maps\<close>

record 'b iteration =
  it_versions :: "(tick \<times> 'b list) list \<Rightarrow> (tick \<times> 'b list) list"
  it_groups :: "(nat \<times> (nat \<times> nat) list) list \<Rightarrow> (nat \<times> (nat \<times> nat) list) list"

definition iteration_ok :: "'b iteration \<Rightarrow> bool" where
  "iteration_ok I \<longleftrightarrow> (\<forall>m. mset (it_versions I m) = mset m) \<and> (\<forall>m. mset (it_groups I m) = mset m)"

definition insertion_order :: "'b iteration" where
  "insertion_order = \<lparr>it_versions = \<lambda>m. m, it_groups = \<lambda>m. m\<rparr>"

subsection \<open>Schemas of inserted rows\<close>

definition resolve_table_schema ::
  "'b iteration \<Rightarrow> ('b, 'a, 's, 'fl) arrow_api \<Rightarrow> 'b versioned_table \<Rightarrow> (string \<times> 'j) list
     \<Rightarrow> ('j, 'a) type_registry \<Rightarrow> arrow_store_error + 's option" where
  "resolve_table_schema I A table values reg =
     (case vt_spec table of
        Some spec \<Rightarrow>
          rbind (map_result (\<lambda>col. rbind (resolve_data_type reg (col_storage_type col)) (\<lambda>dt.
              Inr (col_name col, dt, col_nullable col))) (ts_columns spec)) (\<lambda>fields.
          Inr (Some (ar_schema_new A fields)))
      | None \<Rightarrow>
          (case concat (map snd (it_versions I (vt_versions table))) of
             batch # _ \<Rightarrow> Inr (Some (ar_schema A batch))
           | [] \<Rightarrow> if values = [] then Inr None
               else Inr (Some (ar_schema_new A (map (\<lambda>(k, _). (k, Utf8, True)) values)))))"

definition resolve_table_schema_from_map ::
  "'b iteration \<Rightarrow> ('b, 'a, 's, 'fl) arrow_api \<Rightarrow> 'b versioned_table \<Rightarrow> (string \<times> 'j) list
     \<Rightarrow> ('j, 'a) type_registry \<Rightarrow> arrow_store_error + 's option" where
  "resolve_table_schema_from_map I A table row reg = resolve_table_schema I A table row reg"

subsection \<open>Patching a version\<close>

fun group_locations :: "nat \<Rightarrow> row_location list \<Rightarrow> (nat \<times> (nat \<times> nat) list) list \<Rightarrow> (nat \<times> (nat \<times> nat) list) list" where
  "group_locations i [] grouped = grouped"
| "group_locations i (loc # locs) grouped =
     group_locations (Suc i) locs (hm_insert (loc_batch_index loc)
       ((case hm_get grouped (loc_batch_index loc) of None \<Rightarrow> [] | Some ps \<Rightarrow> ps) @ [(loc_row_index loc, i)]) grouped)"

definition patch_group ::
  "('b, 'a, 's, 'fl) arrow_api \<Rightarrow> 'b \<Rightarrow> 'b list \<Rightarrow> nat \<times> (nat \<times> nat) list \<Rightarrow> arrow_store_error + 'b list" where
  "patch_group A batch versions g = (case g of (batch_idx, patches) \<Rightarrow>
     if batch_idx \<ge> length versions then Inr versions
     else rbind (patch_record_batch A (versions ! batch_idx) batch patches) (\<lambda>patched.
       Inr (versions[batch_idx := patched])))"

definition apply_patch_to_versions ::
  "'b iteration \<Rightarrow> ('b, 'a, 's, 'fl) arrow_api \<Rightarrow> 'b versioned_table \<Rightarrow> string \<Rightarrow> tick \<Rightarrow> row_location list \<Rightarrow> 'b
     \<Rightarrow> (arrow_store_error + unit) \<times> 'b versioned_table" where
  "apply_patch_to_versions I A table table_name tick locations batch =
     (if locations = [] then (Inr (), table)
      else (case hm_get (vt_versions table) tick of
          None \<Rightarrow> (Inl (SETickNotFound table_name (tick_as_u64 tick)), table)
        | Some versions \<Rightarrow>
            (case for_each_mut (patch_group A batch) versions (it_groups I (group_locations 0 locations [])) of
               (r, versions') \<Rightarrow> (r, table\<lparr>vt_versions := hm_insert tick versions' (vt_versions table)\<rparr>))))"

text \<open>The greatest tick whose version has the batch index (lines 1278--1285, 1348--1355).\<close>

definition tick_with_batch :: "'b versioned_table \<Rightarrow> nat \<Rightarrow> tick option" where
  "tick_with_batch table batch_idx =
     (case sort (map fst (filter (\<lambda>(_, batches). length batches > batch_idx) (vt_versions table))) of
        [] \<Rightarrow> None | ticks \<Rightarrow> Some (last ticks))"

subsection \<open>The four diffs\<close>

definition apply_update_to_table ::
  "'b iteration \<Rightarrow> ('j, 'fl) json_api \<Rightarrow> ('b, 'a, 's, 'fl) arrow_api \<Rightarrow> 'b versioned_table \<Rightarrow> string \<Rightarrow> tick
     \<Rightarrow> row_id \<Rightarrow> string \<Rightarrow> 'j \<Rightarrow> (arrow_store_error + unit) \<times> 'b versioned_table" where
  "apply_update_to_table I J A table table_name patch_tick row column value =
     (case position_of (vt_position_map table) row of
        None \<Rightarrow> (Inl (SEGeneric (''row not found in position map: table='' @ table_name @ '', row_id=''
          @ show_u64 (row_id_as_u64 row))), table)
      | Some (batch_idx, row_offset) \<Rightarrow>
     (case tick_with_batch table batch_idx of
        None \<Rightarrow> (Inl (SEGeneric (''no tick found containing batch_idx '' @ show_nat batch_idx
          @ '' for table '' @ table_name)), table)
      | Some lt \<Rightarrow>
     (case hm_get (vt_versions table) lt of
        None \<Rightarrow> (Inl (SETickNotFound table_name (tick_as_u64 lt)), table)
      | Some batches \<Rightarrow>
     if batch_idx \<ge> length batches then
       (Inl (SEGeneric (''batch index '' @ show_nat batch_idx @ '' out of range for table '' @ table_name)), table)
     else if row_offset \<ge> ar_num_rows A (batches ! batch_idx) then
       (Inl (SEGeneric (''row offset '' @ show_nat row_offset @ '' out of range in batch '' @ show_nat batch_idx)), table)
     else (case ar_index_of A (ar_schema A (batches ! batch_idx)) column of
        Inl _ \<Rightarrow> (Inl (SESchema (''column '' @ quoted column @ '' not found in table '' @ quoted table_name)), table)
      | Inr col_idx \<Rightarrow>
     (case build_update_patch J A (batches ! batch_idx) row_offset col_idx value of
        Inl e \<Rightarrow> (Inl e, table)
      | Inr patch_batch \<Rightarrow>
          apply_patch_to_versions I A table table_name lt
            [\<lparr>loc_tick = lt, loc_batch_index = batch_idx, loc_row_index = row_offset, loc_row_id = row\<rparr>]
            patch_batch)))))"

definition apply_delete_to_table ::
  "'b iteration \<Rightarrow> ('b, 'a, 's, 'fl) arrow_api \<Rightarrow> 'b versioned_table \<Rightarrow> string \<Rightarrow> tick
     \<Rightarrow> row_id \<Rightarrow> (arrow_store_error + unit) \<times> 'b versioned_table" where
  "apply_delete_to_table I A table table_name patch_tick row =
     (case position_of (vt_position_map table) row of
        None \<Rightarrow> (Inl (SEGeneric (''row not found in position map for delete: table='' @ table_name @ '', row_id=''
          @ show_u64 (row_id_as_u64 row))), table)
      | Some (batch_idx, row_offset) \<Rightarrow>
     (case tick_with_batch table batch_idx of
        None \<Rightarrow> (Inl (SEGeneric (''no tick found for delete: table='' @ table_name
          @ '', batch_idx='' @ show_nat batch_idx)), table)
      | Some lt \<Rightarrow>
     (case hm_get (vt_versions table) lt of
        None \<Rightarrow> (Inl (SETickNotFound table_name (tick_as_u64 lt)), table)
      | Some batches \<Rightarrow>
     if batch_idx \<ge> length batches \<or> row_offset \<ge> ar_num_rows A (batches ! batch_idx) then
       (Inl (SEGeneric (''invalid location for delete: batch='' @ show_nat batch_idx
         @ '', row='' @ show_nat row_offset)), table)
     else (case build_null_patch A (batches ! batch_idx) row_offset of
        Inl e \<Rightarrow> (Inl e, table)
      | Inr null_patch \<Rightarrow>
     (case apply_patch_to_versions I A table table_name lt
            [\<lparr>loc_tick = lt, loc_batch_index = batch_idx, loc_row_index = row_offset, loc_row_id = row\<rparr>]
            null_patch of
        (Inl e, table') \<Rightarrow> (Inl e, table')
      | (Inr _, table') \<Rightarrow>
          (Inr (), table'\<lparr>vt_position_map := snd (rpm_remove (vt_position_map table') row)\<rparr>))))))"

definition pk_col_name :: "'b versioned_table \<Rightarrow> string option" where
  "pk_col_name table = (case vt_spec table of None \<Rightarrow> None
     | Some spec \<Rightarrow> map_option col_name (primary_key_column spec))"

definition apply_insert_to_table ::
  "'b iteration \<Rightarrow> ('j, 'fl) json_api \<Rightarrow> ('b, 'a, 's, 'fl) arrow_api \<Rightarrow> 'b versioned_table \<Rightarrow> string \<Rightarrow> tick
     \<Rightarrow> row_id \<Rightarrow> (string \<times> 'j) list \<Rightarrow> ('j, 'a) type_registry
     \<Rightarrow> (arrow_store_error + unit) \<times> 'b versioned_table" where
  "apply_insert_to_table I J A table table_name tick row values reg =
     (case rbind (resolve_table_schema I A table values reg) (\<lambda>s. ok_or s
         (SESchema (''cannot determine schema for insert into table '' @ quoted table_name))) of
        Inl e \<Rightarrow> (Inl e, table)
      | Inr schema \<Rightarrow>
     if rpm_contains (vt_position_map table) row then
       (Inl (SEDuplicateRowId table_name (row_id_as_u64 row)), table)
     else (case json_map_to_record_batch J A values schema of
        Inl e \<Rightarrow> (Inl e, table)
      | Inr batch \<Rightarrow>
     (let entry = (case hm_get (vt_versions table) tick of None \<Rightarrow> [] | Some bs \<Rightarrow> bs) @ [batch];
          t1 = table\<lparr>vt_versions := hm_insert tick entry (vt_versions table)\<rparr>;
          batch_idx = (case hm_get (vt_versions t1) tick of None \<Rightarrow> 0 | Some v \<Rightarrow> length v - 1);
          row_offset = 0;
          t2 = (case pk_col_name table of
              None \<Rightarrow> t1
            | Some pk_name \<Rightarrow> (case hm_get values pk_name of
                None \<Rightarrow> t1
              | Some pk_value \<Rightarrow>
                  t1\<lparr>vt_primary_key_index := pk_insert (vt_primary_key_index t1)
                    (case js_string J pk_value of Some s \<Rightarrow> s | None \<Rightarrow> js_to_string J pk_value)
                    tick batch_idx row_offset\<rparr>))
      in (Inr (), t2\<lparr>vt_position_map := rpm_insert (vt_position_map t2) row batch_idx row_offset\<rparr>))))"

text \<open>The row identifier of a row of \<open>ReplaceTable\<close> (lines 1481--1504).\<close>

definition replace_row_id ::
  "('j, 'fl) json_api \<Rightarrow> string \<Rightarrow> string option \<Rightarrow> row_position_map \<Rightarrow> nat \<Rightarrow> (string \<times> 'j) list
     \<Rightarrow> arrow_store_error + row_id" where
  "replace_row_id J table_name pk_col pos i row_map =
     (case pk_col of
        None \<Rightarrow> Inr (RowId (of_nat i))
      | Some pk_name \<Rightarrow>
          rbind (ok_or (hm_get row_map pk_name) (SESchema (''primary key column '' @ quoted pk_name
            @ '' missing in ReplaceTable row for table '' @ quoted table_name))) (\<lambda>pk_value.
          rbind (ok_or (json_value_to_u64 J pk_value) (SESchema (''primary key column '' @ quoted pk_name
            @ '' value is not a valid u64 in ReplaceTable for table '' @ quoted table_name))) (\<lambda>id.
          if rpm_contains pos (RowId id) then Inl (SEDuplicateRowId table_name id)
          else Inr (RowId id))))"

fun replace_rows ::
  "('j, 'fl) json_api \<Rightarrow> ('b, 'a, 's, 'fl) arrow_api \<Rightarrow> string \<Rightarrow> string option \<Rightarrow> 's \<Rightarrow> nat
     \<Rightarrow> (string \<times> 'j) list list \<Rightarrow> row_position_map \<Rightarrow> 'b list
     \<Rightarrow> (arrow_store_error + 'b list) \<times> row_position_map" where
  "replace_rows J A table_name pk_col schema i [] pos batches = (Inr batches, pos)"
| "replace_rows J A table_name pk_col schema i (row_map # rows) pos batches =
     (case replace_row_id J table_name pk_col pos i row_map of
        Inl e \<Rightarrow> (Inl e, pos)
      | Inr row_id \<Rightarrow>
          (case json_map_to_record_batch J A row_map schema of
             Inl e \<Rightarrow> (Inl e, rpm_insert pos row_id i 0)
           | Inr batch \<Rightarrow> replace_rows J A table_name pk_col schema (Suc i) rows
               (rpm_insert pos row_id i 0) (batches @ [batch])))"

definition apply_replace_to_table ::
  "'b iteration \<Rightarrow> ('j, 'fl) json_api \<Rightarrow> ('b, 'a, 's, 'fl) arrow_api \<Rightarrow> 'b versioned_table \<Rightarrow> string \<Rightarrow> tick
     \<Rightarrow> (string \<times> 'j) list list \<Rightarrow> ('j, 'a) type_registry
     \<Rightarrow> (arrow_store_error + unit) \<times> 'b versioned_table" where
  "apply_replace_to_table I J A table table_name tick rows reg =
     (case (case rows of [] \<Rightarrow> None
         | row # _ \<Rightarrow> (case resolve_table_schema_from_map I A table row reg of Inl _ \<Rightarrow> None | Inr s \<Rightarrow> s)) of
        None \<Rightarrow> (Inl (SESchema (''cannot determine schema for ReplaceTable on '' @ quoted table_name)), table)
      | Some schema \<Rightarrow>
     (case replace_rows J A table_name (pk_col_name table) schema 0 rows rpm_new [] of
        (Inl e, pos) \<Rightarrow> (Inl e, table\<lparr>vt_position_map := pos\<rparr>)
      | (Inr batches, pos) \<Rightarrow>
          (Inr (), table\<lparr>vt_position_map := pos, vt_versions := hm_insert tick batches (vt_versions table)\<rparr>)))"

subsection \<open>Locating a row\<close>

lemma tick_with_batch_Some:
  assumes "hm_ok (vt_versions t)" and "tick_with_batch t b = Some lt"
  shows "\<exists>bs. hm_get (vt_versions t) lt = Some bs \<and> b < length bs
    \<and> (\<forall>u us. hm_get (vt_versions t) u = Some us \<longrightarrow> b < length us \<longrightarrow> u \<le> lt)"
proof -
  define ts where "ts = map fst (filter (\<lambda>(_, bs). b < length bs) (vt_versions t))"
  have ne: "sort ts \<noteq> []" and lt: "lt = last (sort ts)"
    using assms(2) by (auto simp: tick_with_batch_def ts_def split: list.splits)
  from last_in_set [OF ne] lt have "lt \<in> set (sort ts)" by blast
  then have "lt \<in> set ts" by simp
  then obtain bs where bs: "(lt, bs) \<in> set (vt_versions t)" "b < length bs" by (auto simp: ts_def)
  have "u \<le> lt" if "u \<in> set ts" for u
  proof -
    from that have "u \<in> set (sort ts)" by simp
    then obtain i where "i < length (sort ts)" "u = sort ts ! i" by (metis in_set_conv_nth)
    then show ?thesis
      using ne sorted_nth_mono [OF sorted_sort, of i "length (sort ts) - 1" ts] by (simp add: lt last_conv_nth)
  qed
  moreover have "u \<in> set ts" if "hm_get (vt_versions t) u = Some us" "b < length us" for u us
    using map_of_SomeD [OF that(1)] that(2) by (force simp: ts_def)
  ultimately show ?thesis
    using bs hm_ok_iff_get [OF assms(1), of lt bs] by blast
qed

lemma tick_with_batch_None:
  "tick_with_batch t b = None \<longleftrightarrow> (\<forall>(u, us) \<in> set (vt_versions t). length us \<le> b)"
proof -
  define fs where "fs = filter (\<lambda>(_, bs). b < length bs) (vt_versions t)"
  have "sort (map fst fs) = [] \<longleftrightarrow> fs = []" by (metis length_0_conv length_map length_sort)
  moreover have "tick_with_batch t b = None \<longleftrightarrow> sort (map fst fs) = []"
    unfolding tick_with_batch_def fs_def [symmetric] by (cases "sort (map fst fs)") simp_all
  ultimately show ?thesis by (auto simp: fs_def filter_empty_conv not_less)
qed

lemma tick_with_batch_eq:
  assumes "hm_ok (vt_versions t)" and "hm_get (vt_versions t) lt = Some bs" and "b < length bs"
    and "\<And>u us. hm_get (vt_versions t) u = Some us \<Longrightarrow> b < length us \<Longrightarrow> u \<le> lt"
  shows "tick_with_batch t b = Some lt"
proof (cases "tick_with_batch t b")
  case None
  with assms(3) map_of_SomeD [OF assms(2)] show ?thesis by (auto simp: tick_with_batch_None)
next
  case (Some u)
  from tick_with_batch_Some [OF assms(1) this] assms(2-4) show ?thesis
    by (metis Some antisym)
qed

subsection \<open>Applying one patch\<close>

lemma iteration_single: "iteration_ok I \<Longrightarrow> it_groups I [g] = [g]"
  proof -
  assume "iteration_ok I"
  then have "mset (it_groups I [g]) = {#g#}" by (simp add: iteration_ok_def)
  then show ?thesis by simp
qed

lemma apply_patch_single:
  assumes "iteration_ok I" and "hm_get (vt_versions t) lt = Some bs" and "b < length bs"
  shows "apply_patch_to_versions I A t n lt
      [\<lparr>loc_tick = lt, loc_batch_index = b, loc_row_index = r, loc_row_id = row\<rparr>] p
    = (case patch_record_batch A (bs ! b) p [(r, 0)] of
         Inl e \<Rightarrow> (Inl e, t)
       | Inr nb \<Rightarrow> (Inr (), t\<lparr>vt_versions := hm_insert lt (bs[b := nb]) (vt_versions t)\<rparr>))"
  using assms
  by (auto simp: apply_patch_to_versions_def iteration_single patch_group_def update_triv split: sum.splits)

text \<open>A row of a table: where the position map and the latest version with its batch
  index put it.\<close>

definition resolves :: "'b versioned_table \<Rightarrow> row_id \<Rightarrow> tick \<Rightarrow> 'b list \<Rightarrow> nat \<Rightarrow> nat \<Rightarrow> bool" where
  "resolves t row lt bs b r \<longleftrightarrow>
     position_of (vt_position_map t) row = Some (b, r) \<and> tick_with_batch t b = Some lt
   \<and> hm_get (vt_versions t) lt = Some bs \<and> b < length bs"

lemma resolves_cell_update:
  assumes A: "arrow_arrays_ok A" "arrow_batches_ok A" and p: "patchable A src" and ok: "batch_ok A patch"
    and s: "ar_schema A patch = ar_schema A src" and one: "ar_num_rows A patch = 1" and r: "r < ar_num_rows A src"
  shows "\<exists>nb. patch_record_batch A src patch [(r, 0)] = Inr nb \<and> ar_schema A nb = ar_schema A src
     \<and> ar_num_rows A nb = ar_num_rows A src \<and> patchable A nb
     \<and> (\<forall>q < ar_num_rows A src. row_cells A nb q = (if q = r then row_cells A patch 0 else row_cells A src q))"
proof -
  from patch_record_batch_cells [OF A p ok s, of "[(r, 0)]"] obtain nb where nb:
    "patch_record_batch A src patch [(r, 0)] = Inr nb" "ar_schema A nb = ar_schema A src"
    "ar_num_columns A nb = ar_num_columns A src" "ar_num_rows A nb = ar_num_rows A src" "patchable A nb"
    "\<forall>c < ar_num_columns A src. cells A (ar_column A nb c)
      = patch_option_list 1 (cell_at A (ar_column A patch c)) [(r, 0)] (cells A (ar_column A src c))"
    unfolding one by blast
  have ok': "batch_ok A nb" "batch_ok A src" using p nb(5) by (simp_all add: patchable_def)
  have nc: "ar_num_columns A patch = ar_num_columns A src"
    using batch_fits [OF ok] batch_fits [OF ok'(2)] s by (simp add: fits_def)
  have cell: "cell_at A (ar_column A nb c) q
      = (if q = r then cell_at A (ar_column A patch c) 0 else cell_at A (ar_column A src c) q)"
    if "c < ar_num_columns A src" "q < ar_num_rows A src" for c q
  proof -
    have len: "ar_len A (ar_column A nb c) = ar_num_rows A src" "ar_len A (ar_column A src c) = ar_num_rows A src"
      using num_rows_column [OF ok'(1), of c] num_rows_column [OF ok'(2), of c] nb(3,4) that by simp_all
    then have "cell_at A (ar_column A nb c) q
        = patch_option_list 1 (cell_at A (ar_column A patch c)) [(r, 0)] (cells A (ar_column A src c)) ! q"
      using nth_cells [of q A "ar_column A nb c"] nb(6) that by simp
    with len that r show ?thesis by (simp add: patch_option_list_def nth_list_update)
  qed
  have "row_cells A nb q = (if q = r then row_cells A patch 0 else row_cells A src q)" if "q < ar_num_rows A src" for q
    using cell that nb(3) nc by (auto simp: row_cells_def intro!: nth_equalityI)
  with nb show ?thesis by blast
qed

subsection \<open>The invariant of a table\<close>

definition vt_inv :: "'b versioned_table \<Rightarrow> bool" where
  "vt_inv t \<longleftrightarrow> hm_ok (vt_versions t) \<and> rpm_ok (vt_position_map t)"

lemma rpm_ok_simps [simp, inv_intros]:
  "rpm_ok rpm_new"
  "rpm_ok m \<Longrightarrow> rpm_ok (rpm_insert m r b i)"
  "rpm_ok m \<Longrightarrow> rpm_ok (snd (rpm_remove m r))"
  by (simp_all add: rpm_ok_def rpm_new_def rpm_insert_def rpm_remove_def)

lemma position_of_simps [simp]:
  "position_of rpm_new r = None"
  "position_of (rpm_insert m r b i) r' = (if r' = r then Some (b, i) else position_of m r')"
  "position_of (snd (rpm_remove m r)) r' = (if r' = r then None else position_of m r')"
  by (auto simp: position_of_def rpm_new_def rpm_insert_def rpm_remove_def row_id.expand)

lemma rpm_contains_iff: "rpm_contains m r \<longleftrightarrow> position_of m r \<noteq> None"
  by (simp add: rpm_contains_def position_of_def hm_contains_def)

lemma vt_inv_new [inv_intros]: "vt_inv (versioned_table_new n m)"
  by (simp add: vt_inv_def versioned_table_new_def)

lemma apply_patch_fields:
  "vt_inv t \<Longrightarrow> vt_inv (snd (apply_patch_to_versions I A t n lt locs p))"
  "vt_position_map (snd (apply_patch_to_versions I A t n lt locs p)) = vt_position_map t"
  by (auto simp: apply_patch_to_versions_def vt_inv_def split: option.splits prod.splits)

lemma vt_inv_update [inv_intros]:
  "vt_inv t \<Longrightarrow> vt_inv (snd (apply_update_to_table I J A t n tick row col v))"
  by (auto simp: apply_update_to_table_def apply_patch_fields split: option.splits prod.splits sum.splits if_splits)

lemma vt_inv_delete [inv_intros]:
  assumes "vt_inv t"
  shows "vt_inv (snd (apply_delete_to_table I A t n tick row))"
proof -
  have "vt_inv (snd x) \<Longrightarrow> vt_inv ((snd x)\<lparr>vt_position_map := snd (rpm_remove (vt_position_map (snd x)) row)\<rparr>)"
    for x :: "(arrow_store_error + unit) \<times> 'a versioned_table"
    by (simp add: vt_inv_def)
  moreover have "vt_inv (snd (apply_patch_to_versions I A t n lt locs p))" for lt locs p
    using assms by (rule apply_patch_fields)
  ultimately show ?thesis
    using assms by (auto simp: apply_delete_to_table_def split: option.split prod.split sum.split) (metis snd_conv)+
qed

lemma vt_inv_insert [inv_intros]:
  "vt_inv t \<Longrightarrow> vt_inv (snd (apply_insert_to_table I J A t n tick row vs reg))"
  by (auto simp: apply_insert_to_table_def vt_inv_def Let_def split: sum.split option.split)

lemma rpm_ok_replace_rows: "rpm_ok pos \<Longrightarrow> rpm_ok (snd (replace_rows J A n pk s i rows pos bs))"
  by (induction rows arbitrary: i pos bs) (auto split: sum.split)

lemma vt_inv_replace [inv_intros]:
  assumes "vt_inv t"
  shows "vt_inv (snd (apply_replace_to_table I J A t n tick rows reg))"
proof -
  have "rpm_ok (snd (replace_rows J A n (pk_col_name t) s 0 rows rpm_new []))" for s
    by (rule rpm_ok_replace_rows) simp
  then show ?thesis
    using assms by (auto simp: apply_replace_to_table_def vt_inv_def split: option.split prod.split sum.split)
      (metis snd_conv)+
qed

subsection \<open>A failed diff\<close>

lemma apply_update_error:
  assumes I: "iteration_ok I" and e: "fst (apply_update_to_table I J A t n tick row col v) = Inl e"
  shows "snd (apply_update_to_table I J A t n tick row col v) = t"
proof (cases "\<exists>b r lt bs. position_of (vt_position_map t) row = Some (b, r) \<and> tick_with_batch t b = Some lt
    \<and> hm_get (vt_versions t) lt = Some bs \<and> b < length bs")
  case True
  then obtain b r lt bs where "position_of (vt_position_map t) row = Some (b, r)" "tick_with_batch t b = Some lt"
    "hm_get (vt_versions t) lt = Some bs" "b < length bs" by blast
  then show ?thesis
    using e by (auto simp: apply_update_to_table_def apply_patch_single [OF I] split: sum.splits if_splits)
qed (auto simp: apply_update_to_table_def split: option.splits prod.splits sum.splits)

lemma apply_delete_error:
  assumes I: "iteration_ok I" and e: "fst (apply_delete_to_table I A t n tick row) = Inl e"
  shows "snd (apply_delete_to_table I A t n tick row) = t"
proof (cases "\<exists>b r lt bs. position_of (vt_position_map t) row = Some (b, r) \<and> tick_with_batch t b = Some lt
    \<and> hm_get (vt_versions t) lt = Some bs \<and> b < length bs")
  case True
  then obtain b r lt bs where "position_of (vt_position_map t) row = Some (b, r)" "tick_with_batch t b = Some lt"
    "hm_get (vt_versions t) lt = Some bs" "b < length bs" by blast
  then show ?thesis
    using e by (auto simp: apply_delete_to_table_def apply_patch_single [OF I] split: sum.splits if_splits)
qed (auto simp: apply_delete_to_table_def split: option.splits prod.splits sum.splits)

lemma apply_insert_error:
  "fst (apply_insert_to_table I J A t n tick row vs reg) = Inl e
   \<Longrightarrow> snd (apply_insert_to_table I J A t n tick row vs reg) = t"
  by (auto simp: apply_insert_to_table_def Let_def split: sum.splits if_splits)

lemma apply_replace_error:
  "fst (apply_replace_to_table I J A t n tick rows reg) = Inl e
   \<Longrightarrow> \<exists>pos. snd (apply_replace_to_table I J A t n tick rows reg) = t\<lparr>vt_position_map := pos\<rparr>"
  by (auto simp: apply_replace_to_table_def split: option.splits prod.splits sum.splits)
    (metis versioned_table.surjective versioned_table.update_convs(8))+

subsection \<open>Rows built from JSON\<close>

definition json_row ::
  "('j, 'fl) json_api \<Rightarrow> ('b, 'a, 's, 'fl) arrow_api \<Rightarrow> (string \<times> 'j) list \<Rightarrow> 's \<Rightarrow> arrow_store_error + 'fl cell option list" where
  "json_row J A values s =
     map_result (\<lambda>(n, dt, nullable). json_cell J A (case map_of values n of None \<Rightarrow> js_null J | Some v \<Rightarrow> v) dt)
       (ar_fields A s)"

lemma json_map_to_record_batch_cells:
  assumes A: "arrow_arrays_ok A" "arrow_batches_ok A"
    and vs: "json_row J A values s = Inr vs" and ne: "ar_fields A s \<noteq> []"
    and nn: "\<And>i. i < length vs \<Longrightarrow> vs ! i = None \<Longrightarrow> snd (snd (ar_fields A s ! i))"
  shows "\<exists>b. json_map_to_record_batch J A values s = Inr b \<and> ar_schema A b = s \<and> batch_ok A b
    \<and> ar_num_rows A b = 1 \<and> row_cells A b 0 = vs"
proof -
  let ?v = "\<lambda>n. case map_of values n of None \<Rightarrow> js_null J | Some v \<Rightarrow> v"
  let ?fs = "ar_fields A s"
  from map_result_nth [OF vs [unfolded json_row_def]] have len: "length vs = length ?fs"
    and cell: "\<And>i. i < length ?fs \<Longrightarrow> json_cell J A (?v (fst (?fs ! i))) (fst (snd (?fs ! i))) = Inr (vs ! i)"
    by (auto simp: split_beta)
  let ?f = "\<lambda>(n, dt, nullable). json_value_to_array J A (?v n) dt"
  have "\<exists>a. ?f x = Inr a \<and> (\<forall>c. json_cell J A (?v (fst x)) (fst (snd x)) = Inr c
      \<longrightarrow> ar_data_type A a = fst (snd x) \<and> cells A a = [c])" if x: "x \<in> set ?fs" for x
  proof -
    obtain i where i: "i < length ?fs" "x = ?fs ! i" using x by (auto simp: in_set_conv_nth)
    show ?thesis
      using json_value_to_array_cell [OF A(1), of J "?v (fst x)" "fst (snd x)"] cell [OF i(1)]
      by (auto simp: i(2) split_beta)
  qed
  then have "\<exists>cs. map_result ?f ?fs = Inr cs \<and> list_all2 (\<lambda>x a. \<forall>c. json_cell J A (?v (fst x)) (fst (snd x)) = Inr c
      \<longrightarrow> ar_data_type A a = fst (snd x) \<and> cells A a = [c]) ?fs cs" by (rule map_result_all)
  then obtain cs where cs: "map_result ?f ?fs = Inr cs" "length cs = length ?fs"
    "\<And>i. i < length ?fs \<Longrightarrow> ar_data_type A (cs ! i) = fst (snd (?fs ! i)) \<and> cells A (cs ! i) = [vs ! i]"
    using cell by (auto simp: list_all2_conv_all_nth)
  have one: "ar_len A (cs ! i) = 1" if "i < length ?fs" for i
    using cells_len [of A "cs ! i"] cs(3) [OF that] by simp
  have "fits A s cs 1"
    using cs ne nn len one by (auto simp: fits_def split_beta)
  from try_new_fits [OF A(2) this] obtain b where b: "ar_try_new A s cs = Inr b" "ar_schema A b = s"
    "columns A b = cs" "batch_ok A b" by blast
  have "0 < length ?fs" using ne by simp
  moreover have "ar_column A b 0 = cs ! 0" using b(3) cs(2) ne columns_simps(1) [of A b] columns_simps(2) [of 0 A b]
    by (metis length_greater_0_conv)
  ultimately have "ar_num_rows A b = 1"
    using num_rows_column [OF b(4), of 0] one [of 0] cs(2) b(3) columns_simps(1) [of A b] by (metis)
  moreover have "row_cells A b 0 = vs"
  proof (rule nth_equalityI)
    show "length (row_cells A b 0) = length vs" by (simp add: row_cells_def b(3) cs(2) len)
    fix i assume "i < length (row_cells A b 0)"
    then have i: "i < length ?fs" by (simp add: row_cells_def b(3) cs(2))
    then show "row_cells A b 0 ! i = vs ! i"
      using cs(3) [OF i] one [OF i] nth_cells [of 0 A "cs ! i"] cs(2) by (simp add: row_cells_def b(3))
  qed
  ultimately show ?thesis
    unfolding json_map_to_record_batch_def cs(1) using b by simp
qed

subsection \<open>A JSON type for concrete rows\<close>

datatype djson = DNull | DInt int | DStr string | DBool bool

fun djson_text :: "djson \<Rightarrow> string" where
  "djson_text DNull = ''null''"
| "djson_text (DInt i) = show_int i"
| "djson_text (DStr s) = s"
| "djson_text (DBool b) = (if b then ''true'' else ''false'')"

definition demo_json :: "(djson, int) json_api" where
  "demo_json = \<lparr>
     js_null = DNull,
     js_is_null = \<lambda>v. v = DNull,
     js_is_number = \<lambda>v. (case v of DInt _ \<Rightarrow> True | _ \<Rightarrow> False),
     js_as_i64 = \<lambda>v. (case v of DInt i \<Rightarrow> if in_i64 i then Some i else None | _ \<Rightarrow> None),
     js_as_u64 = \<lambda>v. (case v of DInt i \<Rightarrow> if 0 \<le> i \<and> i \<le> u64_max then Some i else None | _ \<Rightarrow> None),
     js_as_f64 = \<lambda>v. (case v of DInt i \<Rightarrow> Some i | _ \<Rightarrow> None),
     js_as_bool = \<lambda>v. (case v of DBool b \<Rightarrow> Some b | _ \<Rightarrow> None),
     js_string = \<lambda>v. (case v of DStr s \<Rightarrow> Some s | _ \<Rightarrow> None),
     js_debug = djson_text,
     js_to_string = djson_text,
     fl_in_i64_range = in_i64,
     fl_as_i64 = \<lambda>i. i,
     fl_in_u64_range = \<lambda>i. 0 \<le> i \<and> i \<le> u64_max,
     fl_as_u64 = \<lambda>i. i,
     fl_of_int = \<lambda>i. i,
     fl_eq = (=),
     fl_show = show_int\<rparr>"

lemma insertion_order_ok [simp]: "iteration_ok insertion_order"
  by (simp add: iteration_ok_def insertion_order_def)

text \<open>A table with one batch of two rows at tick 1.\<close>

definition demo_table :: "(field list \<times> lcol list) versioned_table" where
  "demo_table = (versioned_table_new ''units'' Patchable)\<lparr>
     vt_versions := [(Tick 1, [demo_batch])],
     vt_position_map := rpm_insert (rpm_insert rpm_new (RowId 10) 0 0) (RowId 11) 0 1\<rparr>"

lemma demo_resolves:
  "resolves demo_table (RowId 11) (Tick 1) [demo_batch] 0 1"
  "resolves demo_table (RowId 10) (Tick 1) [demo_batch] 0 0"
  by (simp_all add: resolves_def demo_table_def tick_with_batch_def)

lemma demo_rows:
  "row_cells list_arrow demo_batch 0 = [Some (CNative (NInt 1)), Some (CStr ''a'')]"
  "row_cells list_arrow demo_batch (Suc 0) = [Some (CNative (NInt 2)), None]"
  by (simp_all add: demo_batch_def row_cells_def cell_at_def lcell_def)

subsection \<open>Properties\<close>



text \<open>Deleting a row blanks its nullable cells, keeps the rest of the batch, and
  removes the row identifier: after it the row cannot be updated or deleted again, other
  rows keep their positions.\<close>

theorem apply_delete_correct:
  assumes A: "arrow_arrays_ok A" "arrow_batches_ok A" and I: "iteration_ok I"
    and t: "resolves t row lt bs b r" and r: "r < ar_num_rows A (bs ! b)" and p: "patchable A (bs ! b)"
  shows "\<exists>nb t'. apply_delete_to_table I A t n tick row = (Inr (), t')
     \<and> vt_versions t' = hm_insert lt (bs[b := nb]) (vt_versions t)
     \<and> (\<forall>q < ar_num_rows A (bs ! b). row_cells A nb q =
          (if q = r then map (\<lambda>c. if snd (snd (ar_fields A (ar_schema A (bs ! b)) ! c)) then None
             else cell_at A (ar_column A (bs ! b) c) r) [0..<ar_num_columns A (bs ! b)]
           else row_cells A (bs ! b) q))
     \<and> (\<forall>row'. position_of (vt_position_map t') row'
           = (if row' = row then None else position_of (vt_position_map t) row'))
     \<and> \<not> is_ok (fst (apply_update_to_table I J A t' n tick row column value))
     \<and> apply_delete_to_table I A t' n tick row = (fst (apply_delete_to_table I A t' n tick row), t')"
proof -
  from build_null_patch_cells [OF A r p] obtain pb where pb:
    "build_null_patch A (bs ! b) r = Inr pb" "ar_schema A pb = ar_schema A (bs ! b)"
    "ar_num_rows A pb = 1" "batch_ok A pb"
    "row_cells A pb 0 = map (\<lambda>c. if snd (snd (ar_fields A (ar_schema A (bs ! b)) ! c)) then None
             else cell_at A (ar_column A (bs ! b) c) r) [0..<ar_num_columns A (bs ! b)]" by blast
  from resolves_cell_update [OF A p pb(4,2,3) r] obtain nb where nb:
    "patch_record_batch A (bs ! b) pb [(r, 0)] = Inr nb"
    "\<forall>q < ar_num_rows A (bs ! b). row_cells A nb q = (if q = r then row_cells A pb 0 else row_cells A (bs ! b) q)"
    by blast
  define t' where "t' = t\<lparr>vt_versions := hm_insert lt (bs[b := nb]) (vt_versions t),
    vt_position_map := snd (rpm_remove (vt_position_map t) row)\<rparr>"
  from t have tt: "position_of (vt_position_map t) row = Some (b, r)" "tick_with_batch t b = Some lt"
    "hm_get (vt_versions t) lt = Some bs" "b < length bs" by (simp_all add: resolves_def)
  have "apply_delete_to_table I A t n tick row = (Inr (), t')"
    using tt r pb(1) nb(1) by (simp add: apply_delete_to_table_def apply_patch_single [OF I] t'_def)
  moreover have gone: "position_of (vt_position_map t') row = None" by (simp add: t'_def)
  moreover from gone have "\<not> is_ok (fst (apply_update_to_table I J A t' n tick row column value))"
    "apply_delete_to_table I A t' n tick row = (fst (apply_delete_to_table I A t' n tick row), t')"
    by (simp_all add: apply_update_to_table_def apply_delete_to_table_def)
  ultimately show ?thesis
    using nb(2) pb(5) by (intro exI [of _ nb] exI [of _ t']) (simp add: t'_def)
qed

theorem apply_delete_correct_witness:
  "\<exists>nb t'. apply_delete_to_table insertion_order list_arrow demo_table ''units'' (Tick 2) (RowId 10) = (Inr (), t')
     \<and> vt_versions t' = [(Tick 1, [nb])]
     \<and> row_cells list_arrow nb 0 = [Some (CNative (NInt 1)), None]
     \<and> row_cells list_arrow nb 1 = [Some (CNative (NInt 2)), None]
     \<and> position_of (vt_position_map t') (RowId 11) = Some (0, 1)"
proof -
  have r: "0 < ar_num_rows list_arrow ([demo_batch] ! 0)" by (simp add: demo_batch_def lnum_rows_def)
  have p: "patchable list_arrow ([demo_batch] ! 0)" by (simp add: demo_batch_patchable)
  have nr: "ar_num_rows list_arrow ([demo_batch] ! 0) = 2" by (simp add: demo_batch_def lnum_rows_def)
  have null: "map (\<lambda>c. if snd (snd (ar_fields list_arrow (ar_schema list_arrow ([demo_batch] ! 0)) ! c)) then None
      else cell_at list_arrow (ar_column list_arrow ([demo_batch] ! 0) c) 0) [0..<ar_num_columns list_arrow ([demo_batch] ! 0)]
    = [Some (CNative (NInt 1)), None]"
    by (simp add: demo_batch_def demo_fields_def cell_at_def lcell_def)
  from apply_delete_correct [OF list_arrow_arrays_ok list_arrow_batches_ok insertion_order_ok demo_resolves(2) r p,
      of "''units''" "Tick 2" demo_json "''id''" DNull, unfolded null nr, unfolded nth_Cons_0] obtain nb t' where
    "apply_delete_to_table insertion_order list_arrow demo_table ''units'' (Tick 2) (RowId 10) = (Inr (), t')"
    "vt_versions t' = hm_insert (Tick 1) ([demo_batch][0 := nb]) (vt_versions demo_table)"
    "\<forall>q < 2. row_cells list_arrow nb q = (if q = 0 then [Some (CNative (NInt 1)), None] else row_cells list_arrow demo_batch q)"
    "\<forall>row'. position_of (vt_position_map t') row'
           = (if row' = RowId 10 then None else position_of (vt_position_map demo_table) row')"
    by blast
  then show ?thesis
    by (intro exI [of _ nb] exI [of _ t']) (simp add: demo_rows demo_table_def)
qed

text \<open>C15: Inserting a row appends a one-row batch to the version of the given tick with the
  values of the JSON object (absent fields null), gives the row the position of that batch,
  and leaves all other rows and ticks alone. When the tick is the latest one, the new row
  resolves to exactly that batch, so a following update or delete reaches it.\<close>

theorem apply_insert_correct:
  assumes A: "arrow_arrays_ok A" "arrow_batches_ok A" and inv: "vt_inv t"
    and s: "resolve_table_schema I A t values reg = Inr (Some s)" and ne: "ar_fields A s \<noteq> []"
    and new: "position_of (vt_position_map t) row = None"
    and vs: "json_row J A values s = Inr vs"
    and nn: "\<And>i. i < length vs \<Longrightarrow> vs ! i = None \<Longrightarrow> snd (snd (ar_fields A s ! i))"
    and old: "old = (case hm_get (vt_versions t) tick of None \<Rightarrow> [] | Some bs \<Rightarrow> bs)"
  shows "\<exists>nb t'. apply_insert_to_table I J A t n tick row values reg = (Inr (), t')
     \<and> row_cells A nb 0 = vs \<and> ar_num_rows A nb = 1 \<and> ar_schema A nb = s
     \<and> vt_versions t' = hm_insert tick (old @ [nb]) (vt_versions t)
     \<and> (\<forall>row'. position_of (vt_position_map t') row'
           = (if row' = row then Some (length old, 0) else position_of (vt_position_map t) row'))
     \<and> ((\<forall>u \<in> fst ` set (vt_versions t). u \<le> tick) \<longrightarrow> resolves t' row tick (old @ [nb]) (length old) 0)"
proof -
  from json_map_to_record_batch_cells [OF A vs ne nn] obtain nb where nb:
    "json_map_to_record_batch J A values s = Inr nb" "ar_schema A nb = s" "ar_num_rows A nb = 1" "row_cells A nb 0 = vs"
    by blast
  define t' where "t' = snd (apply_insert_to_table I J A t n tick row values reg)"
  have res: "apply_insert_to_table I J A t n tick row values reg = (Inr (), t')"
    using s new nb(1) by (simp add: t'_def apply_insert_to_table_def rpm_contains_iff Let_def)
  have ver: "vt_versions t' = hm_insert tick (old @ [nb]) (vt_versions t)"
    using s new nb(1) by (auto simp: t'_def apply_insert_to_table_def rpm_contains_iff Let_def old split: option.split)
  have "vt_position_map t' = rpm_insert (vt_position_map t) row (length old) 0"
    using s new nb(1) by (auto simp: t'_def apply_insert_to_table_def rpm_contains_iff Let_def old split: option.split)
  then have pos: "position_of (vt_position_map t') row'
      = (if row' = row then Some (length old, 0) else position_of (vt_position_map t) row')" for row'
    by simp
  have "resolves t' row tick (old @ [nb]) (length old) 0" if late: "\<forall>u \<in> fst ` set (vt_versions t). u \<le> tick"
  proof -
    have "hm_ok (vt_versions t')" using inv by (simp add: ver vt_inv_def)
    moreover have "u \<le> tick" if "hm_get (vt_versions t') u = Some us" for u us
      using that late map_of_SomeD [of "vt_versions t" u us] by (force simp: ver split: if_splits)
    ultimately have "tick_with_batch t' (length old) = Some tick"
      by (intro tick_with_batch_eq [where bs = "old @ [nb]"]) (simp_all add: ver)
    then show ?thesis by (simp add: resolves_def pos ver)
  qed
  with res nb ver pos show ?thesis by blast
qed


definition demo_spec :: table_spec where
  "demo_spec = table_spec_deserialize ''units''
     [(column_spec_new ''id'' SemId ''u64''), with_nullable (column_spec_new ''name'' Raw ''utf8'') True] None"

definition demo_reg :: "(djson, lcol) type_registry" where
  "demo_reg = default_type_registry demo_json list_arrow"


lemma demo_json_row:
  "json_row demo_json list_arrow [(''id'', DInt 3), (''name'', DStr ''b'')] demo_fields
     = Inr [Some (CNative (NInt 3)), Some (CStr ''b'')]"
  by (simp add: json_row_def demo_fields_def json_cell_def supported_def demo_json_def json_to_u64_def u64_max_def
      json_to_string_def)

lemma demo_row_fits:
  "ar_fields list_arrow demo_fields \<noteq> []"
  "i < length [Some (CNative (NInt 3)), Some (CStr ''b'')] \<Longrightarrow> [Some (CNative (NInt 3)), Some (CStr ''b'')] ! i = None
   \<Longrightarrow> snd (snd (ar_fields list_arrow demo_fields ! i))"
  by (auto simp: demo_fields_def less_Suc_eq)

lemma demo_inv: "vt_inv demo_table"
  by (simp add: vt_inv_def demo_table_def hm_ok_def rpm_ok_simps)

theorem apply_insert_correct_witness:
  "\<exists>nb t'. apply_insert_to_table insertion_order demo_json list_arrow demo_table ''units'' (Tick 1) (RowId 12)
        [(''id'', DInt 3), (''name'', DStr ''b'')] demo_reg = (Inr (), t')
     \<and> row_cells list_arrow nb 0 = [Some (CNative (NInt 3)), Some (CStr ''b'')]
     \<and> resolves t' (RowId 12) (Tick 1) [demo_batch, nb] 1 0"
proof -
  have s: "resolve_table_schema insertion_order list_arrow demo_table [(''id'', DInt 3), (''name'', DStr ''b'')] demo_reg
      = Inr (Some demo_fields)"
    by (simp add: resolve_table_schema_def demo_table_def versioned_table_new_def insertion_order_def demo_batch_def)
  have new: "position_of (vt_position_map demo_table) (RowId 12) = None" by (simp add: demo_table_def)
  have old: "[demo_batch] = (case hm_get (vt_versions demo_table) (Tick 1) of None \<Rightarrow> [] | Some bs \<Rightarrow> bs)"
    by (simp add: demo_table_def)
  have late: "\<forall>u \<in> fst ` set (vt_versions demo_table). u \<le> Tick 1" by (simp add: demo_table_def)
  from apply_insert_correct [OF list_arrow_arrays_ok list_arrow_batches_ok demo_inv s demo_row_fits(1) new demo_json_row demo_row_fits(2) old,
      of "''units''"] late obtain nb t' where
    "apply_insert_to_table insertion_order demo_json list_arrow demo_table ''units'' (Tick 1) (RowId 12)
        [(''id'', DInt 3), (''name'', DStr ''b'')] demo_reg = (Inr (), t')"
    "row_cells list_arrow nb 0 = [Some (CNative (NInt 3)), Some (CStr ''b'')]"
    "resolves t' (RowId 12) (Tick 1) ([demo_batch] @ [nb]) (length [demo_batch]) 0" by blast
  then show ?thesis by (intro exI [of _ nb] exI [of _ t']) simp
qed

text \<open>A failed diff leaves the table as it was: an update, delete or insert that returns
  an error has changed nothing, whatever check it failed at. A failed \<open>ReplaceTable\<close> keeps
  the versions and indices, but not the position map.\<close>

theorem failed_diff_keeps_table:
  assumes "iteration_ok I"
  shows "(is_ok (fst (apply_update_to_table I J A t n tick row col v))
            \<or> snd (apply_update_to_table I J A t n tick row col v) = t)
    \<and> (is_ok (fst (apply_delete_to_table I A t n tick row)) \<or> snd (apply_delete_to_table I A t n tick row) = t)
    \<and> (is_ok (fst (apply_insert_to_table I J A t n tick row vs reg))
            \<or> snd (apply_insert_to_table I J A t n tick row vs reg) = t)
    \<and> (is_ok (fst (apply_replace_to_table I J A t n tick rows reg))
            \<or> (\<exists>pos. snd (apply_replace_to_table I J A t n tick rows reg) = t\<lparr>vt_position_map := pos\<rparr>))"
proof -
  have "is_ok x \<or> (\<exists>e. x = Inl e)" for x :: "arrow_store_error + unit" by (cases x) auto
  then show ?thesis
    using apply_update_error [OF assms] apply_delete_error [OF assms] apply_insert_error apply_replace_error by metis
qed

theorem failed_diff_keeps_table_witness:
  "snd (apply_update_to_table insertion_order demo_json list_arrow demo_table ''units'' (Tick 2) (RowId 77) ''id'' DNull) = demo_table"
proof -
  have "\<not> is_ok (fst (apply_update_to_table insertion_order demo_json list_arrow demo_table ''units'' (Tick 2) (RowId 77) ''id'' DNull))"
    by (simp add: apply_update_to_table_def demo_table_def)
  with failed_diff_keeps_table [OF insertion_order_ok, of demo_json list_arrow demo_table "''units''" "Tick 2" "RowId 77"
    "''id''" DNull "[]" demo_reg "[]"] show ?thesis by blast
qed

text \<open>A row of an earlier tick is lost to the first insert of a later tick: both end up at
  batch 0, offset 0, and both resolve to the new batch, so an update of the old row changes
  the cells of the new one.\<close>

theorem insert_at_new_tick_captures_old_row:
  assumes inv: "vt_inv t" and late: "\<forall>u \<in> fst ` set (vt_versions t). u < tick"
    and old: "position_of (vt_position_map t) row = Some (0, 0)"
    and ins: "apply_insert_to_table I J A t n tick new values reg = (Inr (), t')"
  shows "\<exists>nb. resolves t' row tick [nb] 0 0 \<and> resolves t' new tick [nb] 0 0"
proof -
  have none: "hm_get (vt_versions t) tick = None"
    using late map_of_SomeD [of "vt_versions t" tick] by (cases "hm_get (vt_versions t) tick") force+
  have "row \<noteq> new" using ins old by (auto simp: apply_insert_to_table_def rpm_contains_iff split: sum.splits)
  with ins none old obtain nb where ver: "vt_versions t' = hm_insert tick [nb] (vt_versions t)"
    and pos: "position_of (vt_position_map t') row = Some (0, 0)" "position_of (vt_position_map t') new = Some (0, 0)"
    by (auto simp: apply_insert_to_table_def Let_def split: sum.splits if_splits option.splits)
  have "hm_ok (vt_versions t')" using inv by (simp add: ver vt_inv_def)
  moreover have "u \<le> tick" if "hm_get (vt_versions t') u = Some us" for u us
    using that late map_of_SomeD [of "vt_versions t" u us] by (force simp: ver split: if_splits)
  ultimately have "tick_with_batch t' 0 = Some tick"
    by (intro tick_with_batch_eq [where bs = "[nb]"]) (simp_all add: ver)
  with pos ver show ?thesis by (intro exI [of _ nb]) (simp add: resolves_def)
qed

theorem insert_at_new_tick_captures_old_row_witness:
  "\<exists>t' nb. apply_insert_to_table insertion_order demo_json list_arrow demo_table ''units'' (Tick 2) (RowId 12)
        [(''id'', DInt 3), (''name'', DStr ''b'')] demo_reg = (Inr (), t')
     \<and> resolves demo_table (RowId 10) (Tick 1) [demo_batch] 0 0
     \<and> resolves t' (RowId 10) (Tick 2) [nb] 0 0 \<and> resolves t' (RowId 12) (Tick 2) [nb] 0 0"
proof -
  define res where "res = apply_insert_to_table insertion_order demo_json list_arrow demo_table ''units'' (Tick 2) (RowId 12)
        [(''id'', DInt 3), (''name'', DStr ''b'')] demo_reg"
  have s: "resolve_table_schema insertion_order list_arrow demo_table [(''id'', DInt 3), (''name'', DStr ''b'')] demo_reg
      = Inr (Some demo_fields)"
    by (simp add: resolve_table_schema_def demo_table_def versioned_table_new_def insertion_order_def demo_batch_def)
  obtain nb where "json_map_to_record_batch demo_json list_arrow [(''id'', DInt 3), (''name'', DStr ''b'')] demo_fields = Inr nb"
    using json_map_to_record_batch_cells [OF list_arrow_arrays_ok list_arrow_batches_ok demo_json_row demo_row_fits]
    by blast
  then have "fst res = Inr ()"
    using s by (simp add: res_def apply_insert_to_table_def rpm_contains_iff demo_table_def Let_def)
  then have res: "res = (Inr (), snd res)" by (metis prod.collapse)
  have late: "\<forall>u \<in> fst ` set (vt_versions demo_table). u < Tick 2" by (simp add: demo_table_def)
  have old: "position_of (vt_position_map demo_table) (RowId 10) = Some (0, 0)" by (simp add: demo_table_def)
  from insert_at_new_tick_captures_old_row [OF demo_inv late old res [unfolded res_def]] show ?thesis
    using res demo_resolves(2) unfolding res_def by metis
qed


lemma replace_row_id_new:
  assumes "replace_row_id J n pk pos i row = Inr rid" and "pk = None \<Longrightarrow> position_of pos (RowId (of_nat i)) = None"
  shows "position_of pos rid = None"
  using assms by (cases "position_of pos rid") (auto simp: replace_row_id_def rpm_contains_iff split: option.splits if_splits)

lemma replace_rows_ok:
  assumes "replace_rows J A n pk s i rows pos bs = (Inr bs', pos')"
    and "length bs = i" and "i + length rows \<le> 2 ^ 64"
    and "\<forall>r b q. position_of pos r = Some (b, q) \<longrightarrow> b < i \<and> (pk = None \<longrightarrow> r = RowId (of_nat b))"
  shows "\<exists>ids nbs. bs' = bs @ nbs \<and> length nbs = length rows \<and> length ids = length rows
    \<and> (\<forall>j < length rows. json_map_to_record_batch J A (rows ! j) s = Inr (nbs ! j)
         \<and> position_of pos (ids ! j) = None
         \<and> position_of pos' (ids ! j) = Some (i + j, 0)
         \<and> (pk = None \<longrightarrow> ids ! j = RowId (of_nat (i + j))))
    \<and> (\<forall>r. r \<notin> set ids \<longrightarrow> position_of pos' r = position_of pos r)"
  using assms
proof (induction rows arbitrary: i pos bs)
  case (Cons row rows)
  from Cons.prems(1) obtain rid b where rid: "replace_row_id J n pk pos i row = Inr rid"
    and b: "json_map_to_record_batch J A row s = Inr b"
    and rest: "replace_rows J A n pk s (Suc i) rows (rpm_insert pos rid i 0) (bs @ [b]) = (Inr bs', pos')"
    by (auto split: sum.splits)
  have fresh: "position_of pos rid = None"
  proof (rule replace_row_id_new [OF rid])
    assume pk: "pk = None"
    show "position_of pos (RowId (of_nat i)) = None"
    proof (rule ccontr)
      assume "position_of pos (RowId (of_nat i)) \<noteq> None"
      then obtain c q where "position_of pos (RowId (of_nat i)) = Some (c, q)" by auto
      with Cons.prems(4) pk have "c < i" "(of_nat i :: u64) = of_nat c" by auto
      moreover have "unat (of_nat i :: u64) = i" "unat (of_nat c :: u64) = c"
        using Cons.prems(3) calculation(1) by (simp_all add: unat_of_nat take_bit_nat_eq_self)
      ultimately show False by simp
    qed
  qed
  have idpk: "pk = None \<Longrightarrow> rid = RowId (of_nat i)" using rid by (simp add: replace_row_id_def)
  have old: "\<forall>r c q. position_of (rpm_insert pos rid i 0) r = Some (c, q)
      \<longrightarrow> c < Suc i \<and> (pk = None \<longrightarrow> r = RowId (of_nat c))"
    using Cons.prems(4) idpk by (simp split: if_split) (metis less_SucI)
  have "length (bs @ [b]) = Suc i" "Suc i + length rows \<le> 2 ^ 64" using Cons.prems(2,3) by simp_all
  from Cons.IH [OF rest this old] obtain ids nbs where IH:
    "bs' = (bs @ [b]) @ nbs" "length nbs = length rows" "length ids = length rows"
    "\<And>j. j < length rows \<Longrightarrow> json_map_to_record_batch J A (rows ! j) s = Inr (nbs ! j)
         \<and> position_of (rpm_insert pos rid i 0) (ids ! j) = None
         \<and> position_of pos' (ids ! j) = Some (Suc i + j, 0)
         \<and> (pk = None \<longrightarrow> ids ! j = RowId (of_nat (Suc i + j)))"
    "\<And>r. r \<notin> set ids \<Longrightarrow> position_of pos' r = position_of (rpm_insert pos rid i 0) r" by blast
  have nin: "rid \<notin> set ids"
  proof
    assume "rid \<in> set ids"
    then obtain j where j: "j < length rows" "ids ! j = rid" using IH(3) by (metis in_set_conv_nth)
    from IH(4) [OF j(1)] j(2) show False by simp
  qed
  have at: "json_map_to_record_batch J A ((row # rows) ! j) s = Inr ((b # nbs) ! j)
         \<and> position_of pos ((rid # ids) ! j) = None
         \<and> position_of pos' ((rid # ids) ! j) = Some (i + j, 0)
         \<and> (pk = None \<longrightarrow> (rid # ids) ! j = RowId (of_nat (i + j)))" if "j < length (row # rows)" for j
  proof (cases j)
    case 0
    then show ?thesis using b fresh IH(5) [OF nin] idpk by simp
  next
    case (Suc k)
    then have "k < length rows" using that by simp
    from IH(4) [OF this] show ?thesis by (auto simp: Suc split: if_splits)
  qed
  have others: "position_of pos' r = position_of pos r" if "r \<notin> set (rid # ids)" for r
    using IH(5) [of r] that by simp
  show ?case
    using IH(1-3) at others by (intro exI [of _ "rid # ids"] exI [of _ "b # nbs"]) simp
qed simp



text \<open>A \<open>ReplaceTable\<close> that fails at its second row has already discarded the position of
  every row of the table.\<close>

theorem failed_replace_loses_positions:
  "\<exists>e t'. apply_replace_to_table insertion_order demo_json list_arrow (set_spec demo_table demo_spec) ''units'' (Tick 2)
      [[(''id'', DInt 1)], [(''id'', DStr ''x'')]] demo_reg = (Inl e, t')
   \<and> position_of (vt_position_map demo_table) (RowId 10) = Some (0, 0)
   \<and> position_of (vt_position_map t') (RowId 10) = None
   \<and> vt_versions t' = vt_versions demo_table"
proof -
  have pk: "pk_col_name (set_spec demo_table demo_spec) = Some ''id''"
    by (simp add: pk_col_name_def set_spec_def demo_spec_def table_spec_deserialize_def rebuild_index_def primary_key_column_def
        column_spec_new_def with_nullable_def)
  have s: "resolve_table_schema_from_map insertion_order list_arrow (set_spec demo_table demo_spec) [(''id'', DInt 1)] demo_reg
      = Inr (Some demo_fields)"
    by (simp add: resolve_table_schema_from_map_def resolve_table_schema_def set_spec_def demo_spec_def
        table_spec_deserialize_def rebuild_index_def column_spec_new_def with_nullable_def demo_reg_def default_type_registry_def
        type_register_def type_registry_new_def resolve_data_type_def demo_fields_def)
  have "json_row demo_json list_arrow [(''id'', DInt 1)] demo_fields = Inr [Some (CNative (NInt 1)), None]"
    by (simp add: json_row_def demo_fields_def json_cell_def supported_def demo_json_def json_to_u64_def u64_max_def)
  moreover have "snd (snd (ar_fields list_arrow demo_fields ! i))"
    if "i < length [Some (CNative (NInt 1)), None]" "[Some (CNative (NInt 1)), None] ! i = None" for i
    using that by (auto simp: demo_fields_def less_Suc_eq)
  ultimately obtain b where b: "json_map_to_record_batch demo_json list_arrow [(''id'', DInt 1)] demo_fields = Inr b"
    using json_map_to_record_batch_cells [OF list_arrow_arrays_ok list_arrow_batches_ok _ demo_row_fits(1)] by metis
  have id1: "replace_row_id demo_json ''units'' (Some ''id'') rpm_new 0 [(''id'', DInt 1)] = Inr (RowId 1)"
    by (simp add: replace_row_id_def json_value_to_u64_def demo_json_def u64_max_def rpm_contains_iff)
  have id2: "replace_row_id demo_json ''units'' (Some ''id'') pos (Suc 0) [(''id'', DStr ''x'')] = Inl (SESchema (''primary key column '' @ quoted ''id''
            @ '' value is not a valid u64 in ReplaceTable for table '' @ quoted ''units''))" for pos
    by (simp add: replace_row_id_def json_value_to_u64_def demo_json_def parse_u64_def digit_val_def)
  show ?thesis
    by (simp add: apply_replace_to_table_def s pk id1 id2 b) (simp add: demo_table_def set_spec_def)
qed

end
