(* ===== verification/Store.thy ===== *)
theory Store
  imports Tables
begin

section \<open>The Arrow store (snapshot.rs, store.rs 199--1256, store\_guard.rs)\<close>

text \<open>
  The store owns the tables, their identifiers, the snapshots and the lifecycle. Every
  operation is a function from the store to a result and the store it leaves behind, errors
  included. The locks serialise the operations and are never poisoned in this sequential
  model. Checkpoint files are written in Store\_Checkpoints, which also provides the reading that
  is a parameter here.
\<close>

subsection \<open>snapshot.rs\<close>

record 'b world_snapshot =
  ws_tick :: tick
  ws_tables :: "(string \<times> 'b versioned_table) list"
  ws_partition_views :: "(string \<times> (string \<times> 'b partition_snapshot) list) list"

definition world_snapshot_new :: "tick \<Rightarrow> 'b world_snapshot" where
  "world_snapshot_new tick = \<lparr>ws_tick = tick, ws_tables = [], ws_partition_views = []\<rparr>"

definition register_table :: "'b world_snapshot \<Rightarrow> string \<Rightarrow> 'b versioned_table \<Rightarrow> 'b world_snapshot" where
  "register_table w name table = w\<lparr>ws_tables := hm_insert name table (ws_tables w)\<rparr>"

definition snapshot_with_table :: "tick \<Rightarrow> string \<Rightarrow> 'b versioned_table \<Rightarrow> 'b world_snapshot" where
  "snapshot_with_table tick name table = register_table (world_snapshot_new tick) name table"

definition snapshot_get_table :: "'b world_snapshot \<Rightarrow> string \<Rightarrow> arrow_store_error + 'b versioned_table" where
  "snapshot_get_table w name = ok_or (hm_get (ws_tables w) name) (SETableNotFound name)"

definition table_batches :: "'b world_snapshot \<Rightarrow> string \<Rightarrow> arrow_store_error + 'b list" where
  "table_batches w name = rbind (snapshot_get_table w name) (\<lambda>table.
     Inr (case get_version table (ws_tick w) of None \<Rightarrow> [] | Some bs \<Rightarrow> bs))"

definition register_partition_snapshot ::
  "'b world_snapshot \<Rightarrow> string \<Rightarrow> 'b partition_snapshot \<Rightarrow> 'b world_snapshot" where
  "register_partition_snapshot w table_name ps =
     w\<lparr>ws_partition_views := hm_insert table_name
        (hm_insert (ps_region_id ps) ps
          (case hm_get (ws_partition_views w) table_name of None \<Rightarrow> [] | Some m \<Rightarrow> m))
        (ws_partition_views w)\<rparr>"

definition has_table :: "'b world_snapshot \<Rightarrow> string \<Rightarrow> bool" where
  "has_table w name = hm_contains (ws_tables w) name"

definition has_partition :: "'b world_snapshot \<Rightarrow> string \<Rightarrow> string \<Rightarrow> bool" where
  "has_partition w table_name region =
     (case hm_get (ws_partition_views w) table_name of None \<Rightarrow> False | Some m \<Rightarrow> hm_contains m region)"

subsection \<open>ArrowStore\<close>

record ('j, 'a, 'b) arrow_store =
  st_tables :: "(string \<times> 'b versioned_table) list"
  st_table_id_map :: "(table_id \<times> string) list"
  st_snapshots :: "(tick \<times> 'b world_snapshot) list"
  st_next_table_id :: u64
  st_generation :: u64
  st_type_registry :: "('j, 'a) type_registry"
  st_lifecycle :: lifecycle_guard

definition arrow_store_new :: "('j, 'fl) json_api \<Rightarrow> ('b, 'a, 's, 'fl) arrow_api \<Rightarrow> ('j, 'a, 'b) arrow_store" where
  "arrow_store_new J A = \<lparr>st_tables = [], st_table_id_map = [], st_snapshots = [], st_next_table_id = 0,
     st_generation = 0, st_type_registry = default_type_registry J A, st_lifecycle = lifecycle_guard_new\<rparr>"

text \<open>The lifecycle check at the start of every operation of the initialisation phase, and
  of every commit operation.\<close>

definition init_only ::
  "('j, 'a, 'b) arrow_store \<Rightarrow> (arrow_store_error + 'r) \<times> ('j, 'a, 'b) arrow_store
     \<Rightarrow> (arrow_store_error + 'r) \<times> ('j, 'a, 'b) arrow_store" where
  "init_only s body =
     (if lg_is_simulation (st_lifecycle s)
      then (Inl (SELifecycle ''operation not allowed during simulation''), s) else body)"

definition commit_only ::
  "('j, 'a, 'b) arrow_store \<Rightarrow> (arrow_store_error + 'r) \<times> ('j, 'a, 'b) arrow_store
     \<Rightarrow> (arrow_store_error + 'r) \<times> ('j, 'a, 'b) arrow_store" where
  "commit_only s body =
     (if lg_is_initialization (st_lifecycle s)
      then (Inl (SELifecycle ''commit operation not allowed during initialization''), s) else body)"

text \<open>Looking a table up for modification.\<close>

definition on_table ::
  "('j, 'a, 'b) arrow_store \<Rightarrow> string \<Rightarrow> ('b versioned_table \<Rightarrow> (arrow_store_error + 'r) \<times> 'b versioned_table)
     \<Rightarrow> (arrow_store_error + 'r) \<times> ('j, 'a, 'b) arrow_store" where
  "on_table s name f =
     (case hm_get (st_tables s) name of
        None \<Rightarrow> (Inl (SETableNotFound name), s)
      | Some t \<Rightarrow> (case f t of (r, t') \<Rightarrow> (r, s\<lparr>st_tables := hm_insert name t' (st_tables s)\<rparr>)))"

definition store_register_type ::
  "('j, 'a, 'b) arrow_store \<Rightarrow> string \<Rightarrow> data_type \<Rightarrow> ('j \<Rightarrow> arrow_store_error + 'a) \<Rightarrow> (arrow_store_error + 'a)
     \<Rightarrow> (arrow_store_error + unit) \<times> ('j, 'a, 'b) arrow_store" where
  "store_register_type s name dt f g =
     init_only s (Inr (), s\<lparr>st_type_registry := type_register (st_type_registry s) name dt f g\<rparr>)"

definition create_table ::
  "('j, 'a, 'b) arrow_store \<Rightarrow> table_spec \<Rightarrow> mutation_mode \<Rightarrow> (arrow_store_error + table_id) \<times> ('j, 'a, 'b) arrow_store" where
  "create_table s spec mode =
     init_only s
       (if hm_contains (st_tables s) (ts_name spec) then (Inl (SETableAlreadyExists (ts_name spec)), s)
        else (let id_val = st_next_table_id s;
                  table = set_spec (versioned_table_new (ts_name spec) mode) spec
              in (Inr (TableId id_val), s\<lparr>st_next_table_id := id_val + 1,
                   st_tables := hm_insert (ts_name spec) table (st_tables s),
                   st_table_id_map := hm_insert (TableId id_val) (ts_name spec) (st_table_id_map s)\<rparr>)))"

definition drop_table ::
  "('j, 'a, 'b) arrow_store \<Rightarrow> string \<Rightarrow> (arrow_store_error + unit) \<times> ('j, 'a, 'b) arrow_store" where
  "drop_table s name =
     init_only s
       (let s1 = (case find (\<lambda>(_, n). n = name) (st_table_id_map s) of
              Some (i, _) \<Rightarrow> s\<lparr>st_table_id_map := hm_remove i (st_table_id_map s)\<rparr>
            | None \<Rightarrow> s)
        in if hm_contains (st_tables s1) name
           then (Inr (), s1\<lparr>st_tables := hm_remove name (st_tables s1)\<rparr>)
           else (Inl (SETableNotFound name), s1))"

definition get_table :: "('j, 'a, 'b) arrow_store \<Rightarrow> string \<Rightarrow> arrow_store_error + 'b versioned_table" where
  "get_table s name = ok_or (hm_get (st_tables s) name) (SETableNotFound name)"

definition table_names :: "('j, 'a, 'b) arrow_store \<Rightarrow> string list" where
  "table_names s = map fst (st_tables s)"

definition set_mutation_mode ::
  "('j, 'a, 'b) arrow_store \<Rightarrow> string \<Rightarrow> mutation_mode \<Rightarrow> (arrow_store_error + unit) \<times> ('j, 'a, 'b) arrow_store" where
  "set_mutation_mode s name mode = init_only s (on_table s name (\<lambda>t. (Inr (), t\<lparr>vt_mutation_mode := mode\<rparr>)))"

definition store_mutation_mode :: "('j, 'a, 'b) arrow_store \<Rightarrow> string \<Rightarrow> arrow_store_error + mutation_mode" where
  "store_mutation_mode s name = rbind (get_table s name) (\<lambda>t. Inr (vt_mutation_mode t))"

definition get_table_batches :: "('j, 'a, 'b) arrow_store \<Rightarrow> string \<Rightarrow> tick \<Rightarrow> arrow_store_error + 'b list" where
  "get_table_batches s name tick = rbind (get_table s name) (\<lambda>t.
     Inr (case hm_get (vt_versions t) tick of None \<Rightarrow> [] | Some bs \<Rightarrow> bs))"

definition append_batches ::
  "('j, 'a, 'b) arrow_store \<Rightarrow> string \<Rightarrow> tick \<Rightarrow> 'b list \<Rightarrow> (arrow_store_error + unit) \<times> ('j, 'a, 'b) arrow_store" where
  "append_batches s name tick batches = init_only s (on_table s name (\<lambda>t.
     (Inr (), t\<lparr>vt_versions := hm_insert tick
       ((case hm_get (vt_versions t) tick of None \<Rightarrow> [] | Some bs \<Rightarrow> bs) @ batches) (vt_versions t)\<rparr>)))"

definition patch_rows ::
  "'b iteration \<Rightarrow> ('b, 'a, 's, 'fl) arrow_api \<Rightarrow> ('j, 'a, 'b) arrow_store \<Rightarrow> string \<Rightarrow> tick \<Rightarrow> row_location list \<Rightarrow> 'b
     \<Rightarrow> (arrow_store_error + unit) \<times> ('j, 'a, 'b) arrow_store" where
  "patch_rows I A s name tick locations batch =
     commit_only s
       (if locations = [] then (Inr (), s)
        else on_table s name (\<lambda>t.
          case hm_get (vt_versions t) tick of
            None \<Rightarrow> (Inl (SETickNotFound name (tick_as_u64 tick)), t)
          | Some versions \<Rightarrow>
              (case for_each_mut (patch_group A batch) versions (it_groups I (group_locations 0 locations [])) of
                 (r, versions') \<Rightarrow> (r, t\<lparr>vt_versions := hm_insert tick versions' (vt_versions t)\<rparr>))))"

fun rebuild_batch :: "nat \<Rightarrow> nat list \<Rightarrow> row_position_map \<times> u64 \<Rightarrow> row_position_map \<times> u64" where
  "rebuild_batch batch_idx [] st = st"
| "rebuild_batch batch_idx (offset # offsets) (pos, counter) =
     rebuild_batch batch_idx offsets (rpm_insert pos (RowId counter) batch_idx offset, counter + 1)"

fun rebuild_positions ::
  "('b, 'a, 's, 'fl) arrow_api \<Rightarrow> nat \<Rightarrow> 'b list \<Rightarrow> row_position_map \<times> u64 \<Rightarrow> row_position_map \<times> u64" where
  "rebuild_positions A batch_idx [] st = st"
| "rebuild_positions A batch_idx (batch # batches) st =
     rebuild_positions A (Suc batch_idx) batches (rebuild_batch batch_idx [0..<ar_num_rows A batch] st)"

definition rebuild_table ::
  "('b, 'a, 's, 'fl) arrow_api \<Rightarrow> ('j, 'a, 'b) arrow_store \<Rightarrow> string \<Rightarrow> tick \<Rightarrow> 'b list
     \<Rightarrow> (arrow_store_error + unit) \<times> ('j, 'a, 'b) arrow_store" where
  "rebuild_table A s name tick batches = init_only s (on_table s name (\<lambda>t.
     (Inr (), t\<lparr>vt_position_map := fst (rebuild_positions A 0 batches (rpm_new, 0)),
               vt_versions := hm_insert tick batches (vt_versions t)\<rparr>)))"

subsection \<open>Snapshots\<close>

definition snapshot_of_table :: "tick \<Rightarrow> string \<times> 'b versioned_table \<Rightarrow> 'b world_snapshot \<Rightarrow> 'b world_snapshot" where
  "snapshot_of_table tick entry w = (case entry of (name, table) \<Rightarrow>
     fold (\<lambda>region w. case partition_get (vt_partitions table) region of
         Inl _ \<Rightarrow> w
       | Inr p \<Rightarrow> register_partition_snapshot w name (partition_snapshot_new region tick (pt_batches p)))
       (region_ids (vt_partitions table)) (register_table w name table))"

definition do_generate_snapshot ::
  "('j, 'a, 'b) arrow_store \<Rightarrow> tick \<Rightarrow> (arrow_store_error + 'b world_snapshot) \<times> ('j, 'a, 'b) arrow_store" where
  "do_generate_snapshot s tick =
     (let snapshot = fold (snapshot_of_table tick) (st_tables s) (world_snapshot_new tick)
      in (Inr snapshot, s\<lparr>st_generation := st_generation s + 1,
            st_snapshots := hm_insert tick snapshot (st_snapshots s)\<rparr>))"

definition generate_snapshot ::
  "('j, 'a, 'b) arrow_store \<Rightarrow> tick \<Rightarrow> (arrow_store_error + 'b world_snapshot) \<times> ('j, 'a, 'b) arrow_store" where
  "generate_snapshot s tick = commit_only s (do_generate_snapshot s tick)"

definition get_snapshot :: "('j, 'a, 'b) arrow_store \<Rightarrow> tick \<Rightarrow> arrow_store_error + 'b world_snapshot" where
  "get_snapshot s tick = ok_or (hm_get (st_snapshots s) tick) (SESnapshotNotFound (tick_as_u64 tick))"

definition latest_snapshot :: "('j, 'a, 'b) arrow_store \<Rightarrow> 'b world_snapshot option" where
  "latest_snapshot s = (case map fst (st_snapshots s) of [] \<Rightarrow> None
     | k # ks \<Rightarrow> hm_get (st_snapshots s) (fold max ks k))"

definition snapshot_ticks :: "('j, 'a, 'b) arrow_store \<Rightarrow> tick list" where
  "snapshot_ticks s = map fst (st_snapshots s)"

subsection \<open>Building indices\<close>

text \<open>The batches of all versions with their tick and index, in iteration order.\<close>

definition indexed_batches :: "(tick \<times> 'b list) list \<Rightarrow> (tick \<times> nat \<times> 'b) list" where
  "indexed_batches versions =
     concat (map (\<lambda>(t, bs). map (\<lambda>(i, b). (t, i, b)) (List.enumerate 0 bs)) versions)"

definition index_column ::
  "('b, 'a, 's, 'fl) arrow_api \<Rightarrow> string \<Rightarrow> 'b \<Rightarrow> arrow_store_error + 'a" where
  "index_column A column batch =
     rbind (map_err (\<lambda>e. SESchema (''column '' @ column @ '' not found: '' @ e))
       (ar_index_of A (ar_schema A batch) column)) (\<lambda>i. Inr (ar_column A batch i))"

definition pk_index_batch ::
  "('j, 'fl) json_api \<Rightarrow> ('b, 'a, 's, 'fl) arrow_api \<Rightarrow> ('a \<Rightarrow> string) \<Rightarrow> string
     \<Rightarrow> primary_key_index \<Rightarrow> tick \<times> nat \<times> 'b \<Rightarrow> arrow_store_error + primary_key_index" where
  "pk_index_batch J A D column ix e = (case e of (tick, batch_idx, batch) \<Rightarrow>
     rbind (index_column A column batch) (\<lambda>array.
       Inr (fold (\<lambda>row_idx ix. pk_insert ix (array_value_to_string J A D array row_idx) tick batch_idx row_idx)
         [0..<ar_num_rows A batch] ix)))"

definition build_primary_key_index ::
  "'b iteration \<Rightarrow> ('j, 'fl) json_api \<Rightarrow> ('b, 'a, 's, 'fl) arrow_api \<Rightarrow> ('a \<Rightarrow> string)
     \<Rightarrow> ('j, 'a, 'b) arrow_store \<Rightarrow> string \<Rightarrow> (arrow_store_error + unit) \<times> ('j, 'a, 'b) arrow_store" where
  "build_primary_key_index I J A D s name =
     init_only s
       (on_table s name (\<lambda>t.
          case rbind (ok_or (vt_spec t) (SESchema ''no table spec for PK index'')) (\<lambda>spec.
              rbind (ok_or (primary_key_column spec) (SESchema ''no primary key column defined'')) (\<lambda>c.
              Inr (col_name c))) of
            Inl e \<Rightarrow> (Inl e, t)
          | Inr pk_name \<Rightarrow>
              (case for_each_mut (pk_index_batch J A D pk_name) pk_new
                  (indexed_batches (it_versions I (vt_versions t))) of
                 (r, ix) \<Rightarrow> (r, t\<lparr>vt_primary_key_index := ix\<rparr>))))"

definition fk_index_batch ::
  "('j, 'fl) json_api \<Rightarrow> ('b, 'a, 's, 'fl) arrow_api \<Rightarrow> ('a \<Rightarrow> string) \<Rightarrow> string
     \<Rightarrow> foreign_key_index \<Rightarrow> tick \<times> nat \<times> 'b \<Rightarrow> arrow_store_error + foreign_key_index" where
  "fk_index_batch J A D column ix e = (case e of (tick, batch_idx, batch) \<Rightarrow>
     rbind (index_column A column batch) (\<lambda>array.
       Inr (fold (\<lambda>row_idx ix. fk_insert ix (array_value_to_string J A D array row_idx) tick batch_idx row_idx)
         [0..<ar_num_rows A batch] ix)))"

definition build_foreign_key_index ::
  "'b iteration \<Rightarrow> ('j, 'fl) json_api \<Rightarrow> ('b, 'a, 's, 'fl) arrow_api \<Rightarrow> ('a \<Rightarrow> string)
     \<Rightarrow> ('j, 'a, 'b) arrow_store \<Rightarrow> string \<Rightarrow> string \<Rightarrow> string
     \<Rightarrow> (arrow_store_error + unit) \<times> ('j, 'a, 'b) arrow_store" where
  "build_foreign_key_index I J A D s name column target_table =
     init_only s (on_table s name (\<lambda>t.
       case try_fold (fk_index_batch J A D column) (fk_new column target_table)
           (indexed_batches (it_versions I (vt_versions t))) of
         Inl e \<Rightarrow> (Inl e, t)
       | Inr ix \<Rightarrow> (Inr (), add_foreign_key_index t ix)))"

definition store_primary_key_index :: "('j, 'a, 'b) arrow_store \<Rightarrow> string \<Rightarrow> arrow_store_error + primary_key_index" where
  "store_primary_key_index s name = rbind (get_table s name) (\<lambda>t. Inr (vt_primary_key_index t))"

definition store_foreign_key_indices ::
  "('j, 'a, 'b) arrow_store \<Rightarrow> string \<Rightarrow> arrow_store_error + foreign_key_index list" where
  "store_foreign_key_indices s name = rbind (get_table s name) (\<lambda>t. Inr (vt_foreign_key_indices t))"

subsection \<open>Partitions of a table\<close>

definition store_partition_map :: "('j, 'a, 'b) arrow_store \<Rightarrow> string \<Rightarrow> arrow_store_error + 'b partition_map" where
  "store_partition_map s name = rbind (get_table s name) (\<lambda>t. Inr (vt_partitions t))"

definition partition_map_mut ::
  "('j, 'a, 'b) arrow_store \<Rightarrow> string \<Rightarrow> ('b partition_map \<Rightarrow> 'r \<times> 'b partition_map)
     \<Rightarrow> (arrow_store_error + 'r) \<times> ('j, 'a, 'b) arrow_store" where
  "partition_map_mut s name f = init_only s (on_table s name (\<lambda>t.
     case f (vt_partitions t) of (r, m) \<Rightarrow> (Inr r, t\<lparr>vt_partitions := m\<rparr>)))"

definition get_partition :: "('j, 'a, 'b) arrow_store \<Rightarrow> string \<Rightarrow> string \<Rightarrow> arrow_store_error + 'b partition" where
  "get_partition s name region = rbind (get_table s name) (\<lambda>t. partition_get (vt_partitions t) region)"

subsection \<open>Checkpoints\<close>

text \<open>The table specification rebuilt from the first batch of a checkpoint file.\<close>

definition spec_of_batch ::
  "('b, 'a, 's, 'fl) arrow_api \<Rightarrow> (data_type \<Rightarrow> string) \<Rightarrow> string \<Rightarrow> 'b \<Rightarrow> table_spec" where
  "spec_of_batch A type_name name batch =
     fold (\<lambda>(fname, dt, nullable) spec.
       case with_column spec (with_nullable (column_spec_new fname Raw (type_name dt)) nullable) of
         Inl _ \<Rightarrow> spec
       | Inr spec' \<Rightarrow> spec') (ar_fields A (ar_schema A batch)) (table_spec_new name)"

text \<open>\<open>or_insert_with\<close> and the fresh identifier of a table that was not there.\<close>

definition ensure_table :: "('j, 'a, 'b) arrow_store \<Rightarrow> string \<Rightarrow> ('j, 'a, 'b) arrow_store" where
  "ensure_table s name =
     (if hm_contains (st_tables s) name then s
      else s\<lparr>st_next_table_id := st_next_table_id s + 1,
          st_tables := hm_insert name (versioned_table_new name AppendOnly) (st_tables s),
          st_table_id_map := hm_insert (TableId (st_next_table_id s)) name (st_table_id_map s)\<rparr>)"

definition load_table ::
  "('b, 'a, 's, 'fl) arrow_api \<Rightarrow> (data_type \<Rightarrow> string) \<Rightarrow> tick \<Rightarrow> string \<times> 'b list
     \<Rightarrow> ('j, 'a, 'b) arrow_store \<Rightarrow> ('j, 'a, 'b) arrow_store" where
  "load_table A type_name tick entry s = (case entry of (name, batches) \<Rightarrow>
     let is_new = \<not> hm_contains (st_tables s) name;
         s1 = ensure_table s name;
         t = the (hm_get (st_tables s1) name);
         t1 = (if is_new then (case batches of [] \<Rightarrow> t
             | first # _ \<Rightarrow> set_spec t (spec_of_batch A type_name name first)) else t)
     in s1\<lparr>st_tables := hm_insert name (t1\<lparr>vt_versions := hm_insert tick batches (vt_versions t1)\<rparr>) (st_tables s1)\<rparr>)"

definition load_checkpoint ::
  "('b, 'a, 's, 'fl) arrow_api \<Rightarrow> (data_type \<Rightarrow> string) \<Rightarrow> (tick \<Rightarrow> arrow_store_error + (string \<times> 'b list) list)
     \<Rightarrow> ('j, 'a, 'b) arrow_store \<Rightarrow> tick \<Rightarrow> (arrow_store_error + 'b world_snapshot) \<times> ('j, 'a, 'b) arrow_store" where
  "load_checkpoint A type_name read_files s tick =
     init_only s
       (case read_files tick of
          Inl e \<Rightarrow> (Inl e, s)
        | Inr files \<Rightarrow>
            if files = [] then (Inl (SEIo (''no .arrow files found in checkpoint directory: checkpoint_''
              @ show_u64 (tick_as_u64 tick))), s)
            else do_generate_snapshot (fold (load_table A type_name tick) files s) tick)"

definition truncate_before ::
  "('j, 'a, 'b) arrow_store \<Rightarrow> tick \<Rightarrow> (arrow_store_error + unit) \<times> ('j, 'a, 'b) arrow_store" where
  "truncate_before s tick =
     commit_only s (Inr (), s\<lparr>
       st_snapshots := filter (\<lambda>(t, _). t \<ge> tick) (st_snapshots s),
       st_tables := map (\<lambda>(n, table).
         (n, table\<lparr>vt_versions := filter (\<lambda>(t, _). t \<ge> tick) (vt_versions table)\<rparr>)) (st_tables s)\<rparr>)"

definition store_advance_to_simulation ::
  "('j, 'a, 'b) arrow_store \<Rightarrow> (arrow_store_error + unit) \<times> ('j, 'a, 'b) arrow_store" where
  "store_advance_to_simulation s =
     (case lg_advance_to_simulation (st_lifecycle s) of
        Inl e \<Rightarrow> (Inl (SELifecycle (case e of InvalidPhase m \<Rightarrow> ''invalid lifecycle phase: '' @ m | _ \<Rightarrow> [])), s)
      | Inr g \<Rightarrow> (Inr (), s\<lparr>st_lifecycle := g\<rparr>))"

subsection \<open>Applying diffs\<close>

definition apply_diff ::
  "'b iteration \<Rightarrow> ('j, 'fl) json_api \<Rightarrow> ('b, 'a, 's, 'fl) arrow_api \<Rightarrow> tick \<Rightarrow> 'j diff
     \<Rightarrow> ('j, 'a, 'b) arrow_store \<Rightarrow> (arrow_store_error + unit) \<times> ('j, 'a, 'b) arrow_store" where
  "apply_diff I J A tick d s =
     (case d of
        DUpdate table row column value \<Rightarrow>
          on_table s table (\<lambda>t. apply_update_to_table I J A t table tick row column value)
      | DInsert table row values \<Rightarrow>
          on_table s table (\<lambda>t. apply_insert_to_table I J A t table tick row values (st_type_registry s))
      | DDelete table row \<Rightarrow>
          on_table s table (\<lambda>t. apply_delete_to_table I A t table tick row)
      | DReplaceTable table rows \<Rightarrow>
          on_table s table (\<lambda>t. apply_replace_to_table I J A t table tick rows (st_type_registry s)))"

definition save_table_versions ::
  "('j, 'a, 'b) arrow_store \<Rightarrow> string list \<Rightarrow> (string \<times> (tick \<times> 'b list) list) list" where
  "save_table_versions s names =
     fold (\<lambda>name saved. case hm_get (st_tables s) name of
         None \<Rightarrow> saved
       | Some t \<Rightarrow> hm_insert name (vt_versions t) saved) names []"

definition restore_table_versions ::
  "('j, 'a, 'b) arrow_store \<Rightarrow> (string \<times> (tick \<times> 'b list) list) list \<Rightarrow> ('j, 'a, 'b) arrow_store" where
  "restore_table_versions s saved =
     fold (\<lambda>(name, versions) s. case hm_get (st_tables s) name of
         None \<Rightarrow> s
       | Some t \<Rightarrow> s\<lparr>st_tables := hm_insert name (t\<lparr>vt_versions := versions\<rparr>) (st_tables s)\<rparr>) saved s"

fun apply_diff_loop ::
  "'b iteration \<Rightarrow> ('j, 'fl) json_api \<Rightarrow> ('b, 'a, 's, 'fl) arrow_api \<Rightarrow> tick \<Rightarrow> (string \<times> (tick \<times> 'b list) list) list
     \<Rightarrow> 'j diff list \<Rightarrow> ('j, 'a, 'b) arrow_store \<Rightarrow> (arrow_store_error + unit) \<times> ('j, 'a, 'b) arrow_store" where
  "apply_diff_loop I J A tick saved [] s = (Inr (), s)"
| "apply_diff_loop I J A tick saved (d # ds) s =
     (case apply_diff I J A tick d s of
        (Inl e, s') \<Rightarrow> (Inl e, restore_table_versions s' saved)
      | (Inr _, s') \<Rightarrow> apply_diff_loop I J A tick saved ds s')"

definition apply_diffs ::
  "'b iteration \<Rightarrow> ('j, 'fl) json_api \<Rightarrow> ('b, 'a, 's, 'fl) arrow_api \<Rightarrow> ('j, 'a, 'b) arrow_store \<Rightarrow> tick \<Rightarrow> 'j diff list
     \<Rightarrow> (arrow_store_error + unit) \<times> ('j, 'a, 'b) arrow_store" where
  "apply_diffs I J A s tick ds =
     commit_only s (apply_diff_loop I J A tick
       (save_table_versions s (remdups (map diff_table ds))) ds s)"

subsection \<open>The operations as steps\<close>

text \<open>What the operations need besides the store.\<close>

record ('j, 'a, 'b, 's, 'fl) store_env =
  en_iteration :: "'b iteration"
  en_json :: "('j, 'fl) json_api"
  en_arrow :: "('b, 'a, 's, 'fl) arrow_api"
  en_debug :: "'a \<Rightarrow> string"
  en_type_name :: "data_type \<Rightarrow> string"
  en_read_files :: "tick \<Rightarrow> arrow_store_error + (string \<times> 'b list) list"

datatype ('j, 'a, 'b) init_op =
    OpRegisterType string data_type "'j \<Rightarrow> arrow_store_error + 'a" "arrow_store_error + 'a"
  | OpCreateTable table_spec mutation_mode
  | OpDropTable string
  | OpSetMutationMode string mutation_mode
  | OpAppendBatches string tick "'b list"
  | OpRebuildTable string tick "'b list"
  | OpLoadCheckpoint tick
  | OpBuildPrimaryKeyIndex string
  | OpBuildForeignKeyIndex string string string
  | OpPartitionMapMut string "'b partition_map \<Rightarrow> unit \<times> 'b partition_map"

datatype ('j, 'b) commit_op =
    OpApplyDiffs tick "'j diff list"
  | OpGenerateSnapshot tick
  | OpTruncateBefore tick
  | OpPatchRows string tick "row_location list" 'b

definition void :: "('e + 'r) \<times> 's \<Rightarrow> ('e + unit) \<times> 's" where
  "void p = (case p of (Inl e, s) \<Rightarrow> (Inl e, s) | (Inr _, s) \<Rightarrow> (Inr (), s))"

fun init_step ::
  "('j, 'a, 'b, 's, 'fl) store_env \<Rightarrow> ('j, 'a, 'b) init_op \<Rightarrow> ('j, 'a, 'b) arrow_store
     \<Rightarrow> (arrow_store_error + unit) \<times> ('j, 'a, 'b) arrow_store" where
  "init_step E (OpRegisterType n dt f g) s = store_register_type s n dt f g"
| "init_step E (OpCreateTable spec mode) s = void (create_table s spec mode)"
| "init_step E (OpDropTable n) s = drop_table s n"
| "init_step E (OpSetMutationMode n m) s = set_mutation_mode s n m"
| "init_step E (OpAppendBatches n t bs) s = append_batches s n t bs"
| "init_step E (OpRebuildTable n t bs) s = rebuild_table (en_arrow E) s n t bs"
| "init_step E (OpLoadCheckpoint t) s = void (load_checkpoint (en_arrow E) (en_type_name E) (en_read_files E) s t)"
| "init_step E (OpBuildPrimaryKeyIndex n) s =
     build_primary_key_index (en_iteration E) (en_json E) (en_arrow E) (en_debug E) s n"
| "init_step E (OpBuildForeignKeyIndex n c tg) s =
     build_foreign_key_index (en_iteration E) (en_json E) (en_arrow E) (en_debug E) s n c tg"
| "init_step E (OpPartitionMapMut n f) s = partition_map_mut s n f"

fun commit_step ::
  "('j, 'a, 'b, 's, 'fl) store_env \<Rightarrow> ('j, 'b) commit_op \<Rightarrow> ('j, 'a, 'b) arrow_store
     \<Rightarrow> (arrow_store_error + unit) \<times> ('j, 'a, 'b) arrow_store" where
  "commit_step E (OpApplyDiffs t ds) s = apply_diffs (en_iteration E) (en_json E) (en_arrow E) s t ds"
| "commit_step E (OpGenerateSnapshot t) s = void (generate_snapshot s t)"
| "commit_step E (OpTruncateBefore t) s = truncate_before s t"
| "commit_step E (OpPatchRows n t locs b) s = patch_rows (en_iteration E) (en_arrow E) s n t locs b"

lemma void_simps [simp]: "snd (void p) = snd p" "is_ok (fst (void p)) = is_ok (fst p)"
  by (auto simp: void_def split: prod.split sum.split)

lemma gate_closed:
  "lg_is_simulation (st_lifecycle s) \<Longrightarrow> init_only s b = (Inl (SELifecycle ''operation not allowed during simulation''), s)"
  "lg_is_initialization (st_lifecycle s) \<Longrightarrow>
     commit_only s b = (Inl (SELifecycle ''commit operation not allowed during initialization''), s)"
  by (simp_all add: init_only_def commit_only_def)

lemmas init_ops = store_register_type_def create_table_def drop_table_def set_mutation_mode_def append_batches_def
  rebuild_table_def load_checkpoint_def build_primary_key_index_def build_foreign_key_index_def partition_map_mut_def

lemmas commit_ops = apply_diffs_def generate_snapshot_def truncate_before_def patch_rows_def

interpretation init_phase: closable "init_step E" "\<lambda>s. lg_is_simulation (st_lifecycle s)" for E
  by unfold_locales (case_tac x; simp add: init_ops gate_closed)

interpretation commit_phase: closable "commit_step E" "\<lambda>s. lg_is_initialization (st_lifecycle s)" for E
  by unfold_locales (case_tac x; simp add: commit_ops gate_closed)

subsection \<open>The invariant of the store\<close>

text \<open>
  Maps have unique keys; every table is filed under its own name and is well formed; every
  table has exactly one identifier, below the next one to be given out; every snapshot is
  filed under its tick.
\<close>

definition ids_ok :: "('j, 'a, 'b) arrow_store \<Rightarrow> bool" where
  "ids_ok s \<longleftrightarrow> hm_ok (st_table_id_map s)
     \<and> (\<forall>i n. hm_get (st_table_id_map s) i = Some n \<longrightarrow>
          hm_contains (st_tables s) n \<and> table_id_as_u64 i < st_next_table_id s)
     \<and> (\<forall>n. hm_contains (st_tables s) n \<longrightarrow> (\<exists>!i. hm_get (st_table_id_map s) i = Some n))"

definition tables_ok :: "('j, 'a, 'b) arrow_store \<Rightarrow> bool" where
  "tables_ok s \<longleftrightarrow> hm_ok (st_tables s)
     \<and> (\<forall>n t. hm_get (st_tables s) n = Some t \<longrightarrow> vt_name t = n \<and> vt_inv t)"

definition snapshots_ok :: "('j, 'a, 'b) arrow_store \<Rightarrow> bool" where
  "snapshots_ok s \<longleftrightarrow> hm_ok (st_snapshots s)
     \<and> (\<forall>t w. hm_get (st_snapshots s) t = Some w \<longrightarrow> ws_tick w = t)"

definition store_inv :: "('j, 'a, 'b) arrow_store \<Rightarrow> bool" where
  "store_inv s \<longleftrightarrow> tables_ok s \<and> ids_ok s \<and> snapshots_ok s"

lemma store_inv_new: "store_inv (arrow_store_new J A)"
  by (simp add: store_inv_def tables_ok_def ids_ok_def snapshots_ok_def arrow_store_new_def hm_contains_def)

definition keeps_table :: "('b versioned_table \<Rightarrow> 'r \<times> 'b versioned_table) \<Rightarrow> bool" where
  "keeps_table f \<longleftrightarrow> (\<forall>t. vt_inv t \<longrightarrow> vt_inv (snd (f t)) \<and> vt_name (snd (f t)) = vt_name t)"

lemma on_table_contains [simp]: "hm_contains (st_tables (snd (on_table s n f))) m = hm_contains (st_tables s) m"
  by (auto simp: on_table_def hm_contains_def split: option.split prod.split)

lemma on_table_other [simp]:
  "st_table_id_map (snd (on_table s n f)) = st_table_id_map s"
  "st_snapshots (snd (on_table s n f)) = st_snapshots s"
  "st_next_table_id (snd (on_table s n f)) = st_next_table_id s"
  "st_lifecycle (snd (on_table s n f)) = st_lifecycle s"
  "st_type_registry (snd (on_table s n f)) = st_type_registry s"
  "st_generation (snd (on_table s n f)) = st_generation s"
  by (auto simp: on_table_def split: option.split prod.split)

lemma on_table_inv [inv_intros]:
  assumes "store_inv s" and "keeps_table f"
  shows "store_inv (snd (on_table s n f))"
proof -
  have "tables_ok (snd (on_table s n f))"
  proof (cases "hm_get (st_tables s) n")
    case (Some t)
    then have "vt_inv t" "vt_name t = n" using assms(1) by (auto simp: store_inv_def tables_ok_def)
    then have "vt_inv (snd (f t))" "vt_name (snd (f t)) = n" using assms(2) by (auto simp: keeps_table_def)
    with Some assms(1) show ?thesis by (auto simp: on_table_def store_inv_def tables_ok_def split: prod.split)
  qed (use assms(1) in \<open>simp add: on_table_def store_inv_def\<close>)
  with assms(1) show ?thesis by (simp add: store_inv_def ids_ok_def snapshots_ok_def)
qed

lemma ids_okD:
  "ids_ok s \<Longrightarrow> hm_get (st_table_id_map s) i = Some n
   \<Longrightarrow> hm_contains (st_tables s) n \<and> table_id_as_u64 i < st_next_table_id s"
  by (simp add: ids_ok_def)

lemma add_table_inv:
  assumes inv: "store_inv s" and new: "\<not> hm_contains (st_tables s) n" and t: "vt_inv t" "vt_name t = n"
    and room: "unat (st_next_table_id s) + 1 < 2 ^ 64"
  shows "store_inv (s\<lparr>st_next_table_id := st_next_table_id s + 1,
      st_tables := hm_insert n t (st_tables s),
      st_table_id_map := hm_insert (TableId (st_next_table_id s)) n (st_table_id_map s)\<rparr>)"
proof -
  let ?i = "TableId (st_next_table_id s)"
  have ids: "ids_ok s" using inv by (simp add: store_inv_def)
  have lt: "st_next_table_id s < st_next_table_id s + 1"
    using room by (simp add: word_less_nat_alt unat_word_ariths)
  have up: "j < st_next_table_id s + 1" if "j < st_next_table_id s" for j using that lt by order
  have fresh: "hm_get (st_table_id_map s) ?i = None"
    using ids by (cases "hm_get (st_table_id_map s) ?i") (force simp: ids_ok_def)+
  have unused: "hm_get (st_table_id_map s) i \<noteq> Some n" for i
    using ids new by (auto simp: ids_ok_def)
  have "\<exists>!i. hm_get (hm_insert ?i n (st_table_id_map s)) i = Some m"
    if "hm_contains (hm_insert n t (st_tables s)) m" for m
  proof (cases "m = n")
    case True
    then show ?thesis using unused by (intro ex1I [of _ ?i]) (auto split: if_splits)
  next
    case False
    then have "\<exists>!i. hm_get (st_table_id_map s) i = Some m"
      using ids that by (auto simp: ids_ok_def hm_contains_def)
    moreover have "hm_get (hm_insert ?i n (st_table_id_map s)) j = Some m \<longleftrightarrow> hm_get (st_table_id_map s) j = Some m" for j
      using False fresh by simp
    ultimately show ?thesis by simp
  qed
  moreover have "hm_contains (hm_insert n t (st_tables s)) m \<and> table_id_as_u64 j < st_next_table_id s + 1"
    if "hm_get (hm_insert ?i n (st_table_id_map s)) j = Some m" for j m
    using that ids_okD [OF ids, of j m] lt up [of "table_id_as_u64 j"] by (auto simp: hm_contains_def split: if_splits)
  ultimately have "ids_ok (s\<lparr>st_next_table_id := st_next_table_id s + 1, st_tables := hm_insert n t (st_tables s),
      st_table_id_map := hm_insert ?i n (st_table_id_map s)\<rparr>)"
    using ids by (simp add: ids_ok_def)
  then show ?thesis using inv t by (simp add: store_inv_def tables_ok_def snapshots_ok_def)
qed

lemma drop_table_inv:
  assumes inv: "store_inv s"
  shows "store_inv (snd (drop_table s n))"
proof (cases "lg_is_simulation (st_lifecycle s)")
  case False
  have ids: "ids_ok s" "hm_ok (st_tables s)" using inv by (auto simp: store_inv_def tables_ok_def)
  have find: "find (\<lambda>(_, m). m = n) (st_table_id_map s) = Some (i, m) \<Longrightarrow> hm_get (st_table_id_map s) i = Some n" for i m
    using ids(1) hm_ok_iff_get [of "st_table_id_map s" i n]
    by (auto simp: find_Some_iff ids_ok_def split_beta in_set_conv_nth) (metis prod.collapse fst_conv snd_conv)
  show ?thesis
  proof (cases "hm_contains (st_tables s) n")
    case True
    with ids obtain i where i: "hm_get (st_table_id_map s) i = Some n"
      and uniq: "\<And>j. hm_get (st_table_id_map s) j = Some n \<Longrightarrow> j = i" unfolding ids_ok_def by metis
    have "find (\<lambda>(_, m). m = n) (st_table_id_map s) \<noteq> None"
      using map_of_SomeD [OF i] by (auto simp: find_None_iff)
    then obtain m where "find (\<lambda>(_, m). m = n) (st_table_id_map s) = Some (i, m)"
      using find uniq by (metis not_None_eq prod.collapse)
    then have d: "snd (drop_table s n) = s\<lparr>st_table_id_map := hm_remove i (st_table_id_map s),
        st_tables := hm_remove n (st_tables s)\<rparr>"
      using True False by (simp add: drop_table_def init_only_def)
    have "\<exists>!j. hm_get (hm_remove i (st_table_id_map s)) j = Some m'"
      if "hm_contains (hm_remove n (st_tables s)) m'" for m'
    proof -
      have "m' \<noteq> n" "hm_contains (st_tables s) m'" using that by (auto simp: hm_contains_def split: if_splits)
      then have "\<exists>!j. hm_get (st_table_id_map s) j = Some m'" using ids by (simp add: ids_ok_def)
      moreover have "hm_get (hm_remove i (st_table_id_map s)) j = Some m' \<longleftrightarrow> hm_get (st_table_id_map s) j = Some m'" for j
        using i \<open>m' \<noteq> n\<close> by simp
      ultimately show ?thesis by simp
    qed
    moreover have "hm_contains (hm_remove n (st_tables s)) m' \<and> table_id_as_u64 j < st_next_table_id s"
      if "hm_get (hm_remove i (st_table_id_map s)) j = Some m'" for j m'
      using that ids_okD [OF ids(1), of j m'] uniq [of j] by (auto simp: hm_contains_def split: if_splits)
    ultimately have "ids_ok (snd (drop_table s n))"
      using ids by (simp add: ids_ok_def d)
    then show ?thesis using inv by (simp add: d store_inv_def tables_ok_def snapshots_ok_def)
  next
    case no: False
    then have "find (\<lambda>(_, m). m = n) (st_table_id_map s) = None"
      using find ids by (cases "find (\<lambda>(_, m). m = n) (st_table_id_map s)") (auto simp: ids_ok_def)
    then show ?thesis using inv no False by (simp add: drop_table_def init_only_def)
  qed
qed (use inv in \<open>simp add: drop_table_def init_only_def\<close>)

lemma snapshot_of_table_tick [simp]: "ws_tick (snapshot_of_table tick e w) = ws_tick w"
proof -
  have "ws_tick (fold (\<lambda>region w. case partition_get ps region of Inl _ \<Rightarrow> w
      | Inr p \<Rightarrow> register_partition_snapshot w n (partition_snapshot_new region tick (pt_batches p))) rs w) = ws_tick w"
    for ps rs n and w :: "'a world_snapshot"
    by (induction rs arbitrary: w) (auto simp: register_partition_snapshot_def split: sum.split)
  then show ?thesis by (simp add: snapshot_of_table_def register_table_def split: prod.split)
qed

lemma fold_snapshot_tick [simp]: "ws_tick (fold (snapshot_of_table tick) es w) = ws_tick w"
  by (induction es arbitrary: w) simp_all

lemma do_generate_snapshot_inv:
  "store_inv s \<Longrightarrow> store_inv (snd (do_generate_snapshot s tick))"
  by (auto simp: do_generate_snapshot_def store_inv_def tables_ok_def ids_ok_def snapshots_ok_def Let_def
      world_snapshot_new_def split: if_splits)

lemma put_table_inv:
  assumes "store_inv s" and "hm_contains (st_tables s) n" and "vt_inv t" and "vt_name t = n"
  shows "store_inv (s\<lparr>st_tables := hm_insert n t (st_tables s)\<rparr>)"
  using assms by (auto simp: store_inv_def tables_ok_def ids_ok_def snapshots_ok_def hm_contains_def split: if_splits)

lemma load_table_inv:
  assumes inv: "store_inv s" and room: "unat (st_next_table_id s) + 1 < 2 ^ 64"
  shows "store_inv (load_table A ty tick (n, bs) s)
    \<and> unat (st_next_table_id (load_table A ty tick (n, bs) s)) \<le> unat (st_next_table_id s) + 1"
proof -
  have succ: "unat (st_next_table_id s + 1) = unat (st_next_table_id s) + 1"
    using room by (simp add: unat_word_ariths)
  define s1 where "s1 = ensure_table s n"
  have inv1: "store_inv s1"
    using add_table_inv [OF inv _ vt_inv_new _ room, of n n AppendOnly] inv
    by (simp add: s1_def ensure_table_def versioned_table_new_def)
  have c: "hm_contains (st_tables s1) n" by (simp add: s1_def ensure_table_def hm_contains_def)
  then obtain t where t: "hm_get (st_tables s1) n = Some t" by (auto simp: hm_contains_def)
  with inv1 have "vt_inv t" "vt_name t = n" by (auto simp: store_inv_def tables_ok_def)
  then have "store_inv (s1\<lparr>st_tables := hm_insert n (u\<lparr>vt_versions := hm_insert tick bs (vt_versions u)\<rparr>) (st_tables s1)\<rparr>)"
    if "u = t \<or> (\<exists>sp. u = set_spec t sp)" for u
    using put_table_inv [OF inv1 c, of "u\<lparr>vt_versions := hm_insert tick bs (vt_versions u)\<rparr>"] that
    by (auto simp: vt_inv_def set_spec_def)
  moreover have "load_table A ty tick (n, bs) s = s1\<lparr>st_tables := hm_insert n
      ((if \<not> hm_contains (st_tables s) n then (case bs of [] \<Rightarrow> t | b # _ \<Rightarrow> set_spec t (spec_of_batch A ty n b)) else t)
        \<lparr>vt_versions := hm_insert tick bs (vt_versions (if \<not> hm_contains (st_tables s) n
           then (case bs of [] \<Rightarrow> t | b # _ \<Rightarrow> set_spec t (spec_of_batch A ty n b)) else t))\<rparr>) (st_tables s1)\<rparr>"
    unfolding load_table_def Let_def prod.case s1_def [symmetric] t option.sel by simp
  moreover have "unat (st_next_table_id s1) \<le> unat (st_next_table_id s) + 1" using succ by (simp add: s1_def ensure_table_def)
  ultimately show ?thesis by (auto split: list.splits)
qed

lemma load_tables_inv:
  "store_inv s \<Longrightarrow> unat (st_next_table_id s) + length files < 2 ^ 64
   \<Longrightarrow> store_inv (fold (load_table A ty tick) files s)"
proof (induction files arbitrary: s)
  case (Cons f fs)
  obtain n bs where f: "f = (n, bs)" by force
  have "unat (st_next_table_id s) + 1 < 2 ^ 64" using Cons.prems(2) by simp
  from load_table_inv [OF Cons.prems(1) this, of A ty tick n bs] Cons.IH [of "load_table A ty tick f s"] Cons.prems(2)
  show ?case by (simp add: f)
qed simp

lemma keeps_tableI:
  "(\<And>t. vt_inv t \<Longrightarrow> vt_inv (snd (f t))) \<Longrightarrow> (\<And>t. vt_name (snd (f t)) = vt_name t) \<Longrightarrow> keeps_table f"
  by (simp add: keeps_table_def)

lemma apply_patch_name [simp]: "vt_name (snd (apply_patch_to_versions I A t n lt locs p)) = vt_name t"
  by (auto simp: apply_patch_to_versions_def split: option.split prod.split)

lemma apply_names [simp]:
  "vt_name (snd (apply_update_to_table I J A t n tick row col v)) = vt_name t"
  "vt_name (snd (apply_insert_to_table I J A t n tick row vs reg)) = vt_name t"
  "vt_name (snd (apply_replace_to_table I J A t n tick rows reg)) = vt_name t"
  by (auto simp: apply_update_to_table_def apply_insert_to_table_def apply_replace_to_table_def Let_def
      split: option.split prod.split sum.split)

lemma apply_delete_name [simp]: "vt_name (snd (apply_delete_to_table I A t n tick row)) = vt_name t"
proof -
  have "apply_patch_to_versions I A t n lt locs p = (r, t') \<Longrightarrow> vt_name t' = vt_name t" for lt locs p r t'
    using apply_patch_name [of I A t n lt locs p] by simp
  then show ?thesis
    by (auto simp: apply_delete_to_table_def split: option.split prod.split sum.split)
qed

lemma apply_diff_inv [inv_intros]: "store_inv s \<Longrightarrow> store_inv (snd (apply_diff I J A tick d s))"
  by (cases d)
    (simp_all add: apply_diff_def on_table_inv keeps_tableI vt_inv_update vt_inv_insert vt_inv_delete vt_inv_replace)

lemma restore_table_inv:
  assumes "store_inv s" and "\<forall>(n, vs) \<in> set saved. hm_ok vs"
  shows "store_inv (restore_table_versions s saved)"
  using assms unfolding restore_table_versions_def
proof (induction saved arbitrary: s)
  case (Cons e es)
  obtain n vs where e: "e = (n, vs)" by force
  show ?case
  proof (cases "hm_get (st_tables s) n")
    case (Some t)
    then have "vt_inv t" "vt_name t = n" using Cons.prems(1) by (auto simp: store_inv_def tables_ok_def)
    then have "store_inv (s\<lparr>st_tables := hm_insert n (t\<lparr>vt_versions := vs\<rparr>) (st_tables s)\<rparr>)"
      using Some Cons.prems by (intro put_table_inv) (auto simp: hm_contains_def vt_inv_def e)
    with Cons Some show ?thesis by (simp add: e)
  qed (use Cons in \<open>simp add: e\<close>)
qed simp

lemma save_get:
  "hm_get (save_table_versions s names) n =
     (if n \<in> set names then map_option vt_versions (hm_get (st_tables s) n) else None)"
proof -
  have "hm_get (fold (\<lambda>name saved. case hm_get (st_tables s) name of None \<Rightarrow> saved
       | Some t \<Rightarrow> hm_insert name (vt_versions t) saved) names m) n =
     (if n \<in> set names \<and> hm_get (st_tables s) n \<noteq> None then map_option vt_versions (hm_get (st_tables s) n)
      else hm_get m n)" for m
    by (induction names arbitrary: m) (auto split: option.split)
  then show ?thesis by (auto simp: save_table_versions_def)
qed

lemma save_ok: "hm_ok (save_table_versions s names)"
proof -
  have "hm_ok m \<Longrightarrow> hm_ok (fold (\<lambda>name saved. case hm_get (st_tables s) name of None \<Rightarrow> saved
       | Some t \<Rightarrow> hm_insert name (vt_versions t) saved) names m)" for m
    by (induction names arbitrary: m) (auto split: option.split)
  then show ?thesis by (simp add: save_table_versions_def)
qed

lemma save_versions_ok: "store_inv s \<Longrightarrow> \<forall>(n, vs) \<in> set (save_table_versions s names). hm_ok vs"
  using hm_ok_iff_get [OF save_ok, of _ _ s names]
  by (auto simp: save_get store_inv_def tables_ok_def vt_inv_def split: if_splits)

lemma apply_diff_loop_inv:
  "store_inv s \<Longrightarrow> \<forall>(n, vs) \<in> set saved. hm_ok vs \<Longrightarrow> store_inv (snd (apply_diff_loop I J A tick saved ds s))"
proof (induction ds arbitrary: s)
  case (Cons d ds)
  from apply_diff_inv [OF Cons.prems(1), of I J A tick d] Cons show ?case
    by (cases "apply_diff I J A tick d s"; cases "fst (apply_diff I J A tick d s)")
      (auto intro: restore_table_inv)
qed simp

lemma filter_ok: "hm_ok m \<Longrightarrow> hm_ok (filter P m)"
  by (induction m) (auto simp: hm_ok_def)

lemma get_filter:
  "hm_ok m \<Longrightarrow> hm_get (filter (\<lambda>(k, _). P k) m) k = (if P k then hm_get m k else None)"
  by (induction m) (auto simp: hm_ok_def split: option.split)

lemma get_map_val: "hm_get (map (\<lambda>(k, v). (k, f v)) m) k = map_option f (hm_get m k)"
  by (induction m) auto

lemma hm_ok_map_val: "hm_ok (map (\<lambda>(k, v). (k, f v)) m) = hm_ok m"
proof -
  have "map fst (map (\<lambda>(k, v). (k, f v)) m) = map fst m" by (induction m) auto
  then show ?thesis by (simp only: hm_ok_def)
qed

lemma truncate_before_inv: "store_inv s \<Longrightarrow> store_inv (snd (truncate_before s tick))"
proof -
  let ?tr = "\<lambda>table. table\<lparr>vt_versions := filter (\<lambda>(t, _). tick \<le> t) (vt_versions table)\<rparr>"
  assume inv: "store_inv s"
  have "tables_ok (s\<lparr>st_snapshots := filter (\<lambda>(t, _). tick \<le> t) (st_snapshots s),
      st_tables := map (\<lambda>(n, table). (n, ?tr table)) (st_tables s)\<rparr>)"
  proof -
    have "vt_inv t \<Longrightarrow> vt_inv (?tr t)" for t :: "'c versioned_table"
      by (simp add: vt_inv_def filter_ok)
    then show ?thesis
      using inv by (auto simp: store_inv_def tables_ok_def hm_ok_map_val get_map_val)
  qed
  moreover have "hm_contains (map (\<lambda>(n, table). (n, ?tr table)) (st_tables s)) n = hm_contains (st_tables s) n" for n
    by (simp add: hm_contains_def get_map_val)
  ultimately show ?thesis
    using inv by (auto simp: truncate_before_def commit_only_def store_inv_def ids_ok_def snapshots_ok_def
        filter_ok get_filter)
qed

lemma patch_rows_inv: "store_inv s \<Longrightarrow> store_inv (snd (patch_rows I A s n tick locs b))"
  by (auto simp: patch_rows_def commit_only_def vt_inv_def
      intro!: on_table_inv keeps_tableI split: option.split prod.split)

lemma commit_step_inv: "store_inv s \<Longrightarrow> store_inv (snd (commit_step E x s))"
  by (cases x)
    (simp_all add: truncate_before_inv patch_rows_inv apply_diffs_def commit_only_def generate_snapshot_def
      apply_diff_loop_inv save_versions_ok do_generate_snapshot_inv)

text \<open>How many identifiers an operation may use up.\<close>

fun ids_needed :: "('j, 'a, 'b, 's, 'fl) store_env \<Rightarrow> ('j, 'a, 'b) init_op \<Rightarrow> nat" where
  "ids_needed E (OpCreateTable spec mode) = 1"
| "ids_needed E (OpLoadCheckpoint t) = (case en_read_files E t of Inl _ \<Rightarrow> 0 | Inr files \<Rightarrow> length files)"
| "ids_needed E _ = 0"

lemma create_table_inv:
  "store_inv s \<Longrightarrow> unat (st_next_table_id s) + 1 < 2 ^ 64 \<Longrightarrow> store_inv (snd (create_table s spec mode))"
  using add_table_inv [of s "ts_name spec" "set_spec (versioned_table_new (ts_name spec) mode) spec"]
  by (simp add: create_table_def init_only_def Let_def vt_inv_def set_spec_def versioned_table_new_def)

lemma init_step_inv:
  assumes inv: "store_inv s" and room: "unat (st_next_table_id s) + ids_needed E x < 2 ^ 64"
  shows "store_inv (snd (init_step E x s))"
proof (cases "lg_is_simulation (st_lifecycle s)")
  case True
  then show ?thesis using init_phase.closed_step [of s E x] inv by simp
next
  case False
  then show ?thesis
  proof (cases x)
    case (OpRegisterType n dt f g)
    then show ?thesis using inv False
      by (auto simp: store_register_type_def init_only_def store_inv_def tables_ok_def ids_ok_def snapshots_ok_def)
  next
    case (OpCreateTable spec mode)
    then show ?thesis using create_table_inv [OF inv] room by simp
  next
    case (OpDropTable n)
    then show ?thesis using drop_table_inv [OF inv] by simp
  next
    case (OpLoadCheckpoint t)
    then show ?thesis using inv room False
      by (auto simp: load_checkpoint_def init_only_def do_generate_snapshot_inv load_tables_inv split: sum.split)
  next
    case (OpPartitionMapMut n f)
    have "keeps_table (\<lambda>t. case f (vt_partitions t) of (r, m) \<Rightarrow> (Inr r :: arrow_store_error + unit, t\<lparr>vt_partitions := m\<rparr>))"
      by (rule keeps_tableI) (auto simp: vt_inv_def split: prod.split)
    then show ?thesis using inv False
      by (simp add: OpPartitionMapMut partition_map_mut_def init_only_def on_table_inv)
  next
    case (OpRebuildTable n t bs)
    have ok: "rpm_ok (fst st) \<Longrightarrow> rpm_ok (fst (rebuild_batch i offs st))" for i offs st
      by (induction i offs st rule: rebuild_batch.induct) simp_all
    have "rpm_ok (fst st) \<Longrightarrow> rpm_ok (fst (rebuild_positions A i bs st))"
      for A :: "('c, 'b, 'd, 'e) arrow_api" and i bs st
      by (induction A i bs st rule: rebuild_positions.induct) (simp_all add: ok)
    then show ?thesis using inv False
      by (auto simp: OpRebuildTable rebuild_table_def init_only_def vt_inv_def intro!: on_table_inv keeps_tableI)
  qed (use inv False in \<open>auto simp: init_ops init_only_def vt_inv_def add_foreign_key_index_def
      intro!: on_table_inv keeps_tableI split: prod.split sum.split\<close>)
qed

inductive store_reachable :: "('j, 'a, 'b, 's, 'fl) store_env \<Rightarrow> ('j, 'a, 'b) arrow_store \<Rightarrow> bool" for E where
  reach_new: "store_reachable E (arrow_store_new (en_json E) (en_arrow E))"
| reach_init: "store_reachable E s \<Longrightarrow> unat (st_next_table_id s) + ids_needed E x < 2 ^ 64
     \<Longrightarrow> store_reachable E (snd (init_step E x s))"
| reach_commit: "store_reachable E s \<Longrightarrow> store_reachable E (snd (commit_step E y s))"
| reach_advance: "store_reachable E s \<Longrightarrow> store_reachable E (snd (store_advance_to_simulation s))"

lemma advance_inv: "store_inv s \<Longrightarrow> store_inv (snd (store_advance_to_simulation s))"
  by (auto simp: store_advance_to_simulation_def store_inv_def tables_ok_def ids_ok_def snapshots_ok_def split: sum.split)

lemma reachable_inv: "store_reachable E s \<Longrightarrow> store_inv s"
  by (induction rule: store_reachable.induct) (simp_all add: store_inv_new init_step_inv commit_step_inv advance_inv)

end
