(* ===== verification/Store_Props.thy ===== *)
theory Store_Props
  imports Store
begin

section \<open>Properties of the store\<close>

text \<open>
  The invariant of every reachable store, the separation of the two lifecycle phases, the
  rollback of a failed batch of diffs, the isolation of snapshots, and the meaning of the
  bulk operations (truncation, rebuilding, key indices).
\<close>

definition demo_env :: "(djson, lcol, field list \<times> lcol list, field list, int) store_env" where
  "demo_env = \<lparr>en_iteration = insertion_order, en_json = demo_json, en_arrow = list_arrow,
     en_debug = (\<lambda>_. []), en_type_name = (\<lambda>_. []), en_read_files = (\<lambda>_. Inl (SEIo []))\<rparr>"

definition demo_store :: "(djson, lcol, field list \<times> lcol list) arrow_store" where
  "demo_store = snd (store_advance_to_simulation (snd (init_step demo_env (OpRebuildTable ''units'' (Tick 1) [demo_batch])
     (snd (init_step demo_env (OpCreateTable demo_spec Patchable) (arrow_store_new demo_json list_arrow))))))"

lemma demo_store_reachable: "store_reachable demo_env demo_store"
proof -
  have "store_reachable demo_env (arrow_store_new demo_json list_arrow)"
    using reach_new [of demo_env] by (simp add: demo_env_def)
  then have "store_reachable demo_env (snd (init_step demo_env (OpCreateTable demo_spec Patchable)
      (arrow_store_new demo_json list_arrow)))"
    by (rule reach_init) (simp add: arrow_store_new_def)
  then have "store_reachable demo_env (snd (init_step demo_env (OpRebuildTable ''units'' (Tick 1) [demo_batch])
     (snd (init_step demo_env (OpCreateTable demo_spec Patchable) (arrow_store_new demo_json list_arrow)))))"
    by (rule reach_init)
      (simp add: arrow_store_new_def create_table_def init_only_def hm_contains_def lifecycle_guard_new_def
        lg_is_simulation_def void_def Let_def)
  then show ?thesis unfolding demo_store_def by (rule reach_advance)
qed

text \<open>C7: In every store that the operations can produce from a new one, keys are unique,
  every table is filed under its own name and is well formed, every table has exactly one
  identifier, every identifier names a table and is below the next one to be given out (so
  identifiers are never reused), and every snapshot is filed under its tick. The bound is
  the $2^{64}$ identifiers that can be given out.\<close>

theorem reachable_stores_are_well_formed:
  assumes "store_reachable E s"
  shows "hm_ok (st_tables s) \<and> hm_ok (st_table_id_map s) \<and> hm_ok (st_snapshots s)
     \<and> (\<forall>n t. hm_get (st_tables s) n = Some t \<longrightarrow> vt_name t = n \<and> vt_inv t)
     \<and> (\<forall>n. hm_contains (st_tables s) n \<longleftrightarrow> (\<exists>!i. hm_get (st_table_id_map s) i = Some n))
     \<and> (\<forall>i n. hm_get (st_table_id_map s) i = Some n \<longrightarrow> table_id_as_u64 i < st_next_table_id s)
     \<and> (\<forall>t w. get_snapshot s t = Inr w \<longrightarrow> ws_tick w = t)"
proof -
  have "store_inv s" using assms by (rule reachable_inv)
  then have *: "tables_ok s" "ids_ok s" "snapshots_ok s" by (simp_all add: store_inv_def)
  have "hm_contains (st_tables s) n" if "\<exists>!i. hm_get (st_table_id_map s) i = Some n" for n
    using that ids_okD [OF *(2)] by blast
  with * show ?thesis
    by (auto simp: tables_ok_def snapshots_ok_def ids_ok_def get_snapshot_def)
qed

theorem reachable_stores_are_well_formed_witness:
  "hm_ok (st_tables demo_store) \<and> hm_ok (st_table_id_map demo_store)"
  using reachable_stores_are_well_formed [OF demo_store_reachable] by simp

lemma lifecycle_restore [simp]: "st_lifecycle (restore_table_versions s saved) = st_lifecycle s"
  unfolding restore_table_versions_def
  by (induction saved arbitrary: s) (auto split: option.split)

lemma lifecycle_apply_diff [simp]: "st_lifecycle (snd (apply_diff I J A tick d s)) = st_lifecycle s"
  by (cases d) (simp_all add: apply_diff_def)

lemma lifecycle_apply_diff_loop [simp]:
  "st_lifecycle (snd (apply_diff_loop I J A tick saved ds s)) = st_lifecycle s"
proof (induction ds arbitrary: s)
  case (Cons d ds)
  from Cons [of "snd (apply_diff I J A tick d s)"] lifecycle_apply_diff [of I J A tick d s] show ?case
    by (cases "apply_diff I J A tick d s"; cases "fst (apply_diff I J A tick d s)") (auto simp del: lifecycle_apply_diff)
qed simp

text \<open>The lifecycle splits the operations. Once the store is in the simulation phase no
  sequence of initialisation operations changes it or succeeds; before that no sequence of
  commit operations does; the phase is entered once, and never left by any operation.\<close>

theorem lifecycle_separates_operations:
  "(lg_is_simulation (st_lifecycle s) \<longrightarrow>
      snd (closable.run (init_step E) xs s) = s \<and> (\<forall>r \<in> set (fst (closable.run (init_step E) xs s)). \<not> is_ok r)
    \<and> \<not> is_ok (fst (store_advance_to_simulation s)) \<and> snd (store_advance_to_simulation s) = s)
   \<and> (lg_is_initialization (st_lifecycle s) \<longrightarrow>
      snd (closable.run (commit_step E) ys s) = s \<and> (\<forall>r \<in> set (fst (closable.run (commit_step E) ys s)). \<not> is_ok r)
    \<and> is_ok (fst (store_advance_to_simulation s))
    \<and> lg_is_simulation (st_lifecycle (snd (store_advance_to_simulation s))))
   \<and> st_lifecycle (snd (commit_step E y s)) = st_lifecycle s"
proof -
  have "st_lifecycle (snd (commit_step E y s)) = st_lifecycle s"
    by (cases y) (auto simp: commit_ops commit_only_def lifecycle_apply_diff_loop do_generate_snapshot_def Let_def)
  then show ?thesis
    using init_phase.closed_run [of s E xs] commit_phase.closed_run [of s E ys]
    by (auto simp: store_advance_to_simulation_def lg_advance_to_simulation_def lg_is_simulation_def
        lg_is_initialization_def)
qed

theorem lifecycle_separates_operations_witness:
  "lg_is_simulation (st_lifecycle demo_store) \<and> snd (drop_table demo_store ''units'') = demo_store"
proof -
  have "lg_is_simulation (st_lifecycle demo_store)"
    by (simp add: demo_store_def demo_env_def arrow_store_new_def create_table_def init_only_def hm_contains_def
        lifecycle_guard_new_def lg_is_simulation_def void_def Let_def rebuild_table_def store_advance_to_simulation_def
        lg_advance_to_simulation_def)
  with lifecycle_separates_operations [of demo_store demo_env "[OpDropTable ''units'']" "[]" "OpTruncateBefore (Tick 0)"]
  show ?thesis by (simp add: Let_def split_def)
qed

subsection \<open>Rollback\<close>

lemma on_table_get:
  "hm_get (st_tables (snd (on_table s n f))) m =
     (if m = n then map_option (\<lambda>t. snd (f t)) (hm_get (st_tables s) n) else hm_get (st_tables s) m)"
  by (auto simp: on_table_def split: option.split prod.split)

lemma apply_diff_get:
  "m \<noteq> diff_table d \<Longrightarrow> hm_get (st_tables (snd (apply_diff I J A tick d s))) m = hm_get (st_tables s) m"
  "hm_contains (st_tables (snd (apply_diff I J A tick d s))) k = hm_contains (st_tables s) k"
  by (cases d; simp add: apply_diff_def on_table_get)+

lemma restore_get:
  "hm_ok saved \<Longrightarrow> hm_get (st_tables (restore_table_versions s saved)) n
     = (case hm_get saved n of
          None \<Rightarrow> hm_get (st_tables s) n
        | Some vs \<Rightarrow> map_option (\<lambda>t. t\<lparr>vt_versions := vs\<rparr>) (hm_get (st_tables s) n))"
  unfolding restore_table_versions_def
proof (induction saved arbitrary: s)
  case (Cons e es)
  obtain k vs where e: "e = (k, vs)" by force
  have "hm_get es k = None" "hm_ok es" using Cons.prems by (auto simp: e hm_ok_def map_of_eq_None_iff)
  with Cons.IH show ?case by (auto simp: e split: option.split)
qed simp

lemma apply_diff_loop_error:
  assumes "apply_diff_loop I J A tick saved ds s = (Inl e, s')" and "hm_ok saved"
    and "\<And>n. n \<in> set (map diff_table ds) \<Longrightarrow> hm_contains (st_tables s) n \<Longrightarrow> hm_get saved n \<noteq> None"
  shows "hm_get (st_tables s') n = (case hm_get saved n of
        None \<Rightarrow> hm_get (st_tables s) n
      | Some vs \<Rightarrow> map_option (\<lambda>t. t\<lparr>vt_versions := vs\<rparr>) (hm_get (st_tables s') n))
    \<and> hm_contains (st_tables s') n = hm_contains (st_tables s) n"
  using assms
proof (induction ds arbitrary: s)
  case (Cons d ds)
  obtain r s1 where d: "apply_diff I J A tick d s = (r, s1)" by force
  have cont: "hm_contains (st_tables s1) k = hm_contains (st_tables s) k" for k
    using apply_diff_get(2) [of I J A tick d s k] by (simp add: d)
  have same: "hm_get (st_tables s1) n = hm_get (st_tables s) n" if "hm_get saved n = None"
  proof (cases "n = diff_table d")
    case True
    then have "\<not> hm_contains (st_tables s) n" using Cons.prems(3) [of n] that by auto
    then show ?thesis using cont [of n] by (simp add: hm_contains_def)
  next
    case False
    then show ?thesis using apply_diff_get(1) [of n d I J A tick s] by (simp add: d)
  qed
  show ?case
  proof (cases r)
    case (Inl x)
    then have s': "s' = restore_table_versions s1 saved" using Cons.prems(1) by (simp add: d)
    show ?thesis
      using restore_get [OF Cons.prems(2), of s1 n] same cont [of n]
      by (cases "hm_get saved n"; cases "hm_get (st_tables s1) n") (auto simp: s' hm_contains_def)
  next
    case (Inr x)
    then have "apply_diff_loop I J A tick saved ds s1 = (Inl e, s')" using Cons.prems(1) by (simp add: d)
    from Cons.IH [OF this Cons.prems(2)] Cons.prems(3) cont same show ?thesis
      by (auto split: option.splits)
  qed
qed simp

lemma versions_update_eq: "t = t\<lparr>vt_versions := vs\<rparr> \<Longrightarrow> vt_versions t = vs"
  by (metis versioned_table.select_convs(4) versioned_table.surjective versioned_table.update_convs(4))

text \<open>C8: A failed batch of diffs is rolled back to the versions before it: whatever diff
  fails, every table has exactly the record batches it had at every tick, and a table that
  no diff of the batch names is unchanged altogether.\<close>

theorem apply_diffs_restores_versions:
  assumes inv: "store_inv s" and fail: "apply_diffs I J A s tick ds = (Inl e, s')"
  shows "map_option vt_versions (hm_get (st_tables s') n) = map_option vt_versions (hm_get (st_tables s) n)
    \<and> (n \<notin> diff_table ` set ds \<longrightarrow> hm_get (st_tables s') n = hm_get (st_tables s) n)"
proof (cases "lg_is_initialization (st_lifecycle s)")
  case True
  then show ?thesis using fail by (simp add: apply_diffs_def commit_only_def)
next
  case False
  let ?saved = "save_table_versions s (remdups (map diff_table ds))"
  have loop: "apply_diff_loop I J A tick ?saved ds s = (Inl e, s')"
    using fail False by (simp add: apply_diffs_def commit_only_def)
  have sv: "hm_get ?saved m \<noteq> None" if "m \<in> set (map diff_table ds)" "hm_contains (st_tables s) m" for m
    using that by (auto simp: save_get hm_contains_def)
  from apply_diff_loop_error [OF loop save_ok sv, of n] show ?thesis
    by (cases "hm_get (st_tables s) n"; cases "hm_get (st_tables s') n")
      (auto simp: save_get hm_contains_def dest!: versions_update_eq split: if_splits)
qed

text \<open>Diffs that insert a row and then update a row that does not exist.\<close>

definition demo_diffs :: "djson diff list" where
  "demo_diffs = [DInsert ''units'' (RowId 7) [(''id'', DInt 7), (''name'', DStr ''n'')],
     DUpdate ''units'' (RowId 99) ''name'' (DStr ''x'')]"

definition demo_units :: "(field list \<times> lcol list) versioned_table" where
  "demo_units = (set_spec (versioned_table_new ''units'' Patchable) demo_spec)\<lparr>
     vt_position_map := rpm_insert (rpm_insert rpm_new (RowId 0) 0 0) (RowId 1) 0 1,
     vt_versions := [(Tick 1, [demo_batch])]\<rparr>"

lemma demo_store_units: "st_tables demo_store = [(''units'', demo_units)]"
  by (simp add: demo_store_def demo_env_def arrow_store_new_def create_table_def init_only_def hm_contains_def
        lifecycle_guard_new_def lg_is_simulation_def void_def Let_def rebuild_table_def store_advance_to_simulation_def
        lg_advance_to_simulation_def on_table_def demo_units_def demo_spec_def table_spec_deserialize_def rebuild_index_def
        demo_batch_def lnum_rows_def upt_rec set_spec_def versioned_table_new_def)

lemma demo_store_rest:
  "st_type_registry demo_store = demo_reg" "lg_is_initialization (st_lifecycle demo_store) = False"
  by (simp_all add: demo_store_def demo_env_def arrow_store_new_def create_table_def init_only_def hm_contains_def
        lifecycle_guard_new_def lg_is_simulation_def lg_is_initialization_def void_def Let_def rebuild_table_def
        store_advance_to_simulation_def lg_advance_to_simulation_def on_table_def demo_reg_def demo_spec_def
        table_spec_deserialize_def rebuild_index_def)

lemma demo_spec_facts:
  "pk_col_name demo_units = Some ''id''"
  "resolve_table_schema I list_arrow demo_units vs demo_reg = Inr (Some demo_fields)"
  by (simp_all add: demo_units_def pk_col_name_def resolve_table_schema_def set_spec_def demo_spec_def
        primary_key_column_def table_spec_deserialize_def rebuild_index_def column_spec_new_def with_nullable_def
        demo_reg_def default_type_registry_def type_register_def type_registry_new_def resolve_data_type_def demo_fields_def)

lemma demo_row7:
  "\<exists>nb. json_map_to_record_batch demo_json list_arrow [(''id'', DInt 7), (''name'', DStr ''n'')] demo_fields = Inr nb"
proof -
  have "json_row demo_json list_arrow [(''id'', DInt 7), (''name'', DStr ''n'')] demo_fields
     = Inr [Some (CNative (NInt 7)), Some (CStr ''n'')]"
    by (simp add: json_row_def demo_fields_def json_cell_def supported_def demo_json_def json_to_u64_def u64_max_def
      json_to_string_def)
  moreover have "snd (snd (ar_fields list_arrow demo_fields ! i))"
    if "i < length [Some (CNative (NInt 7)), Some (CStr ''n'')]" "[Some (CNative (NInt 7)), Some (CStr ''n'')] ! i = None" for i
    using that by (auto simp: less_Suc_eq)
  ultimately show ?thesis
    using json_map_to_record_batch_cells [OF list_arrow_arrays_ok list_arrow_batches_ok _ demo_row_fits(1)] by metis
qed

lemma demo_insert7:
  "\<exists>nb. apply_insert_to_table insertion_order demo_json list_arrow demo_units ''units'' (Tick 2) (RowId 7)
      [(''id'', DInt 7), (''name'', DStr ''n'')] demo_reg
   = (Inr (), demo_units\<lparr>vt_versions := [(Tick 1, [demo_batch]), (Tick 2, [nb])],
       vt_primary_key_index := pk_insert pk_new ''7'' (Tick 2) 0 0,
       vt_position_map := rpm_insert (vt_position_map demo_units) (RowId 7) 0 0\<rparr>)"
proof -
  obtain nb where nb: "json_map_to_record_batch demo_json list_arrow [(''id'', DInt 7), (''name'', DStr ''n'')] demo_fields = Inr nb"
    using demo_row7 by blast
  have "\<not> rpm_contains (vt_position_map demo_units) (RowId 7)" by (simp add: rpm_contains_iff demo_units_def)
  moreover have "vt_versions demo_units = [(Tick 1, [demo_batch])]" "vt_primary_key_index demo_units = pk_new"
    by (simp_all add: demo_units_def versioned_table_new_def set_spec_def)
  moreover have "show_int 7 = ''7''" by (simp add: show_int_def digit_char_def) code_simp
  ultimately show ?thesis
    using nb by (intro exI [of _ nb]) (simp add: apply_insert_to_table_def demo_spec_facts Let_def demo_json_def)
qed

text \<open>The rollback does not cover the position map: after a batch whose second diff fails,
  the row identifier of its first diff, an insert, is still taken, so sending the insert
  again is refused as a duplicate although the table has no such row.\<close>

theorem rollback_keeps_row_positions:
  "\<exists>e s'. apply_diffs insertion_order demo_json list_arrow demo_store (Tick 2) demo_diffs = (Inl e, s')
   \<and> map_option vt_versions (hm_get (st_tables s') ''units'') = Some [(Tick 1, [demo_batch])]
   \<and> fst (apply_diffs insertion_order demo_json list_arrow s' (Tick 2) [hd demo_diffs])
       = Inl (SEDuplicateRowId ''units'' 7)"
proof -
  obtain nb where nb: "apply_insert_to_table insertion_order demo_json list_arrow demo_units ''units'' (Tick 2) (RowId 7)
      [(''id'', DInt 7), (''name'', DStr ''n'')] demo_reg
   = (Inr (), demo_units\<lparr>vt_versions := [(Tick 1, [demo_batch]), (Tick 2, [nb])],
       vt_primary_key_index := pk_insert pk_new ''7'' (Tick 2) 0 0,
       vt_position_map := rpm_insert (vt_position_map demo_units) (RowId 7) 0 0\<rparr>)" using demo_insert7 by blast
  define t where "t = demo_units\<lparr>vt_versions := [(Tick 1, [demo_batch]), (Tick 2, [nb])],
       vt_primary_key_index := pk_insert pk_new ''7'' (Tick 2) 0 0,
       vt_position_map := rpm_insert (vt_position_map demo_units) (RowId 7) 0 0\<rparr>"
  let ?e = "SEGeneric (''row not found in position map: table=units, row_id='' @ show_u64 99)"
  have upd: "apply_update_to_table insertion_order demo_json list_arrow t ''units'' (Tick 2) (RowId 99) ''name'' (DStr ''x'') = (Inl ?e, t)"
    by (simp add: apply_update_to_table_def t_def demo_units_def)
  have vs: "vt_versions demo_units = [(Tick 1, [demo_batch])]" by (simp add: demo_units_def)
  let ?s = "demo_store\<lparr>st_tables := [(''units'', t\<lparr>vt_versions := [(Tick 1, [demo_batch])]\<rparr>)]\<rparr>"
  have fail: "apply_diffs insertion_order demo_json list_arrow demo_store (Tick 2) demo_diffs = (Inl ?e, ?s)"
    by (simp add: apply_diffs_def commit_only_def demo_store_rest demo_diffs_def save_table_versions_def demo_store_units
        apply_diff_def on_table_def nb t_def [symmetric] upd restore_table_versions_def vs)
  have dup: "apply_insert_to_table insertion_order demo_json list_arrow (t\<lparr>vt_versions := vs\<rparr>) ''units'' (Tick 2) (RowId 7)
      [(''id'', DInt 7), (''name'', DStr ''n'')] demo_reg = (Inl (SEDuplicateRowId ''units'' 7), t\<lparr>vt_versions := vs\<rparr>)" for vs
  proof -
    have "resolve_table_schema insertion_order list_arrow (t\<lparr>vt_versions := vs\<rparr>) [(''id'', DInt 7), (''name'', DStr ''n'')] demo_reg
        = Inr (Some demo_fields)"
      using demo_spec_facts(2) [of insertion_order] by (simp add: resolve_table_schema_def t_def demo_units_def set_spec_def)
    then show ?thesis by (simp add: apply_insert_to_table_def rpm_contains_iff t_def)
  qed
  have "fst (apply_diffs insertion_order demo_json list_arrow ?s (Tick 2) [hd demo_diffs]) = Inl (SEDuplicateRowId ''units'' 7)"
    by (simp add: apply_diffs_def commit_only_def demo_store_rest demo_diffs_def save_table_versions_def
        apply_diff_def on_table_def dup)
  with fail show ?thesis by (intro exI [of _ ?e] exI [of _ ?s]) simp
qed

theorem apply_diffs_restores_versions_witness:
  "\<exists>e s'. apply_diffs insertion_order demo_json list_arrow demo_store (Tick 2) demo_diffs = (Inl e, s')
   \<and> map_option vt_versions (hm_get (st_tables s') ''units'') = Some [(Tick 1, [demo_batch])]"
proof -
  have inv: "store_inv demo_store" by (rule reachable_inv [OF demo_store_reachable])
  define r where "r = apply_diffs insertion_order demo_json list_arrow demo_store (Tick 2) demo_diffs"
  obtain nb where nb: "apply_insert_to_table insertion_order demo_json list_arrow demo_units ''units'' (Tick 2) (RowId 7)
      [(''id'', DInt 7), (''name'', DStr ''n'')] demo_reg
   = (Inr (), demo_units\<lparr>vt_versions := [(Tick 1, [demo_batch]), (Tick 2, [nb])],
       vt_primary_key_index := pk_insert pk_new ''7'' (Tick 2) 0 0,
       vt_position_map := rpm_insert (vt_position_map demo_units) (RowId 7) 0 0\<rparr>)" using demo_insert7 by blast
  have "\<exists>e s'. r = (Inl e, s')"
    by (simp add: r_def apply_diffs_def commit_only_def demo_store_rest demo_diffs_def save_table_versions_def
        demo_store_units apply_diff_def on_table_def nb) (simp add: apply_update_to_table_def demo_units_def)
  then obtain e s' where r: "r = (Inl e, s')" by blast
  from apply_diffs_restores_versions [OF inv this [unfolded r_def], of "''units''"] r show ?thesis
    unfolding r_def by (simp add: demo_store_units) (simp add: demo_units_def)
qed

subsection \<open>Snapshots\<close>

lemma tables_of_snapshot_of_table: "ws_tables (snapshot_of_table tick (n, t) w) = hm_insert n t (ws_tables w)"
proof -
  have "ws_tables (fold (\<lambda>region w. case partition_get ps region of Inl _ \<Rightarrow> w
      | Inr p \<Rightarrow> register_partition_snapshot w n (partition_snapshot_new region tick (pt_batches p))) rs w) = ws_tables w"
    for ps rs n and w :: "'a world_snapshot"
    by (induction rs arbitrary: w) (auto simp: register_partition_snapshot_def split: sum.split)
  then show ?thesis by (simp add: snapshot_of_table_def register_table_def)
qed

lemma tables_of_snapshot:
  "hm_ok es \<Longrightarrow> hm_get (ws_tables (fold (snapshot_of_table tick) es w)) n =
     (case hm_get es n of None \<Rightarrow> hm_get (ws_tables w) n | Some t \<Rightarrow> Some t)"
proof (induction es arbitrary: w)
  case (Cons e es)
  obtain k t where e: "e = (k, t)" by force
  have "hm_get es k = None" "hm_ok es" using Cons.prems by (auto simp: e hm_ok_def map_of_eq_None_iff)
  with Cons.IH show ?case by (auto simp: e tables_of_snapshot_of_table split: option.split)
qed simp

text \<open>Operations that may not replace or drop the snapshot of a tick.\<close>

fun spares :: "tick \<Rightarrow> ('j, 'b) commit_op \<Rightarrow> bool" where
  "spares tick (OpGenerateSnapshot t) \<longleftrightarrow> t \<noteq> tick"
| "spares tick (OpTruncateBefore t) \<longleftrightarrow> t \<le> tick"
| "spares tick _ \<longleftrightarrow> True"

lemma snapshots_restore [simp]: "st_snapshots (restore_table_versions s saved) = st_snapshots s"
  unfolding restore_table_versions_def
  by (induction saved arbitrary: s) (auto split: option.split)

lemma snapshots_apply_diff_loop [simp]:
  "st_snapshots (snd (apply_diff_loop I J A tick saved ds s)) = st_snapshots s"
proof (induction ds arbitrary: s)
  case (Cons d ds)
  have "st_snapshots (snd (apply_diff I J A tick d s)) = st_snapshots s"
    by (cases d) (simp_all add: apply_diff_def)
  with Cons [of "snd (apply_diff I J A tick d s)"] show ?case
    by (cases "apply_diff I J A tick d s"; cases "fst (apply_diff I J A tick d s)") auto
qed simp

lemma spares_snapshot:
  assumes "snapshots_ok s" and "spares tick x"
  shows "hm_get (st_snapshots (snd (commit_step E x s))) tick = hm_get (st_snapshots s) tick"
  using assms
  by (cases x) (auto simp: commit_ops commit_only_def do_generate_snapshot_def Let_def get_filter snapshots_ok_def)

lemma spares_snapshots:
  "store_inv s \<Longrightarrow> list_all (spares tick) xs \<Longrightarrow>
     hm_get (st_snapshots (fold (\<lambda>x s. snd (commit_step E x s)) xs s)) tick = hm_get (st_snapshots s) tick"
proof (induction xs arbitrary: s)
  case (Cons x xs)
  then show ?case using commit_step_inv [of s E x] spares_snapshot [of s tick x E] by (simp add: store_inv_def)
qed simp



text \<open>Truncation forgets exactly the past: in the simulation phase it drops the versions
  of every table and the snapshots before its tick, and keeps everything from the tick on,
  the table names, the positions and the indices.\<close>

theorem truncate_before_correct:
  assumes inv: "store_inv s" and sim: "lg_is_simulation (st_lifecycle s)"
  shows "\<exists>s'. truncate_before s tick = (Inr (), s')
     \<and> table_names s' = table_names s
     \<and> (\<forall>n t. hm_get (st_tables s) n = Some t \<longrightarrow>
          (\<exists>t'. hm_get (st_tables s') n = Some t' \<and> t' = t\<lparr>vt_versions := vt_versions t'\<rparr>
           \<and> (\<forall>u. get_version t' u = (if u < tick then None else get_version t u))))
     \<and> (\<forall>u. get_snapshot s' u = (if u < tick then Inl (SESnapshotNotFound (tick_as_u64 u)) else get_snapshot s u))
     \<and> truncate_before s' tick = (Inr (), s')"
proof -
  let ?f = "\<lambda>table. table\<lparr>vt_versions := filter (\<lambda>(t, _). tick \<le> t) (vt_versions table)\<rparr>"
  define s' where "s' = s\<lparr>st_snapshots := filter (\<lambda>(t, _). tick \<le> t) (st_snapshots s),
       st_tables := map (\<lambda>(n, table). (n, ?f table)) (st_tables s)\<rparr>"
  have init: "\<not> lg_is_initialization (st_lifecycle s)" using sim by (simp add: lg_is_simulation_def lg_is_initialization_def)
  have run: "truncate_before s tick = (Inr (), s')"
    using init by (simp add: truncate_before_def commit_only_def s'_def)
  have names: "table_names s' = table_names s" by (simp add: table_names_def s'_def split_beta o_def)
  have tab: "\<exists>t'. hm_get (st_tables s') n = Some t' \<and> t' = t\<lparr>vt_versions := vt_versions t'\<rparr>
      \<and> (\<forall>u. get_version t' u = (if u < tick then None else get_version t u))"
    if "hm_get (st_tables s) n = Some t" for n t
  proof -
    have "hm_ok (vt_versions t)" using inv that by (auto simp: store_inv_def tables_ok_def vt_inv_def)
    then show ?thesis
      using that by (intro exI [of _ "?f t"]) (auto simp: s'_def get_map_val get_version_def get_filter)
  qed
  have "hm_ok (st_snapshots s)" using inv by (simp add: store_inv_def snapshots_ok_def)
  then have snap: "get_snapshot s' u = (if u < tick then Inl (SESnapshotNotFound (tick_as_u64 u)) else get_snapshot s u)" for u
    by (auto simp: get_snapshot_def s'_def get_filter)
  have "truncate_before s' tick = (Inr (), s')"
    using init by (simp add: truncate_before_def commit_only_def s'_def split_def o_def)
  with run names tab snap show ?thesis by blast
qed

theorem truncate_before_correct_witness:
  "\<exists>s'. truncate_before demo_store (Tick 2) = (Inr (), s') \<and> get_table_batches s' ''units'' (Tick 1) = Inr []
     \<and> table_names s' = [''units'']"
proof -
  have sim: "lg_is_simulation (st_lifecycle demo_store)"
    using demo_store_rest(2) by (cases "lg_lifecycle (st_lifecycle demo_store)")
      (simp_all add: lg_is_simulation_def lg_is_initialization_def)
  have units: "hm_get (st_tables demo_store) ''units'' = Some demo_units" by (simp add: demo_store_units)
  from truncate_before_correct [OF reachable_inv [OF demo_store_reachable] sim, of "Tick 2"] obtain s' t' where
    "truncate_before demo_store (Tick 2) = (Inr (), s')" "table_names s' = table_names demo_store"
    "hm_get (st_tables s') ''units'' = Some t'" "get_version t' (Tick 1) = None"
    using units by (auto dest!: spec [of _ "''units''"])
  then show ?thesis
    by (auto simp: get_table_batches_def get_table_def get_version_def table_names_def demo_store_units)
qed

subsection \<open>Rebuilding\<close>

text \<open>The number of rows before a batch.\<close>

definition rows_before :: "('b, 'a, 's, 'fl) arrow_api \<Rightarrow> 'b list \<Rightarrow> nat \<Rightarrow> nat" where
  "rows_before A bs b = sum_list (map (ar_num_rows A) (take b bs))"

lemma rebuild_batch_spec:
  "rebuild_batch b [m..<m + k] (pos, of_nat c) = (pos', cnt) \<Longrightarrow> c + k \<le> 2 ^ 64 \<Longrightarrow>
     cnt = of_nat (c + k) \<and>
     (\<forall>i. i < 2 ^ 64 \<longrightarrow> position_of pos' (RowId (of_nat i)) =
        (if c \<le> i \<and> i < c + k then Some (b, m + (i - c)) else position_of pos (RowId (of_nat i))))"
proof (induction k arbitrary: m c pos)
  case (Suc k)
  have eq: "(of_nat i :: u64) = of_nat c \<longleftrightarrow> i = c" if "i < 2 ^ 64" for i
    using that Suc.prems(2) by (simp add: word_of_nat_eq_iff take_bit_nat_eq_self)
  have upt: "[m..<m + Suc k] = m # [Suc m..<Suc m + k]" by (simp add: upt_conv_Cons del: upt_Suc)
  have "rebuild_batch b [Suc m..<Suc m + k] (rpm_insert pos (RowId (of_nat c)) b m, of_nat (Suc c)) = (pos', cnt)"
    using Suc.prems(1) unfolding upt by (simp add: add.commute del: upt_Suc)
  from Suc.IH [OF this] Suc.prems(2) show ?case by (auto simp: eq)
qed auto

lemma rebuild_positions_spec:
  assumes "rebuild_positions A b bs (pos, of_nat c) = (pos', cnt)" and "c + rows_before A bs (length bs) \<le> 2 ^ 64"
  shows "(\<forall>j < length bs. \<forall>off < ar_num_rows A (bs ! j).
        position_of pos' (RowId (of_nat (c + rows_before A bs j + off))) = Some (b + j, off))
    \<and> (\<forall>i < 2 ^ 64. \<not> (c \<le> i \<and> i < c + rows_before A bs (length bs)) \<longrightarrow>
        position_of pos' (RowId (of_nat i)) = position_of pos (RowId (of_nat i)))"
  using assms
proof (induction bs arbitrary: b c pos)
  case (Cons x bs)
  let ?k = "ar_num_rows A x"
  obtain pos1 cnt1 where one: "rebuild_batch b [0..<0 + ?k] (pos, of_nat c) = (pos1, cnt1)" by force
  have total: "c + ?k + rows_before A bs (length bs) \<le> 2 ^ 64" using Cons.prems(2) by (simp add: rows_before_def)
  from rebuild_batch_spec [OF one] total have cnt1: "cnt1 = of_nat (c + ?k)"
    and at: "\<And>i. i < 2 ^ 64 \<Longrightarrow> position_of pos1 (RowId (of_nat i)) =
        (if c \<le> i \<and> i < c + ?k then Some (b, i - c) else position_of pos (RowId (of_nat i)))" by auto
  have "rebuild_positions A (Suc b) bs (pos1, of_nat (c + ?k)) = (pos', cnt)"
    using Cons.prems(1) one cnt1 by simp
  from Cons.IH [OF this] total have
    here: "\<And>j off. j < length bs \<Longrightarrow> off < ar_num_rows A (bs ! j) \<Longrightarrow>
        position_of pos' (RowId (of_nat (c + ?k + rows_before A bs j + off))) = Some (Suc b + j, off)"
    and out: "\<And>i. i < 2 ^ 64 \<Longrightarrow> \<not> (c + ?k \<le> i \<and> i < c + ?k + rows_before A bs (length bs)) \<Longrightarrow>
        position_of pos' (RowId (of_nat i)) = position_of pos1 (RowId (of_nat i))" by auto
  have "position_of pos' (RowId (of_nat (c + rows_before A (x # bs) j + off))) = Some (b + j, off)"
    if "j < length (x # bs)" "off < ar_num_rows A ((x # bs) ! j)" for j off
  proof (cases j)
    case 0
    then have "off < ?k" using that by simp
    then show ?thesis
      using out [of "c + off"] at [of "c + off"] total by (simp add: 0 rows_before_def)
  next
    case (Suc i)
    then show ?thesis using here [of i off] that by (simp add: rows_before_def add.assoc)
  qed
  moreover have "position_of pos' (RowId (of_nat i)) = position_of pos (RowId (of_nat i))"
    if "i < 2 ^ 64" "\<not> (c \<le> i \<and> i < c + rows_before A (x # bs) (length (x # bs)))" for i
    using out [of i] at [of i] that by (auto simp: rows_before_def)
  ultimately show ?case by blast
qed simp

text \<open>Rebuilding a table in the initialisation phase numbers its rows consecutively: row
  \<open>off\<close> of batch \<open>j\<close> gets the identifier counting the rows before it, no other identifier
  below $2^{64}$ is known, and the version of the tick is exactly the given batches.\<close>

theorem rebuild_table_numbers_rows:
  assumes init: "lg_is_initialization (st_lifecycle s)" and t: "hm_get (st_tables s) n = Some t"
    and bound: "rows_before A bs (length bs) \<le> 2 ^ 64"
  shows "\<exists>t'. rebuild_table A s n tick bs = (Inr (), s\<lparr>st_tables := hm_insert n t' (st_tables s)\<rparr>)
     \<and> get_version t' tick = Some bs
     \<and> (\<forall>j < length bs. \<forall>off < ar_num_rows A (bs ! j).
          position_of (vt_position_map t') (RowId (of_nat (rows_before A bs j + off))) = Some (j, off))
     \<and> (\<forall>i < 2 ^ 64. rows_before A bs (length bs) \<le> i \<longrightarrow>
          position_of (vt_position_map t') (RowId (of_nat i)) = None)"
proof -
  obtain pos cnt where r: "rebuild_positions A 0 bs (rpm_new, of_nat 0) = (pos, cnt)" by force
  have sim: "\<not> lg_is_simulation (st_lifecycle s)" using init by (simp add: lg_is_simulation_def lg_is_initialization_def)
  from rebuild_positions_spec [OF r] bound show ?thesis
    using r t sim
    by (intro exI [of _ "t\<lparr>vt_position_map := pos, vt_versions := hm_insert tick bs (vt_versions t)\<rparr>"])
      (simp add: rebuild_table_def init_only_def on_table_def get_version_def)
qed

theorem rebuild_table_numbers_rows_witness:
  "let s = (snd (init_step demo_env (OpCreateTable demo_spec Patchable) (arrow_store_new demo_json list_arrow))) in
   \<exists>t'. rebuild_table list_arrow s ''units'' (Tick 1) [demo_batch, demo_batch]
       = (Inr (), s\<lparr>st_tables := hm_insert ''units'' t' (st_tables s)\<rparr>)
     \<and> position_of (vt_position_map t') (RowId 3) = Some (1, 1)"
proof -
  define s where "s = snd (init_step demo_env (OpCreateTable demo_spec Patchable) (arrow_store_new demo_json list_arrow))"
  define t :: "(field list \<times> lcol list) versioned_table"
    where "t = set_spec (versioned_table_new ''units'' Patchable) demo_spec"
  have init: "lg_is_initialization (st_lifecycle s)" and t: "hm_get (st_tables s) ''units'' = Some t"
    by (simp_all add: s_def t_def create_table_def init_only_def arrow_store_new_def hm_contains_def lifecycle_guard_new_def
        lg_is_simulation_def lg_is_initialization_def Let_def demo_spec_def table_spec_deserialize_def rebuild_index_def)
  have rb: "rows_before list_arrow [demo_batch, demo_batch] 1 = 2" "rows_before list_arrow [demo_batch, demo_batch] 2 = 4"
    by (simp_all add: rows_before_def demo_batch_def lnum_rows_def)
  have "length [demo_batch, demo_batch] = 2" by simp
  then have "rows_before list_arrow [demo_batch, demo_batch] (length [demo_batch, demo_batch]) \<le> 2 ^ 64"
    unfolding \<open>length [demo_batch, demo_batch] = 2\<close> rb by simp
  from rebuild_table_numbers_rows [OF init t this, of "Tick 1"] obtain t' where
    t': "rebuild_table list_arrow s ''units'' (Tick 1) [demo_batch, demo_batch]
       = (Inr (), s\<lparr>st_tables := hm_insert ''units'' t' (st_tables s)\<rparr>)"
    and pos: "\<forall>j < length [demo_batch, demo_batch]. \<forall>off < ar_num_rows list_arrow ([demo_batch, demo_batch] ! j).
          position_of (vt_position_map t') (RowId (of_nat (rows_before list_arrow [demo_batch, demo_batch] j + off))) = Some (j, off)"
    by blast
  have "position_of (vt_position_map t') (RowId 3) = Some (1, 1)"
    using pos [rule_format, of 1 1] rb(1) by (simp add: demo_batch_def lnum_rows_def)
  with t' show ?thesis unfolding s_def [symmetric] Let_def by blast
qed

subsection \<open>The primary key index\<close>

text \<open>The entries of a column over a list of indexed batches, and the order of locations.\<close>

definition column_entries ::
  "('j, 'fl) json_api \<Rightarrow> ('b, 'a, 's, 'fl) arrow_api \<Rightarrow> ('a \<Rightarrow> string) \<Rightarrow> string \<Rightarrow> tick \<times> nat \<times> 'b
     \<Rightarrow> (string \<times> location) list" where
  "column_entries J A D column e = (case e of (tick, batch_idx, batch) \<Rightarrow>
     (case index_column A column batch of
        Inl _ \<Rightarrow> []
      | Inr array \<Rightarrow> map (\<lambda>r. (array_value_to_string J A D array r, (tick, batch_idx, r))) [0..<ar_num_rows A batch]))"

definition location_less :: "location \<Rightarrow> location \<Rightarrow> bool" where
  "location_less l m \<longleftrightarrow> fst l < fst m
     \<or> fst l = fst m \<and> (fst (snd l) < fst (snd m) \<or> fst (snd l) = fst (snd m) \<and> snd (snd l) < snd (snd m))"

lemma pk_op_Ins: "pk_op (Ins k (t, b, r)) = (\<lambda>ix. pk_insert ix k t b r)"
  by (rule ext) simp

lemma pk_index_batch_entries:
  "pk_index_batch J A D column ix e = Inr ix' \<Longrightarrow> ix' = fold (\<lambda>(k, l). pk_op (Ins k l)) (column_entries J A D column e) ix"
  by (auto simp: pk_index_batch_def column_entries_def fold_map o_def pk_op_Ins split: prod.splits)

lemma for_each_entries:
  "for_each_mut (pk_index_batch J A D column) ix es = (Inr (), ix') \<Longrightarrow>
     ix' = fold pk_op (map (\<lambda>(k, l). Ins k l) (concat (map (column_entries J A D column) es))) ix"
proof (induction es arbitrary: ix)
  case (Cons e es)
  then obtain ix1 where 1: "pk_index_batch J A D column ix e = Inr ix1"
    and 2: "for_each_mut (pk_index_batch J A D column) ix1 es = (Inr (), ix')" by (auto split: sum.splits)
  show ?case
    unfolding Cons.IH [OF 2] pk_index_batch_entries [OF 1] by (simp add: fold_map o_def split_def)
qed simp

lemma log_of_inserts: "log_of (map (\<lambda>(k, l). Ins k l) es) k = map snd (filter (\<lambda>(j, _). j = k) es)"
proof -
  have "fold log_step (map (\<lambda>(k, l). Ins k l) es) h k = h k @ map snd (filter (\<lambda>(j, _). j = k) es)" for h
    by (induction es arbitrary: h) auto
  then show ?thesis by (simp add: log_of_def)
qed

text \<open>Within a tick the entries come in the order of their locations.\<close>

abbreviation in_order :: "location list \<Rightarrow> bool" where
  "in_order \<equiv> sorted_wrt (\<lambda>l m. fst l = fst m \<longrightarrow> location_less l m)"

lemma in_order_filter: "in_order (map snd es) \<Longrightarrow> in_order (map snd (filter P es))"
  by (induction es) auto

definition tick_entries ::
  "('j, 'fl) json_api \<Rightarrow> ('b, 'a, 's, 'fl) arrow_api \<Rightarrow> ('a \<Rightarrow> string) \<Rightarrow> string \<Rightarrow> tick \<Rightarrow> nat \<Rightarrow> 'b list
     \<Rightarrow> (string \<times> location) list" where
  "tick_entries J A D column t n bs =
     concat (map (column_entries J A D column) (map (\<lambda>(i, b). (t, i, b)) (List.enumerate n bs)))"

lemma tick_entries_Cons:
  "tick_entries J A D column t n (b # bs) = column_entries J A D column (t, n, b) @ tick_entries J A D column t (Suc n) bs"
  by (simp add: tick_entries_def)

lemma in_order_tick:
  "in_order (map snd (tick_entries J A D column t n bs))
   \<and> (\<forall>l \<in> set (map snd (tick_entries J A D column t n bs)). fst l = t \<and> n \<le> fst (snd l))"
proof (induction bs arbitrary: n)
  case (Cons b bs)
  have "in_order (map snd (column_entries J A D column (t, n, b)))"
    by (auto simp: column_entries_def location_less_def sorted_wrt_iff_nth_less split: sum.split)
  moreover have here: "fst l = t \<and> fst (snd l) = n" if "l \<in> set (map snd (column_entries J A D column (t, n, b)))" for l
    using that by (auto simp: column_entries_def split: sum.splits)
  moreover have "location_less l m" if "l \<in> set (map snd (column_entries J A D column (t, n, b)))"
    "m \<in> set (map snd (tick_entries J A D column t (Suc n) bs))" for l m
    using here [OF that(1)] Cons.IH [of "Suc n"] that(2) by (auto simp: location_less_def Suc_le_eq)
  ultimately have "in_order (map snd (tick_entries J A D column t n (b # bs)))"
    using Cons.IH [of "Suc n"] unfolding tick_entries_Cons map_append sorted_wrt_append by blast
  moreover have "fst l = t \<and> n \<le> fst (snd l)" if "l \<in> set (map snd (tick_entries J A D column t n (b # bs)))" for l
  proof -
    from that consider "l \<in> set (map snd (column_entries J A D column (t, n, b)))"
      | "l \<in> set (map snd (tick_entries J A D column t (Suc n) bs))"
      unfolding tick_entries_Cons map_append set_append by blast
    then show ?thesis using here Cons.IH [of "Suc n"] by cases force+
  qed
  ultimately show ?case by blast
qed (simp add: tick_entries_def)

lemma in_order_versions:
  "hm_ok vs \<Longrightarrow> in_order (map snd (concat (map (column_entries J A D column) (indexed_batches vs))))
   \<and> fst ` set (map snd (concat (map (column_entries J A D column) (indexed_batches vs)))) \<subseteq> fst ` set vs"
proof (induction vs)
  case (Cons v vs)
  obtain t bs where v: "v = (t, bs)" by force
  define here where "here = map snd (tick_entries J A D column t 0 bs)"
  define rest where "rest = map snd (concat (map (column_entries J A D column) (indexed_batches vs)))"
  have h: "in_order here" "\<forall>l \<in> set here. fst l = t"
    using in_order_tick [of J A D column t 0 bs] unfolding here_def by blast+
  have r: "in_order rest" "fst ` set rest \<subseteq> fst ` set vs"
    using Cons.IH Cons.prems unfolding rest_def by (auto simp: hm_ok_def v)
  have "t \<notin> fst ` set vs" using Cons.prems by (auto simp: hm_ok_def v)
  then have "in_order (here @ rest)"
    using h r by (auto simp: sorted_wrt_append image_subset_iff)
  moreover have "map snd (concat (map (column_entries J A D column) (indexed_batches (v # vs)))) = here @ rest"
    by (simp add: indexed_batches_def here_def rest_def v tick_entries_def)
  ultimately show ?case using h r by (auto simp: v)
qed (simp add: indexed_batches_def)

lemma newest_in_order:
  assumes "in_order ls"
  shows "newest ls = Some l \<longleftrightarrow> l \<in> set ls \<and> (\<forall>m \<in> set ls. m = l \<or> location_less m l)"
proof -
  have asym: "\<not> location_less m l" if "location_less l m" for l m using that by (auto simp: location_less_def)
  have max: "l \<in> set ls \<and> (\<forall>m \<in> set ls. m = l \<or> location_less m l)" if n: "newest ls = Some l" for l
  proof -
    from newest_eq_last [OF n] obtain xs ys where ls: "ls = xs @ l # ys" "\<forall>m \<in> set ys. fst m < fst l" by blast
    have le: "fst m \<le> fst l" if "m \<in> set ls" for m
      using newest_Some [of ls] n that by (cases "ls = []") auto
    have "location_less m l" if m: "m \<in> set xs" for m
    proof (cases "fst m = fst l")
      case True
      then show ?thesis using assms m by (simp add: ls sorted_wrt_append)
    next
      case False
      moreover have "fst m \<le> fst l" using le m ls by simp
      ultimately show ?thesis by (simp add: location_less_def order.strict_iff_order)
    qed
    with ls show ?thesis by (auto simp: location_less_def)
  qed
  show ?thesis
  proof
    assume l: "l \<in> set ls \<and> (\<forall>m \<in> set ls. m = l \<or> location_less m l)"
    then have "ls \<noteq> []" by auto
    then obtain l' where l': "newest ls = Some l'" using newest_Some by blast
    with max [OF l'] l asym show "newest ls = Some l" by metis
  qed (rule max)
qed

lemma in_indexed_batches:
  "(t, i, b) \<in> set (indexed_batches vs) \<longleftrightarrow> (\<exists>bs. (t, bs) \<in> set vs \<and> i < length bs \<and> bs ! i = b)"
  by (force simp: indexed_batches_def in_set_enumerate_eq)

lemma in_column_entries:
  "(k, l) \<in> set (concat (map (column_entries J A D column) (indexed_batches vs))) \<longleftrightarrow>
     (\<exists>bs a. (fst l, bs) \<in> set vs \<and> fst (snd l) < length bs
        \<and> index_column A column (bs ! fst (snd l)) = Inr a \<and> snd (snd l) < ar_num_rows A (bs ! fst (snd l))
        \<and> array_value_to_string J A D a (snd (snd l)) = k)"
proof -
  obtain t i r where l: "l = (t, i, r)" by (cases l) auto
  have "(k, l) \<in> set (column_entries J A D column (t', i', b)) \<longleftrightarrow>
      t' = t \<and> i' = i \<and> (\<exists>a. index_column A column b = Inr a \<and> r < ar_num_rows A b \<and> array_value_to_string J A D a r = k)"
    for t' i' b by (cases "index_column A column b") (auto simp: column_entries_def l)
  then have "(k, l) \<in> set (concat (map (column_entries J A D column) (indexed_batches vs))) \<longleftrightarrow>
      (\<exists>b a. (t, i, b) \<in> set (indexed_batches vs) \<and> index_column A column b = Inr a \<and> r < ar_num_rows A b
         \<and> array_value_to_string J A D a r = k)"
    by auto blast
  then show ?thesis by (auto simp: in_indexed_batches l)
qed

text \<open>A row of the table whose key column has the text \<open>k\<close>.\<close>

definition has_key_at ::
  "('j, 'fl) json_api \<Rightarrow> ('b, 'a, 's, 'fl) arrow_api \<Rightarrow> ('a \<Rightarrow> string) \<Rightarrow> 'b versioned_table \<Rightarrow> string \<Rightarrow> string
     \<Rightarrow> location \<Rightarrow> bool" where
  "has_key_at J A D t column k l \<longleftrightarrow> (\<exists>bs a. get_version t (fst l) = Some bs \<and> fst (snd l) < length bs
     \<and> index_column A column (bs ! fst (snd l)) = Inr a \<and> snd (snd l) < ar_num_rows A (bs ! fst (snd l))
     \<and> array_value_to_string J A D a (snd (snd l)) = k)"

text \<open>C35: Building the primary key index of a table makes \<open>lookup_latest\<close> exact: a key is
  found if and only if some row has it in the key column, and then the location is that of
  the last such row, by tick, batch and row, whatever order the hash map of versions is
  visited in.\<close>

theorem primary_key_index_exact:
  assumes inv: "store_inv s" and I: "iteration_ok I"
    and b: "build_primary_key_index I J A D s n = (Inr (), s')"
    and t: "hm_get (st_tables s') n = Some t'" and c: "pk_col_name t' = Some column"
  shows "pk_lookup_latest (vt_primary_key_index t') k = Some l \<longleftrightarrow>
      has_key_at J A D t' column k l
      \<and> (\<forall>m. has_key_at J A D t' column k m \<longrightarrow> m = l \<or> location_less m l)"
proof -
  have sim: "\<not> lg_is_simulation (st_lifecycle s)" using b by (auto simp: build_primary_key_index_def init_only_def)
  obtain t0 where t0: "hm_get (st_tables s) n = Some t0"
    using b sim by (auto simp: build_primary_key_index_def init_only_def on_table_def split: option.splits)
  obtain ix col where ix: "for_each_mut (pk_index_batch J A D col) pk_new (indexed_batches (it_versions I (vt_versions t0))) = (Inr (), ix)"
    and t': "t' = t0\<lparr>vt_primary_key_index := ix\<rparr>" and col: "pk_col_name t0 = Some col"
    using b sim t0 t
    by (auto simp: build_primary_key_index_def init_only_def on_table_def pk_col_name_def
        split: prod.splits sum.splits option.splits)
  have "col = column" using c col by (simp add: t' pk_col_name_def)
  define vs where "vs = it_versions I (vt_versions t0)"
  define es where "es = concat (map (column_entries J A D column) (indexed_batches vs))"
  have ms: "mset vs = mset (vt_versions t0)" using I by (simp add: vs_def iteration_ok_def)
  have ok0: "hm_ok (vt_versions t0)" using inv t0 by (auto simp: store_inv_def tables_ok_def vt_inv_def)
  have ok: "hm_ok vs"
    using ok0 mset_eq_imp_distinct_iff [of "map fst vs" "map fst (vt_versions t0)"] ms by (simp add: hm_ok_def)
  have "set vs = set (vt_versions t0)" using ms by (metis set_mset_mset)
  then have get: "(u, bs) \<in> set vs \<longleftrightarrow> get_version t' u = Some bs" for u bs
    using hm_ok_iff_get [OF ok0] by (simp add: t' get_version_def)
  have "vt_primary_key_index t' = fold pk_op (map (\<lambda>(k, l). Ins k l) es) pk_new"
    using for_each_entries [OF ix] by (simp add: t' es_def vs_def \<open>col = column\<close>)
  define ls where "ls = map snd (filter (\<lambda>(j, _). j = k) es)"
  have pk: "pk_lookup_latest (vt_primary_key_index t') k = newest ls"
    using pki.refines_log [of "map (\<lambda>(k, l). Ins k l) es" True k]
      \<open>vt_primary_key_index t' = fold pk_op (map (\<lambda>(k, l). Ins k l) es) pk_new\<close>
    by (simp add: pk_new_with_history pk_op_step log_of_inserts ls_def)
  have ord: "in_order ls"
    using in_order_versions [OF ok, of J A D column] unfolding ls_def es_def by (intro in_order_filter) blast
  have mem: "m \<in> set ls \<longleftrightarrow> has_key_at J A D t' column k m" for m
  proof -
    have "m \<in> set ls \<longleftrightarrow> (k, m) \<in> set es" unfolding ls_def by force
    then show ?thesis unfolding es_def in_column_entries has_key_at_def get .
  qed
  show ?thesis unfolding pk newest_in_order [OF ord] Ball_def mem ..
qed

theorem primary_key_index_exact_witness:
  "let s = demo_store\<lparr>st_lifecycle := lifecycle_guard_new\<rparr> in
   \<exists>s' t'. build_primary_key_index insertion_order demo_json list_arrow (\<lambda>_. []) s ''units'' = (Inr (), s')
     \<and> hm_get (st_tables s') ''units'' = Some t'
     \<and> pk_lookup_latest (vt_primary_key_index t') ''2'' = Some (Tick 1, 0, 1)"
proof -
  define s where "s = demo_store\<lparr>st_lifecycle := lifecycle_guard_new\<rparr>"
  define r where "r = build_primary_key_index insertion_order demo_json list_arrow (\<lambda>_. []) s ''units''"
  have sh: "show_int 1 = ''1''" "show_int 2 = ''2''" by (simp_all add: show_int_def digit_char_def) (code_simp+)
  have inv: "store_inv s"
    using reachable_inv [OF demo_store_reachable]
    by (simp add: s_def store_inv_def tables_ok_def ids_ok_def snapshots_ok_def)
  have pk: "primary_key_column demo_spec = Some (column_spec_new ''id'' SemId ''u64'')"
    by (simp add: demo_spec_def primary_key_column_def table_spec_deserialize_def rebuild_index_def column_spec_new_def)
  have ix: "indexed_batches [(Tick 1, [demo_batch])] = [(Tick 1, 0, demo_batch)]" by (simp add: indexed_batches_def)
  have col: "index_column list_arrow ''id'' demo_batch = Inr (snd demo_batch ! 0)"
    by (simp add: index_column_def demo_batch_def demo_fields_def)
  define pkx where "pkx = fold (\<lambda>row_idx ix. pk_insert ix (array_value_to_string demo_json list_arrow (\<lambda>_. []) (snd demo_batch ! 0) row_idx) (Tick 1) 0 row_idx)
         [0..<ar_num_rows list_arrow demo_batch] pk_new"
  define t' where "t' = demo_units\<lparr>vt_primary_key_index := pkx\<rparr>"
  define s' where "s' = s\<lparr>st_tables := [(''units'', t')]\<rparr>"
  have r: "r = (Inr (), s')"
  proof -
    have "vt_spec demo_units = Some demo_spec" "vt_versions demo_units = [(Tick 1, [demo_batch])]"
      by (simp_all add: demo_units_def set_spec_def)
    then show ?thesis
      by (simp add: r_def build_primary_key_index_def init_only_def s_def lifecycle_guard_new_def lg_is_simulation_def
          on_table_def demo_store_units pk insertion_order_def ix pk_index_batch_def col pkx_def s'_def t'_def column_spec_new_def)
  qed
  have t: "hm_get (st_tables s') ''units'' = Some t'" by (simp add: s'_def)
  have c: "pk_col_name t' = Some ''id''" using demo_spec_facts(1) by (simp add: t'_def pk_col_name_def)
  have val: "array_value_to_string demo_json list_arrow (\<lambda>_. []) (snd demo_batch ! 0) 0 = ''1''"
    "array_value_to_string demo_json list_arrow (\<lambda>_. []) (snd demo_batch ! 0) (Suc 0) = ''2''"
    by (simp_all add: array_value_to_string_def demo_batch_def lcell_def sh)
  have rows: "lnum_rows (snd demo_batch) = 2" by (simp add: demo_batch_def lnum_rows_def)
  have ver: "get_version t' u = (if u = Tick 1 then Some [demo_batch] else None)" for u
    by (simp add: get_version_def t'_def demo_units_def)
  have key: "has_key_at demo_json list_arrow (\<lambda>_. []) t' ''id'' ''2'' m \<longleftrightarrow> m = (Tick 1, 0, 1)" for m
    by (cases m) (auto simp: has_key_at_def ver col rows val less_2_cases_iff)
  have "pk_lookup_latest (vt_primary_key_index t') ''2'' = Some (Tick 1, 0, 1)"
    using primary_key_index_exact [OF inv insertion_order_ok r [unfolded r_def] t c, of "''2''" "(Tick 1, 0, 1)"]
    by (simp add: key)
  with r t show ?thesis unfolding r_def s_def [symmetric] Let_def by blast
qed

end
