(* ===== verification/Query_Views.thy ===== *)
theory Query_Views
  imports Store_Props
begin

section \<open>Read views over tables (scharnhorst\_query)\<close>

text \<open>
  What a reader of the query engine holds: error.rs (the error type and the text of every
  error of the crates below it), typed\_access.rs (typed columns, row cursors, batch
  readers, slices), unified\_read.rs (the view of one table, read requests and responses)
  and inspector.rs (summaries and pages). Arrow arrays are reached through \<open>arrow_api\<close>;
  \<open>cat\<close> stands for \<open>arrow::compute::concat_batches\<close> and \<open>type_name\<close> for the
  name of an Arrow array type.
\<close>

subsection \<open>Error texts\<close>

fun core_error_text :: "core_error \<Rightarrow> string" where
  "core_error_text (InvalidId s) = ''invalid identifier: '' @ s"
| "core_error_text (InvalidFormat s) = ''invalid format: '' @ s"
| "core_error_text ArithmeticOverflow = ''arithmetic overflow''"
| "core_error_text DivisionByZero = ''division by zero''"
| "core_error_text (InvalidFixedPointScale e g) =
     ''invalid fixed-point scale: expected '' @ show_nat e @ '', got '' @ show_nat g"
| "core_error_text (CoreSchema s) = ''schema error: '' @ s"
| "core_error_text (DuplicateRegistration s) = ''duplicate tier registration: '' @ s"
| "core_error_text (InvalidPhase s) = ''invalid lifecycle phase: '' @ s"
| "core_error_text (CoreIo s) = ''io error: '' @ s"
| "core_error_text (CoreGeneric s) = ''generic: '' @ s"

text \<open>Text is UTF-8: the dash of the third message is three bytes.\<close>

fun schema_error_text :: "schema_error \<Rightarrow> string" where
  "schema_error_text (TableAlreadyExists s) = ''table already exists: '' @ s"
| "schema_error_text (TableNotFound s) = ''table not found: '' @ s"
| "schema_error_text (InvalidTableName s) =
     ''invalid table name: '' @ quoted s @ '' '' @ [CHR 0xE2, CHR 0x80, CHR 0x94] @ '' must be non-empty''"
| "schema_error_text (ColumnNotFound s) = ''column not found: '' @ s"
| "schema_error_text (DuplicateColumn s) = ''duplicate column name: '' @ s"
| "schema_error_text (RelationAlreadyExists f t) = ''relation already exists between '' @ f @ '' and '' @ t"
| "schema_error_text (RelationNotFound f t) = ''relation not found: '' @ f @ '' -> '' @ t"
| "schema_error_text (CircularRelation s) = ''circular relation detected: '' @ s"
| "schema_error_text (InvalidSemantic s) = ''invalid semantic: '' @ s"
| "schema_error_text RegistryFrozen = ''schema registry is frozen''"
| "schema_error_text (MigrationVersionMismatch e a) =
     ''migration version mismatch: expected '' @ e @ '', found '' @ a"
| "schema_error_text (NoMigrationPath f t) = ''no migration path found from '' @ f @ '' to '' @ t"
| "schema_error_text (ManifestSerialization s) = ''manifest serialization failed: '' @ s"
| "schema_error_text (ManifestDeserialization s) = ''manifest deserialization failed: '' @ s"
| "schema_error_text (PhaseError s) = ''phase error: '' @ s"
| "schema_error_text (SchemaGeneric s) = s"
| "schema_error_text (SchemaCore e) = core_error_text e"

fun store_error_text :: "arrow_store_error \<Rightarrow> string" where
  "store_error_text (SETableNotFound s) = ''table not found: '' @ s"
| "store_error_text (SETableAlreadyExists s) = ''table already exists: '' @ s"
| "store_error_text (SEPartitionNotFound s) = ''partition not found: '' @ s"
| "store_error_text (SESnapshotNotFound t) = ''snapshot not found for tick '' @ show_u64 t"
| "store_error_text (SETickNotFound table t) =
     ''tick not found: tick '' @ show_u64 t @ '' does not exist in table '' @ table"
| "store_error_text (SEIndexNotFound s) = ''index not found: '' @ s"
| "store_error_text (SEDuplicateRowId table r) = ''duplicate RowId '' @ show_u64 r @ '' in table '' @ quoted table"
| "store_error_text (SEPrimaryKeyViolation table key) =
     ''primary key violation: duplicate key '' @ key @ '' in table '' @ table"
| "store_error_text (SEForeignKeyViolation table key) =
     ''foreign key violation: key '' @ key @ '' in table '' @ table @ '' references missing row''"
| "store_error_text (SEInvalidMutationMode s) = ''invalid mutation mode for operation on table '' @ s"
| "store_error_text (SESchema s) = ''schema error: '' @ s"
| "store_error_text (SEArrow s) = ''arrow error: '' @ s"
| "store_error_text (SEIo s) = ''io error: '' @ s"
| "store_error_text (SELockPoisoned s) = ''lock poisoned: '' @ s"
| "store_error_text (SELifecycle s) = ''lifecycle error: '' @ s"
| "store_error_text (SEUnimplemented s) = ''unimplemented: '' @ s"
| "store_error_text (SETypeMismatch c e g) =
     ''type mismatch for column '' @ c @ '': expected '' @ e @ '', got '' @ g"
| "store_error_text (SEGeneric s) = ''generic error: '' @ s"

datatype query_error =
    QETableNotFound string
  | QEColumnNotFound string string
  | QETypeMismatch string string string
  | QESnapshotNotAvailable u64
  | QESchemaRegistry string
  | QEArrow string
  | QEDataFusion string
  | QESql string
  | QESqlNotAllowed string
  | QEUnifiedRead string
  | QEInspector string
  | QERelationNotFound string
  | QETicksMismatch tick "tick option"
  | QEInvalidQuery string
  | QEIndexOutOfBounds nat
  | QEUnsupportedOperation string
  | QESqlWrite string
  | QECore core_error
  | QESchema schema_error
  | QEArrowStore arrow_store_error

text \<open>The derived \<open>Debug\<close> text of a tick and of an optional tick.\<close>

definition tick_debug :: "tick \<Rightarrow> string" where
  "tick_debug t = ''Tick('' @ show_u64 (tick_as_u64 t) @ '')''"

definition tick_opt_debug :: "tick option \<Rightarrow> string" where
  "tick_opt_debug t = (case t of None \<Rightarrow> ''None'' | Some t \<Rightarrow> ''Some('' @ tick_debug t @ '')'')"

fun query_error_text :: "query_error \<Rightarrow> string" where
  "query_error_text (QETableNotFound s) = ''table not found: '' @ s"
| "query_error_text (QEColumnNotFound c t) = ''column not found: '' @ c @ '' in table '' @ t"
| "query_error_text (QETypeMismatch c e g) =
     ''type mismatch for column '' @ c @ '': expected '' @ e @ '', got '' @ g"
| "query_error_text (QESnapshotNotAvailable t) = ''snapshot not available for tick '' @ show_u64 t"
| "query_error_text (QESchemaRegistry s) = ''schema registry error: '' @ s"
| "query_error_text (QEArrow s) = ''arrow error: '' @ s"
| "query_error_text (QEDataFusion s) = ''datafusion error: '' @ s"
| "query_error_text (QESql s) = ''SQL error: '' @ s"
| "query_error_text (QESqlNotAllowed s) = ''SQL not allowed: '' @ s"
| "query_error_text (QEUnifiedRead s) = ''unified read error: '' @ s"
| "query_error_text (QEInspector s) = ''inspector error: '' @ s"
| "query_error_text (QERelationNotFound s) = ''relation not found: '' @ s"
| "query_error_text (QETicksMismatch r a) =
     ''tick mismatch: requested '' @ tick_debug r @ '', actual '' @ tick_opt_debug a"
| "query_error_text (QEInvalidQuery s) = ''invalid query: '' @ s"
| "query_error_text (QEIndexOutOfBounds n) = ''index out of bounds: '' @ show_nat n"
| "query_error_text (QEUnsupportedOperation s) = ''unsupported operation: '' @ s"
| "query_error_text (QESqlWrite s) = ''SQL write error: '' @ s"
| "query_error_text (QECore e) = core_error_text e"
| "query_error_text (QESchema e) = schema_error_text e"
| "query_error_text (QEArrowStore e) = store_error_text e"

subsection \<open>typed\_access.rs\<close>

datatype column_kind = CkInt64 | CkUInt64 | CkFloat64 | CkBoolean | CkUtf8 | CkLargeUtf8 | CkNull | CkUnknown

record 'a column_view =
  cv_array :: 'a
  cv_field_name :: string

definition column_view_new :: "'a \<Rightarrow> string \<Rightarrow> 'a column_view" where
  "column_view_new arr n = \<lparr>cv_array = arr, cv_field_name = n\<rparr>"

definition cv_kind :: "('b, 'a, 's, 'fl) arrow_api \<Rightarrow> 'a column_view \<Rightarrow> column_kind" where
  "cv_kind A v = (case ar_data_type A (cv_array v) of
       Int64 \<Rightarrow> CkInt64 | UInt64 \<Rightarrow> CkUInt64 | Float64 \<Rightarrow> CkFloat64 | Boolean \<Rightarrow> CkBoolean
     | Utf8 \<Rightarrow> CkUtf8 | LargeUtf8 \<Rightarrow> CkLargeUtf8
     | OtherType t \<Rightarrow> if t = ''Null'' then CkNull else CkUnknown
     | Int32 \<Rightarrow> CkUnknown)"

text \<open>
  \<open>as_typed_array\<close>: the downcast, as a test \<open>is\<close> of the array's concrete type; \<open>get\<close>
  of the typed-access trait for an array type with that test and the value reader \<open>val\<close>.
  The macro instances for \<open>i64\<close>, \<open>f64\<close>, \<open>u64\<close> and \<open>bool\<close> and the \<open>String\<close>
  instance differ in these two only.
\<close>

definition as_typed_array ::
  "('b, 'a, 's, 'fl) arrow_api \<Rightarrow> (data_type \<Rightarrow> string) \<Rightarrow> data_type \<Rightarrow> ('a \<Rightarrow> bool)
     \<Rightarrow> 'a column_view \<Rightarrow> query_error + 'a" where
  "as_typed_array A type_name dt is v =
     (if is (cv_array v) then Inr (cv_array v)
      else Inl (QETypeMismatch (cv_field_name v) (type_name dt) (ar_type_debug A (ar_data_type A (cv_array v)))))"

definition typed_get ::
  "('b, 'a, 's, 'fl) arrow_api \<Rightarrow> (data_type \<Rightarrow> string) \<Rightarrow> data_type \<Rightarrow> ('a \<Rightarrow> bool) \<Rightarrow> ('a \<Rightarrow> nat \<Rightarrow> 'v)
     \<Rightarrow> 'a column_view \<Rightarrow> nat \<Rightarrow> query_error + 'v option" where
  "typed_get A type_name dt is val v row =
     rbind (as_typed_array A type_name dt is v) (\<lambda>arr.
     if row \<ge> ar_len A arr then Inl (QEIndexOutOfBounds row)
     else Inr (if ar_is_null A arr row then None else Some (val arr row)))"

definition get_prim ::
  "('b, 'a, 's, 'fl) arrow_api \<Rightarrow> (data_type \<Rightarrow> string) \<Rightarrow> data_type \<Rightarrow> 'a column_view \<Rightarrow> nat
     \<Rightarrow> query_error + 'fl native option" where
  "get_prim A type_name dt = typed_get A type_name dt (ar_prim A dt) (ar_prim_value A)"

definition get_bool ::
  "('b, 'a, 's, 'fl) arrow_api \<Rightarrow> (data_type \<Rightarrow> string) \<Rightarrow> 'a column_view \<Rightarrow> nat \<Rightarrow> query_error + bool option" where
  "get_bool A type_name = typed_get A type_name Boolean (ar_bool A) (ar_bool_value A)"

definition get_string ::
  "('b, 'a, 's, 'fl) arrow_api \<Rightarrow> (data_type \<Rightarrow> string) \<Rightarrow> 'a column_view \<Rightarrow> nat \<Rightarrow> query_error + string option" where
  "get_string A type_name = typed_get A type_name Utf8 (ar_str A Utf8) (ar_str_value A)"

record 'a row_cursor =
  rc_columns :: "(string \<times> 'a column_view) list"
  rc_row_count :: nat
  rc_current_row :: nat

text \<open>The check of both constructors: the first column whose length differs is named.\<close>

definition mismatched_error :: "string \<Rightarrow> nat \<Rightarrow> nat \<Rightarrow> query_error" where
  "mismatched_error name len expected =
     QEInvalidQuery (''column '' @ quoted name @ '' has '' @ show_nat len @ '' rows, expected '' @ show_nat expected)"

definition row_cursor_new ::
  "('b, 'a, 's, 'fl) arrow_api \<Rightarrow> (string \<times> 'a column_view) list \<Rightarrow> query_error + 'a row_cursor" where
  "row_cursor_new A cols =
     (let row_count = (case cols of [] \<Rightarrow> 0 | (_, v) # _ \<Rightarrow> ar_len A (cv_array v)) in
      case find (\<lambda>(_, v). ar_len A (cv_array v) \<noteq> row_count) cols of
        Some (name, v) \<Rightarrow> Inl (mismatched_error name (ar_len A (cv_array v)) row_count)
      | None \<Rightarrow> Inr \<lparr>rc_columns = cols, rc_row_count = row_count, rc_current_row = 0\<rparr>)"

definition cursor_advance :: "'a row_cursor \<Rightarrow> bool \<times> 'a row_cursor" where
  "cursor_advance c =
     (if rc_current_row c + 1 < rc_row_count c
      then (True, c\<lparr>rc_current_row := rc_current_row c + 1\<rparr>) else (False, c))"

definition cursor_reset :: "'a row_cursor \<Rightarrow> 'a row_cursor" where
  "cursor_reset c = c\<lparr>rc_current_row := 0\<rparr>"

definition get_column :: "'a row_cursor \<Rightarrow> string \<Rightarrow> query_error + 'a column_view" where
  "get_column c name = ok_or (map_option snd (find (\<lambda>(n, _). n = name) (rc_columns c))) (QEColumnNotFound name [])"

text \<open>\<open>get_typed\<close>, for a reader of the typed-access trait.\<close>

definition get_typed ::
  "('a column_view \<Rightarrow> nat \<Rightarrow> query_error + 'v option) \<Rightarrow> 'a row_cursor \<Rightarrow> string \<Rightarrow> query_error + 'v option" where
  "get_typed get c name = rbind (get_column c name) (\<lambda>col. get col (rc_current_row c))"

text \<open>The \<open>i64\<close> is converted with \<open>try_into\<close>: a negative one is no identifier.\<close>

definition get_row_id ::
  "('b, 'a, 's, 'fl) arrow_api \<Rightarrow> (data_type \<Rightarrow> string) \<Rightarrow> 'a row_cursor \<Rightarrow> string \<Rightarrow> query_error + row_id option" where
  "get_row_id A type_name c id_column =
     rbind (get_typed (get_prim A type_name Int64) c id_column) (\<lambda>v.
     Inr (case v of Some (NInt i) \<Rightarrow> if 0 \<le> i then Some (RowId (word_of_int i)) else None | _ \<Rightarrow> None))"

record 'a batch_column_reader =
  br_arrays :: "(string \<times> 'a) list"
  br_row_count :: nat

definition batch_reader_new ::
  "('b, 'a, 's, 'fl) arrow_api \<Rightarrow> (string \<times> 'a) list \<Rightarrow> query_error + 'a batch_column_reader" where
  "batch_reader_new A arrays =
     (let row_count = (case arrays of [] \<Rightarrow> 0 | (_, arr) # _ \<Rightarrow> ar_len A arr) in
      case find (\<lambda>(_, arr). ar_len A arr \<noteq> row_count) arrays of
        Some (name, arr) \<Rightarrow> Inl (mismatched_error name (ar_len A arr) row_count)
      | None \<Rightarrow> Inr \<lparr>br_arrays = arrays, br_row_count = row_count\<rparr>)"

definition array_ref :: "'a batch_column_reader \<Rightarrow> string \<Rightarrow> query_error + 'a" where
  "array_ref r name = ok_or (map_option snd (find (\<lambda>(n, _). n = name) (br_arrays r))) (QEColumnNotFound name [])"

definition typed_array ::
  "('b, 'a, 's, 'fl) arrow_api \<Rightarrow> (data_type \<Rightarrow> string) \<Rightarrow> data_type \<Rightarrow> ('a \<Rightarrow> bool) \<Rightarrow> 'a batch_column_reader
     \<Rightarrow> string \<Rightarrow> query_error + 'a" where
  "typed_array A type_name dt is r name =
     rbind (array_ref r name) (\<lambda>arr.
     if is arr then Inr arr
     else Inl (QETypeMismatch name (type_name dt) (ar_type_debug A (ar_data_type A arr))))"

text \<open>The four slices differ in the value reader only.\<close>

definition slice_get :: "('b, 'a, 's, 'fl) arrow_api \<Rightarrow> ('a \<Rightarrow> nat \<Rightarrow> 'v) \<Rightarrow> 'a \<Rightarrow> nat \<Rightarrow> query_error + 'v option" where
  "slice_get A val arr row =
     (if row \<ge> ar_len A arr then Inl (QEIndexOutOfBounds row)
      else Inr (if ar_is_null A arr row then None else Some (val arr row)))"

definition iter_valid :: "('b, 'a, 's, 'fl) arrow_api \<Rightarrow> ('a \<Rightarrow> nat \<Rightarrow> 'v) \<Rightarrow> 'a \<Rightarrow> 'v list" where
  "iter_valid A val arr = map (val arr) (filter (\<lambda>i. \<not> ar_is_null A arr i) [0..<ar_len A arr])"

subsection \<open>unified\_read.rs\<close>

record 'b table_read_view =
  rv_table_name :: string
  rv_tick :: tick
  rv_batches :: "'b list"
  rv_schema :: table_spec
  rv_position_map :: row_position_map

text \<open>Counters are \<open>usize\<close> and saturate.\<close>

definition usize_max :: nat where "usize_max = 2 ^ 64 - 1"

definition sat_add :: "nat \<Rightarrow> nat \<Rightarrow> nat" where "sat_add a b = min (a + b) usize_max"
definition sat_mul :: "nat \<Rightarrow> nat \<Rightarrow> nat" where "sat_mul a b = min (a * b) usize_max"

definition build_position_map :: "('b, 'a, 's, 'fl) arrow_api \<Rightarrow> 'b list \<Rightarrow> row_position_map" where
  "build_position_map A batches = fst (rebuild_positions A 0 batches (rpm_new, 0))"

text \<open>The first row of every batch in the merged batch.\<close>

fun batch_offsets :: "nat \<Rightarrow> nat list \<Rightarrow> nat list" where
  "batch_offsets offset [] = []"
| "batch_offsets offset (n # ns) = offset # batch_offsets (sat_add offset n) ns"

definition rebase_row :: "row_position_map \<Rightarrow> nat list \<Rightarrow> row_id \<Rightarrow> row_position_map \<Rightarrow> row_position_map" where
  "rebase_row pm row_counts r rebased =
     (case position_of pm r of
        None \<Rightarrow> rebased
      | Some (batch_idx, row_offset) \<Rightarrow>
          if batch_idx < length row_counts \<and> row_offset < row_counts ! batch_idx
          then rpm_insert rebased r 0 (sat_add (batch_offsets 0 row_counts ! batch_idx) row_offset)
          else rebased)"

definition rebase_position_map :: "row_position_map \<Rightarrow> nat list \<Rightarrow> row_position_map" where
  "rebase_position_map pm row_counts = fold (rebase_row pm row_counts) (rpm_row_ids pm) rpm_new"

definition table_read_view_new ::
  "('b, 'a, 's, 'fl) arrow_api \<Rightarrow> ('s \<Rightarrow> 'b list \<Rightarrow> string + 'b) \<Rightarrow> string \<Rightarrow> tick \<Rightarrow> 'b list \<Rightarrow> table_spec
     \<Rightarrow> row_position_map option \<Rightarrow> 'b table_read_view" where
  "table_read_view_new A cat name tick batches schema pm =
     (let original_row_counts = map (ar_num_rows A) batches;
          (merged, batches') = (if length batches > 1
            then (case cat (ar_schema A (batches ! 0)) batches of
                Inr m \<Rightarrow> (True, [m]) | Inl _ \<Rightarrow> (False, batches))
            else (False, batches));
          pm' = (case pm of
              Some m \<Rightarrow> if merged then rebase_position_map m original_row_counts else m
            | None \<Rightarrow> build_position_map A batches')
      in \<lparr>rv_table_name = name, rv_tick = tick, rv_batches = batches', rv_schema = schema, rv_position_map = pm'\<rparr>)"

definition rv_total_rows :: "('b, 'a, 's, 'fl) arrow_api \<Rightarrow> 'b table_read_view \<Rightarrow> nat" where
  "rv_total_rows A v = sum_list (map (ar_num_rows A) (rv_batches v))"

definition rv_column_spec :: "'b table_read_view \<Rightarrow> string \<Rightarrow> query_error + column_spec" where
  "rv_column_spec v name = ok_or (column_by_name (rv_schema v) name) (QEColumnNotFound name (rv_table_name v))"

definition first_batch :: "'b table_read_view \<Rightarrow> query_error + 'b" where
  "first_batch v = (case rv_batches v of
       b # _ \<Rightarrow> Inr b
     | [] \<Rightarrow> Inl (QEInvalidQuery (''table '' @ quoted (rv_table_name v) @ '' has no batches at tick '' @ tick_display (rv_tick v))))"

definition named_columns :: "('b, 'a, 's, 'fl) arrow_api \<Rightarrow> 'b \<Rightarrow> (string \<times> 'a) list" where
  "named_columns A b =
     map (\<lambda>(idx, (name, dt, nullable)). (name, ar_column A b idx)) (enumerate 0 (ar_fields A (ar_schema A b)))"

definition named_views :: "('b, 'a, 's, 'fl) arrow_api \<Rightarrow> 'b \<Rightarrow> (string \<times> 'a column_view) list" where
  "named_views A b = map (\<lambda>(name, arr). (name, column_view_new arr name)) (named_columns A b)"

definition first_batch_reader ::
  "('b, 'a, 's, 'fl) arrow_api \<Rightarrow> 'b table_read_view \<Rightarrow> query_error + 'a batch_column_reader" where
  "first_batch_reader A v = rbind (first_batch v) (\<lambda>b. batch_reader_new A (named_columns A b))"

definition first_batch_cursor ::
  "('b, 'a, 's, 'fl) arrow_api \<Rightarrow> 'b table_read_view \<Rightarrow> query_error + 'a row_cursor" where
  "first_batch_cursor A v = rbind (first_batch v) (\<lambda>b. row_cursor_new A (named_views A b))"

text \<open>Collected into a hash map: of two fields with one name the later wins.\<close>

definition first_batch_columns ::
  "('b, 'a, 's, 'fl) arrow_api \<Rightarrow> 'b table_read_view \<Rightarrow> query_error + (string \<times> 'a column_view) list" where
  "first_batch_columns A v = rbind (first_batch v) (\<lambda>b.
     Inr (fold (\<lambda>(n, cv). hm_insert n cv) (named_views A b) []))"

record read_request =
  rq_tick :: tick
  rq_table_names :: "string list"

definition read_request_new :: "tick \<Rightarrow> read_request" where
  "read_request_new t = \<lparr>rq_tick = t, rq_table_names = []\<rparr>"

definition request_with_table :: "read_request \<Rightarrow> string \<Rightarrow> read_request" where
  "request_with_table r n = r\<lparr>rq_table_names := rq_table_names r @ [n]\<rparr>"

definition request_with_tables :: "read_request \<Rightarrow> string list \<Rightarrow> read_request" where
  "request_with_tables r ns = r\<lparr>rq_table_names := rq_table_names r @ ns\<rparr>"

record 'b read_response =
  rs_tick :: tick
  rs_views :: "(string \<times> 'b table_read_view) list"

definition read_response_new :: "tick \<Rightarrow> 'b read_response" where
  "read_response_new t = \<lparr>rs_tick = t, rs_views = []\<rparr>"

definition response_insert :: "'b read_response \<Rightarrow> 'b table_read_view \<Rightarrow> 'b read_response" where
  "response_insert r v = r\<lparr>rs_views := hm_insert (rv_table_name v) v (rs_views r)\<rparr>"

definition response_get :: "'b read_response \<Rightarrow> string \<Rightarrow> query_error + 'b table_read_view" where
  "response_get r n = ok_or (hm_get (rs_views r) n) (QETableNotFound n)"

text \<open>\<open>InMemoryReadSource\<close>\<close>

record 'b read_source =
  rds_views :: "(string \<times> 'b table_read_view) list"

definition source_register :: "'b read_source \<Rightarrow> 'b table_read_view \<Rightarrow> 'b read_source" where
  "source_register s v = s\<lparr>rds_views := hm_insert (rv_table_name v) v (rds_views s)\<rparr>"

definition source_unregister :: "'b read_source \<Rightarrow> string \<Rightarrow> (query_error + unit) \<times> 'b read_source" where
  "source_unregister s n =
     (ok_or (map_option (\<lambda>_. ()) (hm_get (rds_views s) n)) (QETableNotFound n),
      s\<lparr>rds_views := hm_remove n (rds_views s)\<rparr>)"

definition source_clear :: "'b read_source \<Rightarrow> 'b read_source" where
  "source_clear s = s\<lparr>rds_views := []\<rparr>"

definition read_views :: "(string \<times> 'b table_read_view) list \<Rightarrow> read_request \<Rightarrow> query_error + 'b read_response" where
  "read_views views req =
     try_fold (\<lambda>resp name. rbind (ok_or (hm_get views name) (QETableNotFound name))
       (\<lambda>v. Inr (response_insert resp v))) (read_response_new (rq_tick req)) (rq_table_names req)"

definition source_read :: "'b read_source \<Rightarrow> read_request \<Rightarrow> query_error + 'b read_response" where
  "source_read s req = read_views (rds_views s) req"

subsection \<open>The row behind an identifier (typed\_access.rs)\<close>

record 'b row_lookup_view =
  rw_lookup :: row_lookup
  rw_view :: "'b table_read_view"

definition row_lookup_view_new :: "row_lookup \<Rightarrow> 'b table_read_view \<Rightarrow> 'b row_lookup_view" where
  "row_lookup_view_new l v = \<lparr>rw_lookup = l, rw_view = v\<rparr>"

definition lookup_column_view ::
  "('b, 'a, 's, 'fl) arrow_api \<Rightarrow> 'b row_lookup_view \<Rightarrow> string \<Rightarrow> query_error + 'a column_view" where
  "lookup_column_view A w column =
     (let batch_idx = rl_batch_index (rw_lookup w); batches = rv_batches (rw_view w) in
      rbind (ok_or (if batch_idx < length batches then Some (batches ! batch_idx) else None)
        (QEInvalidQuery (''batch index '' @ show_nat batch_idx @ '' out of range for table ''
          @ quoted (rv_table_name (rw_view w))))) (\<lambda>batch.
      rbind (map_err (\<lambda>_. QEColumnNotFound column (rv_table_name (rw_view w)))
        (ar_index_of A (ar_schema A batch) column)) (\<lambda>col_idx.
      Inr (column_view_new (ar_column A batch col_idx) column))))"

text \<open>The five getters, for a reader of the typed-access trait.\<close>

definition lookup_get ::
  "('b, 'a, 's, 'fl) arrow_api \<Rightarrow> ('a column_view \<Rightarrow> nat \<Rightarrow> query_error + 'v option) \<Rightarrow> 'b row_lookup_view
     \<Rightarrow> string \<Rightarrow> query_error + 'v option" where
  "lookup_get A get w column =
     rbind (lookup_column_view A w column) (\<lambda>cv. get cv (rl_row_offset (rw_lookup w)))"

subsection \<open>inspector.rs\<close>

record inspector_page =
  ip_table_name :: string
  ip_column_names :: "string list"
  ip_rows :: "string list list"
  ip_page_index :: nat
  ip_page_size :: nat
  ip_total_rows :: nat

definition page_has_next :: "inspector_page \<Rightarrow> bool" where
  "page_has_next p \<longleftrightarrow> (ip_page_index p + 1) * ip_page_size p < ip_total_rows p"

definition page_has_prev :: "inspector_page \<Rightarrow> bool" where
  "page_has_prev p \<longleftrightarrow> ip_page_index p > 0"

record column_summary =
  cs_name :: string
  cs_data_type :: string
  cs_null_count :: nat
  cs_value_count :: nat

record table_summary =
  tm_name :: string
  tm_row_count :: nat
  tm_column_summaries :: "column_summary list"

record inspector_console =
  ic_schemas :: "(string \<times> table_spec) list"

definition inspector_new :: inspector_console where
  "inspector_new = \<lparr>ic_schemas = []\<rparr>"

definition inspector_register :: "inspector_console \<Rightarrow> table_spec \<Rightarrow> inspector_console" where
  "inspector_register c spec = c\<lparr>ic_schemas := hm_insert (ts_name spec) spec (ic_schemas c)\<rparr>"

definition inspector_unregister :: "inspector_console \<Rightarrow> string \<Rightarrow> inspector_console" where
  "inspector_unregister c n = c\<lparr>ic_schemas := hm_remove n (ic_schemas c)\<rparr>"

definition inspector_schema :: "inspector_console \<Rightarrow> string \<Rightarrow> query_error + table_spec" where
  "inspector_schema c n = ok_or (hm_get (ic_schemas c) n) (QETableNotFound n)"

definition null_count :: "('b, 'a, 's, 'fl) arrow_api \<Rightarrow> 'a \<Rightarrow> nat" where
  "null_count A arr = length (filter (ar_is_null A arr) [0..<ar_len A arr])"

text \<open>
  A batch with fewer columns than the registered schema makes \<open>column(idx)\<close> panic; the
  engine only summarises batches of the registered schema.
\<close>

definition summarize_table ::
  "('b, 'a, 's, 'fl) arrow_api \<Rightarrow> inspector_console \<Rightarrow> string \<Rightarrow> 'b list \<Rightarrow> query_error + table_summary" where
  "summarize_table A c table_name batches =
     rbind (inspector_schema c table_name) (\<lambda>schema.
     Inr \<lparr>tm_name = table_name, tm_row_count = sum_list (map (ar_num_rows A) batches),
        tm_column_summaries = map (\<lambda>(idx, col_spec).
          \<lparr>cs_name = col_name col_spec, cs_data_type = col_storage_type col_spec,
           cs_null_count = sum_list (map (\<lambda>b. null_count A (ar_column A b idx)) batches),
           cs_value_count = sum_list (map (\<lambda>b. ar_len A (ar_column A b idx) - null_count A (ar_column A b idx)) batches)\<rparr>)
          (enumerate 0 (ts_columns schema))\<rparr>)"

definition format_cell ::
  "('j, 'fl) json_api \<Rightarrow> ('b, 'a, 's, 'fl) arrow_api \<Rightarrow> 'a \<Rightarrow> nat \<Rightarrow> string" where
  "format_cell J A arr row =
     (if ar_is_null A arr row then ''NULL''
      else (case ar_data_type A arr of
          Int64 \<Rightarrow> (case ar_prim_value A arr row of NInt i \<Rightarrow> show_int i | NFloat f \<Rightarrow> fl_show J f)
        | Float64 \<Rightarrow> (case ar_prim_value A arr row of NInt i \<Rightarrow> show_int i | NFloat f \<Rightarrow> fl_show J f)
        | Boolean \<Rightarrow> if ar_bool_value A arr row then ''true'' else ''false''
        | Utf8 \<Rightarrow> ar_str_value A arr row
        | LargeUtf8 \<Rightarrow> ar_str_value A arr row
        | dt \<Rightarrow> ar_type_debug A dt))"

text \<open>One batch of the loop of \<open>inspect_page\<close>, and the loop with its \<open>break\<close>.\<close>

definition format_row :: "('j, 'fl) json_api \<Rightarrow> ('b, 'a, 's, 'fl) arrow_api \<Rightarrow> 'b \<Rightarrow> nat \<Rightarrow> string list" where
  "format_row J A batch r = map (\<lambda>c. format_cell J A (ar_column A batch c) r) [0..<ar_num_columns A batch]"

fun page_rows ::
  "('j, 'fl) json_api \<Rightarrow> ('b, 'a, 's, 'fl) arrow_api \<Rightarrow> nat \<Rightarrow> nat \<Rightarrow> nat \<Rightarrow> 'b list \<Rightarrow> string list list" where
  "page_rows J A start end_row global_row [] = []"
| "page_rows J A start end_row global_row (batch # batches) =
     (let batch_end = global_row + ar_num_rows A batch;
          overlap_start = max start global_row;
          overlap_end = min end_row batch_end;
          rows = (if overlap_start < overlap_end
            then map (format_row J A batch) [overlap_start - global_row..<overlap_end - global_row] else [])
      in rows @ (if batch_end \<ge> end_row then [] else page_rows J A start end_row batch_end batches))"

definition inspect_page ::
  "('j, 'fl) json_api \<Rightarrow> ('b, 'a, 's, 'fl) arrow_api \<Rightarrow> inspector_console \<Rightarrow> string \<Rightarrow> 'b list \<Rightarrow> nat \<Rightarrow> nat
     \<Rightarrow> query_error + inspector_page" where
  "inspect_page J A c table_name batches page_index page_size =
     rbind (inspector_schema c table_name) (\<lambda>schema.
     let total_rows = sum_list (map (ar_num_rows A) batches);
         start = sat_mul page_index page_size
     in if start > total_rows then Inl (QEIndexOutOfBounds start)
        else Inr \<lparr>ip_table_name = table_name, ip_column_names = map col_name (ts_columns schema),
          ip_rows = page_rows J A start (min (start + page_size) total_rows) 0 batches,
          ip_page_index = page_index, ip_page_size = page_size, ip_total_rows = total_rows\<rparr>)"

definition column_views ::
  "('b, 'a, 's, 'fl) arrow_api \<Rightarrow> inspector_console \<Rightarrow> string \<Rightarrow> 'b \<Rightarrow> query_error + (string \<times> 'a column_view) list" where
  "column_views A c table_name batch =
     rbind (inspector_schema c table_name) (\<lambda>_. Inr (fold (\<lambda>(n, cv). hm_insert n cv) (named_views A batch) []))"

subsection \<open>Pages\<close>

text \<open>All rows of a table, as the inspector shows them.\<close>

definition all_rows :: "('j, 'fl) json_api \<Rightarrow> ('b, 'a, 's, 'fl) arrow_api \<Rightarrow> 'b list \<Rightarrow> string list list" where
  "all_rows J A batches = List.concat (map (\<lambda>b. map (format_row J A b) [0..<ar_num_rows A b]) batches)"

lemma length_all_rows: "length (all_rows J A bs) = sum_list (map (ar_num_rows A) bs)"
  by (simp add: all_rows_def length_concat o_def)

lemma map_upt_window:
  "drop a (take e (map f [0..<n])) = map f [a..<min e n]"
  by (cases "e \<le> n") (simp_all add: drop_map take_map take_upt min_def)

lemma page_rows_window: "page_rows J A s e g bs = drop (s - g) (take (e - g) (all_rows J A bs))"
proof (induction bs arbitrary: g)
  case (Cons b bs)
  let ?n = "ar_num_rows A b" and ?r = "map (format_row J A b) [0..<ar_num_rows A b]"
  have head: "(if max s g < min e (g + ?n)
      then map (format_row J A b) [max s g - g..<min e (g + ?n) - g] else []) = drop (s - g) (take (e - g) ?r)"
    unfolding map_upt_window by (auto simp: max_def min_def)
  have split: "all_rows J A (b # bs) = ?r @ all_rows J A bs" by (simp add: all_rows_def)
  show ?case
  proof (cases "g + ?n \<ge> e")
    case True
    then have "page_rows J A s e g (b # bs) = drop (s - g) (take (e - g) ?r)"
      unfolding head [symmetric] by (simp add: Let_def)
    moreover have "take (e - g) (all_rows J A (b # bs)) = take (e - g) ?r" using True by (simp add: split)
    ultimately show ?thesis by simp
  next
    case False
    then have "page_rows J A s e g (b # bs) = drop (s - g) (take (e - g) ?r) @ page_rows J A s e (g + ?n) bs"
      unfolding head [symmetric] by (simp add: Let_def)
    moreover have "s - g - ?n = s - (g + ?n)" "e - g - ?n = e - (g + ?n)" by simp_all
    ultimately show ?thesis using False Cons.IH [of "g + ?n"] by (simp add: split)
  qed
qed (simp add: all_rows_def)

text \<open>A page of the inspector is the requested window of the table's rows: with
  fewer than \<open>usize::MAX\<close> rows, page \<open>i\<close> of size \<open>n\<close> fails exactly when it starts beyond
  the last row, otherwise it holds rows \<open>i * n\<close> to \<open>i * n + n\<close> of the table in order,
  whatever batches they are stored in, and there is a next page exactly when rows follow.\<close>

theorem inspect_page_window:
  assumes "inspector_schema c name = Inr spec" and "sum_list (map (ar_num_rows A) bs) < usize_max"
  shows "(case inspect_page J A c name bs i n of
      Inl e \<Rightarrow> i * n > sum_list (map (ar_num_rows A) bs) \<and> e = QEIndexOutOfBounds (sat_mul i n)
    | Inr p \<Rightarrow> i * n \<le> sum_list (map (ar_num_rows A) bs)
        \<and> ip_rows p = take n (drop (i * n) (all_rows J A bs))
        \<and> (page_has_next p = (drop (i * n + n) (all_rows J A bs) \<noteq> []))
        \<and> ip_column_names p = map col_name (ts_columns spec))"
proof (cases "i * n \<le> sum_list (map (ar_num_rows A) bs)")
  case True
  then have start: "sat_mul i n = i * n" using assms(2) by (simp add: sat_mul_def)
  have "drop (i * n) (take (min (i * n + n) (sum_list (map (ar_num_rows A) bs))) (all_rows J A bs))
      = take n (drop (i * n) (all_rows J A bs))"
    by (simp add: drop_take length_all_rows min_def)
  then show ?thesis
    using True start assms(1)
    by (auto simp: inspect_page_def Let_def page_rows_window page_has_next_def length_all_rows algebra_simps)
next
  case False
  then have "sat_mul i n > sum_list (map (ar_num_rows A) bs)"
    using assms(2) by (simp add: sat_mul_def)
  then show ?thesis using False assms(1) by (simp add: inspect_page_def Let_def)
qed

subsection \<open>Merging the batches of a view\<close>

text \<open>
  What \<open>concat_batches\<close> promises: the merged batch has the rows of its arguments, column
  by column, in order. \<open>columnar\<close>: every column of a batch has the batch's number of rows.
\<close>

definition concat_ok :: "('b, 'a, 's, 'fl) arrow_api \<Rightarrow> ('s \<Rightarrow> 'b list \<Rightarrow> string + 'b) \<Rightarrow> bool" where
  "concat_ok A cat \<longleftrightarrow> (\<forall>s bs m. cat s bs = Inr m \<longrightarrow>
     ar_num_rows A m = sum_list (map (ar_num_rows A) bs)
   \<and> (\<forall>c < length (ar_fields A s). cells A (ar_column A m c) = List.concat (map (\<lambda>b. cells A (ar_column A b c)) bs)))"

definition columnar :: "('b, 'a, 's, 'fl) arrow_api \<Rightarrow> nat \<Rightarrow> 'b \<Rightarrow> bool" where
  "columnar A c b \<longleftrightarrow> ar_len A (ar_column A b c) = ar_num_rows A b"

text \<open>The cell of column \<open>c\<close> that an identifier denotes in a list of batches.\<close>

definition cell_of_row ::
  "('b, 'a, 's, 'fl) arrow_api \<Rightarrow> 'b list \<Rightarrow> row_position_map \<Rightarrow> row_id \<Rightarrow> nat \<Rightarrow> 'fl cell option option" where
  "cell_of_row A bs pm r c = (case position_of pm r of
       None \<Rightarrow> None
     | Some (b, off) \<Rightarrow> if b < length bs \<and> off < ar_num_rows A (bs ! b)
         then Some (cell_at A (ar_column A (bs ! b) c) off) else None)"

lemma batch_offsets_nth:
  "b < length ns \<Longrightarrow> offset + sum_list ns \<le> usize_max \<Longrightarrow> batch_offsets offset ns ! b = offset + sum_list (take b ns)"
proof (induction ns arbitrary: offset b)
  case (Cons n ns)
  have "sat_add offset n = offset + n" using Cons.prems by (simp add: sat_add_def)
  with Cons show ?case by (cases b) (auto simp: add.assoc)
qed simp

lemma concat_nth:
  "b < length xss \<Longrightarrow> off < length (xss ! b) \<Longrightarrow>
     List.concat xss ! (sum_list (map length (take b xss)) + off) = xss ! b ! off"
proof (induction xss arbitrary: b)
  case (Cons xs xss)
  then show ?case by (cases b) (auto simp: nth_append add.assoc)
qed simp

lemma rebase_fold:
  "position_of (fold (rebase_row pm ns) ids m0) r =
     (case position_of pm r of
        Some (b, off) \<Rightarrow> if r \<in> set ids \<and> b < length ns \<and> off < ns ! b
          then Some (0, sat_add (batch_offsets 0 ns ! b) off) else position_of m0 r
      | None \<Rightarrow> position_of m0 r)"
  by (induction ids arbitrary: m0) (auto simp: rebase_row_def row_id.expand split: option.split prod.split)

lemma in_rpm_row_ids: "r \<in> set (rpm_row_ids pm) \<longleftrightarrow> position_of pm r \<noteq> None"
  by (cases r) (force simp: rpm_row_ids_def position_of_def map_of_eq_None_iff)

lemma rebase_position_of:
  "position_of (rebase_position_map pm ns) r =
     (case position_of pm r of
        Some (b, off) \<Rightarrow> if b < length ns \<and> off < ns ! b
          then Some (0, sat_add (batch_offsets 0 ns ! b) off) else None
      | None \<Rightarrow> None)"
proof -
  have "position_of rpm_new r = None" by (simp add: rpm_new_def position_of_def)
  then show ?thesis
    using in_rpm_row_ids [of r pm]
    by (cases "position_of pm r") (auto simp: rebase_position_map_def rebase_fold)
qed

text \<open>C36: Merging the batches of a table changes no row: whatever the view does with the
  batches and the position map it is given (keep one batch, merge several, keep them apart
  when they cannot be merged), every row identifier reads the same cell of every column
  through the view as in the original batches, and no row is lost.\<close>

theorem read_view_preserves_rows:
  assumes cat: "concat_ok A cat" and rows: "sum_list (map (ar_num_rows A) bs) \<le> usize_max"
    and col: "c < length (ar_fields A (ar_schema A (bs ! 0)))" "\<forall>b \<in> set bs. columnar A c b"
  shows "cell_of_row A (rv_batches (table_read_view_new A cat name tick bs spec (Some pm)))
      (rv_position_map (table_read_view_new A cat name tick bs spec (Some pm))) r c = cell_of_row A bs pm r c
    \<and> rv_total_rows A (table_read_view_new A cat name tick bs spec (Some pm)) = sum_list (map (ar_num_rows A) bs)"
proof (cases "length bs > 1 \<and> (\<exists>m. cat (ar_schema A (bs ! 0)) bs = Inr m)")
  case False
  then show ?thesis
    by (auto simp: table_read_view_new_def Let_def rv_total_rows_def split: sum.split)
next
  case True
  then obtain m where m: "cat (ar_schema A (bs ! 0)) bs = Inr m" by blast
  let ?ns = "map (ar_num_rows A) bs" and ?col = "\<lambda>b. ar_column A b c"
  have view: "table_read_view_new A cat name tick bs spec (Some pm) = \<lparr>rv_table_name = name, rv_tick = tick,
      rv_batches = [m], rv_schema = spec, rv_position_map = rebase_position_map pm ?ns\<rparr>"
    using True m by (simp add: table_read_view_new_def)
  have n: "ar_num_rows A m = sum_list ?ns" and cells: "cells A (?col m) = List.concat (map (\<lambda>b. cells A (?col b)) bs)"
    using cat m col(1) unfolding concat_ok_def by blast+
  have lens: "map (\<lambda>b. length (cells A (?col b))) bs = ?ns" using col(2) by (simp add: columnar_def)
  then have len: "ar_len A (?col m) = sum_list ?ns"
    using cells_len [OF cells] by (simp only: length_concat map_map comp_def)
  have cell: "cell_at A (?col m) (sum_list (take b ?ns) + off) = cell_at A (?col (bs ! b)) off
      \<and> sum_list (take b ?ns) + off < sum_list ?ns"
    if b: "b < length bs" and off: "off < ar_num_rows A (bs ! b)" for b off
  proof -
    have off': "off < ar_len A (?col (bs ! b))" using off col(2) b by (simp add: columnar_def)
    have "sum_list ?ns = sum_list (take b ?ns) + ar_num_rows A (bs ! b) + sum_list (drop (Suc b) ?ns)"
      using b arg_cong [OF id_take_nth_drop [of b ?ns], of sum_list] by simp
    with off have lt: "sum_list (take b ?ns) + off < sum_list ?ns" by simp
    have "List.concat (map (\<lambda>b. cells A (?col b)) bs) ! (sum_list (map length (take b (map (\<lambda>b. cells A (?col b)) bs))) + off)
        = cells A (?col (bs ! b)) ! off"
      using concat_nth [of b "map (\<lambda>b. cells A (?col b)) bs" off] b off' by simp
    moreover have "map length (take b (map (\<lambda>b. cells A (?col b)) bs)) = take b ?ns"
      unfolding lens [symmetric] by (simp add: take_map o_def)
    ultimately have "cells A (?col m) ! (sum_list (take b ?ns) + off) = cells A (?col (bs ! b)) ! off"
      using cells by simp
    then show ?thesis using lt len off' by simp
  qed
  have base: "sat_add (batch_offsets 0 ?ns ! b) off = sum_list (take b ?ns) + off"
    if "b < length bs" "off < ar_num_rows A (bs ! b)" for b off
    using cell [OF that] that(1) rows batch_offsets_nth [of b ?ns 0] by (simp add: sat_add_def)
  have "cell_of_row A [m] (rebase_position_map pm ?ns) r c = cell_of_row A bs pm r c"
    using cell base n by (auto simp: cell_of_row_def rebase_position_of split: option.split)
  then show ?thesis using n by (simp add: view rv_total_rows_def)
qed

text \<open>Merging for the list-backed batches: columns are appended.\<close>

definition list_concat :: "field list \<Rightarrow> (field list \<times> lcol list) list \<Rightarrow> string + (field list \<times> lcol list)" where
  "list_concat s bs =
     (if s = [] \<or> \<not> list_all (\<lambda>b. lfit s (snd b)) bs then Inl ''schema mismatch''
      else Inr (s, map (\<lambda>i. fresh_col (fst (snd (s ! i))) (List.concat (map (\<lambda>b. lrows (snd b ! i)) bs))) [0..<length s]))"

definition read_cell :: "data_type \<Rightarrow> int cell option \<Rightarrow> int cell option" where
  "read_cell dt c = map_option (\<lambda>_. if prim_type dt then CNative (cell_native c)
     else if dt = Boolean then CBool (cell_bool c) else CStr (cell_str c)) c"

lemma cells_list_arrow: "cells list_arrow a = map (read_cell (ltype a)) (lrows a)"
proof -
  have "cell_at list_arrow a i = read_cell (ltype a) (lcell a i)" for i
    by (cases "lcell a i") (simp_all add: cell_at_def read_cell_def)
  then have "cells list_arrow a = map (read_cell (ltype a)) (map (lcell a) [0..<length (lrows a)])"
    by (simp add: cells_def o_def)
  moreover have "map (lcell a) [0..<length (lrows a)] = lrows a"
    by (intro nth_equalityI) (simp_all add: lcell_def)
  ultimately show ?thesis by simp
qed

lemma lfit_nth:
  "lfit s cs \<Longrightarrow> i < length s \<Longrightarrow> ltype (cs ! i) = fst (snd (s ! i)) \<and> length (lrows (cs ! i)) = lnum_rows cs"
proof -
  assume fit: "lfit s cs" and i: "i < length s"
  from fit show ?thesis
    unfolding lfit_def by (elim conjE) (drule list_all2_nthD [OF _ i], simp add: split_beta)
qed

lemma list_concat_ok: "concat_ok list_arrow list_concat"
  unfolding concat_ok_def
proof (intro allI impI conjI)
  fix s bs m assume m: "list_concat s bs = Inr m"
  then have s: "s \<noteq> []" and fit: "\<forall>b \<in> set bs. lfit s (snd b)"
    and m': "m = (s, map (\<lambda>i. fresh_col (fst (snd (s ! i))) (List.concat (map (\<lambda>b. lrows (snd b ! i)) bs))) [0..<length s])"
    by (auto simp: list_concat_def list_all_iff split: if_splits)
  have len: "map (\<lambda>b. length (lrows (snd b ! i))) bs = map (\<lambda>b. lnum_rows (snd b)) bs" if "i < length s" for i
    using fit lfit_nth that by (intro map_cong) blast+
  have upt: "[0..<length s] = 0 # [1..<length s]" using s by (simp add: upt_conv_Cons)
  show "ar_num_rows list_arrow m = sum_list (map (ar_num_rows list_arrow) bs)"
  proof -
    have "ar_num_rows list_arrow m = sum_list (map (\<lambda>b. length (lrows (snd b ! 0))) bs)"
      by (simp add: m' lnum_rows_def upt length_concat o_def)
    also have "\<dots> = sum_list (map (ar_num_rows list_arrow) bs)"
    proof -
      have "ar_num_rows list_arrow = (\<lambda>b. lnum_rows (snd b))" by (simp add: fun_eq_iff)
      moreover have "0 < length s" using s by simp
      ultimately show ?thesis using arg_cong [OF len [of 0], of sum_list] by (simp only:)
    qed
    finally show ?thesis .
  qed
  fix c assume c: "c < length (ar_fields list_arrow s)"
  have cells: "map (\<lambda>b. cells list_arrow (snd b ! c)) bs = map (\<lambda>b. map (read_cell (fst (snd (s ! c)))) (lrows (snd b ! c))) bs"
    using fit lfit_nth c by (intro map_cong) (auto simp: cells_list_arrow)
  have "cells list_arrow (ar_column list_arrow m c)
      = List.concat (map (\<lambda>b. map (read_cell (fst (snd (s ! c)))) (lrows (snd b ! c))) bs)"
    using c by (simp add: m' cells_list_arrow map_concat o_def)
  then show "cells list_arrow (ar_column list_arrow m c) = List.concat (map (\<lambda>b. cells list_arrow (ar_column list_arrow b c)) bs)"
    unfolding cells [symmetric] by simp
qed

theorem read_view_preserves_rows_witness:
  "cell_of_row list_arrow (rv_batches (table_read_view_new list_arrow list_concat ''units'' (Tick 1) [demo_batch, demo_batch]
        demo_spec (Some (rpm_insert rpm_new (RowId 7) 1 0))))
      (rv_position_map (table_read_view_new list_arrow list_concat ''units'' (Tick 1) [demo_batch, demo_batch]
        demo_spec (Some (rpm_insert rpm_new (RowId 7) 1 0)))) (RowId 7) 0 = Some (Some (CNative (NInt 1)))"
proof -
  have num: "ar_num_rows list_arrow demo_batch = 2" by (simp add: demo_batch_def lnum_rows_def)
  have view: "cell_of_row list_arrow (rv_batches (table_read_view_new list_arrow list_concat ''units'' (Tick 1)
        [demo_batch, demo_batch] demo_spec (Some (rpm_insert rpm_new (RowId 7) 1 0))))
      (rv_position_map (table_read_view_new list_arrow list_concat ''units'' (Tick 1) [demo_batch, demo_batch]
        demo_spec (Some (rpm_insert rpm_new (RowId 7) 1 0)))) (RowId 7) 0
    = cell_of_row list_arrow [demo_batch, demo_batch] (rpm_insert rpm_new (RowId 7) 1 0) (RowId 7) 0"
  proof (rule conjunct1 [OF read_view_preserves_rows [OF list_concat_ok]])
    show "sum_list (map (ar_num_rows list_arrow) [demo_batch, demo_batch]) \<le> usize_max"
      using num by (simp add: usize_max_def del: list_arrow_simps)
    show "0 < length (ar_fields list_arrow (ar_schema list_arrow ([demo_batch, demo_batch] ! 0)))"
      by (simp add: demo_batch_def demo_fields_def)
    show "\<forall>b \<in> set [demo_batch, demo_batch]. columnar list_arrow 0 b"
      by (simp add: columnar_def demo_batch_def lnum_rows_def)
  qed
  show ?thesis unfolding view
    by (simp add: cell_of_row_def num del: list_arrow_simps)
      (simp add: demo_batch_def cell_at_def lcell_def fresh_col_def)
qed

theorem inspect_page_window_witness:
  "(case inspect_page demo_json list_arrow (inspector_register inspector_new demo_spec) ''units'' [demo_batch, demo_batch] 1 3 of
      Inl e \<Rightarrow> False
    | Inr p \<Rightarrow> length (ip_rows p) = 1 \<and> \<not> page_has_next p)"
proof -
  have num: "ar_num_rows list_arrow demo_batch = 2" by (simp add: demo_batch_def lnum_rows_def)
  have spec: "inspector_schema (inspector_register inspector_new demo_spec) ''units'' = Inr demo_spec"
    by (simp add: inspector_schema_def inspector_register_def inspector_new_def demo_spec_def
        table_spec_deserialize_def rebuild_index_def)
  from inspect_page_window [where A = list_arrow and J = demo_json and bs = "[demo_batch, demo_batch]" and i = 1 and n = 3,
      OF spec] num
  show ?thesis by (simp add: usize_max_def length_all_rows del: list_arrow_simps split: sum.splits)
qed

end
