(* ===== verification/Query_Engine.thy ===== *)
theory Query_Engine
  imports Query_Views Ascii_Text
begin

section \<open>The query engine (scharnhorst\_query)\<close>

text \<open>
  engine.rs: schema access and validation, the staged ingestion of a committed snapshot
  with its rollback (the \<open>SnapshotIngestor\<close> the journal drives), reads of the published
  views, the statement guard of \<open>sql\<close>, the ring of diff summaries; debug\_write.rs: the
  ring of observed writes. Locks are never poisoned. DataFusion, which runs an accepted
  statement, is not modelled. The engine is the first provider of the locale
  \<open>snapshot_ingestor\<close>, which states what a commit relies on.
\<close>

subsection \<open>debug\_write.rs\<close>

datatype debug_write_op =
    DwAppend string tick nat
  | DwPatch string tick "nat list"
  | DwDelete string tick "nat list"
  | DwRebuild string tick nat

fun dw_table_name :: "debug_write_op \<Rightarrow> string" where
  "dw_table_name (DwAppend t k n) = t"
| "dw_table_name (DwPatch t k rs) = t"
| "dw_table_name (DwDelete t k rs) = t"
| "dw_table_name (DwRebuild t k n) = t"

fun dw_tick :: "debug_write_op \<Rightarrow> tick" where
  "dw_tick (DwAppend t k n) = k"
| "dw_tick (DwPatch t k rs) = k"
| "dw_tick (DwDelete t k rs) = k"
| "dw_tick (DwRebuild t k n) = k"

record debug_write_journal =
  dj_capacity :: nat
  dj_ops :: "debug_write_op list"
  dj_enabled :: bool

definition debug_journal_new :: "nat \<Rightarrow> debug_write_journal" where
  "debug_journal_new capacity = \<lparr>dj_capacity = capacity, dj_ops = [], dj_enabled = True\<rparr>"

definition debug_journal_default :: debug_write_journal where
  "debug_journal_default = debug_journal_new 1024"

definition debug_set_enabled :: "debug_write_journal \<Rightarrow> bool \<Rightarrow> debug_write_journal" where
  "debug_set_enabled j b = j\<lparr>dj_enabled := b\<rparr>"

definition debug_record :: "debug_write_journal \<Rightarrow> debug_write_op \<Rightarrow> debug_write_journal" where
  "debug_record j op =
     (if \<not> dj_enabled j then j
      else j\<lparr>dj_ops := (if length (dj_ops j) \<ge> dj_capacity j then tl (dj_ops j) else dj_ops j) @ [op]\<rparr>)"

definition debug_clear :: "debug_write_journal \<Rightarrow> debug_write_journal" where
  "debug_clear j = j\<lparr>dj_ops := []\<rparr>"

definition debug_latest :: "debug_write_journal \<Rightarrow> debug_write_op option" where
  "debug_latest j = (case dj_ops j of [] \<Rightarrow> None | ops \<Rightarrow> Some (last ops))"

definition debug_ops_for_table :: "debug_write_journal \<Rightarrow> string \<Rightarrow> debug_write_op list" where
  "debug_ops_for_table j table = filter (\<lambda>op. dw_table_name op = table) (dj_ops j)"

fun diff_to_debug_write_op :: "'j diff \<Rightarrow> tick \<Rightarrow> debug_write_op" where
  "diff_to_debug_write_op (DUpdate table row column value) tick = DwPatch table tick []"
| "diff_to_debug_write_op (DInsert table row values) tick = DwAppend table tick 1"
| "diff_to_debug_write_op (DDelete table row) tick = DwDelete table tick []"
| "diff_to_debug_write_op (DReplaceTable table rows) tick = DwRebuild table tick 0"

subsection \<open>The ring of diff summaries\<close>

record diff_summary =
  ds_tick :: u64
  ds_table_name :: string
  ds_diff_kind :: string
  ds_summary :: string

record diff_summary_ring =
  dr_capacity :: nat
  dr_entries :: "diff_summary list"

definition ring_new :: "nat \<Rightarrow> diff_summary_ring" where
  "ring_new capacity = \<lparr>dr_capacity = capacity, dr_entries = []\<rparr>"

text \<open>
  \<open>while len >= capacity { pop_front }\<close> as a partial function: with capacity 0 the loop
  never ends, since \<open>pop_front\<close> of an empty queue leaves its length at 0.
\<close>

partial_function (option) ring_make_room :: "nat \<Rightarrow> 'a list \<Rightarrow> 'a list option" where
  "ring_make_room capacity entries =
     (if length entries \<ge> capacity then ring_make_room capacity (tl entries) else Some entries)"

fun ring_push :: "diff_summary list \<Rightarrow> diff_summary_ring \<Rightarrow> diff_summary_ring option" where
  "ring_push [] r = Some r"
| "ring_push (e # es) r =
     (case ring_make_room (dr_capacity r) (dr_entries r) of
        None \<Rightarrow> None
      | Some entries \<Rightarrow> ring_push es (r\<lparr>dr_entries := entries @ [e]\<rparr>))"

definition ring_clear :: "diff_summary_ring \<Rightarrow> diff_summary_ring" where
  "ring_clear r = r\<lparr>dr_entries := []\<rparr>"

fun diff_summary_of :: "('j \<Rightarrow> string) \<Rightarrow> tick \<Rightarrow> 'j diff \<Rightarrow> diff_summary" where
  "diff_summary_of show_json tick (DUpdate table row column value) =
     \<lparr>ds_tick = tick_as_u64 tick, ds_table_name = table, ds_diff_kind = ''Update'',
      ds_summary = table @ ''.'' @ column @ ''@'' @ show_u64 (row_id_as_u64 row) @ '' = '' @ show_json value\<rparr>"
| "diff_summary_of show_json tick (DInsert table row values) =
     \<lparr>ds_tick = tick_as_u64 tick, ds_table_name = table, ds_diff_kind = ''Insert'',
      ds_summary = ''insert into '' @ table @ '' ('' @ show_nat (length values) @ '' cols) @'' @ show_u64 (row_id_as_u64 row)\<rparr>"
| "diff_summary_of show_json tick (DDelete table row) =
     \<lparr>ds_tick = tick_as_u64 tick, ds_table_name = table, ds_diff_kind = ''Delete'',
      ds_summary = ''delete from '' @ table @ '' @'' @ show_u64 (row_id_as_u64 row)\<rparr>"
| "diff_summary_of show_json tick (DReplaceTable table rows) =
     \<lparr>ds_tick = tick_as_u64 tick, ds_table_name = table, ds_diff_kind = ''ReplaceTable'',
      ds_summary = ''replace '' @ table @ '' ('' @ show_nat (length rows) @ '' rows)''\<rparr>"

subsection \<open>State\<close>

text \<open>The staging area of an ingestion, and what a rollback restores.\<close>

record 'b pending_ingest =
  pi_tick :: "tick option"
  pi_views :: "(string \<times> 'b table_read_view) list"

definition pending_ingest_new :: "'b pending_ingest" where
  "pending_ingest_new = \<lparr>pi_tick = None, pi_views = []\<rparr>"

record 'b ingest_rollback =
  ir_cache :: "(string \<times> 'b table_read_view) list"
  ir_tick :: u64
  ir_snapshot :: "'b world_snapshot option"

record 'b query_engine =
  qe_schema_registry :: schema_registry
  qe_inspector :: inspector_console
  qe_debug_journal :: debug_write_journal
  qe_latest_tick :: u64
  qe_view_cache :: "(string \<times> 'b table_read_view) list"
  qe_latest_snapshot :: "'b world_snapshot option"
  qe_pending_ingest :: "'b pending_ingest option"
  qe_diff_ring :: diff_summary_ring

definition query_engine_new :: "schema_registry \<Rightarrow> 'b query_engine" where
  "query_engine_new reg = \<lparr>qe_schema_registry = reg, qe_inspector = inspector_new,
     qe_debug_journal = debug_journal_default, qe_latest_tick = - 1, qe_view_cache = [],
     qe_latest_snapshot = None, qe_pending_ingest = None, qe_diff_ring = ring_new 1024\<rparr>"

subsection \<open>Schema access\<close>

definition register_table_schema :: "'b query_engine \<Rightarrow> table_spec \<Rightarrow> (query_error + unit) \<times> 'b query_engine" where
  "register_table_schema q spec =
     (case register (qe_schema_registry q) spec of
        Inl e \<Rightarrow> (Inl (QESchema e), q)
      | Inr reg \<Rightarrow> (Inr (), q\<lparr>qe_schema_registry := reg, qe_inspector := inspector_register (qe_inspector q) spec\<rparr>))"

definition table_schema :: "'b query_engine \<Rightarrow> string \<Rightarrow> query_error + table_spec" where
  "table_schema q name = map_err QESchema (registry_get (qe_schema_registry q) name)"

definition edge_key :: "relation_edge \<Rightarrow> string" where
  "edge_key e = re_from e @ '' -> '' @ re_to e"

definition resolve_relation_edge :: "'b query_engine \<Rightarrow> string \<Rightarrow> query_error + relation_edge" where
  "resolve_relation_edge q key =
     ok_or (find (\<lambda>e. edge_key e = key) (rg_edges (sr_relations (qe_schema_registry q)))) (QERelationNotFound key)"

definition is_schema_frozen :: "'b query_engine \<Rightarrow> bool" where
  "is_schema_frozen q = sr_frozen (qe_schema_registry q)"

definition freeze_schema_registry :: "'b query_engine \<Rightarrow> 'b query_engine" where
  "freeze_schema_registry q = q\<lparr>qe_schema_registry := freeze (qe_schema_registry q)\<rparr>"

datatype validation_error_kind = MissingTable | MissingColumn | MissingRelation

record validation_error =
  ve_path :: string
  ve_kind :: validation_error_kind
  ve_message :: string

record validatable_path =
  vp_path :: string
  vp_table :: string
  vp_columns :: "string list"
  vp_relations :: "string list"

definition validate_path :: "schema_registry \<Rightarrow> validatable_path \<Rightarrow> validation_error list" where
  "validate_path reg p =
     (case registry_get reg (vp_table p) of
        Inr spec \<Rightarrow>
          map (\<lambda>c. \<lparr>ve_path = vp_path p, ve_kind = MissingColumn,
              ve_message = ''column '' @ quoted c @ '' not found in table '' @ quoted (vp_table p)\<rparr>)
            (filter (\<lambda>c. column_by_name spec c = None) (vp_columns p))
          @ map (\<lambda>r. \<lparr>ve_path = vp_path p, ve_kind = MissingRelation,
              ve_message = ''relation '' @ quoted r @ '' not found for path '' @ quoted (vp_path p)\<rparr>)
            (filter (\<lambda>r. \<not> list_ex (\<lambda>e. edge_key e = r) (rg_edges (sr_relations reg))) (vp_relations p))
      | Inl _ \<Rightarrow> [\<lparr>ve_path = vp_path p, ve_kind = MissingTable,
          ve_message = ''table '' @ quoted (vp_table p) @ '' not found for path '' @ quoted (vp_path p)\<rparr>])"

definition validate :: "'b query_engine \<Rightarrow> validatable_path list \<Rightarrow> validation_error list" where
  "validate q paths = List.concat (map (validate_path (qe_schema_registry q)) paths)"

subsection \<open>Ingestion\<close>

text \<open>\<open>u64::MAX\<close> is the sentinel for "no tick".\<close>

definition engine_latest_tick :: "'b query_engine \<Rightarrow> tick option" where
  "engine_latest_tick q = (if qe_latest_tick q = - 1 then None else Some (Tick (qe_latest_tick q)))"

definition sentinel_collision :: query_error where
  "sentinel_collision = QEUnsupportedOperation ''Tick sentinel collision: u64::MAX is reserved''"

definition engine_ingest ::
  "('b, 'a, 's, 'fl) arrow_api \<Rightarrow> ('s \<Rightarrow> 'b list \<Rightarrow> string + 'b) \<Rightarrow> tick \<Rightarrow> string \<Rightarrow> 'b list \<Rightarrow> row_position_map
     \<Rightarrow> 'b query_engine \<Rightarrow> (query_error + unit) \<times> 'b query_engine" where
  "engine_ingest A cat tick name batches pm q =
     (if tick_as_u64 tick = - 1 then (Inl sentinel_collision, q)
      else (case table_schema q name of
          Inl e \<Rightarrow> (Inl e, q)
        | Inr schema \<Rightarrow>
            let view = table_read_view_new A cat name tick batches schema (Some pm) in
            (case qe_pending_ingest q of
               Some state \<Rightarrow>
                 (case pi_tick state of
                    Some existing \<Rightarrow>
                      if existing \<noteq> tick then (Inl (QETicksMismatch tick (Some existing)), q)
                      else (Inr (), q\<lparr>qe_pending_ingest := Some (state\<lparr>pi_views := hm_insert name view (pi_views state)\<rparr>)\<rparr>)
                  | None \<Rightarrow> (Inr (), q\<lparr>qe_pending_ingest := Some (state\<lparr>pi_tick := Some tick,
                      pi_views := hm_insert name view (pi_views state)\<rparr>)\<rparr>))
             | None \<Rightarrow> (Inr (), q\<lparr>qe_view_cache := hm_insert name view (qe_view_cache q),
                 qe_latest_tick := tick_as_u64 tick\<rparr>))))"

definition store_world_snapshot :: "'b world_snapshot \<Rightarrow> 'b query_engine \<Rightarrow> (query_error + unit) \<times> 'b query_engine" where
  "store_world_snapshot snapshot q =
     (if tick_as_u64 (ws_tick snapshot) = - 1 then (Inl sentinel_collision, q)
      else (case qe_pending_ingest q of
          None \<Rightarrow> (Inr (), q\<lparr>qe_latest_snapshot := Some snapshot\<rparr>)
        | Some state \<Rightarrow>
            let publish = (Inr (), q\<lparr>qe_pending_ingest := None, qe_view_cache := pi_views state,
                  qe_latest_snapshot := Some snapshot, qe_latest_tick := tick_as_u64 (ws_tick snapshot)\<rparr>) in
            (case pi_tick state of
               Some staged \<Rightarrow>
                 if staged \<noteq> ws_tick snapshot then (Inl (QETicksMismatch (ws_tick snapshot) (Some staged)), q)
                 else publish
             | None \<Rightarrow> publish)))"

definition begin_ingest :: "'b query_engine \<Rightarrow> (string + 'b ingest_rollback) \<times> 'b query_engine" where
  "begin_ingest q =
     (if qe_pending_ingest q \<noteq> None then (Inl ''query ingest already active'', q)
      else (Inr \<lparr>ir_cache = qe_view_cache q, ir_tick = qe_latest_tick q, ir_snapshot = qe_latest_snapshot q\<rparr>,
            q\<lparr>qe_pending_ingest := Some pending_ingest_new\<rparr>))"

definition ingest_rollback_run :: "'b ingest_rollback \<Rightarrow> 'b query_engine \<Rightarrow> (string + unit) \<times> 'b query_engine" where
  "ingest_rollback_run r q = (Inr (), q\<lparr>qe_view_cache := ir_cache r, qe_latest_snapshot := ir_snapshot r,
     qe_pending_ingest := None, qe_latest_tick := ir_tick r\<rparr>)"

text \<open>The trait methods: the same operations with the error boxed as its text.\<close>

definition ingest_snapshot ::
  "('b, 'a, 's, 'fl) arrow_api \<Rightarrow> ('s \<Rightarrow> 'b list \<Rightarrow> string + 'b) \<Rightarrow> tick \<Rightarrow> string \<Rightarrow> 'b list \<Rightarrow> row_position_map
     \<Rightarrow> 'b query_engine \<Rightarrow> (string + unit) \<times> 'b query_engine" where
  "ingest_snapshot A cat tick name batches pm q =
     (let (r, q') = engine_ingest A cat tick name batches pm q in (map_err query_error_text r, q'))"

definition store_snapshot :: "'b world_snapshot \<Rightarrow> 'b query_engine \<Rightarrow> (string + unit) \<times> 'b query_engine" where
  "store_snapshot snapshot q = (let (r, q') = store_world_snapshot snapshot q in (map_err query_error_text r, q'))"

subsection \<open>Reads\<close>

definition engine_read :: "'b query_engine \<Rightarrow> read_request \<Rightarrow> query_error + 'b read_response" where
  "engine_read q req =
     (if rq_tick req \<noteq> tick_ZERO \<and> engine_latest_tick q \<noteq> Some (rq_tick req)
      then Inl (QETicksMismatch (rq_tick req) (engine_latest_tick q))
      else read_views (qe_view_cache q) req)"

definition read_single_table :: "'b query_engine \<Rightarrow> tick \<Rightarrow> string \<Rightarrow> query_error + 'b table_read_view" where
  "read_single_table q tick name =
     rbind (engine_read q (request_with_table (read_request_new tick) name)) (\<lambda>resp. response_get resp name)"

definition engine_snapshot :: "'b query_engine \<Rightarrow> query_error + 'b world_snapshot" where
  "engine_snapshot q = ok_or (qe_latest_snapshot q) (QEInvalidQuery ''no snapshot available'')"

definition cached_view :: "'b query_engine \<Rightarrow> string \<Rightarrow> query_error + 'b table_read_view" where
  "cached_view q name = ok_or (hm_get (qe_view_cache q) name) (QETableNotFound name)"

definition engine_column_view ::
  "('b, 'a, 's, 'fl) arrow_api \<Rightarrow> 'b query_engine \<Rightarrow> string \<Rightarrow> string \<Rightarrow> query_error + 'a column_view" where
  "engine_column_view A q table_name column_name =
     rbind (cached_view q table_name) (\<lambda>v. rbind (first_batch_columns A v) (\<lambda>cols.
     ok_or (hm_get cols column_name) (QEColumnNotFound column_name table_name)))"

definition engine_row_cursor :: "('b, 'a, 's, 'fl) arrow_api \<Rightarrow> 'b query_engine \<Rightarrow> string \<Rightarrow> query_error + 'a row_cursor" where
  "engine_row_cursor A q name = rbind (cached_view q name) (first_batch_cursor A)"

definition engine_batch_reader ::
  "('b, 'a, 's, 'fl) arrow_api \<Rightarrow> 'b query_engine \<Rightarrow> string \<Rightarrow> query_error + 'a batch_column_reader" where
  "engine_batch_reader A q name = rbind (cached_view q name) (first_batch_reader A)"

definition row_debug :: "row_id \<Rightarrow> string" where
  "row_debug r = ''RowId('' @ show_u64 (row_id_as_u64 r) @ '')''"

definition lookup_row :: "'b query_engine \<Rightarrow> string \<Rightarrow> row_id \<Rightarrow> query_error + 'b row_lookup_view" where
  "lookup_row q name r =
     rbind (ok_or (engine_latest_tick q) (QEInvalidQuery ''no tick available'')) (\<lambda>tick.
     rbind (read_single_table q tick name) (\<lambda>view.
     rbind (ok_or (position_of (rv_position_map view) r)
       (QEInvalidQuery (''row '' @ row_debug r @ '' not found in table '' @ quoted name))) (\<lambda>(batch_idx, offset).
     Inr (row_lookup_view_new (row_lookup_new r batch_idx offset) view))))"

definition inspect_table_summary ::
  "('b, 'a, 's, 'fl) arrow_api \<Rightarrow> 'b query_engine \<Rightarrow> string \<Rightarrow> query_error + table_summary" where
  "inspect_table_summary A q name =
     rbind (cached_view q name) (\<lambda>v. summarize_table A (qe_inspector q) name (rv_batches v))"

definition inspect_table_page ::
  "('j, 'fl) json_api \<Rightarrow> ('b, 'a, 's, 'fl) arrow_api \<Rightarrow> 'b query_engine \<Rightarrow> string \<Rightarrow> nat \<Rightarrow> nat
     \<Rightarrow> query_error + inspector_page" where
  "inspect_table_page J A q name page_index page_size =
     rbind (cached_view q name) (\<lambda>v. inspect_page J A (qe_inspector q) name (rv_batches v) page_index page_size)"

definition clear_cache :: "'b query_engine \<Rightarrow> 'b query_engine" where
  "clear_cache q = q\<lparr>qe_view_cache := []\<rparr>"

definition cached_table_names :: "'b query_engine \<Rightarrow> string list" where
  "cached_table_names q = map fst (qe_view_cache q)"

definition push_diff_summaries ::
  "('j \<Rightarrow> string) \<Rightarrow> 'b query_engine \<Rightarrow> 'j diff list \<Rightarrow> tick \<Rightarrow> 'b query_engine option" where
  "push_diff_summaries show_json q ds tick =
     map_option (\<lambda>r. q\<lparr>qe_diff_ring := r\<rparr>) (ring_push (map (diff_summary_of show_json tick) ds) (qe_diff_ring q))"

definition engine_diff_summaries :: "'b query_engine \<Rightarrow> diff_summary list" where
  "engine_diff_summaries q = dr_entries (qe_diff_ring q)"

subsection \<open>The statement guard of \<open>sql\<close>\<close>

text \<open>
  The scan of \<open>strip_single_trailing_statement_semicolon\<close>: the open quote, the index, and
  the number and last index of the semicolons outside quotes. Inside single quotes a
  doubled quote is skipped.
\<close>

function scan_semicolons :: "char option \<Rightarrow> nat \<Rightarrow> string \<Rightarrow> nat \<times> nat option \<Rightarrow> nat \<times> nat option" where
  "scan_semicolons quote i [] acc = acc"
| "scan_semicolons (Some q) i (c # cs) acc =
     (if c = q then
        (if q = CHR 0x27 \<and> cs \<noteq> [] \<and> hd cs = q then scan_semicolons (Some q) (i + 2) (tl cs) acc
         else scan_semicolons None (i + 1) cs acc)
      else scan_semicolons (Some q) (i + 1) cs acc)"
| "scan_semicolons None i (c # cs) (n, last_idx) =
     (if c = CHR 0x27 \<or> c = CHR 0x22 then scan_semicolons (Some c) (i + 1) cs (n, last_idx)
      else if c = CHR '';'' then scan_semicolons None (i + 1) cs (n + 1, Some i)
      else scan_semicolons None (i + 1) cs (n, last_idx))"
  by pat_completeness auto
termination by (relation "measure (\<lambda>(_, _, cs, _). length cs)") auto

definition strip_single_trailing_statement_semicolon :: "string \<Rightarrow> query_error + string" where
  "strip_single_trailing_statement_semicolon sql =
     (case scan_semicolons None 0 sql (0, None) of
        (n, idx) \<Rightarrow>
          if n = 0 then Inr sql
          else (case idx of
              Some i \<Rightarrow> if n = 1 \<and> trim (drop (i + 1) sql) = [] then Inr (trim_end (take i sql))
                else Inl (QESqlNotAllowed ''multi-statement SQL not allowed'')
            | None \<Rightarrow> Inl (QESqlNotAllowed ''multi-statement SQL not allowed'')))"

text \<open>What \<open>sql\<close> does before it hands the statement to DataFusion.\<close>

definition sql_guard :: "string \<Rightarrow> query_error + string" where
  "sql_guard sql_str =
     (let sql_trimmed = trim sql_str in
      if sql_trimmed = [] then Inl (QESqlNotAllowed ''empty SQL statement'')
      else rbind (strip_single_trailing_statement_semicolon sql_trimmed) (\<lambda>cleaned.
        let word = map to_upper (first_word cleaned) in
        if word \<noteq> ''SELECT'' \<and> word \<noteq> ''WITH''
        then Inl (QESqlNotAllowed (''only SELECT/WITH queries are allowed, got: '' @ word))
        else Inr cleaned))"

subsection \<open>The ingestion contract\<close>

text \<open>
  What a commit relies on: \<open>session r q0 q\<close> says that \<open>q\<close> was reached from \<open>q0\<close> by
  beginning an ingestion and then staging; then the rollback handle \<open>r\<close> restores \<open>q0\<close>. The
  readers see \<open>visible\<close>, which changes only when a snapshot is stored.
\<close>

locale snapshot_ingestor =
  fixes begin_op :: "'q \<Rightarrow> ('e + 'r) \<times> 'q"
    and ingest_op :: "tick \<Rightarrow> string \<Rightarrow> 'b list \<Rightarrow> row_position_map \<Rightarrow> 'q \<Rightarrow> ('e + unit) \<times> 'q"
    and store_op :: "'w \<Rightarrow> 'q \<Rightarrow> ('e + unit) \<times> 'q"
    and rollback_op :: "'r \<Rightarrow> 'q \<Rightarrow> ('e + unit) \<times> 'q"
    and session :: "'r \<Rightarrow> 'q \<Rightarrow> 'q \<Rightarrow> bool"
    and staging :: "'q \<Rightarrow> bool"
    and visible :: "'q \<Rightarrow> 'p"
  assumes begin_refused: "begin_op q = (Inl e, q') \<Longrightarrow> q' = q"
    and begin_session: "begin_op q = (Inr r, q') \<Longrightarrow> session r q q' \<and> staging q' \<and> visible q' = visible q"
    and ingest_session: "session r q0 q \<Longrightarrow> session r q0 (snd (ingest_op t n bs pm q))"
    and ingest_staging: "staging q \<Longrightarrow> staging (snd (ingest_op t n bs pm q)) \<and> visible (snd (ingest_op t n bs pm q)) = visible q"
    and store_session: "session r q0 q \<Longrightarrow> session r q0 (snd (store_op w q))"
    and store_refused: "store_op w q = (Inl e, q') \<Longrightarrow> q' = q"
    and rollback_restores: "session r q0 q \<Longrightarrow> rollback_op r q = (Inr (), q0)"
begin

fun ingest_all :: "(tick \<times> string \<times> 'b list \<times> row_position_map) list \<Rightarrow> 'q \<Rightarrow> ('e + unit) \<times> 'q" where
  "ingest_all [] q = (Inr (), q)"
| "ingest_all ((t, n, bs, pm) # xs) q =
     (case ingest_op t n bs pm q of (Inl e, q') \<Rightarrow> (Inl e, q') | (Inr _, q') \<Rightarrow> ingest_all xs q')"

lemma ingest_all_session: "session r q0 q \<Longrightarrow> session r q0 (snd (ingest_all xs q))"
proof (induction xs arbitrary: q)
  case (Cons x xs)
  obtain t n bs pm where x: "x = (t, n, bs, pm)" by (cases x)
  have "session r q0 (snd (ingest_op t n bs pm q))" by (rule ingest_session [OF Cons.prems])
  then show ?case
    using Cons.IH by (auto simp: x split: prod.split sum.split)
qed simp

lemma ingest_all_staging:
  "staging q \<Longrightarrow> staging (snd (ingest_all xs q)) \<and> visible (snd (ingest_all xs q)) = visible q"
proof (induction xs arbitrary: q)
  case (Cons x xs)
  obtain t n bs pm where x: "x = (t, n, bs, pm)" by (cases x)
  obtain res q1 where step: "ingest_op t n bs pm q = (res, q1)" by force
  have "staging q1" "visible q1 = visible q"
    using ingest_staging [OF Cons.prems, of t n bs pm] by (simp_all add: step)
  then show ?case
    using Cons.IH [of q1] by (cases res) (simp_all add: x step)
qed simp

lemma publish_fails_clean:
  assumes "begin_op q = (Inr r, q1)"
  shows "rollback_op r (snd (ingest_all xs q1)) = (Inr (), q)"
    and "rollback_op r (snd (store_op w (snd (ingest_all xs q1)))) = (Inr (), q)"
  using begin_session [OF assms] ingest_all_session store_session rollback_restores by blast+

end

definition engine_session :: "'b ingest_rollback \<Rightarrow> 'b query_engine \<Rightarrow> 'b query_engine \<Rightarrow> bool" where
  "engine_session r q0 q \<longleftrightarrow> q0 = q\<lparr>qe_view_cache := ir_cache r, qe_latest_snapshot := ir_snapshot r,
     qe_pending_ingest := None, qe_latest_tick := ir_tick r\<rparr>"

definition engine_staging :: "'b query_engine \<Rightarrow> bool" where
  "engine_staging q \<longleftrightarrow> qe_pending_ingest q \<noteq> None"

text \<open>All that the read operations look at.\<close>

definition engine_visible :: "'b query_engine \<Rightarrow> (string \<times> 'b table_read_view) list \<times> u64 \<times> 'b world_snapshot option" where
  "engine_visible q = (qe_view_cache q, qe_latest_tick q, qe_latest_snapshot q)"

lemmas engine_ops = begin_ingest_def ingest_rollback_run_def ingest_snapshot_def store_snapshot_def
  engine_ingest_def store_world_snapshot_def

lemma engine_ingest_cases:
  "engine_ingest A cat t n bs pm q = (res, q') \<Longrightarrow>
     q' = q \<or> (\<exists>p. qe_pending_ingest q \<noteq> None \<and> q' = q\<lparr>qe_pending_ingest := Some p\<rparr>)
     \<or> (\<exists>c l. qe_pending_ingest q = None \<and> q' = q\<lparr>qe_view_cache := c, qe_latest_tick := l\<rparr>)"
  by (auto simp: engine_ingest_def Let_def split: if_splits sum.splits option.splits)

interpretation qe: snapshot_ingestor begin_ingest "ingest_snapshot A cat" store_snapshot ingest_rollback_run
    engine_session engine_staging engine_visible
  for A :: "('b, 'a, 's, 'fl) arrow_api" and cat :: "'s \<Rightarrow> 'b list \<Rightarrow> string + 'b"
proof
  fix q q' :: "'b query_engine" and e
  assume "begin_ingest q = (Inl e, q')"
  then show "q' = q" by (simp add: begin_ingest_def split: if_splits)
next
  fix q q' :: "'b query_engine" and r
  assume "begin_ingest q = (Inr r, q')"
  then show "engine_session r q q' \<and> engine_staging q' \<and> engine_visible q' = engine_visible q"
    by (auto simp: begin_ingest_def engine_session_def engine_staging_def engine_visible_def split: if_splits)
next
  fix r and q0 q :: "'b query_engine" and t n bs pm
  assume s: "engine_session r q0 q"
  obtain res q' where step: "engine_ingest A cat t n bs pm q = (res, q')" by force
  from engine_ingest_cases [OF step] s show "engine_session r q0 (snd (ingest_snapshot A cat t n bs pm q))"
    by (auto simp: ingest_snapshot_def step engine_session_def)
next
  fix q :: "'b query_engine" and t n bs pm
  assume s: "engine_staging q"
  obtain res q' where step: "engine_ingest A cat t n bs pm q = (res, q')" by force
  from engine_ingest_cases [OF step] s
  show "engine_staging (snd (ingest_snapshot A cat t n bs pm q))
      \<and> engine_visible (snd (ingest_snapshot A cat t n bs pm q)) = engine_visible q"
    by (auto simp: ingest_snapshot_def step engine_staging_def engine_visible_def)
next
  fix r and q0 q :: "'b query_engine" and w
  assume "engine_session r q0 q"
  then show "engine_session r q0 (snd (store_snapshot w q))"
    by (auto simp: store_snapshot_def store_world_snapshot_def engine_session_def Let_def split: option.split)
next
  fix q q' :: "'b query_engine" and w e
  assume "store_snapshot w q = (Inl e, q')"
  then show "q' = q"
    by (auto simp: store_snapshot_def store_world_snapshot_def Let_def split: if_splits option.splits)
next
  fix r and q0 q :: "'b query_engine"
  assume "engine_session r q0 q"
  then show "ingest_rollback_run r q = (Inr (), q0)"
    by (simp add: ingest_rollback_run_def engine_session_def)
qed

subsection \<open>What a successful ingestion publishes\<close>

abbreviation read_view where
  "read_view A cat q t n bs pm \<equiv> table_read_view_new A cat n t bs (the (hm_get (sr_tables (qe_schema_registry q)) n)) (Some pm)"

lemma ingest_staged:
  assumes "qe_pending_ingest q = Some p" and "pi_tick p = None \<or> pi_tick p = Some t"
    and "tick_as_u64 t \<noteq> - 1" and "hm_contains (sr_tables (qe_schema_registry q)) n"
  shows "ingest_snapshot A cat t n bs pm q = (Inr (), q\<lparr>qe_pending_ingest := Some
      \<lparr>pi_tick = Some t, pi_views = hm_insert n (read_view A cat q t n bs pm) (pi_views p)\<rparr>\<rparr>)"
  using assms by (cases p)
    (auto simp: ingest_snapshot_def engine_ingest_def table_schema_def registry_get_def hm_contains_def Let_def)

lemma ingest_unregistered:
  "tick_as_u64 t \<noteq> - 1 \<Longrightarrow> \<not> hm_contains (sr_tables (qe_schema_registry q)) n \<Longrightarrow>
     ingest_snapshot A cat t n bs pm q = (Inl (''table not found: '' @ n), q)"
  by (simp add: ingest_snapshot_def engine_ingest_def table_schema_def registry_get_def hm_contains_def)

subsection \<open>The ring of diff summaries\<close>

lemma ring_make_room_stuck: "ring_make_room 0 xs = None"
proof -
  have "ring_make_room n xs = Some ys \<Longrightarrow> n \<noteq> 0" for n and xs ys :: "'a list"
  proof (rule ring_make_room.raw_induct [where P = "\<lambda>n xs ys. n \<noteq> 0"])
    fix f :: "nat \<Rightarrow> 'a list \<Rightarrow> 'a list option" and n xs ys
    assume "\<And>n xs ys. f n xs = Some ys \<Longrightarrow> n \<noteq> 0"
      and "(if n \<le> length xs then f n (tl xs) else Some xs) = Some ys"
    then show "n \<noteq> 0" by (cases "n \<le> length xs") auto
  qed
  then show ?thesis by (cases "ring_make_room 0 xs") auto
qed

lemma ring_make_room_Some:
  "n > 0 \<Longrightarrow> ring_make_room n xs = Some (drop (length xs + 1 - n) xs)"
proof (induction xs)
  case Nil
  then show ?case by (simp add: ring_make_room.simps)
next
  case (Cons x xs)
  then show ?case
    by (subst ring_make_room.simps) (auto simp: Suc_diff_le not_le)
qed

definition newest :: "nat \<Rightarrow> 'a list \<Rightarrow> 'a list" where
  "newest n xs = drop (length xs - n) xs"

lemma newest_newest: "newest n (newest n ys @ es) = newest n (ys @ es)"
proof (cases "length ys \<le> n")
  case False
  define k where "k = length ys - n"
  have "newest n ys = drop k ys" and len: "length (drop k ys) = n" using False by (simp_all add: newest_def k_def)
  then have "newest n (newest n ys @ es) = drop (length es) (drop k ys @ es)" by (simp add: newest_def)
  also have "drop k ys @ es = drop k (ys @ es)" using False by (simp add: k_def)
  also have "drop (length es) (drop k (ys @ es)) = newest n (ys @ es)"
    using False by (simp add: newest_def k_def add.commute)
  finally show ?thesis .
qed (simp add: newest_def)

text \<open>C40: Pushing diff summaries returns exactly when the ring has room for one entry:
  a ring of capacity 0 makes the eviction loop run forever (no result), and with any
  other capacity the ring ends with the newest \<open>capacity\<close> entries in order.\<close>

theorem ring_push_terminates:
  "ring_push es r =
     (if es = [] then Some r
      else if dr_capacity r = 0 then None
      else Some (r\<lparr>dr_entries := newest (dr_capacity r) (dr_entries r @ es)\<rparr>))"
proof (induction es arbitrary: r)
  case (Cons e es)
  show ?case
  proof (cases "dr_capacity r = 0")
    case True
    then show ?thesis by (simp add: ring_make_room_stuck)
  next
    case False
    let ?n = "dr_capacity r"
    have "ring_make_room ?n (dr_entries r) = Some (drop (length (dr_entries r) + 1 - ?n) (dr_entries r))"
      using False by (intro ring_make_room_Some) simp
    moreover have "drop (length (dr_entries r) + 1 - ?n) (dr_entries r) @ [e] = newest ?n (dr_entries r @ [e])"
      using False by (simp add: newest_def)
    ultimately have step: "ring_push (e # es) r = ring_push es (r\<lparr>dr_entries := newest ?n (dr_entries r @ [e])\<rparr>)"
      by simp
    show ?thesis
      unfolding step Cons.IH using False newest_newest [of ?n "dr_entries r @ [e]" es] by simp
  qed
qed simp

end
