(* ===== verification/Journal.thy ===== *)
theory Journal
  imports Query_Engine
begin

section \<open>The journal (scharnhorst\_journal)\<close>

text \<open>
  command.rs, commit.rs, error.rs, save\_journal.rs and journal.rs: submissions for the open
  tick and their atomic commit. A commit works on the store (Store.thy), publishes to a
  snapshot ingestor (the query engine, Query\_Engine.thy) and appends to a save journal;
  both are trait objects, so their operations are fields of the environment. The text of a
  diff under serde is a parameter. Telemetry, compiled only with a feature, is left out.
\<close>

subsection \<open>Commands, commits, errors\<close>

datatype 'j command =
    TransferControl row_id row_id row_id
  | UpdateColumn string row_id string 'j
  | InsertRow string "(string \<times> 'j) list"
  | DeleteRow string row_id
  | RawCommand string 'j

record 'j command_envelope =
  ce_tick :: tick
  ce_source :: string
  ce_command :: "'j command"

definition envelope_new :: "tick \<Rightarrow> string \<Rightarrow> 'j command \<Rightarrow> 'j command_envelope" where
  "envelope_new t src c = \<lparr>ce_tick = t, ce_source = src, ce_command = c\<rparr>"

record commit_result =
  co_tick :: tick
  co_diff_count :: nat
  co_command_count :: nat
  co_state_hash :: u64

datatype commit_phase = CpOpen | CpCommitting | CpCommitted

record 'j commit_record =
  cr_tick :: tick
  cr_diffs :: "'j diff list"
  cr_commands :: "'j command_envelope list"
  cr_state_hash :: u64

definition commit_record_new :: "tick \<Rightarrow> 'j diff list \<Rightarrow> u64 \<Rightarrow> 'j commit_record" where
  "commit_record_new t ds h = \<lparr>cr_tick = t, cr_diffs = ds, cr_commands = [], cr_state_hash = h\<rparr>"

definition record_with_commands ::
  "tick \<Rightarrow> 'j diff list \<Rightarrow> 'j command_envelope list \<Rightarrow> u64 \<Rightarrow> 'j commit_record" where
  "record_with_commands t ds cs h = \<lparr>cr_tick = t, cr_diffs = ds, cr_commands = cs, cr_state_hash = h\<rparr>"

datatype journal_error =
    JECommitFailed string
  | JESubmitFailed string
  | JEInvalidPhase string
  | JEInvalidTick u64 u64
  | JETableNotFound string
  | JEColumnNotFound string
  | JERowNotFound string
  | JEDiffValidation string
  | JECommandValidation string
  | JESaveJournal string
  | JEArrowStore string
  | JESchema string
  | JEIo string
  | JEGeneric string
  | JESqlParse string
  | JESqlExecution string
  | JESqlUnsupported string
  | JESqlTypeError string string

fun journal_error_text :: "journal_error \<Rightarrow> string" where
  "journal_error_text (JECommitFailed s) = ''commit failed: '' @ s"
| "journal_error_text (JESubmitFailed s) = ''submit failed: '' @ s"
| "journal_error_text (JEInvalidPhase s) = ''invalid journal phase for operation: '' @ s"
| "journal_error_text (JEInvalidTick e g) = ''invalid tick: expected '' @ show_u64 e @ '', got '' @ show_u64 g"
| "journal_error_text (JETableNotFound s) = ''table not found: '' @ s"
| "journal_error_text (JEColumnNotFound s) = ''column not found: '' @ s"
| "journal_error_text (JERowNotFound s) = ''row not found: '' @ s"
| "journal_error_text (JEDiffValidation s) = ''diff validation failed: '' @ s"
| "journal_error_text (JECommandValidation s) = ''command validation failed: '' @ s"
| "journal_error_text (JESaveJournal s) = ''save journal error: '' @ s"
| "journal_error_text (JEArrowStore s) = ''arrow store error: '' @ s"
| "journal_error_text (JESchema s) = ''schema error: '' @ s"
| "journal_error_text (JEIo s) = ''io error: '' @ s"
| "journal_error_text (JEGeneric s) = ''generic error: '' @ s"
| "journal_error_text (JESqlParse s) = ''SQL parse error: '' @ s"
| "journal_error_text (JESqlExecution s) = ''SQL execution error: '' @ s"
| "journal_error_text (JESqlUnsupported s) = ''unsupported SQL feature: '' @ s"
| "journal_error_text (JESqlTypeError e a) = ''SQL type error: expected '' @ e @ '', got '' @ a"

subsection \<open>save\_journal.rs\<close>

text \<open>The in-memory save journal; \<open>append_tick\<close> is the trait's convenience method.\<close>

record 'j in_memory_save_journal =
  sj_entries :: "'j commit_record list"

definition save_journal_new :: "'j in_memory_save_journal" where
  "save_journal_new = \<lparr>sj_entries = []\<rparr>"

definition sj_append :: "'j commit_record \<Rightarrow> 'j in_memory_save_journal \<Rightarrow> (journal_error + unit) \<times> 'j in_memory_save_journal" where
  "sj_append r sj = (Inr (), sj\<lparr>sj_entries := sj_entries sj @ [r]\<rparr>)"

definition append_tick ::
  "('j commit_record \<Rightarrow> 'sj \<Rightarrow> (journal_error + unit) \<times> 'sj) \<Rightarrow> tick \<Rightarrow> 'j diff list \<Rightarrow> 'sj \<Rightarrow> (journal_error + unit) \<times> 'sj" where
  "append_tick app tick ds sj = app (commit_record_new tick ds 0) sj"

definition sj_flush :: "'j in_memory_save_journal \<Rightarrow> (journal_error + unit) \<times> 'j in_memory_save_journal" where
  "sj_flush sj = (Inr (), sj)"

definition sj_truncate_before :: "tick \<Rightarrow> 'j in_memory_save_journal \<Rightarrow> (journal_error + unit) \<times> 'j in_memory_save_journal" where
  "sj_truncate_before tick sj = (Inr (), sj\<lparr>sj_entries := filter (\<lambda>r. cr_tick r \<ge> tick) (sj_entries sj)\<rparr>)"

subsection \<open>The journal\<close>

record ('j, 'a, 'b, 's, 'fl, 'q, 'r, 'sj) journal_env =
  je_store :: "('j, 'a, 'b, 's, 'fl) store_env"
  je_serialize :: "'j diff \<Rightarrow> string + string"
  je_order :: "string list \<Rightarrow> string list"
  je_begin :: "'q \<Rightarrow> (string + 'r) \<times> 'q"
  je_ingest :: "tick \<Rightarrow> string \<Rightarrow> 'b list \<Rightarrow> row_position_map \<Rightarrow> 'q \<Rightarrow> (string + unit) \<times> 'q"
  je_store_snapshot :: "'b world_snapshot \<Rightarrow> 'q \<Rightarrow> (string + unit) \<times> 'q"
  je_rollback :: "'r \<Rightarrow> 'q \<Rightarrow> (string + unit) \<times> 'q"
  je_append :: "'j commit_record \<Rightarrow> 'sj \<Rightarrow> (journal_error + unit) \<times> 'sj"

record ('j, 'a, 'b, 'q, 'sj) journal =
  jr_current_tick :: tick
  jr_phase :: commit_phase
  jr_pending_commands :: "'j command_envelope list"
  jr_pending_diffs :: "'j diff list"
  jr_history :: "'j commit_record list"
  jr_save_journal :: "'sj option"
  jr_store :: "('j, 'a, 'b) arrow_store"
  jr_query_engine :: "'q option"

definition journal_new :: "('j, 'a, 'b) arrow_store \<Rightarrow> ('j, 'a, 'b, 'q, 'sj) journal" where
  "journal_new s = \<lparr>jr_current_tick = tick_ZERO, jr_phase = CpOpen, jr_pending_commands = [],
     jr_pending_diffs = [], jr_history = [], jr_save_journal = None, jr_store = s, jr_query_engine = None\<rparr>"

definition with_save_journal :: "('j, 'a, 'b, 'q, 'sj) journal \<Rightarrow> 'sj \<Rightarrow> ('j, 'a, 'b, 'q, 'sj) journal" where
  "with_save_journal j sj = j\<lparr>jr_save_journal := Some sj\<rparr>"

definition with_query_engine :: "('j, 'a, 'b, 'q, 'sj) journal \<Rightarrow> 'q \<Rightarrow> ('j, 'a, 'b, 'q, 'sj) journal" where
  "with_query_engine j q = j\<lparr>jr_query_engine := Some q\<rparr>"

definition submit_command ::
  "'j command_envelope \<Rightarrow> ('j, 'a, 'b, 'q, 'sj) journal \<Rightarrow> (journal_error + unit) \<times> ('j, 'a, 'b, 'q, 'sj) journal" where
  "submit_command e j =
     (if jr_phase j \<noteq> CpOpen then (Inl (JESubmitFailed ''commit already in progress''), j)
      else if ce_tick e \<noteq> jr_current_tick j
      then (Inl (JEInvalidTick (tick_as_u64 (jr_current_tick j)) (tick_as_u64 (ce_tick e))), j)
      else (Inr (), j\<lparr>jr_pending_commands := jr_pending_commands j @ [e]\<rparr>))"

text \<open>\<open>try_for_each\<close>: what was submitted before the first error stays.\<close>

fun try_each :: "('x \<Rightarrow> 's \<Rightarrow> ('e + unit) \<times> 's) \<Rightarrow> 'x list \<Rightarrow> 's \<Rightarrow> ('e + unit) \<times> 's" where
  "try_each f [] s = (Inr (), s)"
| "try_each f (x # xs) s = (case f x s of (Inl e, s') \<Rightarrow> (Inl e, s') | (Inr _, s') \<Rightarrow> try_each f xs s')"

definition submit_commands ::
  "'j command_envelope list \<Rightarrow> ('j, 'a, 'b, 'q, 'sj) journal \<Rightarrow> (journal_error + unit) \<times> ('j, 'a, 'b, 'q, 'sj) journal" where
  "submit_commands es j = try_each submit_command es j"

definition submit_diff ::
  "'j diff \<Rightarrow> ('j, 'a, 'b, 'q, 'sj) journal \<Rightarrow> (journal_error + unit) \<times> ('j, 'a, 'b, 'q, 'sj) journal" where
  "submit_diff d j =
     (if jr_phase j \<noteq> CpOpen then (Inl (JESubmitFailed ''commit already in progress''), j)
      else (Inr (), j\<lparr>jr_pending_diffs := jr_pending_diffs j @ [d]\<rparr>))"

definition submit_batch ::
  "'j diff_batch \<Rightarrow> ('j, 'a, 'b, 'q, 'sj) journal \<Rightarrow> (journal_error + unit) \<times> ('j, 'a, 'b, 'q, 'sj) journal" where
  "submit_batch b j = try_each submit_diff (db_diffs b) j"

definition fnv1a_64 :: "string \<Rightarrow> u64" where
  "fnv1a_64 bytes = fold (\<lambda>c hash. (xor hash (of_nat (of_char c))) * 0x100000001b3) bytes 0xcbf29ce484222325"

text \<open>The loop of \<open>apply_diffs_and_hash\<close> over the diffs.\<close>

definition hash_diffs :: "('j diff \<Rightarrow> string + string) \<Rightarrow> 'j diff list \<Rightarrow> journal_error + u64" where
  "hash_diffs ser ds = try_fold (\<lambda>h d.
     rbind (map_err (\<lambda>e. JEGeneric (''diff serialize: '' @ e)) (ser d)) (\<lambda>json. Inr (h + fnv1a_64 json))) 0 ds"

definition apply_diffs_and_hash ::
  "('j, 'a, 'b, 's, 'fl, 'q, 'r, 'sj) journal_env \<Rightarrow> tick \<Rightarrow> 'j diff list \<Rightarrow> ('j, 'a, 'b) arrow_store
     \<Rightarrow> (journal_error + u64) \<times> ('j, 'a, 'b) arrow_store" where
  "apply_diffs_and_hash E tick ds s =
     (case apply_diffs (en_iteration (je_store E)) (en_json (je_store E)) (en_arrow (je_store E)) s tick ds of
        (Inl e, s1) \<Rightarrow> (Inl (JEArrowStore (''apply_diffs: '' @ store_error_text e)), s1)
      | (Inr _, s1) \<Rightarrow>
          (case generate_snapshot s1 tick of
             (Inl e, s2) \<Rightarrow> (Inl (JEArrowStore (store_error_text e)), s2)
           | (Inr _, s2) \<Rightarrow> (hash_diffs (je_serialize E) ds, s2)))"

definition unwrap_or_default :: "'e + 'x list \<Rightarrow> 'x list" where
  "unwrap_or_default r = (case r of Inl _ \<Rightarrow> [] | Inr xs \<Rightarrow> xs)"

fun publish_tables ::
  "('j, 'a, 'b, 's, 'fl, 'q, 'r, 'sj) journal_env \<Rightarrow> tick \<Rightarrow> ('j, 'a, 'b) arrow_store \<Rightarrow> string list
     \<Rightarrow> 'q \<Rightarrow> (journal_error + unit) \<times> 'q" where
  "publish_tables E tick s [] q = (Inr (), q)"
| "publish_tables E tick s (n # ns) q =
     (case get_table s n of
        Inl e \<Rightarrow> (Inl (JEArrowStore (''get_table for '' @ quoted n @ '': '' @ store_error_text e)), q)
      | Inr table \<Rightarrow>
          (case je_ingest E tick n (unwrap_or_default (get_table_batches s n tick)) (vt_position_map table) q of
             (Inl e, q') \<Rightarrow> (Inl (JEGeneric (''ingest snapshot for '' @ quoted n @ '': '' @ e)), q')
           | (Inr _, q') \<Rightarrow> publish_tables E tick s ns q'))"

definition publish_snapshot ::
  "('j, 'a, 'b, 's, 'fl, 'q, 'r, 'sj) journal_env \<Rightarrow> tick \<Rightarrow> ('j, 'a, 'b) arrow_store
     \<Rightarrow> 'q \<Rightarrow> (journal_error + unit) \<times> 'q" where
  "publish_snapshot E tick s q =
     (case get_snapshot s tick of
        Inl e \<Rightarrow> (Inl (JEArrowStore (''get_snapshot: '' @ store_error_text e)), q)
      | Inr snapshot \<Rightarrow>
          (case publish_tables E tick s (je_order E (map fst (ws_tables snapshot))) q of
             (Inl e, q1) \<Rightarrow> (Inl e, q1)
           | (Inr _, q1) \<Rightarrow>
               (case je_store_snapshot E snapshot q1 of
                  (Inl e, q2) \<Rightarrow> (Inl (JEGeneric (''store snapshot: '' @ e)), q2)
                | (Inr _, q2) \<Rightarrow> (Inr (), q2))))"

text \<open>\<open>while history.len() > MAX_COMMIT_HISTORY { pop_front }\<close>\<close>

definition max_commit_history :: nat where "max_commit_history = 1024"

function trim_history :: "'x list \<Rightarrow> 'x list" where
  "trim_history h = (if length h > max_commit_history then trim_history (tl h) else h)"
  by pat_completeness auto
termination by (relation "measure length") (auto simp: max_commit_history_def)

declare trim_history.simps [simp del]

subsection \<open>Commit\<close>

definition begin_publication ::
  "('j, 'a, 'b, 's, 'fl, 'q, 'r, 'sj) journal_env \<Rightarrow> 'q option \<Rightarrow> (journal_error + 'r option) \<times> 'q option" where
  "begin_publication E qo =
     (case qo of
        None \<Rightarrow> (Inr None, None)
      | Some q \<Rightarrow> (case je_begin E q of
          (Inl e, q') \<Rightarrow> (Inl (JEGeneric (''begin query ingest: '' @ e)), Some q')
        | (Inr r, q') \<Rightarrow> (Inr (Some r), Some q')))"

definition publish ::
  "('j, 'a, 'b, 's, 'fl, 'q, 'r, 'sj) journal_env \<Rightarrow> tick \<Rightarrow> ('j, 'a, 'b) arrow_store \<Rightarrow> 'q option
     \<Rightarrow> (journal_error + unit) \<times> 'q option" where
  "publish E tick s qo =
     (case qo of
        None \<Rightarrow> (Inr (), None)
      | Some q \<Rightarrow> (case publish_snapshot E tick s q of (r, q') \<Rightarrow> (r, Some q')))"

definition run_rollback ::
  "('j, 'a, 'b, 's, 'fl, 'q, 'r, 'sj) journal_env \<Rightarrow> 'r option \<Rightarrow> 'q option \<Rightarrow> 'q option" where
  "run_rollback E ro qo =
     (case ro of None \<Rightarrow> qo
      | Some r \<Rightarrow> (case qo of None \<Rightarrow> None | Some q \<Rightarrow> Some (snd (je_rollback E r q))))"

definition append_record ::
  "('j, 'a, 'b, 's, 'fl, 'q, 'r, 'sj) journal_env \<Rightarrow> 'j commit_record \<Rightarrow> 'sj option \<Rightarrow> (journal_error + unit) \<times> 'sj option" where
  "append_record E r sjo =
     (case sjo of None \<Rightarrow> (Inr (), None)
      | Some sj \<Rightarrow> (case je_append E r sj of (res, sj') \<Rightarrow> (res, Some sj')))"

text \<open>What every failing branch of \<open>commit\<close> does after its own rollback.\<close>

definition abort_commit ::
  "('j, 'a, 'b, 'q, 'sj) journal \<Rightarrow> (string \<times> (tick \<times> 'b list) list) list \<Rightarrow> ('j, 'a, 'b) arrow_store
     \<Rightarrow> 'q option \<Rightarrow> 'sj option \<Rightarrow> journal_error
     \<Rightarrow> (journal_error + commit_result) \<times> ('j, 'a, 'b, 'q, 'sj) journal" where
  "abort_commit j saved s qo sjo e =
     (Inl e, j\<lparr>jr_store := restore_table_versions s saved, jr_query_engine := qo, jr_save_journal := sjo,
        jr_phase := CpOpen\<rparr>)"

definition commit ::
  "('j, 'a, 'b, 's, 'fl, 'q, 'r, 'sj) journal_env \<Rightarrow> ('j, 'a, 'b, 'q, 'sj) journal
     \<Rightarrow> (journal_error + commit_result) \<times> ('j, 'a, 'b, 'q, 'sj) journal" where
  "commit E j =
     (if jr_phase j \<noteq> CpOpen then (Inl (JECommitFailed ''no open commit phase''), j)
      else
        (let tick = jr_current_tick j;
             diffs = jr_pending_diffs j;
             commands = jr_pending_commands j;
             saved = save_table_versions (jr_store j) (map diff_table diffs)
         in case apply_diffs_and_hash E tick diffs (jr_store j) of
              (Inl e, s1) \<Rightarrow> abort_commit j saved s1 (jr_query_engine j) (jr_save_journal j) e
            | (Inr state_hash, s1) \<Rightarrow>
                (case begin_publication E (jr_query_engine j) of
                   (Inl e, q1) \<Rightarrow> abort_commit j saved s1 q1 (jr_save_journal j) e
                 | (Inr rollback, q1) \<Rightarrow>
                     (case publish E tick s1 q1 of
                        (Inl e, q2) \<Rightarrow> abort_commit j saved s1 (run_rollback E rollback q2) (jr_save_journal j) e
                      | (Inr _, q2) \<Rightarrow>
                          (let record = record_with_commands tick diffs commands state_hash
                           in case append_record E record (jr_save_journal j) of
                                (Inl e, sj1) \<Rightarrow> abort_commit j saved s1 (run_rollback E rollback q2) sj1 e
                              | (Inr _, sj1) \<Rightarrow>
                                  (Inr \<lparr>co_tick = tick, co_diff_count = length diffs,
                                        co_command_count = length commands, co_state_hash = state_hash\<rparr>,
                                   j\<lparr>jr_current_tick := tick_next tick, jr_phase := CpOpen,
                                      jr_pending_commands := [], jr_pending_diffs := [],
                                      jr_history := trim_history (jr_history j @ [record]),
                                      jr_save_journal := sj1, jr_store := s1, jr_query_engine := q2\<rparr>))))))"

definition clear_pending ::
  "('j, 'a, 'b, 'q, 'sj) journal \<Rightarrow> (journal_error + unit) \<times> ('j, 'a, 'b, 'q, 'sj) journal" where
  "clear_pending j =
     (if jr_phase j \<noteq> CpOpen
      then (Inl (JEInvalidPhase (''cannot clear pending during phase ''
        @ (case jr_phase j of CpOpen \<Rightarrow> ''Open'' | CpCommitting \<Rightarrow> ''Committing'' | CpCommitted \<Rightarrow> ''Committed''))), j)
      else (Inr (), j\<lparr>jr_pending_commands := [], jr_pending_diffs := []\<rparr>))"

subsection \<open>The operations as steps\<close>

datatype ('j, 'q, 'sj) journal_op =
    JSubmitCommands "'j command_envelope list"
  | JSubmitBatch "'j diff_batch"
  | JCommit
  | JClearPending
  | JAttachSave 'sj
  | JAttachEngine 'q

fun journal_step ::
  "('j, 'a, 'b, 's, 'fl, 'q, 'r, 'sj) journal_env \<Rightarrow> ('j, 'q, 'sj) journal_op \<Rightarrow> ('j, 'a, 'b, 'q, 'sj) journal
     \<Rightarrow> (journal_error + unit) \<times> ('j, 'a, 'b, 'q, 'sj) journal" where
  "journal_step E (JSubmitCommands es) j = submit_commands es j"
| "journal_step E (JSubmitBatch b) j = submit_batch b j"
| "journal_step E JCommit j = void (commit E j)"
| "journal_step E JClearPending j = clear_pending j"
| "journal_step E (JAttachSave sj) j = (Inr (), with_save_journal j sj)"
| "journal_step E (JAttachEngine q) j = (Inr (), with_query_engine j q)"

inductive journal_reachable ::
  "('j, 'a, 'b, 's, 'fl, 'q, 'r, 'sj) journal_env \<Rightarrow> ('j, 'a, 'b, 'q, 'sj) journal \<Rightarrow> bool" for E where
  journal_start: "journal_reachable E (journal_new s)"
| journal_op: "journal_reachable E j \<Longrightarrow> journal_reachable E (snd (journal_step E x j))"
| journal_store: "journal_reachable E j \<Longrightarrow> journal_reachable E (j\<lparr>jr_store := s\<rparr>)"
| journal_engine: "journal_reachable E j \<Longrightarrow> jr_query_engine j \<noteq> None \<Longrightarrow> journal_reachable E (j\<lparr>jr_query_engine := Some q\<rparr>)"

text \<open>
  The last two rules are the other owners of the shared store and engine: between two calls
  of the journal they may have changed in any way.
\<close>

subsection \<open>The journal's invariant\<close>

definition record_ok :: "('j diff \<Rightarrow> string + string) \<Rightarrow> 'j commit_record \<Rightarrow> bool" where
  "record_ok ser r \<longleftrightarrow> hash_diffs ser (cr_diffs r) = Inr (cr_state_hash r)
     \<and> (\<forall>c \<in> set (cr_commands r). ce_tick c = cr_tick r)"

definition journal_inv :: "('j diff \<Rightarrow> string + string) \<Rightarrow> ('j, 'a, 'b, 'q, 'sj) journal \<Rightarrow> bool" where
  "journal_inv ser j \<longleftrightarrow>
     jr_phase j = CpOpen
   \<and> (\<forall>c \<in> set (jr_pending_commands j). ce_tick c = jr_current_tick j)
   \<and> length (jr_history j) \<le> max_commit_history
   \<and> successively (\<lambda>a b. b = tick_next a) (map cr_tick (jr_history j) @ [jr_current_tick j])
   \<and> (\<forall>r \<in> set (jr_history j). record_ok ser r)"

lemma trim_history_eq: "trim_history h = newest max_commit_history h"
proof (induction h rule: trim_history.induct)
  case (1 h)
  show ?case
  proof (cases "length h > max_commit_history")
    case True
    then have "trim_history h = newest max_commit_history (tl h)"
      using 1 by (subst trim_history.simps) simp
    also have "\<dots> = newest max_commit_history h"
      using True by (cases h) (auto simp: newest_def Suc_diff_le)
    finally show ?thesis .
  qed (subst trim_history.simps, simp add: newest_def)
qed

lemma newest_props:
  "length (newest n xs) \<le> n" "set (newest n xs) \<subseteq> set xs" "\<exists>ys. xs = ys @ newest n xs"
  unfolding newest_def by (simp, rule set_drop_subset) (metis append_take_drop_id)

lemma hash_diffs_sum:
  "hash_diffs ser ds = Inr h \<longleftrightarrow> (\<forall>d \<in> set ds. is_ok (ser d)) \<and> h = (\<Sum>d \<leftarrow> ds. fnv1a_64 (case ser d of Inr t \<Rightarrow> t | Inl _ \<Rightarrow> []))"
proof -
  have "try_fold (\<lambda>h d. rbind (map_err (\<lambda>e. JEGeneric (''diff serialize: '' @ e)) (ser d)) (\<lambda>json. Inr (h + fnv1a_64 json))) k ds = Inr h
      \<longleftrightarrow> (\<forall>d \<in> set ds. is_ok (ser d)) \<and> h = k + (\<Sum>d \<leftarrow> ds. fnv1a_64 (case ser d of Inr t \<Rightarrow> t | Inl _ \<Rightarrow> []))" for k
  proof (induction ds arbitrary: k)
    case (Cons d ds)
    then show ?case by (cases "ser d") (auto simp: add.assoc)
  qed auto
  from this [of 0] show ?thesis by (simp add: hash_diffs_def)
qed

lemmas commit_splits = sum.split_asm prod.split_asm option.split_asm if_split_asm

lemma commit_Inr:
  assumes "commit E j = (Inr res, j')"
  shows "jr_phase j = CpOpen \<and> (\<exists>h s1 ro q1 q2 sj1.
      apply_diffs_and_hash E (jr_current_tick j) (jr_pending_diffs j) (jr_store j) = (Inr h, s1)
    \<and> begin_publication E (jr_query_engine j) = (Inr ro, q1)
    \<and> publish E (jr_current_tick j) s1 q1 = (Inr (), q2)
    \<and> append_record E (record_with_commands (jr_current_tick j) (jr_pending_diffs j) (jr_pending_commands j) h)
        (jr_save_journal j) = (Inr (), sj1)
    \<and> res = \<lparr>co_tick = jr_current_tick j, co_diff_count = length (jr_pending_diffs j),
        co_command_count = length (jr_pending_commands j), co_state_hash = h\<rparr>
    \<and> j' = j\<lparr>jr_current_tick := tick_next (jr_current_tick j), jr_phase := CpOpen, jr_pending_commands := [],
        jr_pending_diffs := [],
        jr_history := trim_history (jr_history j
          @ [record_with_commands (jr_current_tick j) (jr_pending_diffs j) (jr_pending_commands j) h]),
        jr_save_journal := sj1, jr_store := s1, jr_query_engine := q2\<rparr>)"
  using assms unfolding commit_def Let_def abort_commit_def
  by (auto split: commit_splits)

lemma abort_commit_Inl:
  "abort_commit j saved s qo sjo x = (Inl e, j') \<longleftrightarrow> x = e \<and> j' = snd (abort_commit j saved s qo sjo e)"
  by (auto simp: abort_commit_def)

text \<open>What a failing commit leaves: the state of its \<open>abort\<close>, by the branch it took.\<close>

lemma commit_Inl:
  assumes "commit E j = (Inl e, j')" and "jr_phase j = CpOpen"
  shows "\<exists>s1 qo sjo. snd (apply_diffs_and_hash E (jr_current_tick j) (jr_pending_diffs j) (jr_store j)) = s1
    \<and> j' = snd (abort_commit j (save_table_versions (jr_store j) (map diff_table (jr_pending_diffs j))) s1 qo sjo e)
    \<and> (qo = jr_query_engine j
       \<or> (\<exists>x. begin_publication E (jr_query_engine j) = (Inl x, qo))
       \<or> (\<exists>ro q1. begin_publication E (jr_query_engine j) = (Inr ro, q1)
            \<and> qo = run_rollback E ro (snd (publish E (jr_current_tick j) s1 q1))))
    \<and> (sjo = jr_save_journal j \<or> (\<exists>h. append_record E (record_with_commands (jr_current_tick j)
          (jr_pending_diffs j) (jr_pending_commands j) h) (jr_save_journal j) = (Inl e, sjo)))"
proof -
  let ?t = "jr_current_tick j" and ?ds = "jr_pending_diffs j" and ?cs = "jr_pending_commands j"
  obtain a s1 where a: "apply_diffs_and_hash E ?t ?ds (jr_store j) = (a, s1)" by force
  obtain b q1 where b: "begin_publication E (jr_query_engine j) = (b, q1)" by force
  obtain c q2 where c: "publish E ?t s1 q1 = (c, q2)" by force
  show ?thesis
  proof (cases a)
    case Inl
    with assms a show ?thesis by (auto simp: commit_def Let_def abort_commit_Inl)
  next
    case a': (Inr h)
    show ?thesis
    proof (cases b)
      case Inl
      with assms a a' b show ?thesis by (auto simp: commit_def Let_def abort_commit_Inl)
    next
      case b': (Inr ro)
      obtain d sj1 where d: "append_record E (record_with_commands ?t ?ds ?cs h) (jr_save_journal j) = (d, sj1)" by force
      show ?thesis
        using assms a a' b b' c d by (cases c; cases d) (auto simp: commit_def Let_def abort_commit_Inl)
    qed
  qed
qed

subsection \<open>The store under a commit\<close>

lemma apply_diff_loop_ok:
  "apply_diff_loop I J A tick saved ds s = (Inr u, s') \<Longrightarrow>
     (n \<notin> diff_table ` set ds \<longrightarrow> hm_get (st_tables s') n = hm_get (st_tables s) n)
   \<and> hm_contains (st_tables s') n = hm_contains (st_tables s) n"
proof (induction ds arbitrary: s)
  case (Cons d ds)
  obtain r s1 where d: "apply_diff I J A tick d s = (r, s1)" by force
  then obtain v where "r = Inr v" and rest: "apply_diff_loop I J A tick saved ds s1 = (Inr u, s')"
    using Cons.prems by (cases r) simp_all
  from Cons.IH [OF rest] show ?case
    using apply_diff_get(1) [of n d I J A tick s] apply_diff_get(2) [of I J A tick d s n] by (auto simp: d)
qed simp

lemma apply_diffs_tables:
  assumes "apply_diffs I J A s tick ds = (r, s')"
  shows "(n \<notin> diff_table ` set ds \<longrightarrow> hm_get (st_tables s') n = hm_get (st_tables s) n)
    \<and> hm_contains (st_tables s') n = hm_contains (st_tables s) n"
proof (cases "lg_is_initialization (st_lifecycle s)")
  case True
  then show ?thesis using assms by (auto simp: apply_diffs_def commit_only_def)
next
  case False
  let ?saved = "save_table_versions s (remdups (map diff_table ds))"
  have loop: "apply_diff_loop I J A tick ?saved ds s = (r, s')"
    using assms False by (simp add: apply_diffs_def commit_only_def)
  show ?thesis
  proof (cases r)
    case (Inl e)
    have sv: "hm_get ?saved m \<noteq> None" if "m \<in> set (map diff_table ds)" "hm_contains (st_tables s) m" for m
      using that by (auto simp: save_get hm_contains_def)
    from apply_diff_loop_error [OF loop [unfolded Inl] save_ok sv, of n] show ?thesis
      by (auto simp: save_get split: option.splits)
  qed (use apply_diff_loop_ok [of I J A tick ?saved ds s _ s' n] loop in auto)
qed

lemma apply_and_hash_tables:
  assumes "apply_diffs_and_hash E tick ds s = (r, s')"
  shows "(n \<notin> diff_table ` set ds \<longrightarrow> hm_get (st_tables s') n = hm_get (st_tables s) n)
    \<and> hm_contains (st_tables s') n = hm_contains (st_tables s) n"
proof -
  obtain a s1 where a: "apply_diffs (en_iteration (je_store E)) (en_json (je_store E)) (en_arrow (je_store E)) s tick ds = (a, s1)"
    by force
  have "st_tables (snd (generate_snapshot s1 tick)) = st_tables s1"
    by (simp add: generate_snapshot_def commit_only_def do_generate_snapshot_def Let_def)
  then have "st_tables s' = st_tables s1"
    using assms a by (auto simp: apply_diffs_and_hash_def split: sum.splits prod.splits)
  with apply_diffs_tables [OF a, of n] show ?thesis by simp
qed

lemma restore_saved:
  assumes "\<And>n. n \<notin> set names \<Longrightarrow> hm_get (st_tables s1) n = hm_get (st_tables s) n"
    and "\<And>n. hm_contains (st_tables s1) n = hm_contains (st_tables s) n"
  shows "map_option vt_versions (hm_get (st_tables (restore_table_versions s1 (save_table_versions s names))) n)
      = map_option vt_versions (hm_get (st_tables s) n)
    \<and> (n \<notin> set names \<longrightarrow>
        hm_get (st_tables (restore_table_versions s1 (save_table_versions s names))) n = hm_get (st_tables s) n)"
  using assms(1) [of n] assms(2) [of n]
  by (cases "hm_get (st_tables s) n"; cases "hm_get (st_tables s1) n")
    (auto simp: restore_get [OF save_ok] save_get hm_contains_def split: option.split)

subsection \<open>The ingestor under a commit\<close>

lemma publish_tables_session:
  assumes I: "snapshot_ingestor (je_begin E) (je_ingest E) (je_store_snapshot E) (je_rollback E) session staging visible"
    and "session r q0 q"
  shows "session r q0 (snd (publish_tables E tick s ns q))"
  using assms(2)
proof (induction ns arbitrary: q)
  case (Cons n ns)
  have "session r q0 (snd (publish_tables E tick s (n # ns) q))" if "get_table s n = Inr table" for table
  proof -
    let ?bs = "unwrap_or_default (get_table_batches s n tick)" and ?pm = "vt_position_map table"
    obtain res q1 where step: "je_ingest E tick n ?bs ?pm q = (res, q1)" by force
    have "session r q0 q1"
      using snapshot_ingestor.ingest_session [OF I Cons.prems, of tick n ?bs ?pm] by (simp add: step)
    then show ?thesis using Cons.IH that by (cases res) (simp_all add: step)
  qed
  then show ?case using Cons.prems by (cases "get_table s n") simp_all
qed simp

lemma publish_session:
  assumes I: "snapshot_ingestor (je_begin E) (je_ingest E) (je_store_snapshot E) (je_rollback E) session staging visible"
    and "session r q0 q"
  shows "\<exists>q'. snd (publish E tick s (Some q)) = Some q' \<and> session r q0 q'"
proof -
  have "session r q0 (snd (publish_snapshot E tick s q))"
  proof (cases "get_snapshot s tick")
    case (Inr w)
    obtain res q1 where tables: "publish_tables E tick s (je_order E (map fst (ws_tables w))) q = (res, q1)" by force
    obtain res2 q2 where snapshot: "je_store_snapshot E w q1 = (res2, q2)" by force
    have "session r q0 q1"
      using publish_tables_session [OF I assms(2), of tick s "je_order E (map fst (ws_tables w))"] by (simp add: tables)
    then show ?thesis
      using snapshot_ingestor.store_session [OF I, of r q0 q1 w] Inr
      by (cases res; cases res2) (simp_all add: publish_snapshot_def tables snapshot)
  qed (use assms(2) in \<open>simp add: publish_snapshot_def\<close>)
  then show ?thesis by (cases "publish_snapshot E tick s q") (simp add: publish_def)
qed

lemma failed_publication_restores:
  assumes I: "snapshot_ingestor (je_begin E) (je_ingest E) (je_store_snapshot E) (je_rollback E) session staging visible"
  shows "begin_publication E qo = (Inl e, q1) \<Longrightarrow> q1 = qo"
    and "begin_publication E qo = (Inr ro, q1) \<Longrightarrow> run_rollback E ro (snd (publish E tick s q1)) = qo"
proof -
  show "begin_publication E qo = (Inl e, q1) \<Longrightarrow> q1 = qo"
    using snapshot_ingestor.begin_refused [OF I]
    by (auto simp: begin_publication_def split: option.splits sum.splits prod.splits)
  assume b: "begin_publication E qo = (Inr ro, q1)"
  show "run_rollback E ro (snd (publish E tick s q1)) = qo"
  proof (cases qo)
    case None
    then show ?thesis using b by (auto simp: begin_publication_def publish_def run_rollback_def)
  next
    case (Some q)
    then obtain r q' where r: "je_begin E q = (Inr r, q')" "ro = Some r" "q1 = Some q'"
      using b by (auto simp: begin_publication_def split: sum.splits prod.splits)
    then have "session r q q'" using snapshot_ingestor.begin_session [OF I r(1)] by simp
    from publish_session [OF I this, of tick s] obtain q2
      where "snd (publish E tick s (Some q')) = Some q2" "session r q q2" by blast
    then show ?thesis
      using snapshot_ingestor.rollback_restores [OF I] r Some by (simp add: run_rollback_def)
  qed
qed

end
