(* ===== verification/Journal_Props.thy ===== *)
theory Journal_Props
  imports Journal
begin

section \<open>Properties of the journal\<close>

text \<open>
  The invariant of every run, the atomicity of a failing commit over store, journal and
  query engine, the effect of a successful commit and what it publishes to readers. The
  query engine enters through the locale \<open>snapshot_ingestor\<close>: \<open>uses_engine\<close> says that
  the journal's ingestor is the engine's.
\<close>

definition uses_engine ::
  "('j, 'a, 'b, 's, 'fl, 'b query_engine, 'b ingest_rollback, 'sj) journal_env \<Rightarrow> ('s \<Rightarrow> 'b list \<Rightarrow> string + 'b) \<Rightarrow> bool" where
  "uses_engine E cat \<longleftrightarrow> je_begin E = begin_ingest \<and> je_ingest E = ingest_snapshot (en_arrow (je_store E)) cat
     \<and> je_store_snapshot E = store_snapshot \<and> je_rollback E = ingest_rollback_run"

lemma engine_is_ingestor:
  "uses_engine E cat \<Longrightarrow> snapshot_ingestor (je_begin E) (je_ingest E) (je_store_snapshot E) (je_rollback E)
     engine_session engine_staging engine_visible"
  using qe.snapshot_ingestor_axioms [of "en_arrow (je_store E)" cat] by (simp add: uses_engine_def)

subsection \<open>Every run\<close>

lemma try_each_invariant:
  assumes "P s" and "\<And>x s. P s \<Longrightarrow> P (snd (f x s))"
  shows "P (snd (try_each f xs s))"
  using assms(1)
proof (induction xs arbitrary: s)
  case (Cons x xs)
  obtain r s1 where x: "f x s = (r, s1)" by force
  have "P s1" using assms(2) [OF Cons.prems, of x] by (simp add: x)
  then show ?case using Cons.IH by (cases r) (simp_all add: x)
qed simp

lemma submit_command_inv: "journal_inv ser j \<Longrightarrow> journal_inv ser (snd (submit_command e j))"
  by (auto simp: submit_command_def journal_inv_def)

lemma submit_diff_inv: "journal_inv ser j \<Longrightarrow> journal_inv ser (snd (submit_diff d j))"
  by (auto simp: submit_diff_def journal_inv_def)

lemma successively_suffix: "successively P (xs @ ys) \<Longrightarrow> successively P ys"
  by (simp add: successively_append_iff)

lemma commit_inv:
  assumes inv: "journal_inv (je_serialize E) j"
  shows "journal_inv (je_serialize E) (snd (commit E j))"
proof (cases "fst (commit E j)")
  case (Inl e)
  then have "commit E j = (Inl e, snd (commit E j))" by (metis prod.collapse)
  from commit_Inl [OF this] inv show ?thesis by (auto simp: journal_inv_def abort_commit_def)
next
  case (Inr res)
  then have "commit E j = (Inr res, snd (commit E j))" by (metis prod.collapse)
  from commit_Inr [OF this] obtain h s1 q2 sj1 where
    hash: "apply_diffs_and_hash E (jr_current_tick j) (jr_pending_diffs j) (jr_store j) = (Inr h, s1)"
    and j': "snd (commit E j) = j\<lparr>jr_current_tick := tick_next (jr_current_tick j), jr_phase := CpOpen,
        jr_pending_commands := [], jr_pending_diffs := [],
        jr_history := trim_history (jr_history j
          @ [record_with_commands (jr_current_tick j) (jr_pending_diffs j) (jr_pending_commands j) h]),
        jr_save_journal := sj1, jr_store := s1, jr_query_engine := q2\<rparr>" by blast
  define r where "r = record_with_commands (jr_current_tick j) (jr_pending_diffs j) (jr_pending_commands j) h"
  have "hash_diffs (je_serialize E) (jr_pending_diffs j) = Inr h"
    using hash by (auto simp: apply_diffs_and_hash_def split: sum.splits prod.splits)
  then have r: "record_ok (je_serialize E) r" "cr_tick r = jr_current_tick j"
    using inv by (auto simp: record_ok_def r_def record_with_commands_def journal_inv_def)
  obtain old where old: "jr_history j @ [r] = old @ trim_history (jr_history j @ [r])"
    using newest_props(3) [of "jr_history j @ [r]" max_commit_history] by (auto simp: trim_history_eq)
  have "successively (\<lambda>a b. b = tick_next a) ((map cr_tick (jr_history j) @ [jr_current_tick j]) @ [tick_next (jr_current_tick j)])"
    using inv by (subst successively_append_iff) (auto simp: journal_inv_def)
  also have "(map cr_tick (jr_history j) @ [jr_current_tick j]) @ [tick_next (jr_current_tick j)]
      = map cr_tick old @ map cr_tick (trim_history (jr_history j @ [r])) @ [tick_next (jr_current_tick j)]"
    using arg_cong [OF old, of "map cr_tick"] r by simp
  finally have "successively (\<lambda>a b. b = tick_next a)
      (map cr_tick (trim_history (jr_history j @ [r])) @ [tick_next (jr_current_tick j)])"
    by (rule successively_suffix)
  moreover have "set (trim_history (jr_history j @ [r])) \<subseteq> insert r (set (jr_history j))"
    using newest_props(2) [of max_commit_history "jr_history j @ [r]"] by (simp add: trim_history_eq)
  moreover have "length (trim_history (jr_history j @ [r])) \<le> max_commit_history"
    by (simp add: trim_history_eq newest_props(1))
  ultimately show ?thesis
    using inv r by (auto simp: j' journal_inv_def simp flip: r_def)
qed

lemma journal_step_inv:
  "journal_inv (je_serialize E) j \<Longrightarrow> journal_inv (je_serialize E) (snd (journal_step E x j))"
proof (cases x)
  case (JSubmitCommands es)
  assume "journal_inv (je_serialize E) j"
  then show ?thesis
    by (simp add: JSubmitCommands submit_commands_def try_each_invariant [where P = "journal_inv (je_serialize E)"] submit_command_inv)
next
  case (JSubmitBatch b)
  assume "journal_inv (je_serialize E) j"
  then show ?thesis
    by (simp add: JSubmitBatch submit_batch_def try_each_invariant [where P = "journal_inv (je_serialize E)"] submit_diff_inv)
next
  case JCommit
  then show "journal_inv (je_serialize E) j \<Longrightarrow> ?thesis" by (simp add: commit_inv)
qed (auto simp: clear_pending_def with_save_journal_def with_query_engine_def journal_inv_def)

text \<open>C9: Whatever is submitted, committed, cleared or attached, in whatever order and
  however commits fail, between two calls the journal is open; every pending command is for
  the current tick; the history holds at most 1024 records, of consecutive ticks that end
  just before the current one; and every record carries the hash of its own diffs and only
  commands of its own tick.\<close>

theorem journal_runs_keep_order:
  assumes "journal_reachable E j"
  shows "jr_phase j = CpOpen
    \<and> (\<forall>c \<in> set (jr_pending_commands j). ce_tick c = jr_current_tick j)
    \<and> length (jr_history j) \<le> 1024
    \<and> successively (\<lambda>a b. b = tick_next a) (map cr_tick (jr_history j) @ [jr_current_tick j])
    \<and> (\<forall>r \<in> set (jr_history j). hash_diffs (je_serialize E) (cr_diffs r) = Inr (cr_state_hash r)
         \<and> (\<forall>c \<in> set (cr_commands r). ce_tick c = cr_tick r))"
proof -
  have "journal_inv (je_serialize E) j"
    using assms
  proof induction
    case (journal_start s)
    then show ?case by (simp add: journal_inv_def journal_new_def)
  next
    case (journal_op j x)
    then show ?case by (intro journal_step_inv)
  qed (simp_all add: journal_inv_def)
  then show ?thesis by (auto simp: journal_inv_def record_ok_def max_commit_history_def)
qed

subsection \<open>A failing commit\<close>

lemma commit_undone:
  assumes fail: "commit E j = (Inl e, j')" and eng: "uses_engine E cat"
  shows "jr_current_tick j' = jr_current_tick j \<and> jr_phase j' = jr_phase j
    \<and> jr_pending_commands j' = jr_pending_commands j \<and> jr_pending_diffs j' = jr_pending_diffs j
    \<and> jr_history j' = jr_history j \<and> jr_query_engine j' = jr_query_engine j
    \<and> (\<forall>n. map_option vt_versions (hm_get (st_tables (jr_store j')) n)
           = map_option vt_versions (hm_get (st_tables (jr_store j)) n)
         \<and> (n \<notin> diff_table ` set (jr_pending_diffs j) \<longrightarrow>
              hm_get (st_tables (jr_store j')) n = hm_get (st_tables (jr_store j)) n))
    \<and> (jr_save_journal j' = jr_save_journal j
       \<or> (\<exists>r. append_record E r (jr_save_journal j) = (Inl e, jr_save_journal j')))"
proof (cases "jr_phase j = CpOpen")
  case False
  then show ?thesis using fail by (simp add: commit_def)
next
  case True
  let ?ds = "jr_pending_diffs j" and ?s = "jr_store j"
  from commit_Inl [OF fail True] obtain s1 qo sjo where
    s1: "snd (apply_diffs_and_hash E (jr_current_tick j) ?ds ?s) = s1"
    and j': "j' = snd (abort_commit j (save_table_versions ?s (map diff_table ?ds)) s1 qo sjo e)"
    and qo: "qo = jr_query_engine j \<or> (\<exists>x. begin_publication E (jr_query_engine j) = (Inl x, qo))
       \<or> (\<exists>ro q1. begin_publication E (jr_query_engine j) = (Inr ro, q1)
            \<and> qo = run_rollback E ro (snd (publish E (jr_current_tick j) s1 q1)))"
    and sjo: "sjo = jr_save_journal j \<or> (\<exists>h. append_record E (record_with_commands (jr_current_tick j)
          ?ds (jr_pending_commands j) h) (jr_save_journal j) = (Inl e, sjo))" by blast
  obtain r where "apply_diffs_and_hash E (jr_current_tick j) ?ds ?s = (r, s1)"
    using s1 by (metis prod.collapse)
  from apply_and_hash_tables [OF this]
  have "map_option vt_versions (hm_get (st_tables (restore_table_versions s1 (save_table_versions ?s (map diff_table ?ds)))) n)
      = map_option vt_versions (hm_get (st_tables ?s) n)
    \<and> (n \<notin> diff_table ` set ?ds \<longrightarrow>
        hm_get (st_tables (restore_table_versions s1 (save_table_versions ?s (map diff_table ?ds)))) n = hm_get (st_tables ?s) n)" for n
    using restore_saved [of "map diff_table ?ds" s1 ?s n] by simp
  moreover have "qo = jr_query_engine j"
    using qo failed_publication_restores [OF engine_is_ingestor [OF eng]] by metis
  ultimately show ?thesis using sjo True by (auto simp: j' abort_commit_def)
qed


subsection \<open>A successful commit\<close>

lemma publish_tables_staged:
  assumes "uses_engine E cat" and "qe_pending_ingest q = Some p" and "pi_tick p = None \<or> pi_tick p = Some t"
    and "publish_tables E t s ns q = (Inr u, q')"
  shows "\<exists>p'. q' = q\<lparr>qe_pending_ingest := Some p'\<rparr> \<and> (pi_tick p' = None \<or> pi_tick p' = Some t)
    \<and> (\<forall>n. hm_get (pi_views p') n = (if n \<in> set ns then
         Some (read_view (en_arrow (je_store E)) cat q t n (unwrap_or_default (get_table_batches s n t))
           (vt_position_map (the (hm_get (st_tables s) n)))) else hm_get (pi_views p) n))
    \<and> (\<forall>n \<in> set ns. hm_contains (sr_tables (qe_schema_registry q)) n)"
  using assms(2-4)
proof (induction ns arbitrary: q p)
  case (Cons n ns)
  let ?A = "en_arrow (je_store E)" and ?bs = "unwrap_or_default (get_table_batches s n t)"
  obtain table where table: "hm_get (st_tables s) n = Some table"
    using Cons.prems(3) by (auto simp: get_table_def split: sum.splits)
  have ing: "je_ingest E = ingest_snapshot ?A cat" using assms(1) by (simp add: uses_engine_def)
  obtain v q1 where step: "ingest_snapshot ?A cat t n ?bs (vt_position_map table) q = (Inr v, q1)"
    and rest: "publish_tables E t s ns q1 = (Inr u, q')"
    using Cons.prems(3) by (auto simp: get_table_def table ing split: sum.splits prod.splits)
  have t: "tick_as_u64 t \<noteq> - 1"
    using step by (auto simp: ingest_snapshot_def engine_ingest_def)
  have reg: "hm_contains (sr_tables (qe_schema_registry q)) n"
    using step ingest_unregistered [OF t, of q n ?A cat ?bs "vt_position_map table"] by fastforce
  let ?p1 = "\<lparr>pi_tick = Some t, pi_views = hm_insert n (read_view ?A cat q t n ?bs (vt_position_map table)) (pi_views p)\<rparr>"
  have q1: "q1 = q\<lparr>qe_pending_ingest := Some ?p1\<rparr>"
    using step ingest_staged [OF Cons.prems(1,2) t reg, of ?A cat ?bs "vt_position_map table"] by simp
  have "qe_pending_ingest q1 = Some ?p1" "pi_tick ?p1 = None \<or> pi_tick ?p1 = Some t" by (simp_all add: q1)
  from Cons.IH [OF this rest] obtain p' where p': "q' = q1\<lparr>qe_pending_ingest := Some p'\<rparr>"
    "pi_tick p' = None \<or> pi_tick p' = Some t"
    "\<And>m. hm_get (pi_views p') m = (if m \<in> set ns then
         Some (read_view ?A cat q1 t m (unwrap_or_default (get_table_batches s m t))
           (vt_position_map (the (hm_get (st_tables s) m)))) else hm_get (pi_views ?p1) m)"
    "\<forall>m \<in> set ns. hm_contains (sr_tables (qe_schema_registry q1)) m" by blast
  then show ?case
    using reg by (intro exI [of _ p']) (auto simp: q1 table)
next
  case Nil
  then show ?case by (cases q) (auto intro!: exI [of _ p])
qed

lemma read_published:
  assumes "qe_view_cache q = views" and "qe_latest_tick q = tick_as_u64 t" and "tick_as_u64 t \<noteq> - 1"
    and "\<And>v. hm_get views n = Some v \<Longrightarrow> rv_table_name v = n"
  shows "read_single_table q t n = (case hm_get views n of None \<Rightarrow> Inl (QETableNotFound n) | Some v \<Rightarrow> Inr v)"
proof -
  have tick: "engine_latest_tick q = Some t" using assms(2,3) by (cases t) (simp add: engine_latest_tick_def)
  then show ?thesis
    using assms(1,4)
    by (cases "hm_get views n")
      (auto simp: read_single_table_def engine_read_def request_with_table_def read_request_new_def read_views_def
        response_insert_def read_response_new_def response_get_def)
qed

lemma rv_table_name_new [simp]: "rv_table_name (table_read_view_new A cat n t bs spec pm) = n"
  "rv_batches (table_read_view_new A cat n t [] spec pm) = []"
  by (simp_all add: table_read_view_new_def Let_def split_beta)

text \<open>The snapshot a successful commit finds under its tick.\<close>

lemma committed_snapshot:
  assumes "store_inv s" and "apply_diffs_and_hash E t ds s = (Inr h, s1)"
  shows "\<exists>w. get_snapshot s1 t = Inr w \<and> ws_tick w = t \<and> fst ` set (ws_tables w) = fst ` set (st_tables s1)"
proof -
  obtain s0 u where s0: "apply_diffs (en_iteration (je_store E)) (en_json (je_store E)) (en_arrow (je_store E)) s t ds = (Inr u, s0)"
    and gen: "fst (generate_snapshot s0 t) = Inr w \<Longrightarrow> snd (generate_snapshot s0 t) = s1" for w
    using assms(2) by (auto simp: apply_diffs_and_hash_def split: sum.splits prod.splits)
  have ok: "is_ok (fst (generate_snapshot s0 t))" and s1: "snd (generate_snapshot s0 t) = s1"
    using assms(2) s0 by (auto simp: apply_diffs_and_hash_def split: sum.splits prod.splits)
  have "store_inv s0"
    using commit_step_inv [OF assms(1), of "je_store E" "OpApplyDiffs t ds"] s0 by simp
  then have tabs: "hm_ok (st_tables s0)" by (simp add: store_inv_def tables_ok_def)
  define w where "w = fold (snapshot_of_table t) (st_tables s0) (world_snapshot_new t)"
  have s1': "s1 = s0\<lparr>st_generation := st_generation s0 + 1, st_snapshots := hm_insert t w (st_snapshots s0)\<rparr>"
    using ok s1 by (auto simp: generate_snapshot_def commit_only_def do_generate_snapshot_def Let_def w_def split: if_splits)
  have "n \<in> fst ` set (ws_tables w) \<longleftrightarrow> n \<in> fst ` set (st_tables s1)" for n
  proof -
    have "hm_get (ws_tables w) n = hm_get (st_tables s0) n"
      using tabs by (simp add: w_def tables_of_snapshot world_snapshot_new_def split: option.split)
    then show ?thesis using map_of_eq_None_iff [of "ws_tables w" n] map_of_eq_None_iff [of "st_tables s0" n]
      by (auto simp: s1')
  qed
  moreover have "get_snapshot s1 t = Inr w" "ws_tick w = t"
    by (simp_all add: s1' get_snapshot_def w_def world_snapshot_new_def)
  ultimately show ?thesis by blast
qed

text \<open>What readers find after the publication of a commit.\<close>

lemma committed_views:
  fixes E :: "('j, 'a, 'b, 's, 'fl, 'b query_engine, 'b ingest_rollback, 'sj) journal_env"
  assumes inv: "store_inv s" and eng: "uses_engine E cat" and order: "\<And>xs. set (je_order E xs) = set xs"
    and hash: "apply_diffs_and_hash E t ds s = (Inr h, s1)"
    and beg: "begin_publication E (Some q) = (Inr ro, q1)" and pub: "publish E t s1 q1 = (Inr (), q2)"
  shows "\<exists>q'. q2 = Some q' \<and> (tick_as_u64 t \<noteq> - 1 \<longrightarrow> engine_latest_tick q' = Some t
       \<and> (\<exists>w. engine_snapshot q' = Inr w \<and> get_snapshot s1 t = Inr w)
       \<and> (\<forall>n. read_single_table q' t n = (case hm_get (st_tables s1) n of
             None \<Rightarrow> Inl (QETableNotFound n)
           | Some table \<Rightarrow> Inr (table_read_view_new (en_arrow (je_store E)) cat n t
               (unwrap_or_default (get_table_batches s1 n t))
               (the (hm_get (sr_tables (qe_schema_registry q)) n)) (Some (vt_position_map table))))))"
proof -
  define p where "p = (pending_ingest_new :: 'b pending_ingest)"
  have q1: "q1 = Some (q\<lparr>qe_pending_ingest := Some p\<rparr>)"
    using beg eng by (auto simp: begin_publication_def uses_engine_def begin_ingest_def p_def split: sum.splits prod.splits if_splits)
  let ?q1 = "q\<lparr>qe_pending_ingest := Some p\<rparr>"
  obtain w where w: "get_snapshot s1 t = Inr w" "ws_tick w = t" "fst ` set (ws_tables w) = fst ` set (st_tables s1)"
    using committed_snapshot [OF inv hash] by blast
  let ?ns = "je_order E (map fst (ws_tables w))"
  obtain q3 q' where tabs: "publish_tables E t s1 ?ns ?q1 = (Inr (), q3)"
    and store: "store_snapshot w q3 = (Inr (), q')" and q2: "q2 = Some q'"
    using pub w(1) eng by (auto simp: q1 publish_def publish_snapshot_def uses_engine_def split: sum.splits prod.splits)
  have p: "qe_pending_ingest ?q1 = Some p" "pi_tick p = None \<or> pi_tick p = Some t"
    by (simp_all add: p_def pending_ingest_new_def)
  from publish_tables_staged [OF eng p tabs] obtain p' where
    q3: "q3 = ?q1\<lparr>qe_pending_ingest := Some p'\<rparr>" and pt: "pi_tick p' = None \<or> pi_tick p' = Some t"
    and views: "\<And>n. hm_get (pi_views p') n = (if n \<in> set ?ns then
       Some (read_view (en_arrow (je_store E)) cat ?q1 t n (unwrap_or_default (get_table_batches s1 n t))
         (vt_position_map (the (hm_get (st_tables s1) n)))) else hm_get (pi_views p) n)" by blast
  have ns: "n \<in> set ?ns \<longleftrightarrow> hm_get (st_tables s1) n \<noteq> None" for n
    using order w(3) map_of_eq_None_iff [of "st_tables s1" n] by (metis list.set_map)
  show ?thesis
  proof (intro exI [of _ q'] conjI impI allI)
    assume t: "tick_as_u64 t \<noteq> - 1"
    have q': "q' = q3\<lparr>qe_pending_ingest := None, qe_view_cache := pi_views p', qe_latest_snapshot := Some w,
        qe_latest_tick := tick_as_u64 t\<rparr>"
      using store t pt w(2) by (auto simp: store_snapshot_def store_world_snapshot_def q3 Let_def split: option.splits)
    show "engine_latest_tick q' = Some t" using t by (cases t) (simp add: engine_latest_tick_def q')
    show "\<exists>w. engine_snapshot q' = Inr w \<and> get_snapshot s1 t = Inr w"
      by (simp add: engine_snapshot_def q' w(1))
    fix n
    have "rv_table_name v = n" if "hm_get (pi_views p') n = Some v" for v
      using that views [of n] by (auto simp: p_def pending_ingest_new_def split: if_splits)
    then have "read_single_table q' t n = (case hm_get (pi_views p') n of None \<Rightarrow> Inl (QETableNotFound n) | Some v \<Rightarrow> Inr v)"
      using t by (intro read_published) (simp_all add: q')
    then show "read_single_table q' t n = (case hm_get (st_tables s1) n of
           None \<Rightarrow> Inl (QETableNotFound n)
         | Some table \<Rightarrow> Inr (table_read_view_new (en_arrow (je_store E)) cat n t
             (unwrap_or_default (get_table_batches s1 n t))
             (the (hm_get (sr_tables (qe_schema_registry q)) n)) (Some (vt_position_map table))))"
      using views [of n] ns [of n] by (auto simp: p_def pending_ingest_new_def split: option.split)
  qed (rule q2)
qed

text \<open>C2: A commit that succeeds empties the pending lists, moves to the next tick, files one
  record with exactly the pending diffs and commands and the sum of the diffs' hashes, and
  publishes the new state: at the committed tick a reader finds every table of the store, with
  the batches the store has at that tick, the store's row positions and the registered
  schema, and no other table; the published snapshot is the store's snapshot of the tick.\<close>

theorem commit_publishes:
  assumes ok: "commit E j = (Inr res, j')" and inv: "store_inv (jr_store j)" and eng: "uses_engine E cat"
    and order: "\<And>xs. set (je_order E xs) = set xs" and q: "jr_query_engine j = Some q"
  shows "res = \<lparr>co_tick = jr_current_tick j, co_diff_count = length (jr_pending_diffs j),
        co_command_count = length (jr_pending_commands j), co_state_hash = co_state_hash res\<rparr>
    \<and> jr_pending_diffs j' = [] \<and> jr_pending_commands j' = [] \<and> jr_current_tick j' = tick_next (jr_current_tick j)
    \<and> last (jr_history j') = record_with_commands (jr_current_tick j) (jr_pending_diffs j) (jr_pending_commands j) (co_state_hash res)
    \<and> hash_diffs (je_serialize E) (jr_pending_diffs j) = Inr (co_state_hash res)
    \<and> (\<exists>q'. jr_query_engine j' = Some q' \<and> (tick_as_u64 (jr_current_tick j) \<noteq> - 1 \<longrightarrow>
         engine_latest_tick q' = Some (jr_current_tick j)
       \<and> (\<exists>w. engine_snapshot q' = Inr w \<and> get_snapshot (jr_store j') (jr_current_tick j) = Inr w)
       \<and> (\<forall>n. read_single_table q' (jr_current_tick j) n = (case hm_get (st_tables (jr_store j')) n of
             None \<Rightarrow> Inl (QETableNotFound n)
           | Some t \<Rightarrow> Inr (table_read_view_new (en_arrow (je_store E)) cat n (jr_current_tick j)
               (unwrap_or_default (get_table_batches (jr_store j') n (jr_current_tick j)))
               (the (hm_get (sr_tables (qe_schema_registry q)) n)) (Some (vt_position_map t)))))))"
proof -
  let ?t = "jr_current_tick j" and ?ds = "jr_pending_diffs j" and ?cs = "jr_pending_commands j"
  from commit_Inr [OF ok] obtain h s1 ro q1 q2 sj1 where
    hash: "apply_diffs_and_hash E ?t ?ds (jr_store j) = (Inr h, s1)"
    and beg: "begin_publication E (jr_query_engine j) = (Inr ro, q1)"
    and pub: "publish E ?t s1 q1 = (Inr (), q2)"
    and res: "res = \<lparr>co_tick = ?t, co_diff_count = length ?ds, co_command_count = length ?cs, co_state_hash = h\<rparr>"
    and j': "j' = j\<lparr>jr_current_tick := tick_next ?t, jr_phase := CpOpen, jr_pending_commands := [],
        jr_pending_diffs := [], jr_history := trim_history (jr_history j @ [record_with_commands ?t ?ds ?cs h]),
        jr_save_journal := sj1, jr_store := s1, jr_query_engine := q2\<rparr>" by blast
  have "last (trim_history (jr_history j @ [r])) = r" for r
    by (simp add: trim_history_eq newest_def max_commit_history_def)
  moreover have "hash_diffs (je_serialize E) ?ds = Inr h"
    using hash by (auto simp: apply_diffs_and_hash_def split: sum.splits prod.splits)
  moreover note committed_views [OF inv eng order hash beg [unfolded q] pub]
  moreover have store: "jr_store j' = s1" by (simp add: j')
  ultimately show ?thesis unfolding store by (simp add: res j')
qed

lemma hash_apply_store:
  assumes "apply_diffs_and_hash E t ds s = (Inr h, s1)" and "n \<notin> diff_table ` set ds"
  shows "hm_get (st_tables s1) n = hm_get (st_tables s) n"
  using apply_and_hash_tables [OF assms(1), of n] assms(2) by blast

text \<open>C39: A commit publishes a table only with the batches of its own tick. After a
  successful commit at a tick at which table \<open>n\<close> has no version (no diff of the tick names
  it, its rows are from earlier ticks), readers find the table without any batch: its rows
  are in the store but every typed read of them through the engine fails.\<close>

theorem commit_hides_untouched_tables:
  assumes ok: "commit E j = (Inr res, j')" and inv: "store_inv (jr_store j)" and eng: "uses_engine E cat"
    and order: "\<And>xs. set (je_order E xs) = set xs" and q: "jr_query_engine j = Some q"
    and tick: "tick_as_u64 (jr_current_tick j) \<noteq> - 1"
    and n: "n \<notin> diff_table ` set (jr_pending_diffs j)" "hm_get (st_tables (jr_store j)) n = Some t"
      "hm_get (vt_versions t) (jr_current_tick j) = None"
  shows "hm_get (st_tables (jr_store j')) n = Some t
    \<and> (\<exists>q' v. jr_query_engine j' = Some q' \<and> read_single_table q' (jr_current_tick j) n = Inr v \<and> rv_batches v = []
         \<and> (\<forall>column. \<not> is_ok (engine_column_view (en_arrow (je_store E)) q' n column))
         \<and> (\<forall>r w column. lookup_row q' n r = Inr w \<longrightarrow>
              \<not> is_ok (lookup_column_view (en_arrow (je_store E)) w column)))"
proof -
  let ?t = "jr_current_tick j" and ?A = "en_arrow (je_store E)"
  from commit_Inr [OF ok] obtain h s1 ro q1 q2 sj1 where
    hash: "apply_diffs_and_hash E ?t (jr_pending_diffs j) (jr_store j) = (Inr h, s1)"
    and beg: "begin_publication E (jr_query_engine j) = (Inr ro, q1)"
    and pub: "publish E ?t s1 q1 = (Inr (), q2)" and s1: "jr_store j' = s1" and q2: "jr_query_engine j' = q2"
    by (auto simp del: fst_conv)
  have tab: "hm_get (st_tables s1) n = Some t" using hash_apply_store [OF hash n(1)] n(2) by simp
  have empty: "unwrap_or_default (get_table_batches s1 n ?t) = []"
    using tab n(3) by (simp add: get_table_batches_def get_table_def unwrap_or_default_def)
  define v where "v = table_read_view_new ?A cat n ?t [] (the (hm_get (sr_tables (qe_schema_registry q)) n))
    (Some (vt_position_map t))"
  obtain q' where q': "q2 = Some q'" "engine_latest_tick q' = Some ?t" and read: "read_single_table q' ?t n = Inr v"
    using committed_views [OF inv eng order hash beg [unfolded q] pub] tick tab empty v_def by (auto simp del: fst_conv)
  have v: "rv_batches v = []" by (simp add: v_def)
  have "hm_get (qe_view_cache q') n = Some v"
    using read by (auto simp: read_single_table_def engine_read_def request_with_table_def read_request_new_def read_views_def
        response_insert_def read_response_new_def response_get_def split: if_splits)
  then have "\<not> is_ok (engine_column_view ?A q' n column)" for column
    by (simp add: engine_column_view_def cached_view_def first_batch_columns_def first_batch_def v)
  moreover have "\<not> is_ok (lookup_column_view ?A w column)" if "lookup_row q' n r = Inr w" for r w column
    using that by (auto simp: lookup_row_def q' read lookup_column_view_def row_lookup_view_new_def v)
  ultimately show ?thesis using tab s1 q2 q'(1) read v by blast
qed

subsection \<open>Instances\<close>

definition demo_journal_env ::
  "(djson, lcol, field list \<times> lcol list, field list, int, (field list \<times> lcol list) query_engine,
    (field list \<times> lcol list) ingest_rollback, djson in_memory_save_journal) journal_env" where
  "demo_journal_env = \<lparr>je_store = demo_env, je_serialize = (\<lambda>d. Inr (diff_table d)), je_order = (\<lambda>xs. xs),
     je_begin = begin_ingest, je_ingest = ingest_snapshot list_arrow list_concat, je_store_snapshot = store_snapshot,
     je_rollback = ingest_rollback_run, je_append = sj_append\<rparr>"

definition demo_engine :: "(field list \<times> lcol list) query_engine" where
  "demo_engine = snd (register_table_schema (query_engine_new schema_registry_new) demo_spec)"

definition demo_journal ::
  "(djson, lcol, field list \<times> lcol list, (field list \<times> lcol list) query_engine, djson in_memory_save_journal) journal" where
  "demo_journal = with_save_journal (with_query_engine (journal_new demo_store) demo_engine) save_journal_new"

lemma demo_journal_env_simps [simp]:
  "je_store demo_journal_env = demo_env" "je_order demo_journal_env xs = xs" "je_append demo_journal_env = sj_append"
  "je_begin demo_journal_env = begin_ingest" "je_ingest demo_journal_env = ingest_snapshot list_arrow list_concat"
  "je_store_snapshot demo_journal_env = store_snapshot" "je_rollback demo_journal_env = ingest_rollback_run"
  "je_serialize demo_journal_env d = Inr (diff_table d)"
  by (simp_all add: demo_journal_env_def)

lemma demo_env_simps [simp]:
  "en_iteration demo_env = insertion_order" "en_json demo_env = demo_json" "en_arrow demo_env = list_arrow"
  by (simp_all add: demo_env_def)

lemma demo_uses_engine: "uses_engine demo_journal_env list_concat"
  by (simp add: uses_engine_def)

lemma demo_engine_simps [simp]:
  "qe_pending_ingest demo_engine = None" "hm_get (sr_tables (qe_schema_registry demo_engine)) ''units'' = Some demo_spec"
  by (simp_all add: demo_engine_def register_table_schema_def register_def query_engine_new_def schema_registry_new_def
      hm_contains_def demo_spec_def table_spec_deserialize_def rebuild_index_def)

lemma demo_store_sim: "lg_is_initialization (st_lifecycle demo_store) = False"
  by (rule demo_store_rest)

text \<open>A commit of the demo journal on any store with one table succeeds.\<close>

lemma demo_commit_ok:
  assumes hash: "apply_diffs_and_hash demo_journal_env t ds s = (Inr h, s1)" and inv: "store_inv s"
    and tabs: "fst ` set (st_tables s1) = {''units''}" and t: "tick_as_u64 t \<noteq> - 1"
  shows "\<exists>q2. publish demo_journal_env t s1 (Some (demo_engine\<lparr>qe_pending_ingest := Some pending_ingest_new\<rparr>)) = (Inr (), q2)"
proof -
  obtain w where w: "get_snapshot s1 t = Inr w" "ws_tick w = t" "fst ` set (ws_tables w) = {''units''}"
    using committed_snapshot [OF inv hash] tabs by auto
  let ?q = "demo_engine\<lparr>qe_pending_ingest := Some pending_ingest_new\<rparr>"
  obtain table where table: "hm_get (st_tables s1) ''units'' = Some table"
    using tabs by (metis insertI1 map_of_eq_None_iff not_Some_eq)
  have units: "set (map fst (ws_tables w)) \<subseteq> {''units''}" using w(3) by simp
  have "\<exists>q' p. publish_tables demo_journal_env t s1 ns q0 = (Inr (), q') \<and> qe_pending_ingest q' = Some p
      \<and> (pi_tick p = None \<or> pi_tick p = Some t)"
    if "set ns \<subseteq> {''units''}" "qe_pending_ingest q0 = Some p0" "pi_tick p0 = None \<or> pi_tick p0 = Some t"
      "qe_schema_registry q0 = qe_schema_registry demo_engine" for ns q0 p0
    using that
  proof (induction ns arbitrary: q0 p0)
    case (Cons n ns)
    then have n: "n = ''units''" by simp
    have reg: "hm_contains (sr_tables (qe_schema_registry q0)) n"
      using Cons.prems(4) by (simp add: n hm_contains_def)
    obtain q1 p1 where step: "ingest_snapshot list_arrow list_concat t n (unwrap_or_default (get_table_batches s1 n t))
        (vt_position_map table) q0 = (Inr (), q1)"
      and q1: "qe_pending_ingest q1 = Some p1" "pi_tick p1 = Some t" "qe_schema_registry q1 = qe_schema_registry q0"
      using ingest_staged [OF Cons.prems(2,3) t reg, of list_arrow list_concat] by simp
    from Cons.IH [of q1 p1] Cons.prems q1 show ?case
      by (simp add: n get_table_def table step [unfolded n])
  qed auto
  from this [OF units, of ?q pending_ingest_new] obtain q' p where
    pub: "publish_tables demo_journal_env t s1 (map fst (ws_tables w)) ?q = (Inr (), q')"
    and p: "qe_pending_ingest q' = Some p" "pi_tick p = None \<or> pi_tick p = Some t"
    by (auto simp: pending_ingest_new_def)
  have "\<exists>q2. store_snapshot w q' = (Inr (), q2)"
    using p w(2) t by (auto simp: store_snapshot_def store_world_snapshot_def Let_def split: option.splits)
  then show ?thesis using pub w(1) by (auto simp: publish_def publish_snapshot_def)
qed

lemma demo_empty_commit:
  "\<exists>j'. commit demo_journal_env demo_journal = (Inr \<lparr>co_tick = Tick 0, co_diff_count = 0, co_command_count = 0, co_state_hash = 0\<rparr>, j')"
proof -
  have inv: "store_inv demo_store" by (rule reachable_inv [OF demo_store_reachable])
  obtain s1 where hash: "apply_diffs_and_hash demo_journal_env (Tick 0) [] demo_store = (Inr 0, s1)"
    and tabs: "st_tables s1 = st_tables demo_store"
    by (simp add: apply_diffs_and_hash_def apply_diffs_def commit_only_def demo_store_sim generate_snapshot_def
        do_generate_snapshot_def Let_def hash_diffs_def)
  from demo_commit_ok [OF hash inv] tabs obtain q2 where
    "publish demo_journal_env (Tick 0) s1 (Some (demo_engine\<lparr>qe_pending_ingest := Some pending_ingest_new\<rparr>)) = (Inr (), q2)"
    by (auto simp: demo_store_units)
  then show ?thesis
    by (simp add: commit_def demo_journal_def with_save_journal_def with_query_engine_def journal_new_def tick_ZERO_def
        hash begin_publication_def begin_ingest_def append_record_def sj_append_def Let_def)
qed

lemma demo_journal_simps [simp]:
  "jr_store demo_journal = demo_store" "jr_query_engine demo_journal = Some demo_engine"
  "jr_current_tick demo_journal = Tick 0" "jr_pending_diffs demo_journal = []" "jr_pending_commands demo_journal = []"
  "jr_phase demo_journal = CpOpen"
  by (simp_all add: demo_journal_def with_save_journal_def with_query_engine_def journal_new_def tick_ZERO_def)

lemma demo_journal_reachable: "journal_reachable demo_journal_env demo_journal"
  using journal_op [of demo_journal_env _ "JAttachSave save_journal_new",
      OF journal_op [of demo_journal_env _ "JAttachEngine demo_engine", OF journal_start [of demo_journal_env demo_store]]]
  by (simp add: demo_journal_def)

theorem journal_runs_keep_order_witness:
  "map cr_tick (jr_history (snd (commit demo_journal_env demo_journal))) = [Tick 0]
   \<and> length (jr_history (snd (commit demo_journal_env demo_journal))) \<le> 1024
   \<and> jr_phase (snd (commit demo_journal_env demo_journal)) = CpOpen"
proof -
  obtain j' where j': "commit demo_journal_env demo_journal = (Inr \<lparr>co_tick = Tick 0, co_diff_count = 0,
      co_command_count = 0, co_state_hash = 0\<rparr>, j')" using demo_empty_commit by blast
  have "journal_reachable demo_journal_env j'"
    using journal_op [OF demo_journal_reachable, of JCommit] by (simp add: j')
  from journal_runs_keep_order [OF this] have "jr_phase j' = CpOpen" "length (jr_history j') \<le> 1024" by simp_all
  moreover have "map cr_tick (jr_history j') = [Tick 0]"
    using commit_Inr [OF j']
    by (auto simp: trim_history_eq newest_def max_commit_history_def record_with_commands_def demo_journal_def
        with_save_journal_def with_query_engine_def journal_new_def tick_ZERO_def)
  ultimately show ?thesis by (simp add: j')
qed


theorem commit_publishes_witness:
  "\<exists>res j' q' v. commit demo_journal_env demo_journal = (Inr res, j') \<and> jr_query_engine j' = Some q'
     \<and> read_single_table q' (Tick 0) ''units'' = Inr v \<and> co_tick res = Tick 0
     \<and> read_single_table q' (Tick 0) ''ghost'' = Inl (QETableNotFound ''ghost'')"
proof -
  obtain j' res where c: "commit demo_journal_env demo_journal = (Inr res, j')" using demo_empty_commit by blast
  have inv: "store_inv (jr_store demo_journal)" using reachable_inv [OF demo_store_reachable] by simp
  have tab: "hm_get (st_tables (jr_store j')) n = hm_get (st_tables demo_store) n" for n
    using commit_Inr [OF c] hash_apply_store [of demo_journal_env "Tick 0" "[]" demo_store _ _ n] by auto
  note all = commit_publishes [OF c inv demo_uses_engine, of demo_engine]
  have "res = \<lparr>co_tick = Tick 0, co_diff_count = 0, co_command_count = 0, co_state_hash = co_state_hash res\<rparr>"
    using all by simp
  then have "co_tick res = Tick 0" by (metis commit_result.select_convs(1))
  moreover obtain q' where "jr_query_engine j' = Some q'"
    "\<exists>v. read_single_table q' (Tick 0) ''units'' = Inr v" "read_single_table q' (Tick 0) ''ghost'' = Inl (QETableNotFound ''ghost'')"
    using all tab by (auto simp: demo_store_units)
  ultimately show ?thesis using c by blast
qed

theorem commit_hides_untouched_tables_witness:
  "\<exists>res j' q' v. commit demo_journal_env demo_journal = (Inr res, j') \<and> jr_query_engine j' = Some q'
     \<and> hm_get (vt_versions demo_units) (Tick 1) = Some [demo_batch]
     \<and> hm_get (st_tables (jr_store j')) ''units'' = Some demo_units
     \<and> read_single_table q' (Tick 0) ''units'' = Inr v \<and> rv_batches v = []"
proof -
  obtain j' res where c: "commit demo_journal_env demo_journal = (Inr res, j')" using demo_empty_commit by blast
  have inv: "store_inv (jr_store demo_journal)" using reachable_inv [OF demo_store_reachable] by simp
  from commit_hides_untouched_tables [OF c inv demo_uses_engine, of demo_engine "''units''" demo_units] c show ?thesis
    by (auto simp: demo_store_units) (auto simp: demo_units_def)
qed

end
