(* ===== verification/Sql_Parser.thy ===== *)
theory Sql_Parser
  imports Journal_Props
begin

section \<open>The SQL front end (scharnhorst\_journal)\<close>

text \<open>
  sql\_parser.rs: the handwritten parser for UPDATE, INSERT and DELETE and the translation
  of a statement to a diff; the debug writers of journal.rs and of the query engine that
  run it. The tokenizer's input and position are the text that remains. The text is ASCII:
  the parser slices by bytes, which panics inside a multi-byte character. \<open>f64\<close> parsing,
  the JSON constructors and the \<open>Debug\<close> text of floats and strings are the fields of
  \<open>sql_api\<close>.
\<close>

subsection \<open>Statements\<close>

datatype 'fl sql_value = SvInteger int | SvFloat 'fl | SvString string | SvBoolean bool | SvNull

datatype comparison_op = CoEq | CoLt | CoGt | CoLe | CoGe | CoNe

record 'fl where_condition =
  wc_column :: string
  wc_operator :: comparison_op
  wc_value :: "'fl sql_value"

datatype 'fl sql_statement =
    StUpdate string string "'fl sql_value" "'fl where_condition"
  | StInsert string "string list" "'fl sql_value list"
  | StDelete string "'fl where_condition"

record ('j, 'fl) sql_api =
  sa_parse_f64 :: "string \<Rightarrow> 'fl option"
  sa_int :: "int \<Rightarrow> 'j"
  sa_float :: "'fl \<Rightarrow> 'j option"
  sa_string :: "string \<Rightarrow> 'j"
  sa_bool :: "bool \<Rightarrow> 'j"
  sa_null :: 'j
  sa_debug_float :: "'fl \<Rightarrow> string"
  sa_debug_string :: "string \<Rightarrow> string"

fun sql_to_json :: "('j, 'fl) sql_api \<Rightarrow> 'fl sql_value \<Rightarrow> 'j" where
  "sql_to_json Q (SvInteger i) = sa_int Q i"
| "sql_to_json Q (SvFloat f) = (case sa_float Q f of Some j \<Rightarrow> j | None \<Rightarrow> sa_null Q)"
| "sql_to_json Q (SvString s) = sa_string Q s"
| "sql_to_json Q (SvBoolean b) = sa_bool Q b"
| "sql_to_json Q SvNull = sa_null Q"

fun sql_value_debug :: "('j, 'fl) sql_api \<Rightarrow> 'fl sql_value \<Rightarrow> string" where
  "sql_value_debug Q (SvInteger i) = ''Integer('' @ show_int i @ '')''"
| "sql_value_debug Q (SvFloat f) = ''Float('' @ sa_debug_float Q f @ '')''"
| "sql_value_debug Q (SvString s) = ''String('' @ sa_debug_string Q s @ '')''"
| "sql_value_debug Q (SvBoolean b) = ''Boolean('' @ (if b then ''true'' else ''false'') @ '')''"
| "sql_value_debug Q SvNull = ''Null''"

subsection \<open>The tokenizer\<close>

text \<open>\<open>skip_whitespace\<close> is \<open>trim_start\<close> of what remains.\<close>

definition ensure_finished :: "string \<Rightarrow> string \<Rightarrow> journal_error + unit" where
  "ensure_finished statement s =
     (if trim_start s = [] then Inr () else Inl (JESqlParse (''unexpected trailing tokens after '' @ statement)))"

definition peek_char :: "string \<Rightarrow> char option" where
  "peek_char s = (case trim_start s of [] \<Rightarrow> None | c # _ \<Rightarrow> Some c)"

definition ident_char :: "char \<Rightarrow> bool" where
  "ident_char c \<longleftrightarrow> is_alnum c \<or> c = CHR ''_''"

definition consume_keyword :: "string \<Rightarrow> string \<Rightarrow> bool \<times> string" where
  "consume_keyword keyword s =
     (let r = trim_start s; n = length keyword in
      if length r \<ge> n \<and> eq_ignore_case (take n r) keyword \<and> (length r = n \<or> \<not> ident_char (r ! n))
      then (True, drop n r) else (False, r))"

definition consume_operator :: "string \<Rightarrow> string \<Rightarrow> bool \<times> string" where
  "consume_operator op s =
     (let r = trim_start s in if starts_with r op then (True, drop (length op) r) else (False, r))"

definition next_identifier :: "string \<Rightarrow> string option \<times> string" where
  "next_identifier s =
     (case trim_start s of
        [] \<Rightarrow> (None, [])
      | c # cs \<Rightarrow> if \<not> is_alpha c \<and> c \<noteq> CHR ''_'' then (None, c # cs)
          else (Some (takeWhile ident_char (c # cs)), dropWhile ident_char (c # cs)))"

definition next_comparison_op :: "string \<Rightarrow> comparison_op option \<times> string" where
  "next_comparison_op s =
     (let r = trim_start s in
      if starts_with r ''<='' then (Some CoLe, drop 2 r)
      else if starts_with r ''>='' then (Some CoGe, drop 2 r)
      else if starts_with r ''!='' \<or> starts_with r ''<>'' then (Some CoNe, drop 2 r)
      else if starts_with r ''<'' then (Some CoLt, drop 1 r)
      else if starts_with r ''>'' then (Some CoGt, drop 1 r)
      else if starts_with r ''='' then (Some CoEq, drop 1 r)
      else (None, r))"

text \<open>The scan for the closing quote: the raw text before it and what follows.\<close>

fun scan_literal :: "char \<Rightarrow> string \<Rightarrow> (string \<times> string) option" where
  "scan_literal q [] = None"
| "scan_literal q [c] = (if c = q then Some ([], []) else None)"
| "scan_literal q (c # c2 # cs) =
     (if c = q then
        (if c2 = q then map_option (\<lambda>(raw, rest). (c # c2 # raw, rest)) (scan_literal q cs)
         else Some ([], c2 # cs))
      else map_option (\<lambda>(raw, rest). (c # raw, rest)) (scan_literal q (c2 # cs)))"

text \<open>\<open>value.replace(qq, q)\<close>\<close>

fun undouble :: "char \<Rightarrow> string \<Rightarrow> string" where
  "undouble q (c # c2 # cs) = (if c = q \<and> c2 = q then q # undouble q cs else c # undouble q (c2 # cs))"
| "undouble q cs = cs"

definition parse_string_literal :: "char \<Rightarrow> string \<Rightarrow> 'fl sql_value option \<times> string" where
  "parse_string_literal quote s =
     (case trim_start s of
        [] \<Rightarrow> (None, [])
      | c # cs \<Rightarrow> if c \<noteq> quote then (None, c # cs)
          else (case scan_literal quote cs of
              None \<Rightarrow> (None, [])
            | Some (raw, rest) \<Rightarrow> (Some (SvString (undouble quote raw)), rest)))"

definition parse_keyword_value :: "string \<Rightarrow> 'fl sql_value option \<times> string" where
  "parse_keyword_value s =
     (let r = trim_start s; word = takeWhile is_alpha r; upper = map to_upper word; rest = drop (length word) r in
      if upper = ''TRUE'' then (Some (SvBoolean True), rest)
      else if upper = ''FALSE'' then (Some (SvBoolean False), rest)
      else if upper = ''NULL'' then (Some SvNull, rest)
      else (None, r))"

text \<open>The loop of \<open>parse_number\<close>: index, end position and whether a dot was seen.\<close>

fun scan_number :: "nat \<Rightarrow> nat \<Rightarrow> bool \<Rightarrow> string \<Rightarrow> nat \<times> bool" where
  "scan_number i end_pos has_dot [] = (end_pos, has_dot)"
| "scan_number i end_pos has_dot (c # cs) =
     (if is_dec c then scan_number (i + 1) (i + 1) has_dot cs
      else if c = CHR ''.'' \<and> \<not> has_dot \<and> i > 0 then scan_number (i + 1) (i + 1) True cs
      else if (c = CHR ''-'' \<or> c = CHR ''+'') \<and> i = 0 then scan_number (i + 1) (i + 1) has_dot cs
      else (end_pos, has_dot))"

definition parse_number :: "('j, 'fl) sql_api \<Rightarrow> string \<Rightarrow> 'fl sql_value option \<times> string" where
  "parse_number Q s =
     (let r = trim_start s in
      case scan_number 0 0 False r of (end_pos, has_dot) \<Rightarrow>
        if end_pos = 0 \<or> (end_pos = 1 \<and> \<not> is_dec (hd r)) then (None, r)
        else (let num = take end_pos r; rest = drop end_pos r in
          if has_dot then (map_option SvFloat (sa_parse_f64 Q num), rest)
          else (case parse_i64 num of Inl _ \<Rightarrow> (None, rest) | Inr i \<Rightarrow> (Some (SvInteger i), rest))))"

definition next_value :: "('j, 'fl) sql_api \<Rightarrow> string \<Rightarrow> 'fl sql_value option \<times> string" where
  "next_value Q s =
     (case trim_start s of
        [] \<Rightarrow> (None, [])
      | c # cs \<Rightarrow>
          if c = CHR 0x27 \<or> c = CHR 0x22 then parse_string_literal c (c # cs)
          else if is_alpha c then parse_keyword_value (c # cs)
          else if is_dec c \<or> c = CHR ''-'' \<or> c = CHR ''+'' then parse_number Q (c # cs)
          else (None, c # cs))"

subsection \<open>Every token shortens the text\<close>

lemma length_trim_start: "length (trim_start s) \<le> length s"
  by (simp add: trim_start_def length_dropWhile_le)

lemma next_identifier_shorter: "next_identifier s = (Some i, r) \<Longrightarrow> length r < length s"
proof -
  assume a: "next_identifier s = (Some i, r)"
  then obtain c cs where c: "trim_start s = c # cs" "is_alpha c \<or> c = CHR ''_''" "r = dropWhile ident_char (c # cs)"
    by (auto simp: next_identifier_def split: list.splits if_splits)
  then have "r = dropWhile ident_char cs" by (auto simp: ident_char_def is_alnum_def)
  then show ?thesis using c(1) length_trim_start [of s] length_dropWhile_le [of ident_char cs] by simp
qed

lemma scan_literal_shorter: "scan_literal q s = Some (raw, rest) \<Longrightarrow> length raw + length rest < length s"
  by (induction q s arbitrary: raw rest rule: scan_literal.induct) (auto split: if_splits)

lemma scan_number_bounds:
  "scan_number i e d s = (e', d') \<Longrightarrow> e \<le> i \<Longrightarrow> e' \<le> i + length s \<and> e \<le> e'"
  by (induction i e d s rule: scan_number.induct) (fastforce split: if_splits)+

lemma next_value_shorter: "next_value Q s = (Some v, r) \<Longrightarrow> length r < length s"
proof -
  assume a: "next_value Q s = (Some v, r)"
  then obtain c cs where c: "trim_start s = c # cs" by (auto simp: next_value_def split: list.splits)
  have len: "Suc (length cs) \<le> length s" using length_trim_start [of s] c by simp
  have idle: "trim_start (c # cs) = c # cs"
    using c by (metis dropWhile_idem trim_start_def)
  consider "parse_string_literal c (c # cs) = (Some v, r)" | "is_alpha c" "parse_keyword_value (c # cs) = (Some v, r)"
    | "parse_number Q (c # cs) = (Some v, r)"
    using a c by (auto simp: next_value_def split: if_splits)
  then have "length r \<le> length cs"
  proof cases
    case 1
    then show ?thesis using scan_literal_shorter idle
      by (fastforce simp: parse_string_literal_def split: option.splits prod.splits)
  next
    case 2
    then show ?thesis using idle
      by (auto simp: parse_keyword_value_def Let_def split: if_splits)
  next
    case 3
    then show ?thesis using idle
      by (auto simp: parse_number_def Let_def split: prod.splits if_splits sum.splits)
  qed
  then show ?thesis using len by simp
qed

subsection \<open>Lists in parentheses\<close>

function paren_idents :: "string list \<Rightarrow> string \<Rightarrow> string list option \<times> string" where
  "paren_idents items s =
     (if peek_char s = Some CHR '')'' then (Some items, tl (trim_start s))
      else (case next_identifier s of
          (None, r) \<Rightarrow> (None, r)
        | (Some ident, r) \<Rightarrow>
            if peek_char r = Some CHR '','' then paren_idents (items @ [ident]) (tl (trim_start r))
            else if peek_char r = Some CHR '')'' then (Some (items @ [ident]), tl (trim_start r))
            else (None, trim_start r)))"
  by pat_completeness auto

lemma length_tl_trim_start: "length (tl (trim_start s)) \<le> length s"
  using length_trim_start [of s] by simp

termination paren_idents
  by (relation "measure (\<lambda>(_, s). length s)")
    (auto dest!: next_identifier_shorter sym [of "(_, _)"] intro: le_less_trans [OF order_trans [OF diff_le_self length_trim_start]])

declare paren_idents.simps [simp del]

definition next_paren_list :: "string \<Rightarrow> string list option \<times> string" where
  "next_paren_list s =
     (let r = trim_start s in
      if starts_with r ''('' then paren_idents [] (tl r) else (None, r))"

function paren_values :: "('j, 'fl) sql_api \<Rightarrow> 'fl sql_value list \<Rightarrow> string \<Rightarrow> 'fl sql_value list option \<times> string" where
  "paren_values Q values s =
     (if peek_char s = Some CHR '')'' then (Some values, tl (trim_start s))
      else (case next_value Q s of
          (None, r) \<Rightarrow> (None, r)
        | (Some v, r) \<Rightarrow>
            if peek_char r = Some CHR '','' then paren_values Q (values @ [v]) (tl (trim_start r))
            else if peek_char r = Some CHR '')'' then (Some (values @ [v]), tl (trim_start r))
            else (None, trim_start r)))"
  by pat_completeness auto

termination paren_values
  by (relation "measure (\<lambda>(_, _, s). length s)")
    (auto dest!: next_value_shorter sym [of "(_, _)"] intro: le_less_trans [OF order_trans [OF diff_le_self length_trim_start]])

declare paren_values.simps [simp del]

definition next_paren_values :: "('j, 'fl) sql_api \<Rightarrow> string \<Rightarrow> 'fl sql_value list option \<times> string" where
  "next_paren_values Q s =
     (let r = trim_start s in
      if starts_with r ''('' then paren_values Q [] (tl r) else (None, r))"

subsection \<open>Statements\<close>

definition strip_statement_keyword :: "string \<Rightarrow> string \<Rightarrow> journal_error + string" where
  "strip_statement_keyword sql keyword =
     (let trimmed = trim_start sql; n = length keyword in
      if n \<le> length trimmed \<and> eq_ignore_case (take n trimmed) keyword
         \<and> (length trimmed = n \<or> \<not> ident_char (trimmed ! n))
      then Inr (drop n trimmed) else Inl (JESqlParse (''expected '' @ keyword)))"

text \<open>One step of the parsers: a token or the error, and what remains.\<close>

definition expect :: "string \<Rightarrow> 'x option \<times> string \<Rightarrow> journal_error + ('x \<times> string)" where
  "expect message p = (case p of (Some x, r) \<Rightarrow> Inr (x, r) | (None, _) \<Rightarrow> Inl (JESqlParse message))"

definition expect_true :: "string \<Rightarrow> bool \<times> string \<Rightarrow> journal_error + string" where
  "expect_true message p = (case p of (True, r) \<Rightarrow> Inr r | (False, _) \<Rightarrow> Inl (JESqlParse message))"

definition parse_where_clause :: "('j, 'fl) sql_api \<Rightarrow> string \<Rightarrow> journal_error + ('fl where_condition \<times> string)" where
  "parse_where_clause Q s =
     rbind (expect ''expected column name in WHERE'' (next_identifier s)) (\<lambda>(column, s).
     rbind (expect ''expected comparison operator in WHERE'' (next_comparison_op s)) (\<lambda>(operator, s).
     rbind (expect ''expected value in WHERE'' (next_value Q s)) (\<lambda>(v, s).
     Inr (\<lparr>wc_column = column, wc_operator = operator, wc_value = v\<rparr>, s))))"

definition parse_update :: "('j, 'fl) sql_api \<Rightarrow> string \<Rightarrow> journal_error + 'fl sql_statement" where
  "parse_update Q sql =
     rbind (strip_statement_keyword sql ''UPDATE'') (\<lambda>s.
     rbind (expect ''expected table name after UPDATE'' (next_identifier s)) (\<lambda>(table, s).
     rbind (expect_true ''expected SET after table name'' (consume_keyword ''SET'' s)) (\<lambda>s.
     rbind (expect ''expected column name after SET'' (next_identifier s)) (\<lambda>(column, s).
     rbind (expect_true ''expected = after column name'' (consume_operator ''='' s)) (\<lambda>s.
     rbind (expect ''expected value after ='' (next_value Q s)) (\<lambda>(v, s).
     rbind (expect_true ''expected WHERE clause'' (consume_keyword ''WHERE'' s)) (\<lambda>s.
     rbind (parse_where_clause Q s) (\<lambda>(condition, s).
     rbind (ensure_finished ''UPDATE'' s) (\<lambda>_.
     Inr (StUpdate table column v condition))))))))))"

definition parse_insert :: "('j, 'fl) sql_api \<Rightarrow> string \<Rightarrow> journal_error + 'fl sql_statement" where
  "parse_insert Q sql =
     rbind (strip_statement_keyword sql ''INSERT'') (\<lambda>s.
     rbind (expect_true ''expected INTO after INSERT'' (consume_keyword ''INTO'' s)) (\<lambda>s.
     rbind (expect ''expected table name after INTO'' (next_identifier s)) (\<lambda>(table, s).
     rbind (expect ''expected column list (col1, col2, ...)'' (next_paren_list s)) (\<lambda>(columns, s).
     rbind (expect_true ''expected VALUES after column list'' (consume_keyword ''VALUES'' s)) (\<lambda>s.
     rbind (expect ''expected value list (val1, val2, ...)'' (next_paren_values Q s)) (\<lambda>(values, s).
     if length columns \<noteq> length values then Inl (JESqlParse (''column count ('' @ show_nat (length columns)
       @ '') does not match value count ('' @ show_nat (length values) @ '')''))
     else rbind (ensure_finished ''INSERT'' s) (\<lambda>_. Inr (StInsert table columns values))))))))"

definition parse_delete :: "('j, 'fl) sql_api \<Rightarrow> string \<Rightarrow> journal_error + 'fl sql_statement" where
  "parse_delete Q sql =
     rbind (strip_statement_keyword sql ''DELETE'') (\<lambda>s.
     rbind (expect_true ''expected FROM after DELETE'' (consume_keyword ''FROM'' s)) (\<lambda>s.
     rbind (expect ''expected table name after FROM'' (next_identifier s)) (\<lambda>(table, s).
     rbind (expect_true ''expected WHERE clause'' (consume_keyword ''WHERE'' s)) (\<lambda>s.
     rbind (parse_where_clause Q s) (\<lambda>(condition, s).
     rbind (ensure_finished ''DELETE'' s) (\<lambda>_. Inr (StDelete table condition)))))))"

definition sql_parse :: "('j, 'fl) sql_api \<Rightarrow> string \<Rightarrow> journal_error + 'fl sql_statement" where
  "sql_parse Q sql =
     (let trimmed = trim sql in
      if trimmed = [] then Inl (JESqlParse ''empty SQL statement'')
      else (let word = map to_upper (first_word trimmed) in
        if word = ''UPDATE'' then parse_update Q trimmed
        else if word = ''INSERT'' then parse_insert Q trimmed
        else if word = ''DELETE'' then parse_delete Q trimmed
        else Inl (JESqlUnsupported (''unsupported SQL statement type: '' @ word))))"

subsection \<open>Statements as diffs\<close>

definition sql_value_to_row_id :: "('j, 'fl) sql_api \<Rightarrow> 'fl sql_value \<Rightarrow> journal_error + row_id" where
  "sql_value_to_row_id Q v =
     (case v of
        SvInteger i \<Rightarrow> if i \<ge> 0 then Inr (RowId (word_of_int i))
          else Inl (JESqlTypeError ''positive integer (row id)'' (sql_value_debug Q v))
      | _ \<Rightarrow> Inl (JESqlTypeError ''positive integer (row id)'' (sql_value_debug Q v)))"

definition extract_row_id_from_condition :: "('j, 'fl) sql_api \<Rightarrow> 'fl where_condition \<Rightarrow> journal_error + row_id" where
  "extract_row_id_from_condition Q c =
     (let col_lower = map to_lower (wc_column c) in
      if wc_operator c \<noteq> CoEq
      then Inl (JESqlUnsupported ''WHERE clause must use = operator for row identification'')
      else if \<not> ends_with col_lower ''_id'' \<and> col_lower \<noteq> ''id'' \<and> col_lower \<noteq> ''row_id''
      then Inl (JESqlUnsupported (''WHERE clause must use an id column for row identification, got: '' @ wc_column c))
      else sql_value_to_row_id Q (wc_value c))"

definition insert_column ::
  "('j, 'fl) sql_api \<Rightarrow> row_id option \<times> (string \<times> 'j) list \<Rightarrow> string \<times> 'fl sql_value
     \<Rightarrow> journal_error + (row_id option \<times> (string \<times> 'j) list)" where
  "insert_column Q st cv = (case st of (row, vals) \<Rightarrow> case cv of (col, v) \<Rightarrow>
     rbind (if eq_ignore_case col ''row_id'' \<or> eq_ignore_case col ''id'' \<or> eq_ignore_case col ''actor_id''
       then rbind (sql_value_to_row_id Q v) (\<lambda>r. Inr (Some r)) else Inr row) (\<lambda>row'.
     Inr (row', hm_insert col (sql_to_json Q v) vals)))"

fun statement_to_diff :: "('j, 'fl) sql_api \<Rightarrow> 'fl sql_statement \<Rightarrow> journal_error + 'j diff" where
  "statement_to_diff Q (StUpdate table column v condition) =
     rbind (extract_row_id_from_condition Q condition) (\<lambda>row. Inr (DUpdate table row column (sql_to_json Q v)))"
| "statement_to_diff Q (StInsert table cols vs) =
     (if length cols \<noteq> length vs then Inl (JESqlParse ''column count does not match value count'')
      else rbind (try_fold (insert_column Q) (None, []) (zip cols vs)) (\<lambda>(row, vals).
        rbind (ok_or row (JESqlParse ''INSERT must specify a row identifier column'')) (\<lambda>r.
        Inr (DInsert table r vals))))"
| "statement_to_diff Q (StDelete table condition) =
     rbind (extract_row_id_from_condition Q condition) (\<lambda>row. Inr (DDelete table row))"

subsection \<open>The debug writers\<close>

text \<open>The legacy writer of journal.rs; \<open>now\<close> is the system time of the call.\<close>

record 't debug_sql_journal =
  dq_enabled :: bool
  dq_sql_log :: "(string \<times> 't) list"

definition debug_sql_new :: "'t debug_sql_journal" where
  "debug_sql_new = \<lparr>dq_enabled = True, dq_sql_log = []\<rparr>"

definition debug_sql_set_enabled :: "'t debug_sql_journal \<Rightarrow> bool \<Rightarrow> 't debug_sql_journal" where
  "debug_sql_set_enabled d b = d\<lparr>dq_enabled := b\<rparr>"

definition clear_sql_log :: "'t debug_sql_journal \<Rightarrow> 't debug_sql_journal" where
  "clear_sql_log d = d\<lparr>dq_sql_log := []\<rparr>"

definition execute_sql ::
  "('j, 'fl) sql_api \<Rightarrow> 't \<Rightarrow> string \<Rightarrow> 't debug_sql_journal \<times> ('j, 'a, 'b, 'q, 'sj) journal
     \<Rightarrow> (journal_error + unit) \<times> 't debug_sql_journal \<times> ('j, 'a, 'b, 'q, 'sj) journal" where
  "execute_sql Q now sql st = (case st of (d, j) \<Rightarrow>
     if \<not> dq_enabled d then (Inl (JESubmitFailed ''DebugWriteJournal is disabled''), d, j)
     else (let d' = d\<lparr>dq_sql_log := dq_sql_log d @ [(sql, now)]\<rparr> in
       case rbind (sql_parse Q sql) (statement_to_diff Q) of
         Inl e \<Rightarrow> (Inl e, d', j)
       | Inr diff \<Rightarrow> (case submit_diff diff j of (r, j') \<Rightarrow> (r, d', j'))))"

text \<open>The writer of the query engine, which records the operation in its ring first.\<close>

definition execute_sql_write ::
  "('j, 'fl) sql_api \<Rightarrow> string \<Rightarrow> tick \<Rightarrow> 'b query_engine \<times> ('j, 'a, 'b, 'q, 'sj) journal
     \<Rightarrow> (query_error + unit) \<times> 'b query_engine \<times> ('j, 'a, 'b, 'q, 'sj) journal" where
  "execute_sql_write Q sql tick st = (case st of (q, j) \<Rightarrow>
     (case sql_parse Q sql of
        Inl e \<Rightarrow> (Inl (QESqlWrite (''SQL parse error: '' @ journal_error_text e)), q, j)
      | Inr stmt \<Rightarrow>
     (case statement_to_diff Q stmt of
        Inl e \<Rightarrow> (Inl (QESqlWrite (''SQL to Diff error: '' @ journal_error_text e)), q, j)
      | Inr diff \<Rightarrow>
          (let q' = q\<lparr>qe_debug_journal := debug_record (qe_debug_journal q) (diff_to_debug_write_op diff tick)\<rparr> in
           case submit_diff diff j of
             (Inl e, j') \<Rightarrow> (Inl (QESqlWrite (''journal submit error: '' @ journal_error_text e)), q', j')
           | (Inr _, j') \<Rightarrow> (Inr (), q', j')))))"

subsection \<open>Printing statements\<close>

fun double_quotes :: "char \<Rightarrow> string \<Rightarrow> string" where
  "double_quotes q [] = []"
| "double_quotes q (c # cs) = (if c = q then q # q # double_quotes q cs else c # double_quotes q cs)"

fun show_value :: "'fl sql_value \<Rightarrow> string" where
  "show_value (SvInteger i) = show_int i"
| "show_value (SvFloat f) = []"
| "show_value (SvString s) = CHR 0x27 # double_quotes CHR 0x27 s @ [CHR 0x27]"
| "show_value (SvBoolean b) = (if b then ''TRUE'' else ''FALSE'')"
| "show_value SvNull = ''NULL''"

fun show_op :: "comparison_op \<Rightarrow> string" where
  "show_op CoEq = ''=''" | "show_op CoLt = ''<''" | "show_op CoGt = ''>''"
| "show_op CoLe = ''<=''" | "show_op CoGe = ''>=''" | "show_op CoNe = ''!=''"

definition show_where :: "'fl where_condition \<Rightarrow> string" where
  "show_where w = wc_column w @ '' '' @ show_op (wc_operator w) @ '' '' @ show_value (wc_value w)"

fun commas :: "string list \<Rightarrow> string" where
  "commas [] = []"
| "commas [x] = x"
| "commas (x # xs) = x @ '', '' @ commas xs"

fun show_statement :: "'fl sql_statement \<Rightarrow> string" where
  "show_statement (StUpdate t c v w) = ''UPDATE '' @ t @ '' SET '' @ c @ '' = '' @ show_value v @ '' WHERE '' @ show_where w"
| "show_statement (StInsert t cs vs) = ''INSERT INTO '' @ t @ '' ('' @ commas cs @ '') VALUES ('' @ commas (map show_value vs) @ '')''"
| "show_statement (StDelete t w) = ''DELETE FROM '' @ t @ '' WHERE '' @ show_where w"

definition valid_ident :: "string \<Rightarrow> bool" where
  "valid_ident n \<longleftrightarrow> n \<noteq> [] \<and> (is_alpha (hd n) \<or> hd n = CHR ''_'') \<and> list_all ident_char n"

fun printable :: "'fl sql_value \<Rightarrow> bool" where
  "printable (SvInteger i) = in_i64 i"
| "printable (SvFloat f) = False"
| "printable v = True"

fun valid_statement :: "'fl sql_statement \<Rightarrow> bool" where
  "valid_statement (StUpdate t c v w) \<longleftrightarrow> valid_ident t \<and> valid_ident c \<and> printable v
     \<and> valid_ident (wc_column w) \<and> printable (wc_value w)"
| "valid_statement (StInsert t cs vs) \<longleftrightarrow> valid_ident t \<and> list_all valid_ident cs \<and> list_all printable vs \<and> length cs = length vs"
| "valid_statement (StDelete t w) \<longleftrightarrow> valid_ident t \<and> valid_ident (wc_column w) \<and> printable (wc_value w)"

text \<open>What may follow a token: nothing, a space, a comma or a closing parenthesis.\<close>

definition stops :: "string \<Rightarrow> bool" where
  "stops r \<longleftrightarrow> r = [] \<or> hd r \<in> {CHR '' '', CHR '','', CHR '')''}"

lemma stops_simps [simp]: "stops []" "stops (CHR '' '' # r)" "stops (CHR '','' # r)" "stops (CHR '')'' # r)"
  by (simp_all add: stops_def)

lemma char_classes [simp]:
  "is_ws CHR '' ''" "\<not> ident_char CHR '' ''" "\<not> ident_char CHR '',''" "\<not> ident_char CHR '')''"
  "\<not> is_dec CHR '' ''" "\<not> is_dec CHR '',''" "\<not> is_dec CHR '')''" "\<not> is_alpha CHR '' ''" "\<not> is_alpha CHR '',''"
  "\<not> is_alpha CHR '')''" "\<not> is_ws CHR '',''" "\<not> is_ws CHR '')''" "\<not> is_ws CHR ''(''" "\<not> is_ws CHR 0x27"
  by (simp_all add: is_ws_def ident_char_def is_alnum_def is_alpha_def is_upper_def is_lower_def is_dec_def digit_val_def)

lemma class_disjoint:
  "is_alpha c \<Longrightarrow> \<not> is_ws c" "is_dec c \<Longrightarrow> \<not> is_ws c" "is_dec c \<Longrightarrow> \<not> is_alpha c" "ident_char c \<Longrightarrow> \<not> is_ws c"
  by (auto simp: is_ws_def ident_char_def is_alnum_def is_alpha_def is_upper_def is_lower_def is_dec_def digit_val_def Let_def
      split: if_splits)

lemma stops_not_ident: "stops r \<Longrightarrow> r = [] \<or> \<not> ident_char (hd r)"
  by (cases r) (auto simp: stops_def)

lemma next_identifier_ident [simp]:
  assumes "valid_ident n" and "stops r"
  shows "next_identifier (n @ r) = (Some n, r)" and "next_identifier (CHR '' '' # n @ r) = (Some n, r)"
proof -
  obtain c cs where n: "n = c # cs" "is_alpha c \<or> c = CHR ''_''" "list_all ident_char n"
    using assms(1) by (cases n) (auto simp: valid_ident_def)
  have ws: "\<not> is_ws c" using n(3) class_disjoint(4) by (simp add: n(1))
  have "takeWhile ident_char (n @ r) = n \<and> dropWhile ident_char (n @ r) = r"
    using n(3) stops_not_ident [OF assms(2)] by (cases r) (auto simp: list_all_iff takeWhile_append dropWhile_append)
  then show "next_identifier (n @ r) = (Some n, r)" "next_identifier (CHR '' '' # n @ r) = (Some n, r)"
    using n ws by (auto simp: next_identifier_def)
qed

lemma eq_ignore_case_refl [simp]: "eq_ignore_case s s"
  by (simp add: eq_ignore_case_def)

lemma keyword_step:
  "kw \<noteq> [] \<Longrightarrow> \<not> is_ws (hd kw) \<Longrightarrow> consume_keyword kw (CHR '' '' # kw @ CHR '' '' # r) = (True, CHR '' '' # r)"
  by (simp add: consume_keyword_def Let_def)

lemma strip_step:
  "kw \<noteq> [] \<Longrightarrow> \<not> is_ws (hd kw) \<Longrightarrow> strip_statement_keyword (kw @ CHR '' '' # r) kw = Inr (CHR '' '' # r)"
  by (simp add: strip_statement_keyword_def Let_def)

lemma letters_not_ws [simp]:
  "\<not> is_ws CHR ''S''" "\<not> is_ws CHR ''W''" "\<not> is_ws CHR ''I''" "\<not> is_ws CHR ''V''" "\<not> is_ws CHR ''F''" "\<not> is_ws CHR ''U''"
  "\<not> is_ws CHR ''D''" "\<not> is_ws CHR ''N''" "\<not> is_ws CHR ''P''" "\<not> is_ws CHR ''A''" "\<not> is_ws CHR ''T''" "\<not> is_ws CHR ''E''"
  "\<not> is_ws CHR ''R''" "\<not> is_ws CHR ''L''"
  by (simp_all add: is_ws_def)

lemmas keyword_steps [simp] =
  keyword_step [of "''SET''", simplified] keyword_step [of "''WHERE''", simplified]
  keyword_step [of "''INTO''", simplified] keyword_step [of "''VALUES''", simplified]
  keyword_step [of "''FROM''", simplified]
  strip_step [of "''UPDATE''", simplified] strip_step [of "''INSERT''", simplified] strip_step [of "''DELETE''", simplified]

lemma undouble_other: "c \<noteq> q \<Longrightarrow> undouble q (c # s) = c # undouble q s"
  by (cases s) simp_all

lemma undouble_double: "undouble q (double_quotes q s) = s"
  by (induction s) (simp_all add: undouble_other)

lemma scan_literal_other: "c \<noteq> q \<Longrightarrow> s \<noteq> [] \<Longrightarrow>
    scan_literal q (c # s) = map_option (\<lambda>(raw, rest). (c # raw, rest)) (scan_literal q s)"
  by (cases s) simp_all

lemma scan_literal_double:
  "r = [] \<or> hd r \<noteq> q \<Longrightarrow> scan_literal q (double_quotes q s @ q # r) = Some (double_quotes q s, r)"
proof (induction s)
  case Nil
  then show ?case by (cases r) simp_all
qed (simp add: scan_literal_other)

lemma scan_digits:
  "list_all is_dec ds \<Longrightarrow> stops r \<Longrightarrow> ds \<noteq> [] \<Longrightarrow> scan_number i e d (ds @ r) = (i + length ds, d)"
proof (induction ds arbitrary: i e)
  case (Cons c ds)
  show ?case
  proof (cases "ds = []")
    case True
    then show ?thesis using Cons.prems by (cases r) (auto simp: stops_def)
  next
    case False
    then show ?thesis using Cons.IH [of "i + 1" "i + 1"] Cons.prems by simp
  qed
qed simp

lemma show_nat_dec: "list_all is_dec (show_nat n)"
  unfolding list_all_iff by (auto dest!: show_nat_digits simp: is_dec_def)

lemma show_int_shape:
  "\<exists>c ds. show_int i = c # ds \<and> list_all is_dec ds \<and> (is_dec c \<or> c = CHR ''-'' \<and> ds \<noteq> [])"
proof (cases "i < 0")
  case True
  then show ?thesis using show_nat_dec by (simp add: show_int_def)
next
  case False
  then obtain c ds where "show_int i = c # ds" by (cases "show_nat (nat i)") (simp_all add: show_int_def)
  moreover have "list_all is_dec (show_int i)" using False show_nat_dec by (simp add: show_int_def)
  ultimately show ?thesis by auto
qed

lemma minus_not_dec [simp]: "\<not> is_dec CHR ''-''" "\<not> is_ws CHR ''-''" "\<not> is_alpha CHR ''-''" "\<not> is_alpha CHR 0x27"
  by (simp_all add: is_dec_def digit_val_def is_ws_def is_alpha_def is_upper_def is_lower_def)

lemma parse_number_int:
  assumes "in_i64 i" and "stops r"
  shows "parse_number Q (show_int i @ r) = (Some (SvInteger i), r)"
proof -
  obtain c ds where s: "show_int i = c # ds" and ds: "list_all is_dec ds" "is_dec c \<or> c = CHR ''-'' \<and> ds \<noteq> []"
    using show_int_shape by blast
  have trim: "trim_start (show_int i @ r) = show_int i @ r"
    using ds(2) class_disjoint(2) by (auto simp: s)
  have scan: "scan_number 0 0 False (show_int i @ r) = (length (show_int i), False)"
  proof (cases "is_dec c")
    case True
    then show ?thesis using scan_digits [of "c # ds" r 0 0 False] ds(1) assms(2) by (simp add: s)
  next
    case False
    then show ?thesis using scan_digits [of ds r 1 1 False] ds assms(2) by (simp add: s)
  qed
  have "\<not> (length (show_int i) = 1 \<and> \<not> is_dec (hd (show_int i @ r)))" using ds(2) by (auto simp: s)
  then show ?thesis
    using parse_i64_show_int [OF assms(1)] unfolding parse_number_def Let_def trim scan by (simp add: s)
qed

lemma takeWhile_alpha: "list_all is_alpha w \<Longrightarrow> stops r \<Longrightarrow> takeWhile is_alpha (w @ r) = w"
  by (cases r) (auto simp: stops_def list_all_iff takeWhile_append)

lemma parse_keyword_value_word:
  assumes "list_all is_alpha w" and "w \<noteq> []" and "stops r"
  shows "parse_keyword_value (w @ r) =
     (if map to_upper w = ''TRUE'' then (Some (SvBoolean True), r)
      else if map to_upper w = ''FALSE'' then (Some (SvBoolean False), r)
      else if map to_upper w = ''NULL'' then (Some SvNull, r) else (None, w @ r))"
proof -
  have "trim_start (w @ r) = w @ r" using assms class_disjoint(1) by (cases w) simp_all
  then show ?thesis by (simp add: parse_keyword_value_def Let_def takeWhile_alpha [OF assms(1,3)])
qed

lemma upper_letters [simp]:
  "is_alpha CHR ''A''" "to_upper CHR ''A'' = CHR ''A''" "is_alpha CHR ''D''" "to_upper CHR ''D'' = CHR ''D''" "is_alpha CHR ''E''" "to_upper CHR ''E'' = CHR ''E''"
  "is_alpha CHR ''F''" "to_upper CHR ''F'' = CHR ''F''" "is_alpha CHR ''I''" "to_upper CHR ''I'' = CHR ''I''" "is_alpha CHR ''L''" "to_upper CHR ''L'' = CHR ''L''"
  "is_alpha CHR ''N''" "to_upper CHR ''N'' = CHR ''N''" "is_alpha CHR ''P''" "to_upper CHR ''P'' = CHR ''P''" "is_alpha CHR ''R''" "to_upper CHR ''R'' = CHR ''R''"
  "is_alpha CHR ''S''" "to_upper CHR ''S'' = CHR ''S''" "is_alpha CHR ''T''" "to_upper CHR ''T'' = CHR ''T''" "is_alpha CHR ''U''" "to_upper CHR ''U'' = CHR ''U''"
 
  by (simp_all add: is_alpha_def is_upper_def is_lower_def to_upper_def)

lemma next_value_space [simp]: "next_value Q (CHR '' '' # s) = next_value Q s"
  by (simp add: next_value_def)

lemma next_value_show [simp]:
  fixes v :: "'fl sql_value"
  assumes "printable v" and "stops r"
  shows "next_value Q (show_value v @ r) = (Some v, r)"
proof (cases v)
  case (SvInteger i)
  obtain c ds where s: "show_int i = c # ds" and ds: "is_dec c \<or> c = CHR ''-''" using show_int_shape by blast
  have "\<not> is_ws c" "\<not> is_alpha c" "c \<noteq> CHR 0x27 \<and> c \<noteq> CHR 0x22"
    using ds class_disjoint by (auto simp: is_dec_def digit_val_def)
  then show ?thesis
    using parse_number_int [of i r Q] assms SvInteger ds by (auto simp: next_value_def s)
next
  case (SvString s)
  have "r = [] \<or> hd r \<noteq> CHR 0x27" using assms(2) by (auto simp: stops_def)
  then show ?thesis
    by (simp add: SvString next_value_def parse_string_literal_def scan_literal_double undouble_double)
next
  case (SvBoolean b)
  then show ?thesis
    using parse_keyword_value_word [of "''TRUE''" r, where ?'a = 'fl] parse_keyword_value_word [of "''FALSE''" r, where ?'a = 'fl] assms(2)
    by (simp add: SvBoolean next_value_def)
next
  case SvNull
  then show ?thesis
    using parse_keyword_value_word [of "''NULL''" r, where ?'a = 'fl] assms(2) by (simp add: SvNull next_value_def)
qed (use assms in simp)

subsection \<open>Parsing what was printed\<close>

text \<open>The round trip of the lists, of the condition and of the statements.\<close>

lemma peek_char_simps [simp]:
  "peek_char (CHR '','' # r) = Some CHR '',''" "peek_char (CHR '')'' # r) = Some CHR '')''"
  by (simp_all add: peek_char_def)

lemma peek_first: "x \<noteq> [] \<Longrightarrow> hd x \<noteq> CHR '')'' \<Longrightarrow> \<not> is_ws (hd x) \<Longrightarrow> peek_char (x @ r) \<noteq> Some CHR '')''"
  by (cases x) (simp_all add: peek_char_def)

lemma peek_space [simp]: "peek_char (CHR '' '' # r) = peek_char r"
  by (simp add: peek_char_def)

lemma valid_ident_hd: "valid_ident n \<Longrightarrow> n \<noteq> [] \<and> hd n \<noteq> CHR '')'' \<and> \<not> is_ws (hd n)"
proof -
  assume "valid_ident n"
  then have "n \<noteq> []" "ident_char (hd n)" by (cases n; simp add: valid_ident_def)+
  then show ?thesis using class_disjoint(4) char_classes by metis
qed

lemma show_value_hd:
  assumes "printable v"
  shows "show_value v \<noteq> [] \<and> hd (show_value v) \<noteq> CHR '')'' \<and> \<not> is_ws (hd (show_value v)) \<and> \<not> is_ws (last (show_value v))"
proof (cases v)
  case (SvInteger i)
  obtain c ds where "show_int i = c # ds" "list_all is_dec ds" "is_dec c \<or> c = CHR ''-''" using show_int_shape by blast
  then show ?thesis
    using class_disjoint(2) by (cases ds rule: rev_cases) (auto simp: SvInteger is_dec_def digit_val_def)
qed (use assms in \<open>auto simp: is_ws_def\<close>)

lemma paren_idents_commas:
  "list_all valid_ident ns \<Longrightarrow> paren_idents items (commas ns @ CHR '')'' # r) = (Some (items @ ns), r)"
proof (induction ns arbitrary: items rule: commas.induct)
  case 1
  then show ?case by (simp add: paren_idents.simps)
next
  case (2 x)
  then show ?case
    using peek_first [of x] valid_ident_hd [of x] by (subst paren_idents.simps) simp
next
  case (3 x y ys)
  have "paren_idents (items @ [x]) (CHR '' '' # commas (y # ys) @ CHR '')'' # r) = paren_idents (items @ [x]) (commas (y # ys) @ CHR '')'' # r)"
    by (subst (1 2) paren_idents.simps) (simp add: next_identifier_def)
  then show ?case
    using 3 peek_first [of x] valid_ident_hd [of x] by (subst paren_idents.simps) simp
qed

lemma paren_values_commas:
  "list_all printable vs \<Longrightarrow> paren_values Q items (commas (map show_value vs) @ CHR '')'' # r) = (Some (items @ vs), r)"
proof (induction vs arbitrary: items rule: induct_list012)
  case 1
  then show ?case by (simp add: paren_values.simps)
next
  case (2 x)
  then show ?case
    using peek_first [of "show_value x"] show_value_hd [of x] by (subst paren_values.simps) simp
next
  case (3 x y ys)
  have "paren_values Q (items @ [x]) (CHR '' '' # commas (map show_value (y # ys)) @ CHR '')'' # r)
      = paren_values Q (items @ [x]) (commas (map show_value (y # ys)) @ CHR '')'' # r)"
    by (subst (1 2) paren_values.simps) simp
  then show ?case
    using 3 peek_first [of "show_value x"] show_value_hd [of x] by (subst paren_values.simps) simp
qed

lemma next_comparison_op_show [simp]:
  "next_comparison_op (CHR '' '' # show_op c @ CHR '' '' # r) = (Some c, CHR '' '' # r)"
  by (cases c) (simp_all add: next_comparison_op_def starts_with_def is_ws_def)

lemma parse_where_show:
  "valid_ident (wc_column w) \<Longrightarrow> printable (wc_value w) \<Longrightarrow> parse_where_clause Q (CHR '' '' # show_where w) = Inr (w, [])"
  using next_value_show [of "wc_value w" "[]" Q]
  by (simp add: parse_where_clause_def show_where_def expect_def)

lemma trim_id: "x \<noteq> [] \<Longrightarrow> \<not> is_ws (hd x) \<Longrightarrow> \<not> is_ws (last x) \<Longrightarrow> trim x = x"
  using trim_padded [of "[]" "[]" x] by simp

lemma show_where_ends: "printable (wc_value w) \<Longrightarrow> show_where w \<noteq> [] \<and> \<not> is_ws (last (show_where w))"
  using show_value_hd [of "wc_value w"] by (simp add: show_where_def)

lemma show_statement_ends:
  "valid_statement st \<Longrightarrow> show_statement st \<noteq> [] \<and> \<not> is_ws (hd (show_statement st)) \<and> \<not> is_ws (last (show_statement st))"
  using show_where_ends by (cases st) auto

lemma first_word_show:
  "first_word (show_statement st) = (case st of StUpdate t c v w \<Rightarrow> ''UPDATE'' | StInsert t cs vs \<Rightarrow> ''INSERT'' | StDelete t w \<Rightarrow> ''DELETE'')"
  by (cases st) (simp_all add: first_word_def)

lemma next_paren_list_space: "next_paren_list (CHR '' '' # CHR ''('' # s) = paren_idents [] s"
  "next_paren_values Q (CHR '' '' # CHR ''('' # s) = paren_values Q [] s"
  by (simp_all add: next_paren_list_def next_paren_values_def starts_with_def)

lemma sql_parse_trimmed:
  assumes "valid_statement st"
  shows "(case st of StUpdate t c v w \<Rightarrow> parse_update Q (show_statement st) | StInsert t cs vs \<Rightarrow> parse_insert Q (show_statement st)
      | StDelete t w \<Rightarrow> parse_delete Q (show_statement st)) = Inr st"
proof (cases st)
  case (StUpdate t c v w)
  have eq: "consume_operator ''='' (CHR '' '' # CHR ''='' # r) = (True, r)" for r
    by (simp add: consume_operator_def starts_with_def is_ws_def)
  show ?thesis
    using assms parse_where_show [of w Q]
    by (simp add: StUpdate parse_update_def expect_def expect_true_def eq ensure_finished_def)
next
  case (StInsert t cs vs)
  have "CHR '','' # CHR '' '' # r = '', '' @ r" for r by simp
  then show ?thesis
    using assms paren_idents_commas [of cs "[]"] paren_values_commas [of vs Q "[]" "[]"]
    by (simp add: StInsert parse_insert_def expect_def expect_true_def next_paren_list_space ensure_finished_def)
next
  case (StDelete t w)
  then show ?thesis
    using assms parse_where_show [of w Q]
    by (simp add: parse_delete_def expect_def expect_true_def ensure_finished_def)
qed

text \<open>C13: Reading back what was written: a statement whose names are identifiers, whose
  integers fit \<open>i64\<close> and whose values are not floats, printed with strings quoted and their
  quotes doubled and padded with any white space, is parsed to itself, whatever its strings
  contain; through an enabled debug writer and an open journal it is logged and the diff it
  stands for is queued, or its error is returned and nothing is queued.\<close>

theorem sql_statement_roundtrip:
  assumes st: "valid_statement st" and ws: "list_all is_ws ws" "list_all is_ws vs"
    and on: "dq_enabled d" and opn: "jr_phase j = CpOpen"
  shows "sql_parse Q (ws @ show_statement st @ vs) = Inr st
    \<and> execute_sql Q now (ws @ show_statement st @ vs) (d, j) =
      (let d' = d\<lparr>dq_sql_log := dq_sql_log d @ [(ws @ show_statement st @ vs, now)]\<rparr> in
       case statement_to_diff Q st of
         Inl e \<Rightarrow> (Inl e, d', j)
       | Inr diff \<Rightarrow> (Inr (), d', j\<lparr>jr_pending_diffs := jr_pending_diffs j @ [diff]\<rparr>))"
proof -
  have "trim (ws @ show_statement st @ vs) = show_statement st"
    using trim_padded ws show_statement_ends [OF st] by blast
  then have parse: "sql_parse Q (ws @ show_statement st @ vs) = Inr st"
    using sql_parse_trimmed [OF st, of Q] show_statement_ends [OF st]
    by (cases st) (simp_all add: sql_parse_def Let_def first_word_show del: show_statement.simps)
  then show ?thesis
    using on opn by (cases "statement_to_diff Q st") (simp_all add: execute_sql_def Let_def submit_diff_def)
qed

definition demo_sql_api :: "(djson, int) sql_api" where
  "demo_sql_api = \<lparr>sa_parse_f64 = (\<lambda>_. None), sa_int = DInt, sa_float = (\<lambda>_. None), sa_string = DStr,
     sa_bool = DBool, sa_null = DNull, sa_debug_float = (\<lambda>_. []), sa_debug_string = (\<lambda>s. s)\<rparr>"

definition demo_update :: "int sql_statement" where
  "demo_update = StUpdate ''units'' ''name'' (SvString [CHR ''O'', CHR 0x27, CHR ''N''])
     \<lparr>wc_column = ''id'', wc_operator = CoEq, wc_value = SvInteger 7\<rparr>"

lemma demo_update_facts:
  "valid_statement demo_update"
  "statement_to_diff demo_sql_api demo_update
     = Inr (DUpdate ''units'' (RowId 7) ''name'' (DStr [CHR ''O'', CHR 0x27, CHR ''N'']))"
  by (simp_all add: demo_update_def valid_ident_def extract_row_id_from_condition_def sql_value_to_row_id_def demo_sql_api_def
      to_lower_def ends_with_def is_alpha_def is_upper_def is_lower_def ident_char_def is_alnum_def in_range_def i64_min_def i64_max_def)

lemma sql_statement_roundtrip_witness:
  "sql_parse demo_sql_api ('' '' @ show_statement demo_update @ ''  '') = Inr demo_update
   \<and> fst (execute_sql demo_sql_api (5 :: int) ('' '' @ show_statement demo_update @ ''  '') (debug_sql_new, demo_journal)) = Inr ()"
proof -
  have ws: "list_all is_ws '' ''" "list_all is_ws ''  ''" by (simp_all add: is_ws_def)
  have st: "dq_enabled debug_sql_new" "jr_phase demo_journal = CpOpen"
    by (simp_all add: debug_sql_new_def demo_journal_simps)
  show ?thesis
    using sql_statement_roundtrip [OF demo_update_facts(1) ws st, of demo_sql_api "5 :: int"]
    by (simp only: demo_update_facts Let_def sum.case fst_conv HOL.simp_thms)
qed

end
