(* ===== verification/Sim_Rng.thy ===== *)
theory Sim_Rng
  imports Core_Types
begin

section \<open>The deterministic random numbers (scharnhorst\_scheduler/src/rng.rs)\<close>

text \<open>
  SplitMix64 and the stream a system gets for a tick, on \<open>64 word\<close> values; the widening
  multiplication of \<open>next_usize\<close> is on \<open>128 word\<close>. Strings are their bytes. An \<open>f64\<close> of
  \<open>next_f64\<close> is the real number it stands for: a 53 bit integer and its quotient by
  \<open>2 ^ 53\<close> are exact.
\<close>

unbundle bit_operations_syntax

definition gamma :: u64 where "gamma = 0x9e3779b97f4a7c15"

record split_mix =
  sm_state :: u64

definition split_mix_new :: "u64 \<Rightarrow> split_mix" where
  "split_mix_new seed = \<lparr>sm_state = seed\<rparr>"

definition mix :: "u64 \<Rightarrow> u64" where
  "mix s =
     (let z = (s XOR drop_bit 30 s) * 0xbf58476d1ce4e5b9;
          z = (z XOR drop_bit 27 z) * 0x94d049bb133111eb
      in z XOR drop_bit 31 z)"

definition sm_next_u64 :: "split_mix \<Rightarrow> u64 \<times> split_mix" where
  "sm_next_u64 g = (let s = sm_state g + gamma in (mix s, g\<lparr>sm_state := s\<rparr>))"

definition sm_next_usize :: "u64 \<Rightarrow> split_mix \<Rightarrow> u64 \<times> split_mix" where
  "sm_next_usize bound g =
     (if bound = 0 then (0, g)
      else (case sm_next_u64 g of (x, g') \<Rightarrow> (ucast (drop_bit 64 (ucast x * ucast bound :: 128 word)), g')))"

record det_rng =
  dg_rng :: split_mix
  dg_tick :: u64
  dg_system_id :: string

definition mix_byte :: "char \<Rightarrow> split_mix \<Rightarrow> split_mix" where
  "mix_byte byte sm = snd (sm_next_u64 (sm\<lparr>sm_state := sm_state sm XOR (of_nat (of_char byte) * gamma)\<rparr>))"

definition compute_seed :: "string \<Rightarrow> u64 \<Rightarrow> u64" where
  "compute_seed system_id tick = fst (sm_next_u64 (fold mix_byte system_id (split_mix_new tick)))"

definition det_rng_new :: "string \<Rightarrow> u64 \<Rightarrow> det_rng" where
  "det_rng_new system_id tick =
     \<lparr>dg_rng = split_mix_new (compute_seed system_id tick), dg_tick = tick, dg_system_id = system_id\<rparr>"

definition next_u64 :: "det_rng \<Rightarrow> u64 \<times> det_rng" where
  "next_u64 r = (case sm_next_u64 (dg_rng r) of (x, g) \<Rightarrow> (x, r\<lparr>dg_rng := g\<rparr>))"

definition next_f64 :: "det_rng \<Rightarrow> real \<times> det_rng" where
  "next_f64 r = (case next_u64 r of (bits, r') \<Rightarrow> (real (unat (drop_bit 11 bits)) / 2 ^ 53, r'))"

definition next_bool :: "det_rng \<Rightarrow> bool \<times> det_rng" where
  "next_bool r = (case next_u64 r of (x, r') \<Rightarrow> (x AND 1 = 1, r'))"

definition next_usize :: "u64 \<Rightarrow> det_rng \<Rightarrow> u64 \<times> det_rng" where
  "next_usize bound r = (case sm_next_usize bound (dg_rng r) of (x, g) \<Rightarrow> (x, r\<lparr>dg_rng := g\<rparr>))"

subsection \<open>The output function is injective\<close>

lemma xorshift_inverse:
  fixes x :: u64
  assumes "22 \<le> k"
  shows "(let y = x XOR drop_bit k x in y XOR drop_bit k y XOR drop_bit (2 * k) y) = x"
proof -
  have "drop_bit (3 * k) x = 0"
    using assms by (intro bit_word_eqI) (simp add: bit_drop_bit_eq bit_word.rep_eq)
  then have "drop_bit (k + 2 * k) x = 0" by (simp add: mult.commute [of 3])
  moreover have "drop_bit (2 * k) x = drop_bit (k + k) x" by (simp add: mult_2)
  ultimately show ?thesis
    by (simp add: Let_def drop_bit_xor drop_bit_drop_bit ac_simps)
qed

lemma xorshift_inj:
  fixes x y :: u64
  assumes "22 \<le> k" and eq: "x XOR drop_bit k x = y XOR drop_bit k y"
  shows "x = y"
  using xorshift_inverse [OF assms(1), of x] unfolding eq unfolding xorshift_inverse [OF assms(1), of y] by (rule sym)

lemma odd_mult_inj:
  assumes "(c :: u64) * d = 1" and "x * c = y * c"
  shows "x = y"
proof -
  have "x * c * d = y * c * d" using assms(2) by (rule arg_cong)
  then show ?thesis by (simp only: mult.assoc assms(1) mult_1_right)
qed

lemma inverse_mod:
  assumes "a * b mod 2 ^ 64 = (1 :: int)"
  shows "(word_of_int a :: u64) * word_of_int b = 1"
proof -
  have "(word_of_int (a * b) :: u64) = word_of_int 1"
    using assms by (simp only: word_of_int_eq_iff take_bit_eq_mod) simp
  then show ?thesis by (simp only: of_int_mult of_int_1)
qed

lemma mix_multipliers:
  "(0xbf58476d1ce4e5b9 :: u64) * 0x96de1b173f119089 = 1"
  "(0x94d049bb133111eb :: u64) * 0x319642b2d24d8ec3 = 1"
  "gamma * 0xf1de83e19937733d = 1"
proof -
  have "(0xbf58476d1ce4e5b9 * 0x96de1b173f119089) mod 2 ^ 64 = (1 :: int)"
    "(0x94d049bb133111eb * 0x319642b2d24d8ec3) mod 2 ^ 64 = (1 :: int)"
    "(0x9e3779b97f4a7c15 * 0xf1de83e19937733d) mod 2 ^ 64 = (1 :: int)" by simp_all
  from this [THEN inverse_mod] show "(0xbf58476d1ce4e5b9 :: u64) * 0x96de1b173f119089 = 1"
    "(0x94d049bb133111eb :: u64) * 0x319642b2d24d8ec3 = 1"
    "gamma * 0xf1de83e19937733d = 1"
    unfolding gamma_def of_int_numeral by blast+
qed

lemma mix_inj:
  assumes "mix x = mix y"
  shows "x = y"
proof -
  define f where "f k z = z XOR drop_bit k (z :: u64)" for k z
  have f: "f k z = f k w \<Longrightarrow> z = w" if "22 \<le> k" for k z w
    using that unfolding f_def by (rule xorshift_inj)
  have m: "mix z = f 31 (f 27 (f 30 z * 0xbf58476d1ce4e5b9) * 0x94d049bb133111eb)" for z
    by (simp only: mix_def Let_def f_def)
  have "f 27 (f 30 x * 0xbf58476d1ce4e5b9) * 0x94d049bb133111eb = f 27 (f 30 y * 0xbf58476d1ce4e5b9) * 0x94d049bb133111eb"
    by (rule f [of 31]) (use assms m in simp_all)
  then have "f 27 (f 30 x * 0xbf58476d1ce4e5b9) = f 27 (f 30 y * 0xbf58476d1ce4e5b9)"
    by (rule odd_mult_inj [OF mix_multipliers(2)])
  then have "f 30 x * 0xbf58476d1ce4e5b9 = f 30 y * 0xbf58476d1ce4e5b9"
    by (rule f [rotated]) simp
  then have "f 30 x = f 30 y" by (rule odd_mult_inj [OF mix_multipliers(1)])
  then show ?thesis by (rule f [rotated]) simp
qed

subsection \<open>The streams\<close>

text \<open>The n-th value of a stream, and the first values of a system's stream.\<close>

fun skip_values :: "nat \<Rightarrow> det_rng \<Rightarrow> det_rng" where
  "skip_values 0 r = r"
| "skip_values (Suc n) r = skip_values n (snd (next_u64 r))"

definition nth_value :: "nat \<Rightarrow> det_rng \<Rightarrow> u64" where
  "nth_value n r = fst (next_u64 (skip_values n r))"

lemma sm_next_simps [simp]:
  "fst (sm_next_u64 g) = mix (sm_state g + gamma)" "sm_state (snd (sm_next_u64 g)) = sm_state g + gamma"
  by (simp_all add: sm_next_u64_def Let_def)

lemma next_u64_simps [simp]:
  "fst (next_u64 r) = mix (sm_state (dg_rng r) + gamma)"
  "sm_state (dg_rng (snd (next_u64 r))) = sm_state (dg_rng r) + gamma"
  by (simp_all add: next_u64_def sm_next_u64_def Let_def)

lemma skip_values_state: "sm_state (dg_rng (skip_values n r)) = sm_state (dg_rng r) + of_nat n * gamma"
  by (induction n arbitrary: r) (simp_all add: algebra_simps)

lemma nth_value_eq: "nth_value n r = mix (sm_state (dg_rng r) + of_nat (Suc n) * gamma)"
  by (simp add: nth_value_def skip_values_state algebra_simps)

lemma nth_value_inj:
  assumes "m < 2 ^ 64" and "n < 2 ^ 64" and "nth_value m r = nth_value n r"
  shows "m = n"
proof -
  have "(of_nat (Suc m) :: u64) * gamma = of_nat (Suc n) * gamma"
    using mix_inj [OF assms(3) [unfolded nth_value_eq]] by (simp only: add_left_cancel)
  then have "(of_nat (Suc m) :: u64) = of_nat (Suc n)" by (rule odd_mult_inj [OF mix_multipliers(3)])
  then have "(of_nat m :: u64) = of_nat n" by simp
  then show ?thesis using assms(1,2) by (simp add: word_of_nat_eq_iff take_bit_nat_eq_self)
qed

lemma widening_product_high:
  fixes x bound :: u64
  assumes "bound \<noteq> 0"
  shows "unat (ucast (drop_bit 64 (ucast x * ucast bound :: 128 word)) :: u64) = unat x * unat bound div 2 ^ 64"
proof -
  have b: "unat x < 2 ^ 64" "unat bound < 2 ^ 64" using unsigned_less [of x] unsigned_less [of bound] by simp_all
  then have p: "unat x * unat bound < 2 ^ 128"
    using mult_strict_mono' [of "unat x" "2 ^ 64" "unat bound" "2 ^ 64"] by simp
  have ext: "unat (ucast w :: 128 word) = unat w" for w :: u64
    using unsigned_less [of w, where ?'a = nat] by (simp add: unsigned_ucast_eq take_bit_nat_eq_self)
  have "unat (ucast x * ucast bound :: 128 word) = unat x * unat bound"
    using p by (simp only: word_arith_nat_mult ext unsigned_of_nat of_nat_id) (simp add: take_bit_nat_eq_self)
  moreover have "unat x * unat bound div 2 ^ 64 < 2 ^ 64"
    using p by (simp add: less_mult_imp_div_less)
  ultimately show ?thesis
    by (simp add: unsigned_ucast_eq unat_drop_bit_eq drop_bit_eq_div [where ?'a = nat] take_bit_nat_eq_self)
qed

text \<open>The streams of the systems: for one system and tick the first \<open>2 ^ 64\<close> values are
  pairwise different, \<open>next_usize\<close> stays below its bound (0 for bound 0) and is the
  \<open>bound\<close>-th part of the value's range, and \<open>next_f64\<close> is a multiple of \<open>2 ^ -53\<close> in
  \<open>[0, 1)\<close>.\<close>

theorem rng_stream_values:
  shows "(\<forall>m n. m < 2 ^ 64 \<and> n < 2 ^ 64 \<and> nth_value m (det_rng_new system_id tick) = nth_value n (det_rng_new system_id tick)
       \<longrightarrow> m = n)
    \<and> (fst (next_usize 0 r) = 0 \<and> snd (next_usize 0 r) = r)
    \<and> (bound \<noteq> 0 \<longrightarrow> fst (next_usize bound r) < bound
         \<and> unat (fst (next_usize bound r)) = unat (fst (next_u64 r)) * unat bound div 2 ^ 64
         \<and> snd (next_usize bound r) = snd (next_u64 r))
    \<and> 0 \<le> fst (next_f64 r) \<and> fst (next_f64 r) < 1 \<and> (\<exists>k :: nat. fst (next_f64 r) = real k / 2 ^ 53)"
proof (intro conjI allI impI)
  show "m = n" if "m < 2 ^ 64 \<and> n < 2 ^ 64 \<and> nth_value m (det_rng_new system_id tick) = nth_value n (det_rng_new system_id tick)" for m n
    using nth_value_inj that by blast
  show "fst (next_usize 0 r) = 0" "snd (next_usize 0 r) = r"
    by (simp_all add: next_usize_def sm_next_usize_def)
next
  assume b: "bound \<noteq> 0"
  show u: "unat (fst (next_usize bound r)) = unat (fst (next_u64 r)) * unat bound div 2 ^ 64"
    using b by (simp add: next_usize_def sm_next_usize_def next_u64_def widening_product_high split_beta del: sm_next_simps)
  have "unat (fst (next_u64 r)) * unat bound < unat bound * 2 ^ 64"
    using b unsigned_less [of "fst (next_u64 r)", where ?'a = nat] by (simp add: mult.commute unat_gt_0 del: next_u64_simps)
  then show "fst (next_usize bound r) < bound"
    unfolding word_less_nat_alt u by (rule less_mult_imp_div_less)
  show "snd (next_usize bound r) = snd (next_u64 r)"
    using b by (simp add: next_usize_def sm_next_usize_def next_u64_def split_beta)
next
  have "unat (drop_bit 11 (fst (next_u64 r))) < 2 ^ 53"
    unfolding unat_drop_bit_eq drop_bit_eq_div [where ?'a = nat]
    using unsigned_less [of "fst (next_u64 r)", where ?'a = nat] by (intro less_mult_imp_div_less) (simp del: next_u64_simps)
  moreover define k where "k = unat (drop_bit 11 (fst (next_u64 r)))"
  ultimately have "real k < 2 ^ 53" by (metis of_nat_less_iff of_nat_numeral of_nat_power)
  moreover have "fst (next_f64 r) = real k / 2 ^ 53" unfolding next_f64_def k_def by (simp only: split_beta fst_conv)
  ultimately show "0 \<le> fst (next_f64 r)" "fst (next_f64 r) < 1" "\<exists>k :: nat. fst (next_f64 r) = real k / 2 ^ 53"
    by auto
qed


lemma rng_stream_values_witness:
  "fst (next_usize 6 (det_rng_new ''economy'' 3)) < 6
   \<and> nth_value 0 (det_rng_new ''economy'' 3) \<noteq> nth_value 1 (det_rng_new ''economy'' 3)"
proof -
  have "(6 :: u64) \<noteq> 0" "(0 :: nat) < 2 ^ 64" "(1 :: nat) < 2 ^ 64" by simp_all
  then show ?thesis
    using rng_stream_values [of "''economy''" 3 "det_rng_new ''economy'' 3" 6] zero_neq_one [where ?'a = nat] by blast
qed

end
