(* ===== verification/Scheduler.thy ===== *)
theory Scheduler
  imports Journal_Props Sim_Rng
begin

section \<open>The scheduler (scharnhorst\_scheduler)\<close>

text \<open>
  phase.rs, system.rs, refresh\_signal.rs, error.rs and scheduler.rs. A simulation system is
  a trait object: a record with its declarations and its \<open>execute\<close>, which may read and
  change a world \<open>'w\<close> of its own besides the query engine it is handed; a refresh
  callback likewise. The iteration orders of the hash maps and sets are fields of the
  environment. The scheduler's query engine is a clone that shares its state with the
  journal's (\<open>sc_shared\<close>) or a separate one. \<open>sv_debug\<close> is the build profile: with
  \<open>debug_assertions\<close> it carries the JSON printer of the diff summaries. The metrics feature is
  off and a lock is never poisoned.
\<close>

subsection \<open>Phases\<close>

datatype phase = PreTick | Economy | Diplomacy | Military | PostTick

fun order_index :: "phase \<Rightarrow> nat" where
  "order_index PreTick = 0" | "order_index Economy = 1" | "order_index Diplomacy = 2"
| "order_index Military = 3" | "order_index PostTick = 4"

definition all_in_order :: "phase list" where
  "all_in_order = [PreTick, Economy, Diplomacy, Military, PostTick]"

fun phase_next :: "phase \<Rightarrow> phase option" where
  "phase_next PreTick = Some Economy" | "phase_next Economy = Some Diplomacy"
| "phase_next Diplomacy = Some Military" | "phase_next Military = Some PostTick" | "phase_next PostTick = None"

fun phase_debug :: "phase \<Rightarrow> string" where
  "phase_debug PreTick = ''PreTick''" | "phase_debug Economy = ''Economy''" | "phase_debug Diplomacy = ''Diplomacy''"
| "phase_debug Military = ''Military''" | "phase_debug PostTick = ''PostTick''"

definition phase_cmp :: "phase \<Rightarrow> phase \<Rightarrow> ordering" where
  "phase_cmp a b = cmp (order_index a) (order_index b)"

instantiation phase :: linorder
begin

definition less_eq_phase :: "phase \<Rightarrow> phase \<Rightarrow> bool" where
  "less_eq_phase a b \<longleftrightarrow> phase_cmp a b \<noteq> OGreater"

definition less_phase :: "phase \<Rightarrow> phase \<Rightarrow> bool" where
  "less_phase a b \<longleftrightarrow> phase_cmp a b = OLess"

instance
proof
  show "a \<le> b \<Longrightarrow> b \<le> a \<Longrightarrow> a = b" for a b :: phase
    by (cases a; cases b) (simp_all add: less_eq_phase_def phase_cmp_def cmp_def)
qed (auto simp: less_eq_phase_def less_phase_def phase_cmp_def)

end

lemma phase_le_iff: "a \<le> b \<longleftrightarrow> order_index a \<le> order_index b"
  by (auto simp: less_eq_phase_def phase_cmp_def)

subsection \<open>Errors\<close>

datatype scheduler_error =
    SESystemAlreadyRegistered string
  | SESystemNotFound string
  | SEDependencyCycle string
  | SEWriteConflict string string string string
  | SECommitFailed u64 string
  | SEInvalidTick u64 u64
  | SEJournal string
  | SEArrowStore string
  | SEQueryEngine string
  | SESchema string
  | SERefreshSignalFailed string scheduler_error
  | SERng string
  | SEIo string
  | SEInitialized
  | SENotInitialized
  | SERefreshBusLookupFailed string
  | SESchemaNotFrozen
  | SEGeneric string

definition from_journal_error :: "journal_error \<Rightarrow> scheduler_error" where
  "from_journal_error e = SEJournal (journal_error_text e)"

subsection \<open>Systems\<close>

type_synonym 'w refresh_callback = "u64 \<Rightarrow> u64 \<Rightarrow> 'w \<Rightarrow> (scheduler_error + unit) \<times> 'w"

record ('j, 'b, 'w) sim_system =
  ss_id :: string
  ss_phase :: phase
  ss_read_tables :: "string list"
  ss_write_tables :: "string list"
  ss_refresh_callback :: "'w refresh_callback option"
  ss_execute :: "det_rng \<Rightarrow> 'b query_engine \<Rightarrow> phase \<Rightarrow> u64 \<Rightarrow> 'w \<Rightarrow> (scheduler_error + 'j diff list) \<times> 'w"

record 'w system_registration =
  rn_system_id :: string
  rn_phase :: phase
  rn_read_tables :: "string set"
  rn_write_tables :: "string set"
  rn_refresh_callback :: "'w refresh_callback option"

definition from_system :: "('j, 'b, 'w) sim_system \<Rightarrow> 'w system_registration" where
  "from_system sys = \<lparr>rn_system_id = ss_id sys, rn_phase = ss_phase sys, rn_read_tables = set (ss_read_tables sys),
     rn_write_tables = set (ss_write_tables sys), rn_refresh_callback = ss_refresh_callback sys\<rparr>"

definition is_writer :: "'w system_registration \<Rightarrow> bool" where
  "is_writer r \<longleftrightarrow> rn_write_tables r \<noteq> {}"

definition write_sets_disjoint :: "'w system_registration \<Rightarrow> 'w system_registration \<Rightarrow> bool" where
  "write_sets_disjoint a b \<longleftrightarrow> rn_write_tables a \<inter> rn_write_tables b = {}"

definition has_write_conflict :: "'w system_registration \<Rightarrow> 'w system_registration \<Rightarrow> bool" where
  "has_write_conflict a b \<longleftrightarrow> rn_phase a = rn_phase b \<and> \<not> write_sets_disjoint a b"

definition conflicting_tables :: "'w system_registration \<Rightarrow> 'w system_registration \<Rightarrow> string set" where
  "conflicting_tables a b = rn_write_tables a \<inter> rn_write_tables b"

subsection \<open>The refresh bus\<close>

text \<open>The consumers by name; a handle is the name. \<open>order\<close> is the map's iteration order.\<close>

type_synonym 'w refresh_bus = "(string \<times> 'w refresh_callback) list"

definition bus_register :: "string \<Rightarrow> 'w refresh_callback \<Rightarrow> 'w refresh_bus \<Rightarrow> string \<times> 'w refresh_bus" where
  "bus_register name cb bus = (name, hm_insert name cb bus)"

definition bus_unregister :: "string \<Rightarrow> 'w refresh_bus \<Rightarrow> (scheduler_error + unit) \<times> 'w refresh_bus" where
  "bus_unregister name bus =
     (if hm_contains bus name then (Inr (), hm_remove name bus) else (Inl (SERefreshBusLookupFailed name), bus))"

fun broadcast_loop :: "u64 \<Rightarrow> u64 \<Rightarrow> 'w refresh_bus \<Rightarrow> 'w \<Rightarrow> (scheduler_error + unit) \<times> 'w" where
  "broadcast_loop tick generation [] w = (Inr (), w)"
| "broadcast_loop tick generation ((name, cb) # rest) w =
     (case cb tick generation w of
        (Inl e, w') \<Rightarrow> (Inl (SERefreshSignalFailed name e), w')
      | (Inr _, w') \<Rightarrow> broadcast_loop tick generation rest w')"

definition broadcast ::
  "('w refresh_bus \<Rightarrow> 'w refresh_bus) \<Rightarrow> u64 \<Rightarrow> u64 \<Rightarrow> 'w refresh_bus \<Rightarrow> 'w \<Rightarrow> (scheduler_error + unit) \<times> 'w" where
  "broadcast order tick generation bus w = broadcast_loop tick generation (order bus) w"

definition consumer_names :: "('w refresh_bus \<Rightarrow> 'w refresh_bus) \<Rightarrow> 'w refresh_bus \<Rightarrow> string list" where
  "consumer_names order bus = map fst (order bus)"

definition consumer_count :: "'w refresh_bus \<Rightarrow> nat" where
  "consumer_count bus = length bus"

subsection \<open>State\<close>

record ('j, 'a, 'b, 'sj, 'w) scheduler =
  sc_systems :: "(string \<times> ('j, 'b, 'w) sim_system) list"
  sc_registrations :: "(string \<times> 'w system_registration) list"
  sc_pending_commands :: "'j command_envelope list"
  sc_journal :: "('j, 'a, 'b, 'b query_engine, 'sj) journal"
  sc_query_engine :: "'b query_engine"
  sc_shared :: bool
  sc_refresh_bus :: "'w refresh_bus"
  sc_current_tick :: u64
  sc_generation :: u64
  sc_initialized :: bool
  sc_world :: 'w

definition scheduler_new ::
  "('j, 'a, 'b, 'b query_engine, 'sj) journal \<Rightarrow> 'b query_engine \<Rightarrow> bool \<Rightarrow> 'w \<Rightarrow> ('j, 'a, 'b, 'sj, 'w) scheduler" where
  "scheduler_new j q shared w = \<lparr>sc_systems = [], sc_registrations = [], sc_pending_commands = [], sc_journal = j,
     sc_query_engine = q, sc_shared = shared, sc_refresh_bus = [], sc_current_tick = 0, sc_generation = 0,
     sc_initialized = False, sc_world = w\<rparr>"

text \<open>When the engine is shared the journal's state of it is the scheduler's: the scheduler
  sees what the journal does to it, and the journal what the scheduler does.\<close>

definition put_journal ::
  "('j, 'a, 'b, 'b query_engine, 'sj) journal \<Rightarrow> ('j, 'a, 'b, 'sj, 'w) scheduler \<Rightarrow> ('j, 'a, 'b, 'sj, 'w) scheduler" where
  "put_journal j s = s\<lparr>sc_journal := j,
     sc_query_engine := (if sc_shared s then (case jr_query_engine j of Some q \<Rightarrow> q | None \<Rightarrow> sc_query_engine s)
       else sc_query_engine s)\<rparr>"

definition put_engine :: "'b query_engine \<Rightarrow> ('j, 'a, 'b, 'sj, 'w) scheduler \<Rightarrow> ('j, 'a, 'b, 'sj, 'w) scheduler" where
  "put_engine q s = s\<lparr>sc_query_engine := q,
     sc_journal := (if sc_shared s then with_query_engine (sc_journal s) q else sc_journal s)\<rparr>"

definition engines_agree :: "('j, 'a, 'b, 'sj, 'w) scheduler \<Rightarrow> bool" where
  "engines_agree s \<longleftrightarrow> (sc_shared s \<longrightarrow> jr_query_engine (sc_journal s) = Some (sc_query_engine s))"

record ('j, 'a, 'b, 's, 'fl, 'sj, 'w) sched_env =
  sv_journal :: "('j, 'a, 'b, 's, 'fl, 'b query_engine, 'b ingest_rollback, 'sj) journal_env"
  sv_registrations :: "(string \<times> 'w system_registration) list \<Rightarrow> (string \<times> 'w system_registration) list"
  sv_consumers :: "'w refresh_bus \<Rightarrow> 'w refresh_bus"
  sv_first_table :: "string set \<Rightarrow> string"
  sv_debug :: "('j \<Rightarrow> string) option"

subsection \<open>Registration\<close>

definition register_system ::
  "('j, 'a, 'b, 's, 'fl, 'sj, 'w) sched_env \<Rightarrow> ('j, 'b, 'w) sim_system \<Rightarrow> ('j, 'a, 'b, 'sj, 'w) scheduler
     \<Rightarrow> (scheduler_error + unit) \<times> ('j, 'a, 'b, 'sj, 'w) scheduler" where
  "register_system V sys s =
     (if sc_initialized s then (Inl SEInitialized, s)
      else (let sid = ss_id sys; reg = from_system sys in
        if hm_contains (sc_systems s) sid then (Inl (SESystemAlreadyRegistered sid), s)
        else (case filter (has_write_conflict reg) (map snd (sv_registrations V (sc_registrations s))) of
            conflict # _ \<Rightarrow>
              (let tables = conflicting_tables reg conflict;
                   table = (if tables = {} then ''<unknown>'' else sv_first_table V tables)
               in (Inl (SEWriteConflict (phase_debug (rn_phase reg)) sid (rn_system_id conflict) table), s))
          | [] \<Rightarrow>
              (let bus = (case rn_refresh_callback reg of None \<Rightarrow> sc_refresh_bus s
                     | Some cb \<Rightarrow> snd (bus_register sid cb (sc_refresh_bus s)))
               in (Inr (), s\<lparr>sc_refresh_bus := bus, sc_registrations := hm_insert sid reg (sc_registrations s),
                     sc_systems := hm_insert sid sys (sc_systems s)\<rparr>)))))"

definition unregister_system :: "string \<Rightarrow> ('j, 'a, 'b, 'sj, 'w) scheduler \<Rightarrow> ('j, 'a, 'b, 'sj, 'w) scheduler" where
  "unregister_system sid s = s\<lparr>sc_systems := hm_remove sid (sc_systems s),
     sc_registrations := hm_remove sid (sc_registrations s),
     sc_refresh_bus := snd (bus_unregister sid (sc_refresh_bus s))\<rparr>"

definition system_ids :: "('j, 'a, 'b, 'sj, 'w) scheduler \<Rightarrow> string list" where
  "system_ids s = map fst (sc_systems s)"

definition registration :: "('j, 'a, 'b, 'sj, 'w) scheduler \<Rightarrow> string \<Rightarrow> scheduler_error + 'w system_registration" where
  "registration s sid = ok_or (hm_get (sc_registrations s) sid) (SESystemNotFound sid)"

text \<open>\<open>map.entry(reg.phase).or_default().push(sid)\<close>\<close>

definition push_system :: "string \<times> 'w system_registration \<Rightarrow> (phase \<times> string list) list \<Rightarrow> (phase \<times> string list) list" where
  "push_system ir m = (case ir of (sid, reg) \<Rightarrow>
     hm_insert (rn_phase reg) ((case hm_get m (rn_phase reg) of None \<Rightarrow> [] | Some ids \<Rightarrow> ids) @ [sid]) m)"

definition systems_by_phase ::
  "('j, 'a, 'b, 's, 'fl, 'sj, 'w) sched_env \<Rightarrow> ('j, 'a, 'b, 'sj, 'w) scheduler \<Rightarrow> (phase \<times> string list) list" where
  "systems_by_phase V s = sort_key fst (fold push_system (sv_registrations V (sc_registrations s)) [])"

subsection \<open>Commands\<close>

definition enqueue_command :: "'j command_envelope \<Rightarrow> ('j, 'a, 'b, 'sj, 'w) scheduler \<Rightarrow> ('j, 'a, 'b, 'sj, 'w) scheduler" where
  "enqueue_command e s = s\<lparr>sc_pending_commands := sc_pending_commands s @ [e]\<rparr>"

definition consume_pending_commands ::
  "('j, 'a, 'b, 'sj, 'w) scheduler \<Rightarrow> (scheduler_error + 'j command_envelope list) \<times> ('j, 'a, 'b, 'sj, 'w) scheduler" where
  "consume_pending_commands s =
     (let drained = sc_pending_commands s; s1 = s\<lparr>sc_pending_commands := []\<rparr> in
      case try_each submit_command drained (sc_journal s1) of
        (Inl e, j) \<Rightarrow> (Inl (from_journal_error e), put_journal j s1)
      | (Inr _, j) \<Rightarrow> (Inr drained, put_journal j s1))"

definition pending_command_count :: "('j, 'a, 'b, 'sj, 'w) scheduler \<Rightarrow> nat" where
  "pending_command_count s = length (sc_pending_commands s)"

definition rollback_consumed_commands ::
  "'j command_envelope list \<Rightarrow> ('j, 'a, 'b, 'sj, 'w) scheduler \<Rightarrow> ('j, 'a, 'b, 'sj, 'w) scheduler" where
  "rollback_consumed_commands consumed s =
     (let s1 = put_journal (snd (clear_pending (sc_journal s))) s in
      s1\<lparr>sc_pending_commands := fold (\<lambda>cmd queue. cmd # queue) (rev consumed) (sc_pending_commands s1)\<rparr>)"

subsection \<open>Phases and systems\<close>

fun run_phase ::
  "phase \<Rightarrow> string list \<Rightarrow> tick \<Rightarrow> ('j, 'a, 'b, 'sj, 'w) scheduler
     \<Rightarrow> (scheduler_error + unit) \<times> ('j, 'a, 'b, 'sj, 'w) scheduler" where
  "run_phase ph [] tick s = (Inr (), s)"
| "run_phase ph (sid # ids) tick s =
     (case hm_get (sc_systems s) sid of
        None \<Rightarrow> (Inl (SESystemNotFound sid), s)
      | Some sys \<Rightarrow>
          (case ss_execute sys (det_rng_new sid (tick_as_u64 tick)) (sc_query_engine s) ph (tick_as_u64 tick) (sc_world s) of
             (Inl e, w) \<Rightarrow> (Inl e, s\<lparr>sc_world := w\<rparr>)
           | (Inr ds, w) \<Rightarrow>
               (let s1 = s\<lparr>sc_world := w\<rparr> in
                case try_each submit_diff ds (sc_journal s1) of
                  (Inl e, j) \<Rightarrow> (Inl (from_journal_error e), put_journal j s1)
                | (Inr _, j) \<Rightarrow> run_phase ph ids tick (put_journal j s1))))"

fun run_phase_list ::
  "(phase \<times> string list) list \<Rightarrow> tick \<Rightarrow> ('j, 'a, 'b, 'sj, 'w) scheduler
     \<Rightarrow> (scheduler_error + unit) \<times> ('j, 'a, 'b, 'sj, 'w) scheduler" where
  "run_phase_list [] tick s = (Inr (), s)"
| "run_phase_list ((ph, ids) # rest) tick s =
     (case run_phase ph ids tick s of
        (Inl e, s1) \<Rightarrow> (Inl e, s1)
      | (Inr _, s1) \<Rightarrow> run_phase_list rest tick s1)"

definition run_phases ::
  "('j, 'a, 'b, 's, 'fl, 'sj, 'w) sched_env \<Rightarrow> tick \<Rightarrow> ('j, 'a, 'b, 'sj, 'w) scheduler
     \<Rightarrow> (scheduler_error + unit) \<times> ('j, 'a, 'b, 'sj, 'w) scheduler" where
  "run_phases V tick s = run_phase_list (systems_by_phase V s) tick s"

subsection \<open>The tick\<close>

text \<open>With \<open>debug_assertions\<close> the last record's diffs go to the engine's ring. \<open>None\<close> is a push
  that does not return: never for the capacity 1024 every engine is built with.\<close>

definition summarise_commit ::
  "('j, 'a, 'b, 's, 'fl, 'sj, 'w) sched_env \<Rightarrow> ('j, 'a, 'b, 'b query_engine, 'sj) journal
     \<Rightarrow> ('j, 'a, 'b, 'sj, 'w) scheduler \<Rightarrow> ('j, 'a, 'b, 'sj, 'w) scheduler" where
  "summarise_commit V j s =
     (case sv_debug V of
        None \<Rightarrow> s
      | Some show_json \<Rightarrow>
          (if jr_history j = [] then s
           else (let record = last (jr_history j) in
             case push_diff_summaries show_json (sc_query_engine s) (cr_diffs record) (cr_tick record) of
               None \<Rightarrow> s
             | Some q \<Rightarrow> put_engine q s)))"

definition atomic_commit ::
  "('j, 'a, 'b, 's, 'fl, 'sj, 'w) sched_env \<Rightarrow> ('j, 'a, 'b, 'sj, 'w) scheduler
     \<Rightarrow> (scheduler_error + commit_result) \<times> ('j, 'a, 'b, 'sj, 'w) scheduler" where
  "atomic_commit V s =
     (case commit (sv_journal V) (sc_journal s) of
        (Inl e, j) \<Rightarrow> (Inl (from_journal_error e), put_journal j s)
      | (Inr result, j) \<Rightarrow> (let s1 = put_journal j s in
          (Inr result, summarise_commit V j (s1\<lparr>sc_generation := sc_generation s1 + 1\<rparr>))))"

definition broadcast_refresh ::
  "('j, 'a, 'b, 's, 'fl, 'sj, 'w) sched_env \<Rightarrow> tick \<Rightarrow> u64 \<Rightarrow> ('j, 'a, 'b, 'sj, 'w) scheduler
     \<Rightarrow> (scheduler_error + unit) \<times> ('j, 'a, 'b, 'sj, 'w) scheduler" where
  "broadcast_refresh V tick generation s =
     (case broadcast (sv_consumers V) (tick_as_u64 tick) generation (sc_refresh_bus s) (sc_world s) of
        (r, w) \<Rightarrow> (r, s\<lparr>sc_world := w\<rparr>))"

text \<open>\<open>fetch_add\<close> wraps, the tick handed back saturates.\<close>

definition advance_tick :: "('j, 'a, 'b, 'sj, 'w) scheduler \<Rightarrow> tick \<times> ('j, 'a, 'b, 'sj, 'w) scheduler" where
  "advance_tick s = (tick_next (Tick (sc_current_tick s)), s\<lparr>sc_current_tick := sc_current_tick s + 1\<rparr>)"

definition current_tick :: "('j, 'a, 'b, 'sj, 'w) scheduler \<Rightarrow> tick" where
  "current_tick s = Tick (sc_current_tick s)"

definition sched_tick ::
  "('j, 'a, 'b, 's, 'fl, 'sj, 'w) sched_env \<Rightarrow> ('j, 'a, 'b, 'sj, 'w) scheduler
     \<Rightarrow> (scheduler_error + commit_result) \<times> ('j, 'a, 'b, 'sj, 'w) scheduler" where
  "sched_tick V s =
     (if \<not> sc_initialized s then (Inl SENotInitialized, s)
      else (let tick = current_tick s in
        case consume_pending_commands s of
          (Inl e, s1) \<Rightarrow> (Inl e, s1)
        | (Inr consumed, s1) \<Rightarrow>
            (case run_phases V tick s1 of
               (Inl e, s2) \<Rightarrow> (Inl e, rollback_consumed_commands consumed s2)
             | (Inr _, s2) \<Rightarrow>
                 (case atomic_commit V s2 of
                    (Inl e, s3) \<Rightarrow> (Inl e, rollback_consumed_commands consumed s3)
                  | (Inr result, s3) \<Rightarrow>
                      (let s4 = snd (advance_tick s3) in
                       case broadcast_refresh V (co_tick result) (sc_generation s4) s4 of
                         (Inl e, s5) \<Rightarrow> (Inl e, s5)
                       | (Inr _, s5) \<Rightarrow> (Inr result, s5))))))"

subsection \<open>Consumers, initialisation, replacement\<close>

definition register_consumer ::
  "string \<Rightarrow> 'w refresh_callback \<Rightarrow> ('j, 'a, 'b, 'sj, 'w) scheduler \<Rightarrow> string \<times> ('j, 'a, 'b, 'sj, 'w) scheduler" where
  "register_consumer name cb s = (case bus_register name cb (sc_refresh_bus s) of (h, bus) \<Rightarrow> (h, s\<lparr>sc_refresh_bus := bus\<rparr>))"

definition unregister_consumer ::
  "string \<Rightarrow> ('j, 'a, 'b, 'sj, 'w) scheduler \<Rightarrow> (scheduler_error + unit) \<times> ('j, 'a, 'b, 'sj, 'w) scheduler" where
  "unregister_consumer handle s = (case bus_unregister handle (sc_refresh_bus s) of (r, bus) \<Rightarrow> (r, s\<lparr>sc_refresh_bus := bus\<rparr>))"

text \<open>The first pair \<open>i < j\<close> of registrations that conflict.\<close>

fun first_conflict :: "'w system_registration list \<Rightarrow> ('w system_registration \<times> 'w system_registration) option" where
  "first_conflict [] = None"
| "first_conflict (a # rest) =
     (case find (has_write_conflict a) rest of Some b \<Rightarrow> Some (a, b) | None \<Rightarrow> first_conflict rest)"

definition initialize ::
  "('j, 'a, 'b, 's, 'fl, 'sj, 'w) sched_env \<Rightarrow> ('j, 'a, 'b, 'sj, 'w) scheduler
     \<Rightarrow> (scheduler_error + unit) \<times> ('j, 'a, 'b, 'sj, 'w) scheduler" where
  "initialize V s =
     (if sc_initialized s then (Inr (), s)
      else if \<not> is_schema_frozen (sc_query_engine s) then (Inl SESchemaNotFrozen, s)
      else (let regs = sv_registrations V (sc_registrations s) in
        case find (\<lambda>(sid, reg). rn_read_tables reg = {} \<and> rn_write_tables reg = {}) regs of
          Some (sid, _) \<Rightarrow> (Inl (SEGeneric (''system '' @ quoted sid @ '' has no read or write tables declared'')), s)
        | None \<Rightarrow>
        (case find (\<lambda>(sid, reg). \<not> hm_contains (sc_systems s) sid) regs of
          Some (sid, _) \<Rightarrow> (Inl (SEGeneric (''registration '' @ quoted sid @ '' has no corresponding system'')), s)
        | None \<Rightarrow>
        (case first_conflict (map snd regs) of
          Some (a, b) \<Rightarrow> (Inl (SEWriteConflict (phase_debug (rn_phase a)) (rn_system_id a) (rn_system_id b)
            (sv_first_table V (conflicting_tables a b))), s)
        | None \<Rightarrow> (Inr (), s\<lparr>sc_initialized := True\<rparr>)))))"

definition attach_query_engine :: "'b query_engine \<Rightarrow> bool \<Rightarrow> ('j, 'a, 'b, 'sj, 'w) scheduler \<Rightarrow> ('j, 'a, 'b, 'sj, 'w) scheduler" where
  "attach_query_engine q shared s = s\<lparr>sc_query_engine := q, sc_shared := shared\<rparr>"

end
