(* ===== verification/Scheduler_Props.thy ===== *)
theory Scheduler_Props
  imports Scheduler "HOL-Library.Multiset"
begin

section \<open>Properties of the scheduler\<close>

text \<open>
  Registrations never conflict, a tick commits what the systems return in phase order from
  one state of the engine, a failed tick can be retried, and what a stale command does to
  the queue. \<open>gather\<close> is the reference of a tick's execution: the diffs of a plan of
  systems, without the journal.
\<close>

subsection \<open>Submitting\<close>

lemma submit_commands_eq:
  "jr_phase j = CpOpen \<Longrightarrow> try_each submit_command es j =
     (case dropWhile (\<lambda>c. ce_tick c = jr_current_tick j) es of
        [] \<Rightarrow> (Inr (), j\<lparr>jr_pending_commands := jr_pending_commands j @ es\<rparr>)
      | c # _ \<Rightarrow> (Inl (JEInvalidTick (tick_as_u64 (jr_current_tick j)) (tick_as_u64 (ce_tick c))),
          j\<lparr>jr_pending_commands := jr_pending_commands j @ takeWhile (\<lambda>c. ce_tick c = jr_current_tick j) es\<rparr>))"
proof (induction es arbitrary: j)
  case (Cons e es)
  show ?case
  proof (cases "ce_tick e = jr_current_tick j")
    case True
    let ?j = "j\<lparr>jr_pending_commands := jr_pending_commands j @ [e]\<rparr>"
    have "submit_command e j = (Inr (), ?j)" using Cons.prems True by (simp add: submit_command_def)
    then show ?thesis using Cons.IH [of ?j] Cons.prems True
      by (cases "dropWhile (\<lambda>c. ce_tick c = jr_current_tick j) es") (simp_all del: dropWhile_eq_Nil_conv)
  qed (use Cons.prems in \<open>simp add: submit_command_def\<close>)
qed simp

lemma submit_diffs_eq:
  "jr_phase j = CpOpen \<Longrightarrow> try_each submit_diff ds j = (Inr (), j\<lparr>jr_pending_diffs := jr_pending_diffs j @ ds\<rparr>)"
proof (induction ds arbitrary: j)
  case (Cons d ds)
  let ?j = "j\<lparr>jr_pending_diffs := jr_pending_diffs j @ [d]\<rparr>"
  from Cons.IH [of ?j] Cons.prems show ?case by (simp add: submit_diff_def)
qed simp

lemma put_journal_agreeing:
  "engines_agree s \<Longrightarrow> jr_query_engine j = jr_query_engine (sc_journal s) \<Longrightarrow> put_journal j s = s\<lparr>sc_journal := j\<rparr>"
  by (cases s) (simp add: put_journal_def engines_agree_def)

subsection \<open>The execution of a plan\<close>

fun gather ::
  "(string \<times> ('j, 'b, 'w) sim_system) list \<Rightarrow> 'b query_engine \<Rightarrow> tick \<Rightarrow> (phase \<times> string) list \<Rightarrow> 'w
     \<Rightarrow> 'j diff list \<times> (scheduler_error + unit) \<times> 'w" where
  "gather S q tick [] w = ([], Inr (), w)"
| "gather S q tick ((ph, sid) # rest) w =
     (case hm_get S sid of
        None \<Rightarrow> ([], Inl (SESystemNotFound sid), w)
      | Some sys \<Rightarrow>
          (case ss_execute sys (det_rng_new sid (tick_as_u64 tick)) q ph (tick_as_u64 tick) w of
             (Inl e, w1) \<Rightarrow> ([], Inl e, w1)
           | (Inr ds, w1) \<Rightarrow> (case gather S q tick rest w1 of (ds', r, w2) \<Rightarrow> (ds @ ds', r, w2))))"

definition plan_of :: "(phase \<times> string list) list \<Rightarrow> (phase \<times> string) list" where
  "plan_of pls = List.concat (map (\<lambda>(ph, ids). map (Pair ph) ids) pls)"

definition tick_plan ::
  "('j, 'a, 'b, 's, 'fl, 'sj, 'w) sched_env \<Rightarrow> ('j, 'a, 'b, 'sj, 'w) scheduler \<Rightarrow> (phase \<times> string) list" where
  "tick_plan V s = plan_of (systems_by_phase V s)"

definition add_diffs :: "'j diff list \<Rightarrow> 'w \<Rightarrow> ('j, 'a, 'b, 'sj, 'w) scheduler \<Rightarrow> ('j, 'a, 'b, 'sj, 'w) scheduler" where
  "add_diffs ds w s = s\<lparr>sc_world := w,
     sc_journal := (sc_journal s)\<lparr>jr_pending_diffs := jr_pending_diffs (sc_journal s) @ ds\<rparr>\<rparr>"

lemma add_diffs_simps [simp]:
  "add_diffs [] (sc_world s) s = s"
  "add_diffs ds2 w2 (add_diffs ds1 w1 s) = add_diffs (ds1 @ ds2) w2 s"
  "sc_systems (add_diffs ds w s) = sc_systems s" "sc_query_engine (add_diffs ds w s) = sc_query_engine s"
  "sc_world (add_diffs ds w s) = w" "engines_agree (add_diffs ds w s) = engines_agree s"
  "jr_phase (sc_journal (add_diffs ds w s)) = jr_phase (sc_journal s)"
  by (simp_all add: add_diffs_def engines_agree_def)

lemma gather_append:
  "gather S q tick (xs @ ys) w =
     (case gather S q tick xs w of
        (ds, Inl e, w1) \<Rightarrow> (ds, Inl e, w1)
      | (ds, Inr _, w1) \<Rightarrow> (case gather S q tick ys w1 of (ds', r, w2) \<Rightarrow> (ds @ ds', r, w2)))"
  by (induction xs arbitrary: w) (auto split: option.splits sum.splits prod.splits)

lemma run_phase_gather:
  "engines_agree s \<Longrightarrow> jr_phase (sc_journal s) = CpOpen \<Longrightarrow> run_phase ph ids tick s =
     (case gather (sc_systems s) (sc_query_engine s) tick (map (Pair ph) ids) (sc_world s) of
        (ds, r, w) \<Rightarrow> (r, add_diffs ds w s))"
proof (induction ids arbitrary: s)
  case (Cons sid ids)
  show ?case
  proof (cases "hm_get (sc_systems s) sid")
    case None
    then show ?thesis by (cases s) (simp add: add_diffs_def)
  next
    case (Some sys)
    obtain r w where ex: "ss_execute sys (det_rng_new sid (tick_as_u64 tick)) (sc_query_engine s) ph (tick_as_u64 tick) (sc_world s) = (r, w)"
      by force
    show ?thesis
    proof (cases r)
      case (Inl e)
      then show ?thesis using Some ex by (cases s) (simp add: add_diffs_def)
    next
      case (Inr ds)
      let ?s = "add_diffs ds w s"
      have agree: "engines_agree (s\<lparr>sc_world := w\<rparr>)" using Cons.prems(1) by (simp add: engines_agree_def)
      have "run_phase ph (sid # ids) tick s = run_phase ph ids tick ?s"
        using Some ex Inr Cons.prems(2) put_journal_agreeing [OF agree]
        by (simp add: submit_diffs_eq Let_def add_diffs_def)
      also have "\<dots> = (case gather (sc_systems s) (sc_query_engine s) tick (map (Pair ph) ids) w of
          (ds', r, w') \<Rightarrow> (r, add_diffs ds' w' ?s))"
        using Cons.IH [of ?s] Cons.prems by simp
      finally show ?thesis using Some ex Inr by (simp split: prod.splits)
    qed
  qed
qed simp

lemma run_phase_list_gather:
  "engines_agree s \<Longrightarrow> jr_phase (sc_journal s) = CpOpen \<Longrightarrow> run_phase_list pls tick s =
     (case gather (sc_systems s) (sc_query_engine s) tick (plan_of pls) (sc_world s) of
        (ds, r, w) \<Rightarrow> (r, add_diffs ds w s))"
proof (induction pls arbitrary: s)
  case (Cons p pls)
  obtain ph ids where p: "p = (ph, ids)" by force
  obtain ds r w where g: "gather (sc_systems s) (sc_query_engine s) tick (map (Pair ph) ids) (sc_world s) = (ds, r, w)"
    by (metis prod_cases3)
  have run: "run_phase ph ids tick s = (r, add_diffs ds w s)"
    using run_phase_gather [OF Cons.prems, of ph ids tick] by (simp add: g)
  show ?case
    using Cons.IH [of "add_diffs ds w s"] Cons.prems
    by (cases r) (simp_all add: p run plan_of_def gather_append g split: prod.splits)
qed (simp add: plan_of_def)

lemma run_phases_gather:
  "engines_agree s \<Longrightarrow> jr_phase (sc_journal s) = CpOpen \<Longrightarrow> run_phases V tick s =
     (case gather (sc_systems s) (sc_query_engine s) tick (tick_plan V s) (sc_world s) of
        (ds, r, w) \<Rightarrow> (r, add_diffs ds w s))"
  by (simp add: run_phases_def tick_plan_def run_phase_list_gather)

subsection \<open>The order of a plan\<close>

definition phase_ids :: "phase \<Rightarrow> (string \<times> 'w system_registration) list \<Rightarrow> string list" where
  "phase_ids ph regs = map fst (filter (\<lambda>r. rn_phase (snd r) = ph) regs)"

lemma fold_push_system:
  "hm_get (fold push_system regs m) ph =
     (case hm_get m ph of None \<Rightarrow> (if phase_ids ph regs = [] then None else Some (phase_ids ph regs))
      | Some ids \<Rightarrow> Some (ids @ phase_ids ph regs))"
  "hm_ok m \<Longrightarrow> hm_ok (fold push_system regs m)"
proof (induction regs arbitrary: m)
  case (Cons r regs)
  obtain sid reg where r: "r = (sid, reg)" by force
  { case 1 show ?case using Cons.IH(1) [of "push_system r m"]
      by (auto simp: r push_system_def phase_ids_def split: option.splits) }
  { case 2 then show ?case using Cons.IH(2) [of "push_system r m"] by (simp add: r push_system_def) }
qed (auto simp: phase_ids_def split: option.split)

lemma filter_plan_of:
  "distinct (map fst pls) \<Longrightarrow> filter (\<lambda>x. ph = fst x) (plan_of pls)
     = map (Pair ph) (case hm_get pls ph of None \<Rightarrow> [] | Some ids \<Rightarrow> ids)"
proof (induction pls)
  case (Cons p pls)
  obtain q ids where p: "p = (q, ids)" by force
  have "filter (\<lambda>x. ph = fst x) (map (Pair q) ids) = (if ph = q then map (Pair ph) ids else [])"
    by (induction ids) auto
  moreover have "q = ph \<Longrightarrow> hm_get pls ph = None"
    using Cons.prems by (auto simp: p map_of_eq_None_iff)
  ultimately show ?case using Cons by (auto simp: p plan_of_def)
qed (simp add: plan_of_def)

lemma sorted_plan_of: "sorted (map fst pls) \<Longrightarrow> sorted (map fst (plan_of pls))"
proof (induction pls)
  case (Cons p pls)
  obtain q ids where p: "p = (q, ids)" by force
  have "map fst (map (Pair q) ids) = replicate (length ids) q" by (induction ids) auto
  moreover have "x \<in> fst ` set (plan_of pls) \<Longrightarrow> x \<in> fst ` set pls" for x
    by (force simp: plan_of_def)
  ultimately show ?case using Cons by (force simp: p plan_of_def sorted_append)
qed (simp add: plan_of_def)

text \<open>The grouped and sorted map is the stable sort of the registrations by phase.\<close>

lemma tick_plan_sorted:
  "tick_plan V s = sort_key fst (map (\<lambda>(sid, reg). (rn_phase reg, sid)) (sv_registrations V (sc_registrations s)))"
proof -
  define regs m where "regs = sv_registrations V (sc_registrations s)" and "m = fold push_system regs []"
  let ?xs = "map (\<lambda>(sid, reg). (rn_phase reg, sid)) regs" and ?ys = "plan_of (sort_key fst m)"
  have m: "distinct (map fst m)" using fold_push_system(2) [of "[]" regs] by (simp add: m_def hm_ok_def)
  then have d: "distinct (map fst (sort_key fst m))"
    by (simp add: distinct_map)
  have "hm_get (sort_key fst m) ph = Some ids \<longleftrightarrow> hm_get m ph = Some ids" for ph ids
    using m d by (simp add: map_of_eq_Some_iff)
  then have get: "hm_get (sort_key fst m) ph = hm_get m ph" for ph
    by (metis not_Some_eq)
  have flt: "filter (\<lambda>x. ph = fst x) ?ys = filter (\<lambda>x. ph = fst x) ?xs" for ph
  proof -
    have "map (Pair ph) (phase_ids ph regs) = filter (\<lambda>x. ph = fst x) ?xs"
      by (induction regs) (auto simp: phase_ids_def)
    then show ?thesis
      using filter_plan_of [OF d, of ph, unfolded get] fold_push_system(1) [of regs "[]" ph]
      by (auto simp flip: m_def split: if_splits)
  qed
  have "mset ?ys = mset ?xs"
  proof (rule multiset_eqI)
    fix x
    have "count (mset (filter (\<lambda>y. fst x = fst y) ?ys)) x = count (mset (filter (\<lambda>y. fst x = fst y) ?xs)) x"
      by (simp only: flt)
    then show "count (mset ?ys) x = count (mset ?xs) x" by simp
  qed
  then have "sort_key fst ?xs = ?ys"
    by (rule properties_for_sort_key) (simp_all only: flt, rule sorted_plan_of, simp)
  then show ?thesis by (simp add: tick_plan_def systems_by_phase_def m_def regs_def)
qed

subsection \<open>The tick\<close>

definition stale_commands :: "('j, 'a, 'b, 'sj, 'w) scheduler \<Rightarrow> 'j command_envelope list" where
  "stale_commands s = dropWhile (\<lambda>c. ce_tick c = jr_current_tick (sc_journal s)) (sc_pending_commands s)"

text \<open>The journal a tick commits: its pending lists with the queue and the gathered diffs.\<close>

definition filled_journal ::
  "'j diff list \<Rightarrow> ('j, 'a, 'b, 'sj, 'w) scheduler \<Rightarrow> ('j, 'a, 'b, 'b query_engine, 'sj) journal" where
  "filled_journal ds s = (sc_journal s)
     \<lparr>jr_pending_commands := jr_pending_commands (sc_journal s) @ sc_pending_commands s,
      jr_pending_diffs := jr_pending_diffs (sc_journal s) @ ds\<rparr>"

lemma consume_eq:
  assumes agree: "engines_agree s" and opn: "jr_phase (sc_journal s) = CpOpen"
  shows "consume_pending_commands s =
     (case stale_commands s of
        [] \<Rightarrow> (Inr (sc_pending_commands s), s\<lparr>sc_pending_commands := [], sc_journal := (sc_journal s)
            \<lparr>jr_pending_commands := jr_pending_commands (sc_journal s) @ sc_pending_commands s\<rparr>\<rparr>)
      | c # _ \<Rightarrow> (Inl (from_journal_error (JEInvalidTick (tick_as_u64 (jr_current_tick (sc_journal s))) (tick_as_u64 (ce_tick c)))),
          s\<lparr>sc_pending_commands := [], sc_journal := (sc_journal s)
            \<lparr>jr_pending_commands := jr_pending_commands (sc_journal s)
               @ takeWhile (\<lambda>c. ce_tick c = jr_current_tick (sc_journal s)) (sc_pending_commands s)\<rparr>\<rparr>))"
proof -
  have agree': "engines_agree (s\<lparr>sc_pending_commands := []\<rparr>)" using agree by (simp add: engines_agree_def)
  show ?thesis
    using put_journal_agreeing [OF agree'] submit_commands_eq [OF opn, of "sc_pending_commands s"]
    by (cases "stale_commands s") (simp_all add: consume_pending_commands_def stale_commands_def Let_def del: dropWhile_eq_Nil_conv)
qed

lemma gathered_world:
  assumes agree: "engines_agree s" and opn: "jr_phase (sc_journal s) = CpOpen" and fresh: "stale_commands s = []"
    and g: "gather (sc_systems s) (sc_query_engine s) (current_tick s) (tick_plan V s) (sc_world s) = (ds, r, w)"
  shows "consume_pending_commands s = (Inr (sc_pending_commands s), s1) \<Longrightarrow>
     run_phases V (current_tick s) s1 = (r, s\<lparr>sc_pending_commands := [], sc_world := w, sc_journal := filled_journal ds s\<rparr>)"
proof -
  assume c: "consume_pending_commands s = (Inr (sc_pending_commands s), s1)"
  have s1: "s1 = s\<lparr>sc_pending_commands := [], sc_journal := (sc_journal s)
      \<lparr>jr_pending_commands := jr_pending_commands (sc_journal s) @ sc_pending_commands s\<rparr>\<rparr>"
    using c by (simp add: consume_eq [OF agree opn] fresh)
  have "tick_plan V s1 = tick_plan V s" by (simp add: s1 tick_plan_def systems_by_phase_def)
  then show ?thesis
    using run_phases_gather [of s1 V "current_tick s"] agree opn g
    by (simp add: s1 engines_agree_def add_diffs_def filled_journal_def)
qed

lemma rollback_eq:
  assumes "engines_agree s" and "jr_phase (sc_journal s) = CpOpen" and "sc_pending_commands s = []"
  shows "rollback_consumed_commands cs s = s\<lparr>sc_pending_commands := cs,
    sc_journal := (sc_journal s)\<lparr>jr_pending_commands := [], jr_pending_diffs := []\<rparr>\<rparr>"
proof -
  have "fold (\<lambda>cmd queue. cmd # queue) (rev cs) q = cs @ q" for q by (induction cs arbitrary: q) simp_all
  then show ?thesis
    using assms(2,3) put_journal_agreeing [OF assms(1)]
    by (simp add: rollback_consumed_commands_def clear_pending_def Let_def)
qed

text \<open>A tick whose commands are all current, by what its systems and its commit do.\<close>

lemma sched_tick_eq:
  assumes init: "sc_initialized s" and agree: "engines_agree s" and opn: "jr_phase (sc_journal s) = CpOpen"
    and fresh: "stale_commands s = []"
    and g: "gather (sc_systems s) (sc_query_engine s) (current_tick s) (tick_plan V s) (sc_world s) = (ds, r, w)"
  defines "s2 \<equiv> s\<lparr>sc_pending_commands := [], sc_world := w, sc_journal := filled_journal ds s\<rparr>"
  shows "sched_tick V s =
     (case r of
        Inl e \<Rightarrow> (Inl e, rollback_consumed_commands (sc_pending_commands s) s2)
      | Inr _ \<Rightarrow>
          (case commit (sv_journal V) (filled_journal ds s) of
             (Inl e, j) \<Rightarrow> (Inl (from_journal_error e), rollback_consumed_commands (sc_pending_commands s) (put_journal j s2))
           | (Inr result, j) \<Rightarrow>
               (let s4 = snd (advance_tick (summarise_commit V j ((put_journal j s2)\<lparr>sc_generation := sc_generation s + 1\<rparr>)))
                in case broadcast_refresh V (co_tick result) (sc_generation s4) s4 of
                     (Inl e, s5) \<Rightarrow> (Inl e, s5)
                   | (Inr _, s5) \<Rightarrow> (Inr result, s5))))"
proof -
  obtain s1 where c: "consume_pending_commands s = (Inr (sc_pending_commands s), s1)"
    by (simp add: consume_eq [OF agree opn] fresh)
  from gathered_world [OF agree opn fresh g c]
  have run: "run_phases V (current_tick s) s1 = (r, s2)" by (simp add: s2_def)
  have gen: "sc_generation (put_journal j s2) = sc_generation s" "sc_journal s2 = filled_journal ds s" for j
    by (simp_all add: put_journal_def s2_def)
  show ?thesis
    by (cases r) (simp_all add: sched_tick_def init c run Let_def atomic_commit_def gen split: prod.split sum.split)
qed

lemma publish_keeps_engine: "qo \<noteq> None \<Longrightarrow> snd (publish E t s qo) \<noteq> None"
  by (auto simp: publish_def split: prod.splits)

lemma begin_keeps_engine: "qo \<noteq> None \<Longrightarrow> snd (begin_publication E qo) \<noteq> None"
  by (auto simp: begin_publication_def split: prod.splits sum.splits)

lemma commit_keeps_engine:
  assumes c: "commit E j = (r, j')" and q: "jr_query_engine j \<noteq> None"
  shows "jr_query_engine j' \<noteq> None"
proof (cases r)
  case (Inr res)
  from commit_Inr [OF c [unfolded Inr]] obtain h s1 ro q1 q2 sj1 where
    b: "begin_publication E (jr_query_engine j) = (Inr ro, q1)"
    and p: "publish E (jr_current_tick j) s1 q1 = (Inr (), q2)" and j': "jr_query_engine j' = q2"
    by (auto simp del: fst_conv)
  have "q1 \<noteq> None" using begin_keeps_engine [OF q, of E] b by simp
  then show ?thesis using publish_keeps_engine [of q1 E "jr_current_tick j" s1] p j' by simp
next
  case (Inl e)
  show ?thesis
  proof (cases "jr_phase j = CpOpen")
    case False
    then show ?thesis using c q by (auto simp: commit_def)
  next
    case True
    from commit_Inl [OF c [unfolded Inl] True] obtain s1 qo sjo where
      j': "j' = snd (abort_commit j (save_table_versions (jr_store j) (map diff_table (jr_pending_diffs j))) s1 qo sjo e)"
      and qo: "qo = jr_query_engine j \<or> (\<exists>x. begin_publication E (jr_query_engine j) = (Inl x, qo))
       \<or> (\<exists>ro q1. begin_publication E (jr_query_engine j) = (Inr ro, q1)
            \<and> qo = run_rollback E ro (snd (publish E (jr_current_tick j) s1 q1)))" by blast
    have "qo \<noteq> None"
      using qo
    proof (elim disjE exE conjE)
      fix ro q1 assume b: "begin_publication E (jr_query_engine j) = (Inr ro, q1)"
        and qo: "qo = run_rollback E ro (snd (publish E (jr_current_tick j) s1 q1))"
      have "q1 \<noteq> None" using begin_keeps_engine [OF q, of E] b by simp
      then show ?thesis using publish_keeps_engine [of q1 E "jr_current_tick j" s1]
        by (auto simp: qo run_rollback_def split: option.split)
    qed (use q begin_keeps_engine [OF q, of E] in auto)
    then show ?thesis by (simp add: j' abort_commit_def)
  qed
qed

lemma put_journal_agrees:
  "engines_agree s \<Longrightarrow> (jr_query_engine (sc_journal s) \<noteq> None \<Longrightarrow> jr_query_engine j \<noteq> None) \<Longrightarrow> engines_agree (put_journal j s)"
  by (auto simp: engines_agree_def put_journal_def)

lemma put_journal_simps [simp]:
  "sc_journal (put_journal j s) = j" "sc_pending_commands (put_journal j s) = sc_pending_commands s"
  "sc_current_tick (put_journal j s) = sc_current_tick s" "sc_generation (put_journal j s) = sc_generation s"
  by (simp_all add: put_journal_def)

lemma summarise_simps [simp]:
  "sc_pending_commands (summarise_commit V j s) = sc_pending_commands s"
  "sc_current_tick (summarise_commit V j s) = sc_current_tick s" "sc_generation (summarise_commit V j s) = sc_generation s"
  "jr_history (sc_journal (summarise_commit V j s)) = jr_history (sc_journal s)"
  "jr_store (sc_journal (summarise_commit V j s)) = jr_store (sc_journal s)"
  "jr_phase (sc_journal (summarise_commit V j s)) = jr_phase (sc_journal s)"
  "jr_current_tick (sc_journal (summarise_commit V j s)) = jr_current_tick (sc_journal s)"
  "engines_agree s \<Longrightarrow> engines_agree (summarise_commit V j s)"
  by (auto simp: summarise_commit_def put_engine_def with_query_engine_def engines_agree_def Let_def split: option.split)

lemma engines_agree_update [simp]:
  "engines_agree (s\<lparr>sc_world := w\<rparr>) = engines_agree s" "engines_agree (s\<lparr>sc_current_tick := t\<rparr>) = engines_agree s"
  "engines_agree (s\<lparr>sc_generation := g\<rparr>) = engines_agree s" "engines_agree (s\<lparr>sc_pending_commands := cs\<rparr>) = engines_agree s"
  by (simp_all add: engines_agree_def)

lemma broadcast_loop_error:
  "broadcast_loop t g bus w = (Inl e, w') \<Longrightarrow> \<exists>name x. e = SERefreshSignalFailed name x"
  by (induction bus arbitrary: w) (auto split: sum.splits prod.splits)

lemma fresh_commands: "stale_commands s = [] \<longleftrightarrow> (\<forall>c \<in> set (sc_pending_commands s). ce_tick c = jr_current_tick (sc_journal s))"
  by (simp add: stale_commands_def)

lemma committed_tick:
  assumes init: "sc_initialized s" and agree: "engines_agree s" and opn: "jr_phase (sc_journal s) = CpOpen"
    and tick: "sched_tick V s = (r, s')" and moved: "is_ok r \<or> sc_current_tick s' \<noteq> sc_current_tick s"
  shows "\<exists>ds w res j'.
      gather (sc_systems s) (sc_query_engine s) (current_tick s)
        (sort_key fst (map (\<lambda>(sid, reg). (rn_phase reg, sid)) (sv_registrations V (sc_registrations s)))) (sc_world s) = (ds, Inr (), w)
    \<and> (\<forall>c \<in> set (sc_pending_commands s). ce_tick c = jr_current_tick (sc_journal s))
    \<and> commit (sv_journal V) (filled_journal ds s) = (Inr res, j')
    \<and> (r = Inr res \<or> (\<exists>name e. r = Inl (SERefreshSignalFailed name e)))
    \<and> sc_pending_commands s' = [] \<and> sc_current_tick s' = sc_current_tick s + 1 \<and> sc_generation s' = sc_generation s + 1
    \<and> jr_store (sc_journal s') = jr_store j' \<and> jr_current_tick (sc_journal s') = tick_next (jr_current_tick (sc_journal s))
    \<and> cr_diffs (last (jr_history (sc_journal s'))) = jr_pending_diffs (sc_journal s) @ ds
    \<and> cr_commands (last (jr_history (sc_journal s'))) = jr_pending_commands (sc_journal s) @ sc_pending_commands s
    \<and> jr_phase (sc_journal s') = CpOpen \<and> engines_agree s'"
proof -
  have fresh: "stale_commands s = []"
  proof (rule ccontr)
    assume "stale_commands s \<noteq> []"
    then show False
      using tick moved by (auto simp: sched_tick_def init consume_eq [OF agree opn] neq_Nil_conv Let_def)
  qed
  obtain ds g w where g: "gather (sc_systems s) (sc_query_engine s) (current_tick s) (tick_plan V s) (sc_world s) = (ds, g, w)"
    by (metis prod_cases3)
  let ?s2 = "s\<lparr>sc_pending_commands := [], sc_world := w, sc_journal := filled_journal ds s\<rparr>"
  note eq = sched_tick_eq [OF init agree opn fresh g]
  have roll: "sc_current_tick (rollback_consumed_commands cs x) = sc_current_tick x" for cs and x :: "('a, 'b, 'c, 'd, 'e) scheduler"
    by (simp add: rollback_consumed_commands_def Let_def)
  have g': "g = Inr ()" using tick moved eq by (cases g) (auto simp: roll)
  obtain c j' where c: "commit (sv_journal V) (filled_journal ds s) = (c, j')" by force
  obtain res where res: "c = Inr res" using tick moved eq c g' by (cases c) (auto simp: roll)
  define s4 where "s4 = snd (advance_tick (summarise_commit V j' ((put_journal j' ?s2)\<lparr>sc_generation := sc_generation s + 1\<rparr>)))"
  obtain b w' where b: "broadcast_refresh V (co_tick res) (sc_generation s4) s4 = (b, s4\<lparr>sc_world := w'\<rparr>)"
    and err: "b = Inl e \<Longrightarrow> \<exists>name x. e = SERefreshSignalFailed name x" for e
    using broadcast_loop_error by (fastforce simp: broadcast_refresh_def broadcast_def split: prod.splits)
  have tick': "sched_tick V s = (case b of Inl e \<Rightarrow> (Inl e, s4\<lparr>sc_world := w'\<rparr>) | Inr _ \<Rightarrow> (Inr res, s4\<lparr>sc_world := w'\<rparr>))"
    unfolding eq using b by (simp add: g' c res Let_def flip: s4_def split: sum.split)
  then have s': "s' = s4\<lparr>sc_world := w'\<rparr>" and r: "r = Inr res \<or> (\<exists>name e. r = Inl (SERefreshSignalFailed name e))"
    using tick err by (cases b; auto)+
  have agree': "engines_agree (put_journal j' ?s2)"
    using agree commit_keeps_engine [OF c] by (intro put_journal_agrees) (auto simp: engines_agree_def filled_journal_def)
  have "engines_agree s'"
    using agree' by (simp add: s' s4_def advance_tick_def)
  with commit_Inr [OF c [unfolded res]] show ?thesis
    using g c res r fresh
    by (intro exI [of _ ds] exI [of _ w] exI [of _ res] exI [of _ j'])
      (auto simp: s' s4_def advance_tick_def g' fresh_commands trim_history_eq newest_def max_commit_history_def
        record_with_commands_def filled_journal_def simp flip: tick_plan_sorted)
qed

text \<open>C4: A tick that commits: the systems ran in the order of their phases, those of a phase in
  the order of the registrations, all on the engine as the tick found it and each with the
  stream of its name and the tick; the record holds what was pending, then their diffs in
  that order, and the queued commands, which were all for the journal's tick. The queue is
  empty, tick and generation went up by one, and only a refresh callback can have turned the
  result into an error.\<close>

theorem tick_commits_in_phase_order:
  assumes init: "sc_initialized s" and agree: "engines_agree s" and opn: "jr_phase (sc_journal s) = CpOpen"
    and tick: "sched_tick V s = (r, s')" and moved: "is_ok r \<or> sc_current_tick s' \<noteq> sc_current_tick s"
  shows "\<exists>ds w res j'.
      gather (sc_systems s) (sc_query_engine s) (current_tick s)
        (sort_key fst (map (\<lambda>(sid, reg). (rn_phase reg, sid)) (sv_registrations V (sc_registrations s)))) (sc_world s) = (ds, Inr (), w)
    \<and> (\<forall>c \<in> set (sc_pending_commands s). ce_tick c = jr_current_tick (sc_journal s))
    \<and> commit (sv_journal V) (filled_journal ds s) = (Inr res, j')
    \<and> (r = Inr res \<or> (\<exists>name e. r = Inl (SERefreshSignalFailed name e)))
    \<and> sc_pending_commands s' = [] \<and> sc_current_tick s' = sc_current_tick s + 1 \<and> sc_generation s' = sc_generation s + 1
    \<and> jr_store (sc_journal s') = jr_store j' \<and> jr_current_tick (sc_journal s') = tick_next (jr_current_tick (sc_journal s))
    \<and> cr_diffs (last (jr_history (sc_journal s'))) = jr_pending_diffs (sc_journal s) @ ds
    \<and> cr_commands (last (jr_history (sc_journal s'))) = jr_pending_commands (sc_journal s) @ sc_pending_commands s
    \<and> jr_phase (sc_journal s') = CpOpen \<and> engines_agree s'"
  by (rule committed_tick [OF assms])


text \<open>A command for another tick makes the tick fail, and the queue does not survive it: the
  commands before it stay pending in the journal, it and all commands behind it are in
  neither queue nor journal.\<close>

theorem stale_command_loses_queue:
  assumes init: "sc_initialized s" and agree: "engines_agree s" and opn: "jr_phase (sc_journal s) = CpOpen"
    and queue: "sc_pending_commands s = good @ stale # behind"
    and good: "\<forall>c \<in> set good. ce_tick c = jr_current_tick (sc_journal s)"
    and stale: "ce_tick stale \<noteq> jr_current_tick (sc_journal s)"
  shows "sched_tick V s =
    (Inl (from_journal_error (JEInvalidTick (tick_as_u64 (jr_current_tick (sc_journal s))) (tick_as_u64 (ce_tick stale)))),
     s\<lparr>sc_pending_commands := [], sc_journal := (sc_journal s)
         \<lparr>jr_pending_commands := jr_pending_commands (sc_journal s) @ good\<rparr>\<rparr>)"
proof -
  have "stale_commands s = stale # behind"
    using good stale by (simp add: stale_commands_def queue)
  moreover have "takeWhile (\<lambda>c. ce_tick c = jr_current_tick (sc_journal s)) (sc_pending_commands s) = good"
    using good stale by (simp add: queue)
  ultimately show ?thesis using init by (simp add: sched_tick_def consume_eq [OF agree opn] Let_def)
qed

subsection \<open>Registrations\<close>

text \<open>Every state the scheduler's calls can produce; the journal, handed out by
  \<open>journal_mut\<close>, may be changed in any way between two calls.\<close>

inductive sched_reachable ::
  "('j, 'a, 'b, 's, 'fl, 'sj, 'w) sched_env \<Rightarrow> ('j, 'a, 'b, 'sj, 'w) scheduler \<Rightarrow> bool" for V where
  sched_start: "sched_reachable V (scheduler_new j q shared w)"
| sched_register: "sched_reachable V s \<Longrightarrow> sched_reachable V (snd (register_system V sys s))"
| sched_unregister: "sched_reachable V s \<Longrightarrow> sched_reachable V (unregister_system sid s)"
| sched_initialize: "sched_reachable V s \<Longrightarrow> sched_reachable V (snd (initialize V s))"
| sched_enqueue: "sched_reachable V s \<Longrightarrow> sched_reachable V (enqueue_command c s)"
| sched_ticks: "sched_reachable V s \<Longrightarrow> sched_reachable V (snd (sched_tick V s))"
| sched_consumer: "sched_reachable V s \<Longrightarrow> sched_reachable V (snd (register_consumer name cb s))"
| sched_unconsumer: "sched_reachable V s \<Longrightarrow> sched_reachable V (snd (unregister_consumer name s))"
| sched_attach: "sched_reachable V s \<Longrightarrow> sched_reachable V (attach_query_engine q shared s)"
| sched_journal: "sched_reachable V s \<Longrightarrow> sched_reachable V (put_journal j s)"

definition declares_tables :: "('j, 'b, 'w) sim_system \<Rightarrow> bool" where
  "declares_tables sys \<longleftrightarrow> ss_read_tables sys \<noteq> [] \<or> ss_write_tables sys \<noteq> []"

definition sched_inv :: "('j, 'a, 'b, 'sj, 'w) scheduler \<Rightarrow> bool" where
  "sched_inv s \<longleftrightarrow> hm_ok (sc_registrations s)
   \<and> (\<forall>a. hm_get (sc_registrations s) a = map_option from_system (hm_get (sc_systems s) a))
   \<and> (\<forall>a x. hm_get (sc_systems s) a = Some x \<longrightarrow> ss_id x = a \<and> (sc_initialized s \<longrightarrow> declares_tables x))
   \<and> (\<forall>a b x y. hm_get (sc_systems s) a = Some x \<and> hm_get (sc_systems s) b = Some y \<and> a \<noteq> b \<longrightarrow>
        \<not> has_write_conflict (from_system x) (from_system y))"

lemma conflict_sym: "has_write_conflict a b \<longleftrightarrow> has_write_conflict b a"
  by (auto simp: has_write_conflict_def write_sets_disjoint_def)

lemma first_conflict_None: "first_conflict rs = None \<longleftrightarrow> sorted_wrt (\<lambda>a b. \<not> has_write_conflict a b) rs"
proof (induction rs)
  case (Cons a rs)
  have "find (has_write_conflict a) rs = None \<longleftrightarrow> (\<forall>b \<in> set rs. \<not> has_write_conflict a b)"
    by (auto simp: find_None_iff)
  with Cons.IH show ?case by (cases "find (has_write_conflict a) rs") auto
qed simp

lemma register_inv:
  assumes inv: "sched_inv s" and order: "\<And>xs. mset (sv_registrations V xs) = mset xs"
  shows "sched_inv (snd (register_system V sys s))"
proof (cases "is_ok (fst (register_system V sys s))")
  case False
  then have "snd (register_system V sys s) = s"
    by (auto simp: register_system_def Let_def split: list.split if_split_asm)
  then show ?thesis using inv by simp
next
  case True
  let ?reg = "from_system sys" and ?sid = "ss_id sys"
  have new: "\<not> hm_contains (sc_systems s) ?sid" "\<not> sc_initialized s"
    and none: "filter (has_write_conflict ?reg) (map snd (sv_registrations V (sc_registrations s))) = []"
    using True by (auto simp: register_system_def Let_def split: list.split_asm if_split_asm)
  have s': "snd (register_system V sys s) = s\<lparr>sc_refresh_bus := sc_refresh_bus (snd (register_system V sys s)),
      sc_registrations := hm_insert ?sid ?reg (sc_registrations s), sc_systems := hm_insert ?sid sys (sc_systems s)\<rparr>"
    using new none by (simp add: register_system_def Let_def)
  have "\<not> has_write_conflict ?reg (from_system x)" if "hm_get (sc_systems s) a = Some x" for a x
  proof -
    have "hm_get (sc_registrations s) a = Some (from_system x)" using inv that by (simp add: sched_inv_def)
    then have "(a, from_system x) \<in> set (sc_registrations s)" by (rule map_of_SomeD)
    also have "set (sc_registrations s) = set (sv_registrations V (sc_registrations s))" by (metis order set_mset_mset)
    finally show ?thesis using none by (force simp: filter_empty_conv)
  qed
  then show ?thesis
    using inv new by (subst s') (auto simp: sched_inv_def conflict_sym [of _ ?reg])
qed

lemma initialize_iff:
  assumes inv: "sched_inv s" and order: "\<And>xs. mset (sv_registrations V xs) = mset xs"
  shows "is_ok (fst (initialize V s)) \<longleftrightarrow> sc_initialized s \<or> is_schema_frozen (sc_query_engine s)
      \<and> (\<forall>a x. hm_get (sc_systems s) a = Some x \<longrightarrow> declares_tables x)"
    and "snd (initialize V s) = s\<lparr>sc_initialized := is_ok (fst (initialize V s))\<rparr>"
proof -
  define regs where "regs = sv_registrations V (sc_registrations s)"
  have set: "set regs = set (sc_registrations s)" by (metis order regs_def set_mset_mset)
  have "mset (map fst regs) = mset (map fst (sc_registrations s))" by (simp add: order regs_def)
  then have dist: "distinct (map fst regs)" using inv by (metis hm_ok_def mset_eq_imp_distinct_iff sched_inv_def)
  have get: "(a, r) \<in> set regs \<longleftrightarrow> (\<exists>x. hm_get (sc_systems s) a = Some x \<and> r = from_system x)" for a r
    using inv by (auto simp: set sched_inv_def hm_ok_iff_get)
  have "first_conflict (map snd regs) = None"
    unfolding first_conflict_None sorted_wrt_iff_nth_less
  proof (intro allI impI)
    fix i k assume ik: "i < k" "k < length (map snd regs)"
    obtain x where x: "hm_get (sc_systems s) (fst (regs ! i)) = Some x" "snd (regs ! i) = from_system x"
      using get [of "fst (regs ! i)" "snd (regs ! i)"] ik by auto
    obtain y where y: "hm_get (sc_systems s) (fst (regs ! k)) = Some y" "snd (regs ! k) = from_system y"
      using get [of "fst (regs ! k)" "snd (regs ! k)"] ik by auto
    have "fst (regs ! i) \<noteq> fst (regs ! k)"
      using dist ik by (simp add: distinct_conv_nth)
    then show "\<not> has_write_conflict (map snd regs ! i) (map snd regs ! k)"
      using inv x y ik by (auto simp: sched_inv_def)
  qed
  moreover have "find (\<lambda>(sid, reg). \<not> hm_contains (sc_systems s) sid) regs = None"
    using get by (auto simp: find_None_iff hm_contains_def)
  moreover define empty where "empty = find (\<lambda>(sid, reg). rn_read_tables reg = {} \<and> rn_write_tables reg = {}) regs"
  ultimately have eq: "initialize V s = (if sc_initialized s then (Inr (), s)
      else if \<not> is_schema_frozen (sc_query_engine s) then (Inl SESchemaNotFrozen, s)
      else case empty of Some (sid, _) \<Rightarrow> (Inl (SEGeneric (''system '' @ quoted sid @ '' has no read or write tables declared'')), s)
        | None \<Rightarrow> (Inr (), s\<lparr>sc_initialized := True\<rparr>))"
    unfolding initialize_def Let_def regs_def [symmetric] empty_def [symmetric] by (cases empty) simp_all
  define e where "e = (if is_schema_frozen (sc_query_engine s)
    then SEGeneric (''system '' @ quoted (fst (the empty)) @ '' has no read or write tables declared'') else SESchemaNotFrozen)"
  have init: "initialize V s = (if sc_initialized s then (Inr (), s)
      else if is_schema_frozen (sc_query_engine s) \<and> empty = None then (Inr (), s\<lparr>sc_initialized := True\<rparr>) else (Inl e, s))"
    unfolding eq e_def by (simp split: option.split prod.split)
  have same: "s\<lparr>sc_initialized := sc_initialized s\<rparr> = s" by simp
  have "(case ar of (a, r) \<Rightarrow> rn_read_tables r = {} \<and> rn_write_tables r = {}) \<longleftrightarrow>
      (\<exists>a x. ar = (a, from_system x) \<and> hm_get (sc_systems s) a = Some x \<and> \<not> declares_tables x)"
    if "ar \<in> set regs" for ar
  proof -
    obtain a r where ar: "ar = (a, r)" by force
    with that obtain x where "hm_get (sc_systems s) a = Some x" "r = from_system x" using get by blast
    then show ?thesis by (auto simp: ar declares_tables_def from_system_def)
  qed
  then have "empty = None \<longleftrightarrow> (\<forall>a x. hm_get (sc_systems s) a = Some x \<longrightarrow> declares_tables x)"
    unfolding empty_def find_None_iff using get by blast
  then show "is_ok (fst (initialize V s)) \<longleftrightarrow> sc_initialized s \<or> is_schema_frozen (sc_query_engine s)
      \<and> (\<forall>a x. hm_get (sc_systems s) a = Some x \<longrightarrow> declares_tables x)" by (simp add: init)
  show "snd (initialize V s) = s\<lparr>sc_initialized := is_ok (fst (initialize V s))\<rparr>"
    using same by (simp add: init)
qed

lemma put_journal_rest [simp]:
  "sc_systems (put_journal j s) = sc_systems s" "sc_registrations (put_journal j s) = sc_registrations s"
  "sc_initialized (put_journal j s) = sc_initialized s"
  by (simp_all add: put_journal_def)

text \<open>What running a tick never touches.\<close>

definition sys_part ::
  "('j, 'a, 'b, 'sj, 'w) scheduler \<Rightarrow> (string \<times> ('j, 'b, 'w) sim_system) list \<times> (string \<times> 'w system_registration) list \<times> bool" where
  "sys_part s = (sc_systems s, sc_registrations s, sc_initialized s)"

lemma sys_part_update [simp]:
  "sys_part (put_journal j s) = sys_part s" "sys_part (s\<lparr>sc_world := w\<rparr>) = sys_part s"
  "sys_part (s\<lparr>sc_pending_commands := cs\<rparr>) = sys_part s" "sys_part (s\<lparr>sc_current_tick := t\<rparr>) = sys_part s"
  "sys_part (s\<lparr>sc_generation := g\<rparr>) = sys_part s" "sys_part (s\<lparr>sc_refresh_bus := bus\<rparr>) = sys_part s"
  "sys_part (attach_query_engine q shared s) = sys_part s" "sys_part (summarise_commit V j s) = sys_part s"
  by (simp_all add: sys_part_def attach_query_engine_def summarise_commit_def put_engine_def Let_def split: option.split)

lemma sys_part_run_phase [simp]: "sys_part (snd (run_phase ph ids tick s)) = sys_part s"
  by (induction ids arbitrary: s) (auto simp: Let_def split: option.split sum.split prod.split)

lemma sys_part_run_phase_list [simp]: "sys_part (snd (run_phase_list pls tick s)) = sys_part s"
proof (induction pls arbitrary: s)
  case (Cons p pls)
  obtain ph ids where p: "p = (ph, ids)" by force
  obtain r s1 where run: "run_phase ph ids tick s = (r, s1)" by force
  have "sys_part s1 = sys_part s" using sys_part_run_phase [of ph ids tick s] by (simp add: run)
  with Cons.IH show ?case by (cases r) (simp_all add: p run)
qed simp

lemma sys_part_steps [simp]:
  "sys_part (snd (consume_pending_commands s)) = sys_part s"
  "sys_part (rollback_consumed_commands cs s) = sys_part s"
  "sys_part (snd (run_phases V t s)) = sys_part s"
  "sys_part (snd (atomic_commit V s)) = sys_part s"
  "sys_part (snd (advance_tick s)) = sys_part s"
  "sys_part (snd (broadcast_refresh V t g s)) = sys_part s"
  by (simp_all add: consume_pending_commands_def rollback_consumed_commands_def run_phases_def atomic_commit_def
      advance_tick_def broadcast_refresh_def Let_def split: sum.split prod.split)

lemma sys_part_tick [simp]: "sys_part (snd (sched_tick V s)) = sys_part s"
proof -
  obtain c s1 where c: "consume_pending_commands s = (c, s1)" by force
  obtain d s2 where d: "run_phases V (current_tick s) s1 = (d, s2)" by force
  obtain e s3 where e: "atomic_commit V s2 = (e, s3)" by force
  have parts: "sys_part s1 = sys_part s" "sys_part s2 = sys_part s" "sys_part s3 = sys_part s"
    using sys_part_steps(1) [of s] sys_part_steps(3) [of V "current_tick s" s1] sys_part_steps(4) [of V s2] by (simp_all add: c d e)
  show ?thesis
  proof (cases c; cases d; cases e)
    fix cs u res assume ok: "c = Inr cs" "d = Inr u" "e = Inr res"
    obtain f s5 where f: "broadcast_refresh V (co_tick res) (sc_generation (snd (advance_tick s3))) (snd (advance_tick s3)) = (f, s5)"
      by force
    then have "sys_part s5 = sys_part s"
      using sys_part_steps(6) [of V "co_tick res" "sc_generation (snd (advance_tick s3))" "snd (advance_tick s3)"] parts by simp
    then show ?thesis using c d e ok f by (cases f) (simp_all add: sched_tick_def Let_def)
  qed (use c d e parts in \<open>simp_all add: sched_tick_def Let_def\<close>)
qed

lemma sched_inv_part: "sys_part t = sys_part s \<Longrightarrow> sched_inv t = sched_inv s"
  by (simp add: sched_inv_def sys_part_def)

lemma reachable_sched_inv:
  assumes "sched_reachable V s" and order: "\<And>xs. mset (sv_registrations V xs) = mset xs"
  shows "sched_inv s"
  using assms(1)
proof induction
  case (sched_start j q shared w)
  then show ?case by (simp add: sched_inv_def scheduler_new_def)
next
  case (sched_register s sys)
  then show ?case by (intro register_inv order)
next
  case (sched_unregister s sid)
  then show ?case by (auto simp: sched_inv_def unregister_system_def)
next
  case (sched_initialize s)
  note init = initialize_iff [OF sched_initialize.IH order]
  show ?case
    using sched_initialize.IH init(1) by (subst init(2)) (auto simp: sched_inv_def)
qed (rule sched_inv_part [THEN iffD2, rotated], assumption,
    simp add: enqueue_command_def register_consumer_def bus_register_def unregister_consumer_def split: prod.split)+

text \<open>C17: In every state of a scheduler each registration is that of the system under its own
  identifier, and two systems of one phase never declare a table both write; once
  initialised every system declares a table. So initialisation can only be refused for an
  unfrozen schema or a system without tables: its checks for orphans and write conflicts
  never fire.\<close>

theorem systems_never_conflict:
  assumes reach: "sched_reachable V s" and order: "\<And>xs. mset (sv_registrations V xs) = mset xs"
  shows "(\<forall>a. hm_get (sc_registrations s) a = map_option from_system (hm_get (sc_systems s) a))
    \<and> (\<forall>a x. hm_get (sc_systems s) a = Some x \<longrightarrow> ss_id x = a \<and> (sc_initialized s \<longrightarrow> declares_tables x))
    \<and> (\<forall>a b x y. hm_get (sc_systems s) a = Some x \<and> hm_get (sc_systems s) b = Some y \<and> a \<noteq> b \<and> ss_phase x = ss_phase y \<longrightarrow>
         set (ss_write_tables x) \<inter> set (ss_write_tables y) = {})
    \<and> (is_ok (fst (initialize V s)) \<longleftrightarrow> sc_initialized s \<or> is_schema_frozen (sc_query_engine s)
         \<and> (\<forall>a x. hm_get (sc_systems s) a = Some x \<longrightarrow> declares_tables x))"
proof -
  have inv: "sched_inv s" using reach order by (rule reachable_sched_inv)
  have "set (ss_write_tables x) \<inter> set (ss_write_tables y) = {}"
    if "hm_get (sc_systems s) a = Some x" "hm_get (sc_systems s) b = Some y" "a \<noteq> b" "ss_phase x = ss_phase y" for a b x y
  proof -
    have "\<not> has_write_conflict (from_system x) (from_system y)" using inv that unfolding sched_inv_def by blast
    then show ?thesis using that(4) by (simp add: has_write_conflict_def write_sets_disjoint_def from_system_def)
  qed
  then show ?thesis using inv initialize_iff(1) [OF inv order] unfolding sched_inv_def by blast
qed

subsection \<open>The iteration order of the registrations\<close>

text \<open>Systems that neither read nor change anything but the engine.\<close>

definition pure_systems :: "(string \<times> ('j, 'b, 'w) sim_system) list \<Rightarrow> bool" where
  "pure_systems S \<longleftrightarrow> (\<forall>a x. hm_get S a = Some x \<longrightarrow> (\<forall>r q ph t w w'.
     snd (ss_execute x r q ph t w) = w \<and> fst (ss_execute x r q ph t w) = fst (ss_execute x r q ph t w')))"

definition system_output ::
  "(string \<times> ('j, 'b, 'w) sim_system) list \<Rightarrow> 'b query_engine \<Rightarrow> tick \<Rightarrow> 'w \<Rightarrow> phase \<times> string \<Rightarrow> 'j diff list" where
  "system_output S q tick w p = (case p of (ph, sid) \<Rightarrow>
     (case hm_get S sid of
        Some sys \<Rightarrow> unwrap_or_default (fst (ss_execute sys (det_rng_new sid (tick_as_u64 tick)) q ph (tick_as_u64 tick) w))
      | None \<Rightarrow> []))"

lemma gather_pure:
  assumes "pure_systems S" and "gather S q tick plan w = (ds, Inr u, w')"
  shows "ds = List.concat (map (system_output S q tick w) plan)"
  using assms(2)
proof (induction plan arbitrary: ds w)
  case (Cons p plan)
  obtain ph sid where p: "p = (ph, sid)" by force
  obtain sys where sys: "hm_get S sid = Some sys" using Cons.prems by (auto simp: p split: option.splits)
  let ?run = "ss_execute sys (det_rng_new sid (tick_as_u64 tick)) q ph (tick_as_u64 tick) w"
  obtain ds1 where ds1: "fst ?run = Inr ds1"
    using Cons.prems by (auto simp: p sys split: sum.splits prod.splits)
  have "snd ?run = w" using assms(1) sys by (auto simp: pure_systems_def)
  then have run: "?run = (Inr ds1, w)" using ds1 by (metis prod.collapse)
  then obtain ds2 where rest: "gather S q tick plan w = (ds2, Inr u, w')" "ds = ds1 @ ds2"
    using Cons.prems by (auto simp: p sys split: prod.splits)
  from Cons.IH [OF rest(1)] show ?case
    by (simp add: rest(2) p system_output_def sys run unwrap_or_default_def)
qed simp

lemma mset_concat_map: "mset xs = mset ys \<Longrightarrow> mset (List.concat (map f xs)) = mset (List.concat (map f ys))"
proof -
  have "mset (List.concat (map f zs)) = (\<Sum>z \<in># mset zs. mset (f z))" for zs by (induction zs) simp_all
  then show "mset xs = mset ys \<Longrightarrow> ?thesis" by simp
qed

lemma hash_diffs_mset:
  assumes "mset xs = mset ys" and "hash_diffs ser xs = Inr h" and "hash_diffs ser ys = Inr k"
  shows "h = k"
proof -
  define f where "f d = fnv1a_64 (case ser d of Inr t \<Rightarrow> t | Inl _ \<Rightarrow> [])" for d
  have "sum_list (map f zs) = (\<Sum>z \<in># mset zs. f z)" for zs by (induction zs) simp_all
  moreover have "h = sum_list (map f xs)" "k = sum_list (map f ys)"
    using assms(2,3) unfolding hash_diffs_sum f_def by blast+
  ultimately show ?thesis using assms(1) by simp
qed

text \<open>The iteration order of the registrations, which a hash map leaves open, does not matter
  beyond the order of diffs within a phase: for systems that work on nothing but the engine,
  two runs of a tick that commit under different orders commit the same diffs up to their
  order, the same commands and the same state hash.\<close>

theorem schedule_order_immaterial:
  assumes init: "sc_initialized s" and agree: "engines_agree s" and opn: "jr_phase (sc_journal s) = CpOpen"
    and pure: "pure_systems (sc_systems s)"
    and order: "mset (sv_registrations V (sc_registrations s)) = mset (sv_registrations V' (sc_registrations s))"
    and ser: "je_serialize (sv_journal V) = je_serialize (sv_journal V')"
    and tick: "sched_tick V s = (Inr res, s')" "sched_tick V' s = (Inr res', s'')"
  shows "res' = res
    \<and> mset (cr_diffs (last (jr_history (sc_journal s'')))) = mset (cr_diffs (last (jr_history (sc_journal s'))))
    \<and> cr_commands (last (jr_history (sc_journal s''))) = cr_commands (last (jr_history (sc_journal s')))"
proof -
  have run: "\<exists>ds. mset ds = mset (List.concat (map (system_output (sc_systems s) (sc_query_engine s) (current_tick s) (sc_world s))
          (map (\<lambda>(sid, reg). (rn_phase reg, sid)) (sv_registrations W (sc_registrations s)))))
      \<and> cr_diffs (last (jr_history (sc_journal t))) = jr_pending_diffs (sc_journal s) @ ds
      \<and> cr_commands (last (jr_history (sc_journal t))) = jr_pending_commands (sc_journal s) @ sc_pending_commands s
      \<and> (\<exists>h. hash_diffs (je_serialize (sv_journal W)) (jr_pending_diffs (sc_journal s) @ ds) = Inr h
           \<and> r = \<lparr>co_tick = jr_current_tick (sc_journal s), co_diff_count = length (jr_pending_diffs (sc_journal s) @ ds),
               co_command_count = length (jr_pending_commands (sc_journal s) @ sc_pending_commands s), co_state_hash = h\<rparr>)"
    if t: "sched_tick W s = (Inr r, t)" for W r t
  proof -
    have "is_ok (Inr r :: scheduler_error + commit_result) \<or> sc_current_tick t \<noteq> sc_current_tick s" by simp
    from committed_tick [OF init agree opn t this] obtain ds w j' where
      g: "gather (sc_systems s) (sc_query_engine s) (current_tick s) (sort_key fst (map (\<lambda>(sid, reg). (rn_phase reg, sid))
        (sv_registrations W (sc_registrations s)))) (sc_world s) = (ds, Inr (), w)"
      and c: "commit (sv_journal W) (filled_journal ds s) = (Inr r, j')"
      and rec: "cr_diffs (last (jr_history (sc_journal t))) = jr_pending_diffs (sc_journal s) @ ds"
        "cr_commands (last (jr_history (sc_journal t))) = jr_pending_commands (sc_journal s) @ sc_pending_commands s" by blast
    have "mset ds = mset (List.concat (map (system_output (sc_systems s) (sc_query_engine s) (current_tick s) (sc_world s))
          (map (\<lambda>(sid, reg). (rn_phase reg, sid)) (sv_registrations W (sc_registrations s)))))"
      unfolding gather_pure [OF pure g] by (rule mset_concat_map) simp
    moreover obtain h where "hash_diffs (je_serialize (sv_journal W)) (jr_pending_diffs (sc_journal s) @ ds) = Inr h"
      "r = \<lparr>co_tick = jr_current_tick (sc_journal s), co_diff_count = length (jr_pending_diffs (sc_journal s) @ ds),
           co_command_count = length (jr_pending_commands (sc_journal s) @ sc_pending_commands s), co_state_hash = h\<rparr>"
      using commit_Inr [OF c] by (auto simp: filled_journal_def apply_diffs_and_hash_def split: sum.splits prod.splits)
    ultimately show ?thesis using rec by blast
  qed
  obtain ds h where ds: "mset ds = mset (List.concat (map (system_output (sc_systems s) (sc_query_engine s) (current_tick s) (sc_world s))
          (map (\<lambda>(sid, reg). (rn_phase reg, sid)) (sv_registrations V (sc_registrations s)))))"
    and h: "hash_diffs (je_serialize (sv_journal V)) (jr_pending_diffs (sc_journal s) @ ds) = Inr h"
    and rec: "cr_diffs (last (jr_history (sc_journal s'))) = jr_pending_diffs (sc_journal s) @ ds"
       "cr_commands (last (jr_history (sc_journal s'))) = jr_pending_commands (sc_journal s) @ sc_pending_commands s"
    and res: "res = \<lparr>co_tick = jr_current_tick (sc_journal s), co_diff_count = length (jr_pending_diffs (sc_journal s) @ ds),
           co_command_count = length (jr_pending_commands (sc_journal s) @ sc_pending_commands s), co_state_hash = h\<rparr>"
    using run [OF tick(1)] by blast
  obtain ds' h' where ds': "mset ds' = mset (List.concat (map (system_output (sc_systems s) (sc_query_engine s) (current_tick s) (sc_world s))
          (map (\<lambda>(sid, reg). (rn_phase reg, sid)) (sv_registrations V' (sc_registrations s)))))"
    and h': "hash_diffs (je_serialize (sv_journal V')) (jr_pending_diffs (sc_journal s) @ ds') = Inr h'"
    and rec': "cr_diffs (last (jr_history (sc_journal s''))) = jr_pending_diffs (sc_journal s) @ ds'"
       "cr_commands (last (jr_history (sc_journal s''))) = jr_pending_commands (sc_journal s) @ sc_pending_commands s"
    and res': "res' = \<lparr>co_tick = jr_current_tick (sc_journal s), co_diff_count = length (jr_pending_diffs (sc_journal s) @ ds'),
           co_command_count = length (jr_pending_commands (sc_journal s) @ sc_pending_commands s), co_state_hash = h'\<rparr>"
    using run [OF tick(2)] by blast
  have same: "mset ds' = mset ds" unfolding ds ds' using order by (intro mset_concat_map) simp
  then have "h' = h"
    using hash_diffs_mset [OF _ h' [folded ser] h] by simp
  moreover have "length ds' = length ds" using same by (metis size_mset)
  ultimately show ?thesis using same by (simp add: rec rec' res res')
qed

subsection \<open>Instances\<close>

definition demo_sched_env ::
  "(djson, lcol, field list \<times> lcol list, field list, int, djson in_memory_save_journal, unit) sched_env" where
  "demo_sched_env = \<lparr>sv_journal = demo_journal_env, sv_registrations = (\<lambda>xs. xs), sv_consumers = (\<lambda>xs. xs),
     sv_first_table = (\<lambda>_. ''units''), sv_debug = None\<rparr>"

definition demo_system ::
  "string \<Rightarrow> phase \<Rightarrow> scheduler_error + djson diff list \<Rightarrow> (djson, field list \<times> lcol list, unit) sim_system" where
  "demo_system sid ph result = \<lparr>ss_id = sid, ss_phase = ph, ss_read_tables = [''units''], ss_write_tables = [],
     ss_refresh_callback = None, ss_execute = (\<lambda>_ _ _ _ w. (result, w))\<rparr>"

definition demo_command :: "nat \<Rightarrow> djson command_envelope" where
  "demo_command n = envelope_new (Tick (of_nat n)) ''ui'' (DeleteRow ''units'' (RowId 7))"

definition demo_sched ::
  "(string \<times> (djson, field list \<times> lcol list, unit) sim_system) list \<Rightarrow> djson command_envelope list
     \<Rightarrow> (djson, lcol, field list \<times> lcol list, djson in_memory_save_journal, unit) scheduler" where
  "demo_sched S cs = (scheduler_new demo_journal demo_engine True ())\<lparr>sc_systems := S,
     sc_registrations := map (\<lambda>(a, x). (a, from_system x)) S, sc_initialized := True, sc_pending_commands := cs\<rparr>"

definition demo_systems :: "(string \<times> (djson, field list \<times> lcol list, unit) sim_system) list" where
  "demo_systems = [(''war'', demo_system ''war'' Military (Inr [])), (''trade'', demo_system ''trade'' Economy (Inr []))]"

lemma demo_sched_simps [simp]:
  "sc_initialized (demo_sched S cs)" "engines_agree (demo_sched S cs)" "sc_journal (demo_sched S cs) = demo_journal"
  "sc_pending_commands (demo_sched S cs) = cs" "sc_systems (demo_sched S cs) = S" "sc_current_tick (demo_sched S cs) = 0"
  "sc_registrations (demo_sched S cs) = map (\<lambda>(a, x). (a, from_system x)) S"
  "sc_query_engine (demo_sched S cs) = demo_engine" "sc_refresh_bus (demo_sched S cs) = []"
  by (simp_all add: demo_sched_def scheduler_new_def engines_agree_def)

lemma demo_sched_env_simps [simp]:
  "sv_journal demo_sched_env = demo_journal_env" "sv_registrations demo_sched_env xs = xs" "sv_debug demo_sched_env = None"
  "sv_consumers demo_sched_env bus = bus"
  by (simp_all add: demo_sched_env_def)

lemma demo_command_tick [simp]: "ce_tick (demo_command n) = Tick (of_nat n)"
  by (simp add: demo_command_def envelope_new_def)

lemma demo_commands_commit:
  "\<exists>res j'. commit demo_journal_env (demo_journal\<lparr>jr_pending_commands := cs\<rparr>) = (Inr res, j')"
proof -
  have inv: "store_inv demo_store" by (rule reachable_inv [OF demo_store_reachable])
  obtain s1 where hash: "apply_diffs_and_hash demo_journal_env (Tick 0) [] demo_store = (Inr 0, s1)"
    and tabs: "st_tables s1 = st_tables demo_store"
    by (simp add: apply_diffs_and_hash_def apply_diffs_def commit_only_def demo_store_sim generate_snapshot_def
        do_generate_snapshot_def Let_def hash_diffs_def)
  from demo_commit_ok [OF hash inv] tabs obtain q2 where
    "publish demo_journal_env (Tick 0) s1 (Some (demo_engine\<lparr>qe_pending_ingest := Some pending_ingest_new\<rparr>)) = (Inr (), q2)"
    by (auto simp: demo_store_units)
  then show ?thesis
    by (simp add: commit_def demo_journal_def with_save_journal_def with_query_engine_def journal_new_def tick_ZERO_def
        hash begin_publication_def begin_ingest_def append_record_def sj_append_def Let_def)
qed

lemma demo_plan:
  "tick_plan demo_sched_env (demo_sched demo_systems cs) = [(Economy, ''trade''), (Military, ''war'')]"
  by (simp add: tick_plan_sorted demo_systems_def demo_system_def from_system_def phase_le_iff sort_key_def)

lemma demo_tick_commits:
  assumes "\<forall>c \<in> set cs. ce_tick c = Tick 0"
    and V: "sv_journal V = demo_journal_env" "sv_debug V = None" "sv_consumers V [] = []"
    and plan: "tick_plan V (demo_sched demo_systems cs) = [(Economy, ''trade''), (Military, ''war'')]"
  shows "\<exists>res s'. sched_tick V (demo_sched demo_systems cs) = (Inr res, s')"
proof -
  let ?s = "demo_sched demo_systems cs"
  have g: "gather (sc_systems ?s) (sc_query_engine ?s) (current_tick ?s) (tick_plan V ?s) (sc_world ?s)
      = ([], Inr (), sc_world ?s)"
    unfolding plan by (simp add: demo_systems_def demo_system_def)
  have fresh: "stale_commands ?s = []" using assms by (simp add: fresh_commands)
  have filled: "filled_journal [] ?s = demo_journal\<lparr>jr_pending_commands := cs\<rparr>"
    by (simp add: filled_journal_def)
  obtain res j' where "commit demo_journal_env (demo_journal\<lparr>jr_pending_commands := cs\<rparr>) = (Inr res, j')"
    using demo_commands_commit by blast
  then show ?thesis
    using sched_tick_eq [OF _ _ _ fresh g]
    by (simp add: filled Let_def V broadcast_refresh_def broadcast_def advance_tick_def summarise_commit_def put_journal_def)
qed

lemma tick_commits_in_phase_order_witness:
  "\<exists>res s'. sched_tick demo_sched_env (demo_sched demo_systems [demo_command 0]) = (Inr res, s')
     \<and> sc_pending_commands s' = [] \<and> sc_current_tick s' = 1 \<and> jr_current_tick (sc_journal s') = Tick 1
     \<and> cr_commands (last (jr_history (sc_journal s'))) = [demo_command 0]"
proof -
  obtain res s' where t: "sched_tick demo_sched_env (demo_sched demo_systems [demo_command 0]) = (Inr res, s')"
    using demo_tick_commits [of "[demo_command 0]" demo_sched_env] demo_plan by auto
  have "is_ok (Inr res :: scheduler_error + commit_result)
      \<or> sc_current_tick s' \<noteq> sc_current_tick (demo_sched demo_systems [demo_command 0])" by simp
  from tick_commits_in_phase_order [OF _ _ _ t this] have
    "sc_pending_commands s' = []" "sc_current_tick s' = 1" "jr_current_tick (sc_journal s') = Tick 1"
    "cr_commands (last (jr_history (sc_journal s'))) = [demo_command 0]"
    by (auto simp: tick_next_def tick_MAX_def)
  with t show ?thesis by blast
qed


lemma stale_command_loses_queue_witness:
  "sc_pending_commands (snd (sched_tick demo_sched_env (demo_sched [] [demo_command 0, demo_command 3, demo_command 0]))) = []
   \<and> jr_pending_commands (sc_journal (snd (sched_tick demo_sched_env
        (demo_sched [] [demo_command 0, demo_command 3, demo_command 0])))) = [demo_command 0]"
  using stale_command_loses_queue [of "demo_sched [] [demo_command 0, demo_command 3, demo_command 0]"
      "[demo_command 0]" "demo_command 3" "[demo_command 0]" demo_sched_env]
  by simp

lemma systems_never_conflict_witness:
  "\<not> is_ok (fst (initialize demo_sched_env (snd (register_system demo_sched_env (demo_system ''war'' Military (Inr []))
      (scheduler_new demo_journal demo_engine True ())))))"
proof -
  let ?s = "snd (register_system demo_sched_env (demo_system ''war'' Military (Inr [])) (scheduler_new demo_journal demo_engine True ()))"
  have "sched_reachable demo_sched_env ?s" by (intro sched_register sched_start)
  note all = systems_never_conflict [OF this]
  have "\<not> sc_initialized ?s" "sc_query_engine ?s = demo_engine"
    by (simp_all add: register_system_def scheduler_new_def demo_system_def from_system_def Let_def hm_contains_def)
  moreover have "\<not> is_schema_frozen demo_engine"
    by (simp add: demo_engine_def is_schema_frozen_def register_table_schema_def query_engine_new_def register_def schema_registry_new_def
        split: sum.split)
  ultimately show ?thesis using all by simp
qed

lemma schedule_order_immaterial_witness:
  "\<exists>res s' s''. sched_tick demo_sched_env (demo_sched demo_systems [demo_command 0]) = (Inr res, s')
     \<and> sched_tick (demo_sched_env\<lparr>sv_registrations := rev\<rparr>) (demo_sched demo_systems [demo_command 0]) = (Inr res, s'')"
proof -
  have "tick_plan (demo_sched_env\<lparr>sv_registrations := rev\<rparr>) (demo_sched demo_systems [demo_command 0])
      = tick_plan demo_sched_env (demo_sched demo_systems [demo_command 0])"
    unfolding demo_plan by (simp add: tick_plan_sorted demo_systems_def demo_system_def from_system_def phase_le_iff sort_key_def)
  with demo_plan obtain res s' res' s'' where
    t: "sched_tick demo_sched_env (demo_sched demo_systems [demo_command 0]) = (Inr res, s')"
      "sched_tick (demo_sched_env\<lparr>sv_registrations := rev\<rparr>) (demo_sched demo_systems [demo_command 0]) = (Inr res', s'')"
    using demo_tick_commits [of "[demo_command 0]" demo_sched_env]
      demo_tick_commits [of "[demo_command 0]" "demo_sched_env\<lparr>sv_registrations := rev\<rparr>"] by auto
  have "pure_systems (sc_systems (demo_sched demo_systems [demo_command 0]))"
    by (auto simp: pure_systems_def demo_systems_def demo_system_def)
  from schedule_order_immaterial [OF _ _ _ this _ _ t] have "res' = res" by simp
  with t show ?thesis by blast
qed

end
