(* ===== verification/Rules.thy ===== *)
theory Rules
  imports Journal_Props "HOL-Library.Char_ord" "HOL-Library.List_Lexorder"
begin

section \<open>The rules engine (scharnhorst\_rules)\<close>

text \<open>
  error.rs, expr.rs, scope.rs, effect.rs, modifier.rs, cache.rs and evaluator.rs. Evaluation
  reads the engine and the evaluator and changes neither, so \<open>evaluate\<close> is a function of
  both; an effect changes the variables and submits to the journal. The maps of an
  expression are association lists in their iteration order. \<open>f64\<close> and JSON are fields of
  \<open>rule_env\<close>.
\<close>

subsection \<open>Errors\<close>

datatype rule_error =
    REEvaluation string
  | REScope string
  | REUnknownRelation string
  | REUnknownVariable string
  | RETypeMismatch string string
  | RECache string
  | REQueryEngine string
  | REJournalWrapper string
  | REModifier string
  | REUnsupportedOperation string
  | REGeneric string
  | RECore core_error
  | RESchema schema_error
  | REQuery query_error
  | REJournal journal_error

subsection \<open>Expressions and effects\<close>

record column_path =
  cp_table :: string
  cp_column :: string

datatype compare_op = OpEq | OpNe | OpLt | OpLe | OpGt | OpGe

datatype arithmetic_op = OpAdd | OpSub | OpMul | OpDiv | OpRem

datatype expr =
    EConst fixed_point
  | EBool bool
  | EString string
  | ERowId row_id
  | EColumn column_path
  | EVar string
  | ENot expr
  | EAnd "expr list"
  | EOr "expr list"
  | ECompare compare_op expr expr
  | EArithmetic arithmetic_op expr expr
  | EIf expr expr expr
  | ECall string "(string \<times> expr) list"
  | EList "expr list"
  | EMap "(string \<times> expr) list"

datatype effect =
    EffUpdateColumn string string expr
  | EffInsertRow string row_id "(string \<times> expr) list"
  | EffSetVariable string expr
  | EffSequence "effect list"

datatype eval_value =
    VFixed fixed_point
  | VBool bool
  | VString string
  | VRowId row_id
  | VList "eval_value list"
  | VMap "(string \<times> eval_value) list"

fun variant_name :: "eval_value \<Rightarrow> string" where
  "variant_name (VFixed _) = ''FixedPoint''"
| "variant_name (VBool _) = ''Bool''"
| "variant_name (VString _) = ''String''"
| "variant_name (VRowId _) = ''RowId''"
| "variant_name (VList _) = ''List''"
| "variant_name (VMap _) = ''Map''"

subsection \<open>scope.rs\<close>

datatype jump_direction = Forward | Reverse

record scope_jump =
  sj_relation :: string
  sj_direction :: jump_direction

record scope_frame =
  sf_table :: string
  sf_row :: row_id
  sf_jump :: "scope_jump option"

record scope =
  sp_table :: string
  sp_row :: row_id
  sp_stack :: "scope_frame list"

definition scope_new :: "string \<Rightarrow> row_id \<Rightarrow> scope" where
  "scope_new t r = \<lparr>sp_table = t, sp_row = r, sp_stack = []\<rparr>"

definition stack_depth :: "scope \<Rightarrow> nat" where
  "stack_depth s = length (sp_stack s)"

text \<open>The top of the stack is the end of the list, as in the vector.\<close>

definition scope_push :: "scope \<Rightarrow> string \<Rightarrow> row_id \<Rightarrow> scope_jump option \<Rightarrow> scope" where
  "scope_push s t r jump = s\<lparr>sp_stack := sp_stack s @ [\<lparr>sf_table = sp_table s, sf_row = sp_row s, sf_jump = jump\<rparr>],
     sp_table := t, sp_row := r\<rparr>"

definition scope_pop :: "scope \<Rightarrow> (rule_error + unit) \<times> scope" where
  "scope_pop s =
     (if sp_stack s = [] then (Inl (REScope ''scope stack underflow''), s)
      else (let frame = last (sp_stack s) in
        (Inr (), s\<lparr>sp_stack := butlast (sp_stack s), sp_table := sf_table frame, sp_row := sf_row frame\<rparr>)))"

definition apply_jump :: "scope \<Rightarrow> relation_edge \<Rightarrow> jump_direction \<Rightarrow> row_id \<Rightarrow> scope" where
  "apply_jump s edge direction target_row =
     (let target_table = (case direction of Forward \<Rightarrow> re_to edge | Reverse \<Rightarrow> re_from edge);
          jump = \<lparr>sj_relation = re_from edge @ '' -> '' @ re_to edge, sj_direction = direction\<rparr>
      in scope_push s target_table target_row (Some jump))"

definition scope_chain :: "scope \<Rightarrow> (string \<times> row_id) list" where
  "scope_chain s = map (\<lambda>f. (sf_table f, sf_row f)) (sp_stack s) @ [(sp_table s, sp_row s)]"

definition scope_reset :: "scope \<Rightarrow> string \<Rightarrow> row_id \<Rightarrow> scope" where
  "scope_reset s t r = s\<lparr>sp_stack := [], sp_table := t, sp_row := r\<rparr>"

subsection \<open>modifier.rs\<close>

datatype modifier_op = MAdd | MMul | MOverride

record modifier =
  md_table :: string
  md_column :: string
  md_op :: modifier_op
  md_value :: fixed_point

definition modifier_apply :: "modifier \<Rightarrow> fixed_point \<Rightarrow> rule_error + fixed_point" where
  "modifier_apply m base =
     (case md_op m of
        MAdd \<Rightarrow> rbind (map_err RECore (rescale (md_value m) (fp_scale base))) (\<lambda>v. map_err RECore (fp_add base v))
      | MMul \<Rightarrow> rbind (map_err RECore (rescale (md_value m) (fp_scale base))) (\<lambda>v. map_err RECore (fp_mul base v))
      | MOverride \<Rightarrow> Inr (md_value m))"

type_synonym modifier_registry = "((string \<times> string) \<times> modifier list) list"

definition modifier_register :: "modifier_registry \<Rightarrow> modifier \<Rightarrow> modifier_registry" where
  "modifier_register r m =
     (let key = (md_table m, md_column m) in
      hm_insert key ((case hm_get r key of None \<Rightarrow> [] | Some ms \<Rightarrow> ms) @ [m]) r)"

definition clear_field :: "modifier_registry \<Rightarrow> string \<Rightarrow> string \<Rightarrow> modifier_registry" where
  "clear_field r t c = hm_remove (t, c) r"

definition modifiers_for :: "modifier_registry \<Rightarrow> string \<Rightarrow> string \<Rightarrow> modifier list option" where
  "modifiers_for r t c = hm_get r (t, c)"

definition split_step :: "modifier list \<times> modifier list \<times> modifier list \<Rightarrow> modifier \<Rightarrow> modifier list \<times> modifier list \<times> modifier list" where
  "split_step acc m = (case acc of (a, ml, ov) \<Rightarrow>
     (case md_op m of MAdd \<Rightarrow> (a @ [m], ml, ov) | MMul \<Rightarrow> (a, ml @ [m], ov) | MOverride \<Rightarrow> (a, ml, ov @ [m])))"

definition aggregate :: "modifier_registry \<Rightarrow> string \<Rightarrow> string \<Rightarrow> fixed_point \<Rightarrow> rule_error + fixed_point" where
  "aggregate r t c base =
     (let mods = (case modifiers_for r t c of None \<Rightarrow> [] | Some ms \<Rightarrow> ms) in
      case foldl split_step ([], [], []) mods of (adds, muls, overrides) \<Rightarrow>
      rbind (try_fold (\<lambda>acc m. modifier_apply m acc) base adds) (\<lambda>after_add.
      rbind (try_fold (\<lambda>acc m. modifier_apply m acc) after_add muls) (\<lambda>after_mul.
      if overrides = [] then Inr after_mul else modifier_apply (last overrides) after_mul)))"

definition modifier_fields :: "modifier_registry \<Rightarrow> (string \<times> string) list" where
  "modifier_fields r = map fst r"

definition modifier_len :: "modifier_registry \<Rightarrow> nat" where
  "modifier_len r = sum_list (map (\<lambda>(_, ms). length ms) r)"

subsection \<open>cache.rs\<close>

record 'b cached_row =
  cw_tick :: tick
  cw_table :: string
  cw_row_id :: row_id
  cw_view :: "'b table_read_view"

record 'b cache_entry =
  cn_row :: "'b cached_row"
  cn_last_access :: nat

type_synonym 'b cache_map = "((string \<times> u64) \<times> 'b cache_entry) list"

record 'b prefetch_cache =
  pc_capacity :: nat
  pc_entries :: "'b cache_map"
  pc_current_tick :: tick
  pc_access_counter :: nat
  pc_dirty :: bool

definition default_capacity :: nat where "default_capacity = 1024"

definition cache_new :: "nat \<Rightarrow> 'b prefetch_cache" where
  "cache_new capacity = \<lparr>pc_capacity = capacity, pc_entries = [], pc_current_tick = tick_ZERO, pc_access_counter = 0,
     pc_dirty = False\<rparr>"

definition cache_default :: "'b prefetch_cache" where
  "cache_default = cache_new default_capacity"

definition cache_with_tick :: "'b prefetch_cache \<Rightarrow> tick \<Rightarrow> 'b prefetch_cache" where
  "cache_with_tick c t = c\<lparr>pc_current_tick := t\<rparr>"

definition cache_clear :: "'b prefetch_cache \<Rightarrow> 'b prefetch_cache" where
  "cache_clear c = c\<lparr>pc_entries := [], pc_access_counter := 0, pc_dirty := False\<rparr>"

definition cache_set_tick :: "'b prefetch_cache \<Rightarrow> tick \<Rightarrow> 'b prefetch_cache" where
  "cache_set_tick c t = (if pc_current_tick c \<noteq> t then (cache_clear c)\<lparr>pc_current_tick := t\<rparr> else c)"

definition cache_key :: "string \<Rightarrow> row_id \<Rightarrow> string \<times> u64" where
  "cache_key t r = (t, row_id_as_u64 r)"

definition cache_get :: "'b prefetch_cache \<Rightarrow> string \<Rightarrow> row_id \<Rightarrow> 'b cached_row option \<times> 'b prefetch_cache" where
  "cache_get c t r =
     (case hm_get (pc_entries c) (cache_key t r) of
        None \<Rightarrow> (None, c)
      | Some entry \<Rightarrow>
          (let n = sat_add (pc_access_counter c) 1 in
           (Some (cn_row entry), c\<lparr>pc_access_counter := n,
              pc_entries := hm_insert (cache_key t r) (entry\<lparr>cn_last_access := n\<rparr>) (pc_entries c)\<rparr>)))"

text \<open>\<open>order\<close> is the iteration order of the entries.\<close>

definition find_view :: "('b cache_map \<Rightarrow> 'b cache_map) \<Rightarrow> 'b prefetch_cache \<Rightarrow> string \<Rightarrow> tick \<Rightarrow> 'b table_read_view option" where
  "find_view order c t tick =
     map_option (\<lambda>(_, e). cw_view (cn_row e))
       (find (\<lambda>(_, e). cw_tick (cn_row e) = tick \<and> cw_table (cn_row e) = t) (order (pc_entries c)))"

text \<open>\<open>min_by_key\<close>: the first of the least.\<close>

fun first_min :: "('x \<Rightarrow> nat) \<Rightarrow> 'x list \<Rightarrow> 'x option" where
  "first_min f [] = None"
| "first_min f (x # xs) = (case first_min f xs of None \<Rightarrow> Some x | Some y \<Rightarrow> if f x \<le> f y then Some x else Some y)"

definition evict_lru :: "('b cache_map \<Rightarrow> 'b cache_map) \<Rightarrow> 'b prefetch_cache \<Rightarrow> 'b prefetch_cache" where
  "evict_lru order c =
     (case first_min (\<lambda>(_, e). cn_last_access e) (order (pc_entries c)) of
        None \<Rightarrow> c
      | Some (k, _) \<Rightarrow> c\<lparr>pc_entries := hm_remove k (pc_entries c)\<rparr>)"

definition cache_insert :: "('b cache_map \<Rightarrow> 'b cache_map) \<Rightarrow> 'b cached_row \<Rightarrow> 'b prefetch_cache \<Rightarrow> 'b prefetch_cache" where
  "cache_insert order row c =
     (let c1 = (if length (pc_entries c) \<ge> pc_capacity c then evict_lru order c else c);
          n = sat_add (pc_access_counter c1) 1
      in c1\<lparr>pc_access_counter := n,
            pc_entries := hm_insert (cache_key (cw_table row) (cw_row_id row)) \<lparr>cn_row = row, cn_last_access = n\<rparr> (pc_entries c1)\<rparr>)"

definition cache_mark_dirty :: "'b prefetch_cache \<Rightarrow> 'b prefetch_cache" where
  "cache_mark_dirty c = c\<lparr>pc_dirty := True\<rparr>"

definition rebuild_from_authority :: "'b prefetch_cache \<Rightarrow> tick \<Rightarrow> 'b prefetch_cache" where
  "rebuild_from_authority c t = (cache_clear c)\<lparr>pc_current_tick := t, pc_dirty := False\<rparr>"

definition prefetch_row ::
  "('b cache_map \<Rightarrow> 'b cache_map) \<Rightarrow> string \<Rightarrow> 'b table_read_view \<Rightarrow> row_id \<Rightarrow> 'b prefetch_cache \<Rightarrow> 'b prefetch_cache" where
  "prefetch_row order t view r c =
     (if hm_contains (pc_entries c) (cache_key t r) then c
      else cache_insert order \<lparr>cw_tick = pc_current_tick c, cw_table = t, cw_row_id = r, cw_view = view\<rparr> c)"

definition prefetch ::
  "('b cache_map \<Rightarrow> 'b cache_map) \<Rightarrow> (read_request \<Rightarrow> query_error + 'b read_response) \<Rightarrow> string \<Rightarrow> row_id list
     \<Rightarrow> 'b prefetch_cache \<Rightarrow> (rule_error + unit) \<times> 'b prefetch_cache" where
  "prefetch order read t ids c =
     (case map_err (\<lambda>e. REQueryEngine (query_error_text e)) (read (request_with_table (read_request_new (pc_current_tick c)) t)) of
        Inl e \<Rightarrow> (Inl e, c)
      | Inr response \<Rightarrow>
          (case map_err (\<lambda>e. REQueryEngine (query_error_text e)) (response_get response t) of
             Inl e \<Rightarrow> (Inl e, c)
           | Inr view \<Rightarrow> (Inr (), fold (prefetch_row order t view) ids c)))"

subsection \<open>The evaluator\<close>

type_synonym builtin_fn = "eval_value list \<Rightarrow> rule_error + eval_value"

record ('b, 'a, 's, 'fl, 'j) rule_env =
  ru_arrow :: "('b, 'a, 's, 'fl) arrow_api"
  ru_type_name :: "data_type \<Rightarrow> string"
  ru_try_from_f64 :: "'fl \<Rightarrow> nat \<Rightarrow> core_error + fixed_point"
  ru_f64_zero :: 'fl
  ru_entries :: "'b cache_map \<Rightarrow> 'b cache_map"
  ru_row_ids :: "row_id list \<Rightarrow> row_id list"
  ru_json_fixed :: "fixed_point \<Rightarrow> 'j option"
  ru_json_bool :: "bool \<Rightarrow> 'j"
  ru_json_string :: "string \<Rightarrow> 'j"
  ru_json_u64 :: "u64 \<Rightarrow> 'j"
  ru_json_array :: "'j list \<Rightarrow> 'j"
  ru_json_object :: "(string \<times> 'j) list \<Rightarrow> 'j"

record ('j, 'a, 'b, 'q, 'sj) evaluator =
  ev_query_engine :: "'b query_engine"
  ev_journal :: "('j, 'a, 'b, 'q, 'sj) journal"
  ev_scope :: scope
  ev_cache :: "'b prefetch_cache"
  ev_modifiers :: modifier_registry
  ev_variables :: "(string \<times> eval_value) list"
  ev_builtins :: "(string \<times> builtin_fn) list"
  ev_builtin_arg_counts :: "(string \<times> nat) list"

text \<open>The arithmetic builtins differ in the name and the operation.\<close>

definition fixed_builtin :: "string \<Rightarrow> (fixed_point \<Rightarrow> fixed_point \<Rightarrow> core_error + fixed_point) \<Rightarrow> builtin_fn" where
  "fixed_builtin name f args =
     (if length args < 2 then Inl (REEvaluation (name @ '' requires at least 2 arguments''))
      else (case (args ! 0, args ! 1) of
          (VFixed a, VFixed b) \<Rightarrow> rbind (map_err RECore (f a b)) (\<lambda>v. Inr (VFixed v))
        | _ \<Rightarrow> Inl (RETypeMismatch ''FixedPoint'' (variant_name (args ! 0)))))"

definition fp_lt :: "fixed_point \<Rightarrow> fixed_point \<Rightarrow> bool" where
  "fp_lt a b \<longleftrightarrow> fp_cmp a b = OLess"

definition fp_min :: "fixed_point \<Rightarrow> fixed_point \<Rightarrow> fixed_point" where
  "fp_min a b = (if fp_lt b a then b else a)"

definition fp_max :: "fixed_point \<Rightarrow> fixed_point \<Rightarrow> fixed_point" where
  "fp_max a b = (if fp_lt b a then a else b)"

definition not_builtin :: builtin_fn where
  "not_builtin args =
     (if args = [] then Inl (REEvaluation ''not requires 1 argument'')
      else (case args ! 0 of VBool b \<Rightarrow> Inr (VBool (\<not> b)) | v \<Rightarrow> Inl (RETypeMismatch ''bool'' (variant_name v))))"

definition default_builtins :: "(string \<times> builtin_fn) list \<times> (string \<times> nat) list" where
  "default_builtins =
     ([(''add'', fixed_builtin ''add'' fp_add), (''sub'', fixed_builtin ''sub'' fp_sub),
       (''mul'', fixed_builtin ''mul'' fp_mul), (''div'', fixed_builtin ''div'' fp_div),
       (''min'', fixed_builtin ''min'' (\<lambda>a b. Inr (fp_min a b))), (''max'', fixed_builtin ''max'' (\<lambda>a b. Inr (fp_max a b))),
       (''not'', not_builtin)],
      [(''add'', 2), (''sub'', 2), (''mul'', 2), (''div'', 2), (''min'', 2), (''max'', 2), (''not'', 1)])"

definition evaluator_new ::
  "'b query_engine \<Rightarrow> ('j, 'a, 'b, 'q, 'sj) journal \<Rightarrow> string \<Rightarrow> row_id \<Rightarrow> ('j, 'a, 'b, 'q, 'sj) evaluator" where
  "evaluator_new q j t r = (case default_builtins of (fns, counts) \<Rightarrow>
     \<lparr>ev_query_engine = q, ev_journal = j, ev_scope = scope_new t r, ev_cache = cache_default, ev_modifiers = [],
      ev_variables = [], ev_builtins = fns, ev_builtin_arg_counts = counts\<rparr>)"

definition register_function :: "string \<Rightarrow> builtin_fn \<Rightarrow> ('j, 'a, 'b, 'q, 'sj) evaluator \<Rightarrow> ('j, 'a, 'b, 'q, 'sj) evaluator" where
  "register_function name f ev = ev\<lparr>ev_builtins := hm_insert name f (ev_builtins ev)\<rparr>"

definition with_modifiers :: "('j, 'a, 'b, 'q, 'sj) evaluator \<Rightarrow> modifier_registry \<Rightarrow> ('j, 'a, 'b, 'q, 'sj) evaluator" where
  "with_modifiers ev m = ev\<lparr>ev_modifiers := m\<rparr>"

definition rules_advance_tick :: "('j, 'a, 'b, 'q, 'sj) evaluator \<Rightarrow> tick \<Rightarrow> ('j, 'a, 'b, 'q, 'sj) evaluator" where
  "rules_advance_tick ev t = ev\<lparr>ev_cache := cache_set_tick (ev_cache ev) t\<rparr>"

definition bind_var :: "string \<Rightarrow> eval_value \<Rightarrow> ('j, 'a, 'b, 'q, 'sj) evaluator \<Rightarrow> ('j, 'a, 'b, 'q, 'sj) evaluator" where
  "bind_var name v ev = ev\<lparr>ev_variables := hm_insert name v (ev_variables ev)\<rparr>"

definition resolve_var :: "('j, 'a, 'b, 'q, 'sj) evaluator \<Rightarrow> string \<Rightarrow> rule_error + eval_value" where
  "resolve_var ev name = ok_or (hm_get (ev_variables ev) name) (REUnknownVariable name)"

subsection \<open>Evaluation\<close>

fun column_kind_debug :: "column_kind \<Rightarrow> string" where
  "column_kind_debug CkInt64 = ''Int64''" | "column_kind_debug CkUInt64 = ''UInt64''"
| "column_kind_debug CkFloat64 = ''Float64''" | "column_kind_debug CkBoolean = ''Boolean''"
| "column_kind_debug CkUtf8 = ''Utf8''" | "column_kind_debug CkLargeUtf8 = ''LargeUtf8''"
| "column_kind_debug CkNull = ''Null''" | "column_kind_debug CkUnknown = ''Unknown''"

fun native_int :: "'fl native \<Rightarrow> int" where
  "native_int (NInt i) = i"
| "native_int (NFloat f) = 0"

fun native_float :: "'fl \<Rightarrow> 'fl native \<Rightarrow> 'fl" where
  "native_float z (NFloat f) = f"
| "native_float z (NInt i) = z"

text \<open>\<open>get_i64\<close> and \<open>get_f64\<close> of a looked up row; the array is of the type asked for, so
  its natives are integers or floats.\<close>

definition row_i64 ::
  "('b, 'a, 's, 'fl, 'j) rule_env \<Rightarrow> 'b row_lookup_view \<Rightarrow> string \<Rightarrow> rule_error + int option" where
  "row_i64 R w c = map_err REQuery (rbind (lookup_get (ru_arrow R) (get_prim (ru_arrow R) (ru_type_name R) Int64) w c)
     (\<lambda>v. Inr (map_option native_int v)))"

definition row_f64 ::
  "('b, 'a, 's, 'fl, 'j) rule_env \<Rightarrow> 'b row_lookup_view \<Rightarrow> string \<Rightarrow> rule_error + 'fl option" where
  "row_f64 R w c = map_err REQuery (rbind (lookup_get (ru_arrow R) (get_prim (ru_arrow R) (ru_type_name R) Float64) w c)
     (\<lambda>v. Inr (map_option (native_float (ru_f64_zero R)) v)))"

definition unwrap_or :: "'x option \<Rightarrow> 'x \<Rightarrow> 'x" where
  "unwrap_or v d = (case v of Some x \<Rightarrow> x | None \<Rightarrow> d)"

definition evaluate_column ::
  "('b, 'a, 's, 'fl, 'j) rule_env \<Rightarrow> ('j, 'a, 'b, 'q, 'sj) evaluator \<Rightarrow> column_path \<Rightarrow> rule_error + eval_value" where
  "evaluate_column R ev path =
     (let A = ru_arrow R; q = ev_query_engine ev; t = cp_table path; c = cp_column path in
      rbind (map_err REQuery (engine_column_view A q t c)) (\<lambda>col_view.
      rbind (map_err REQuery (lookup_row q t (sp_row (ev_scope ev)))) (\<lambda>lookup.
      let kind = cv_kind A col_view in
      if kind = CkInt64 \<or> kind = CkUInt64 then
        rbind (row_i64 R lookup c) (\<lambda>v.
        rbind (aggregate (ev_modifiers ev) t c (fp_new (unwrap_or v 0) 0)) (\<lambda>r. Inr (VFixed r)))
      else if kind = CkFloat64 then
        rbind (row_f64 R lookup c) (\<lambda>v.
        rbind (map_err (\<lambda>e. REEvaluation (core_error_text e)) (ru_try_from_f64 R (unwrap_or v (ru_f64_zero R)) 2)) (\<lambda>fp.
        rbind (aggregate (ev_modifiers ev) t c fp) (\<lambda>r. Inr (VFixed r))))
      else if kind = CkBoolean then
        rbind (map_err REQuery (lookup_get A (get_bool A (ru_type_name R)) lookup c)) (\<lambda>v. Inr (VBool (unwrap_or v False)))
      else if kind = CkUtf8 \<or> kind = CkLargeUtf8 then
        rbind (map_err REQuery (lookup_get A (get_string A (ru_type_name R)) lookup c)) (\<lambda>v. Inr (VString (unwrap_or v [])))
      else Inl (REEvaluation (''unsupported column type '' @ column_kind_debug kind @ '' for '' @ t @ ''.'' @ c)))))"

definition compare_fixed_point :: "compare_op \<Rightarrow> fixed_point \<Rightarrow> fixed_point \<Rightarrow> bool" where
  "compare_fixed_point op a b = (case op of
     OpEq \<Rightarrow> fp_eq a b | OpNe \<Rightarrow> \<not> fp_eq a b | OpLt \<Rightarrow> fp_cmp a b = OLess | OpLe \<Rightarrow> fp_cmp a b \<noteq> OGreater
   | OpGt \<Rightarrow> fp_cmp a b = OGreater | OpGe \<Rightarrow> fp_cmp a b \<noteq> OLess)"

definition compare_bool :: "compare_op \<Rightarrow> bool \<Rightarrow> bool \<Rightarrow> bool" where
  "compare_bool op a b = (case op of OpEq \<Rightarrow> a = b | OpNe \<Rightarrow> a \<noteq> b | _ \<Rightarrow> False)"

definition compare_ord :: "compare_op \<Rightarrow> 'x::linorder \<Rightarrow> 'x \<Rightarrow> bool" where
  "compare_ord op a b = (case op of
     OpEq \<Rightarrow> a = b | OpNe \<Rightarrow> a \<noteq> b | OpLt \<Rightarrow> a < b | OpLe \<Rightarrow> a \<le> b | OpGt \<Rightarrow> a > b | OpGe \<Rightarrow> a \<ge> b)"

definition compare_string :: "compare_op \<Rightarrow> string \<Rightarrow> string \<Rightarrow> bool" where
  "compare_string op a b = compare_ord op a b"

definition compare_row_id :: "compare_op \<Rightarrow> row_id \<Rightarrow> row_id \<Rightarrow> bool" where
  "compare_row_id op a b = compare_ord op a b"

definition compare_values :: "compare_op \<Rightarrow> eval_value \<Rightarrow> eval_value \<Rightarrow> rule_error + eval_value" where
  "compare_values op left right =
     (case (left, right) of
        (VFixed a, VFixed b) \<Rightarrow> Inr (VBool (compare_fixed_point op a b))
      | (VBool a, VBool b) \<Rightarrow> Inr (VBool (compare_bool op a b))
      | (VString a, VString b) \<Rightarrow> Inr (VBool (compare_string op a b))
      | (VRowId a, VRowId b) \<Rightarrow> Inr (VBool (compare_row_id op a b))
      | (a, b) \<Rightarrow> Inl (RETypeMismatch (variant_name a) (variant_name b)))"

definition arithmetic_values :: "arithmetic_op \<Rightarrow> eval_value \<Rightarrow> eval_value \<Rightarrow> rule_error + eval_value" where
  "arithmetic_values op left right =
     (case (left, right) of
        (VFixed a, VFixed b) \<Rightarrow>
          (case op of
             OpAdd \<Rightarrow> rbind (map_err RECore (fp_add a b)) (\<lambda>v. Inr (VFixed v))
           | OpSub \<Rightarrow> rbind (map_err RECore (fp_sub a b)) (\<lambda>v. Inr (VFixed v))
           | OpMul \<Rightarrow> rbind (map_err RECore (fp_mul a b)) (\<lambda>v. Inr (VFixed v))
           | OpDiv \<Rightarrow> rbind (map_err RECore (fp_div a b)) (\<lambda>v. Inr (VFixed v))
           | OpRem \<Rightarrow> Inl (REUnsupportedOperation ''remainder not supported for FixedPoint''))
      | (a, b) \<Rightarrow> Inl (RETypeMismatch ''FixedPoint'' (variant_name a @ '' / '' @ variant_name b)))"

fun and_loop :: "('x \<Rightarrow> rule_error + eval_value) \<Rightarrow> 'x list \<Rightarrow> rule_error + eval_value" where
  "and_loop f [] = Inr (VBool True)"
| "and_loop f (x # xs) = rbind (f x) (\<lambda>v. case v of
     VBool b \<Rightarrow> if b then and_loop f xs else Inr (VBool False)
   | _ \<Rightarrow> Inl (RETypeMismatch ''bool'' ''non-bool''))"

fun or_loop :: "('x \<Rightarrow> rule_error + eval_value) \<Rightarrow> 'x list \<Rightarrow> rule_error + eval_value" where
  "or_loop f [] = Inr (VBool False)"
| "or_loop f (x # xs) = rbind (f x) (\<lambda>v. case v of
     VBool b \<Rightarrow> if b then Inr (VBool True) else or_loop f xs
   | _ \<Rightarrow> Inl (RETypeMismatch ''bool'' ''non-bool''))"

lemma and_loop_cong [fundef_cong]: "xs = ys \<Longrightarrow> (\<And>x. x \<in> set ys \<Longrightarrow> f x = g x) \<Longrightarrow> and_loop f xs = and_loop g ys"
proof (induction xs arbitrary: ys)
  case (Cons x xs)
  then have "f x = g x" "and_loop f xs = and_loop g xs" by auto
  then show ?case using Cons.prems(1) by (simp only: and_loop.simps flip: Cons.prems(1))
qed auto

lemma or_loop_cong [fundef_cong]: "xs = ys \<Longrightarrow> (\<And>x. x \<in> set ys \<Longrightarrow> f x = g x) \<Longrightarrow> or_loop f xs = or_loop g ys"
proof (induction xs arbitrary: ys)
  case (Cons x xs)
  then have "f x = g x" "or_loop f xs = or_loop g xs" by auto
  then show ?case using Cons.prems(1) by (simp only: or_loop.simps flip: Cons.prems(1))
qed auto

lemma map_result_cong [fundef_cong]: "xs = ys \<Longrightarrow> (\<And>x. x \<in> set ys \<Longrightarrow> f x = g x) \<Longrightarrow> map_result f xs = map_result g ys"
proof (induction xs arbitrary: ys)
  case (Cons x xs)
  then have "f x = g x" "map_result f xs = map_result g xs" by auto
  then show ?case using Cons.prems(1) by auto
qed auto

definition check_arg_count :: "('j, 'a, 'b, 'q, 'sj) evaluator \<Rightarrow> string \<Rightarrow> nat \<Rightarrow> rule_error + unit" where
  "check_arg_count ev func n =
     (case hm_get (ev_builtin_arg_counts ev) func of
        Some expected \<Rightarrow> if n \<noteq> expected
          then Inl (REEvaluation (''function '' @ quoted func @ '' expects '' @ show_nat expected @ '' arguments, got '' @ show_nat n))
          else Inr ()
      | None \<Rightarrow> Inr ())"

text \<open>What is done with the values of the operands; a branch that is not chosen has no effect
  and its result is dropped.\<close>

fun not_value :: "eval_value \<Rightarrow> rule_error + eval_value" where
  "not_value (VBool b) = Inr (VBool (\<not> b))"
| "not_value v = Inl (RETypeMismatch ''bool'' (variant_name v))"

fun if_value :: "eval_value \<Rightarrow> rule_error + eval_value \<Rightarrow> rule_error + eval_value \<Rightarrow> rule_error + eval_value" where
  "if_value (VBool b) x y = (if b then x else y)"
| "if_value v x y = Inl (RETypeMismatch ''bool'' (variant_name v))"

definition call_function :: "('j, 'a, 'b, 'q, 'sj) evaluator \<Rightarrow> string \<Rightarrow> eval_value list \<Rightarrow> rule_error + eval_value" where
  "call_function ev func values =
     rbind (ok_or (hm_get (ev_builtins ev) func) (REUnsupportedOperation (''unknown function: '' @ func))) (\<lambda>f. f values)"

lemma arg_size: "(k, e) \<in> set args \<Longrightarrow> size e < Suc (size_list (size_prod (\<lambda>_. 0) size) args)"
  by (induction args) auto

function evaluate ::
  "('b, 'a, 's, 'fl, 'j) rule_env \<Rightarrow> ('j, 'a, 'b, 'q, 'sj) evaluator \<Rightarrow> expr \<Rightarrow> rule_error + eval_value" where
  "evaluate R ev (EConst fp) = Inr (VFixed fp)"
| "evaluate R ev (EBool b) = Inr (VBool b)"
| "evaluate R ev (EString s) = Inr (VString s)"
| "evaluate R ev (ERowId r) = Inr (VRowId r)"
| "evaluate R ev (EColumn path) = evaluate_column R ev path"
| "evaluate R ev (EVar name) = resolve_var ev name"
| "evaluate R ev (ENot inner) = rbind (evaluate R ev inner) not_value"
| "evaluate R ev (EAnd items) = and_loop (evaluate R ev) items"
| "evaluate R ev (EOr items) = or_loop (evaluate R ev) items"
| "evaluate R ev (ECompare op lhs rhs) =
     rbind (evaluate R ev lhs) (\<lambda>left. rbind (evaluate R ev rhs) (\<lambda>right. compare_values op left right))"
| "evaluate R ev (EArithmetic aop lhs rhs) =
     rbind (evaluate R ev lhs) (\<lambda>left. rbind (evaluate R ev rhs) (\<lambda>right. arithmetic_values aop left right))"
| "evaluate R ev (EIf cnd then_branch else_branch) = rbind (evaluate R ev cnd) (\<lambda>v.
     if_value v (evaluate R ev then_branch) (evaluate R ev else_branch))"
| "evaluate R ev (ECall func args) =
     rbind (check_arg_count ev func (length args)) (\<lambda>_.
     rbind (map_result (\<lambda>(k, e). evaluate R ev e) (sort_key fst args)) (call_function ev func))"
| "evaluate R ev (EList items) = rbind (map_result (evaluate R ev) items) (\<lambda>values. Inr (VList values))"
| "evaluate R ev (EMap entries) =
     rbind (map_result (\<lambda>(k, e). rbind (evaluate R ev e) (\<lambda>v. Inr (k, v))) entries) (\<lambda>values. Inr (VMap values))"
  by pat_completeness auto

termination evaluate
  by (relation "measure (\<lambda>(_, _, e). size e)") (auto dest: arg_size size_list_estimation' [OF _ order_refl] intro: le_imp_less_Suc)

subsection \<open>Effects\<close>

fun eval_value_to_json :: "('b, 'a, 's, 'fl, 'j) rule_env \<Rightarrow> eval_value \<Rightarrow> rule_error + 'j" where
  "eval_value_to_json R (VFixed fp) =
     ok_or (ru_json_fixed R fp) (REEvaluation ''cannot convert FixedPoint to JSON number'')"
| "eval_value_to_json R (VBool b) = Inr (ru_json_bool R b)"
| "eval_value_to_json R (VString s) = Inr (ru_json_string R s)"
| "eval_value_to_json R (VRowId r) = Inr (ru_json_u64 R (row_id_as_u64 r))"
| "eval_value_to_json R (VList items) = rbind (map_result (eval_value_to_json R) items) (\<lambda>vals. Inr (ru_json_array R vals))"
| "eval_value_to_json R (VMap entries) =
     rbind (map_result (\<lambda>(k, v). rbind (eval_value_to_json R v) (\<lambda>j. Inr (k, j))) entries) (\<lambda>m. Inr (ru_json_object R m))"

definition rule_submit_diff ::
  "'j diff \<Rightarrow> ('j, 'a, 'b, 'q, 'sj) evaluator \<Rightarrow> (rule_error + unit) \<times> ('j, 'a, 'b, 'q, 'sj) evaluator" where
  "rule_submit_diff d ev = (case submit_diff d (ev_journal ev) of (r, j) \<Rightarrow> (map_err REJournal r, ev\<lparr>ev_journal := j\<rparr>))"

definition rule_submit_command ::
  "'j command_envelope \<Rightarrow> ('j, 'a, 'b, 'q, 'sj) evaluator \<Rightarrow> (rule_error + unit) \<times> ('j, 'a, 'b, 'q, 'sj) evaluator" where
  "rule_submit_command c ev = (case submit_command c (ev_journal ev) of (r, j) \<Rightarrow> (map_err REJournal r, ev\<lparr>ev_journal := j\<rparr>))"

definition evaluate_json ::
  "('b, 'a, 's, 'fl, 'j) rule_env \<Rightarrow> ('j, 'a, 'b, 'q, 'sj) evaluator \<Rightarrow> expr \<Rightarrow> rule_error + 'j" where
  "evaluate_json R ev e = rbind (evaluate R ev e) (eval_value_to_json R)"

definition insert_value ::
  "('b, 'a, 's, 'fl, 'j) rule_env \<Rightarrow> ('j, 'a, 'b, 'q, 'sj) evaluator \<Rightarrow> (string \<times> 'j) list \<Rightarrow> string \<times> expr
     \<Rightarrow> rule_error + (string \<times> 'j) list" where
  "insert_value R ev m ce = (case ce of (col, e) \<Rightarrow> rbind (evaluate_json R ev e) (\<lambda>j. Inr (hm_insert col j m)))"

fun evaluate_effect ::
    "('b, 'a, 's, 'fl, 'j) rule_env \<Rightarrow> effect \<Rightarrow> ('j, 'a, 'b, 'q, 'sj) evaluator \<Rightarrow> (rule_error + unit) \<times> ('j, 'a, 'b, 'q, 'sj) evaluator"
  and evaluate_effects ::
    "('b, 'a, 's, 'fl, 'j) rule_env \<Rightarrow> effect list \<Rightarrow> ('j, 'a, 'b, 'q, 'sj) evaluator \<Rightarrow> (rule_error + unit) \<times> ('j, 'a, 'b, 'q, 'sj) evaluator"
where
  "evaluate_effect R (EffUpdateColumn t c value) ev =
     (case evaluate_json R ev value of
        Inl e \<Rightarrow> (Inl e, ev)
      | Inr j \<Rightarrow> rule_submit_diff (DUpdate t (sp_row (ev_scope ev)) c j) ev)"
| "evaluate_effect R (EffInsertRow t row values) ev =
     (case try_fold (insert_value R ev) [] values of
        Inl e \<Rightarrow> (Inl e, ev)
      | Inr m \<Rightarrow> rule_submit_diff (DInsert t row m) ev)"
| "evaluate_effect R (EffSetVariable name value) ev =
     (case evaluate R ev value of
        Inl e \<Rightarrow> (Inl e, ev)
      | Inr v \<Rightarrow> (Inr (), bind_var name v ev))"
| "evaluate_effect R (EffSequence effects) ev = evaluate_effects R effects ev"
| "evaluate_effects R [] ev = (Inr (), ev)"
| "evaluate_effects R (e # es) ev =
     (case evaluate_effect R e ev of
        (Inl err, ev1) \<Rightarrow> (Inl err, ev1)
      | (Inr _, ev1) \<Rightarrow> evaluate_effects R es ev1)"

subsection \<open>Jumps\<close>

text \<open>The loop over the rows of a view: the first whose column holds the key.\<close>

fun find_row :: "(row_id \<Rightarrow> rule_error + int) \<Rightarrow> int \<Rightarrow> row_id list \<Rightarrow> rule_error + row_id option" where
  "find_row get key [] = Inr None"
| "find_row get key (r # rs) = rbind (get r) (\<lambda>v. if v = key then Inr (Some r) else find_row get key rs)"

definition row_key ::
  "('b, 'a, 's, 'fl, 'j) rule_env \<Rightarrow> 'b query_engine \<Rightarrow> string \<Rightarrow> string \<Rightarrow> string \<Rightarrow> row_id \<Rightarrow> rule_error + int" where
  "row_key R q t c null_error r =
     rbind (map_err REQuery (lookup_row q t r)) (\<lambda>w.
     rbind (row_i64 R w c) (\<lambda>v. ok_or v (REScope null_error)))"

definition resolve_target_row ::
  "('b, 'a, 's, 'fl, 'j) rule_env \<Rightarrow> ('j, 'a, 'b, 'q, 'sj) evaluator \<Rightarrow> relation_edge \<Rightarrow> jump_direction \<Rightarrow> rule_error + row_id" where
  "resolve_target_row R ev edge direction =
     (let q = ev_query_engine ev; row = sp_row (ev_scope ev); tick = pc_current_tick (ev_cache ev);
          no_key = REScope (''table '' @ quoted (re_to edge) @ '' has no primary key column'')
      in case direction of
        Forward \<Rightarrow>
          rbind (row_key R q (re_from edge) (re_from_column edge) ''FK value is null'' row) (\<lambda>fk_val.
          rbind (map_err REQuery (table_schema q (re_to edge))) (\<lambda>target_spec.
          rbind (ok_or (primary_key_column target_spec) no_key) (\<lambda>pk_col.
          rbind (map_err REQuery (read_single_table q tick (re_to edge))) (\<lambda>view.
          rbind (find_row (row_key R q (re_to edge) (col_name pk_col) ''target row has null PK'') fk_val
              (ru_row_ids R (rpm_row_ids (rv_position_map view)))) (\<lambda>found.
          ok_or found (REScope (''target row not found: '' @ re_from edge @ '' -> '' @ re_to edge
            @ '' (fk='' @ show_int fk_val @ '')'')))))))
      | Reverse \<Rightarrow>
          rbind (map_err REQuery (table_schema q (re_to edge))) (\<lambda>current_spec.
          rbind (ok_or (primary_key_column current_spec) no_key) (\<lambda>pk_col.
          rbind (row_key R q (re_to edge) (col_name pk_col) ''current row PK is null'' row) (\<lambda>current_pk.
          rbind (map_err REQuery (read_single_table q tick (re_from edge))) (\<lambda>view.
          rbind (find_row (row_key R q (re_from edge) (re_from_column edge) ''row has null FK'') current_pk
              (ru_row_ids R (rpm_row_ids (rv_position_map view)))) (\<lambda>found.
          ok_or found (REScope (''target row not found: '' @ re_from edge @ '' <- '' @ re_to edge
            @ '' (pk='' @ show_int current_pk @ '')''))))))))"

definition pin_in_cache ::
  "('b, 'a, 's, 'fl, 'j) rule_env \<Rightarrow> row_id \<Rightarrow> ('j, 'a, 'b, 'q, 'sj) evaluator
     \<Rightarrow> (rule_error + unit) \<times> ('j, 'a, 'b, 'q, 'sj) evaluator" where
  "pin_in_cache R row ev =
     (let t = sp_table (ev_scope ev); tick = pc_current_tick (ev_cache ev) in
      case (case find_view (ru_entries R) (ev_cache ev) t tick of
              Some v \<Rightarrow> Inr v
            | None \<Rightarrow> map_err REQuery (read_single_table (ev_query_engine ev) tick t)) of
        Inl e \<Rightarrow> (Inl e, ev)
      | Inr view \<Rightarrow> (Inr (), ev\<lparr>ev_cache := cache_insert (ru_entries R)
          \<lparr>cw_tick = tick, cw_table = t, cw_row_id = row, cw_view = view\<rparr> (ev_cache ev)\<rparr>))"

definition jump_to ::
  "('b, 'a, 's, 'fl, 'j) rule_env \<Rightarrow> string \<Rightarrow> jump_direction \<Rightarrow> ('j, 'a, 'b, 'q, 'sj) evaluator
     \<Rightarrow> (rule_error + unit) \<times> ('j, 'a, 'b, 'q, 'sj) evaluator" where
  "jump_to R relation_name direction ev =
     (case map_err REQuery (resolve_relation_edge (ev_query_engine ev) relation_name) of
        Inl e \<Rightarrow> (Inl e, ev)
      | Inr edge \<Rightarrow>
          (case resolve_target_row R ev edge direction of
             Inl e \<Rightarrow> (Inl e, ev)
           | Inr target_row \<Rightarrow>
               pin_in_cache R target_row (ev\<lparr>ev_scope := apply_jump (ev_scope ev) edge direction target_row\<rparr>)))"

definition ev_scope_pop :: "('j, 'a, 'b, 'q, 'sj) evaluator \<Rightarrow> (rule_error + unit) \<times> ('j, 'a, 'b, 'q, 'sj) evaluator" where
  "ev_scope_pop ev = (case scope_pop (ev_scope ev) of (r, s) \<Rightarrow> (r, ev\<lparr>ev_scope := s\<rparr>))"

definition ev_scope_reset :: "string \<Rightarrow> row_id \<Rightarrow> ('j, 'a, 'b, 'q, 'sj) evaluator \<Rightarrow> ('j, 'a, 'b, 'q, 'sj) evaluator" where
  "ev_scope_reset t r ev = ev\<lparr>ev_scope := scope_reset (ev_scope ev) t r\<rparr>"

end
