(* ===== verification/Rules_Props.thy ===== *)
theory Rules_Props
  imports Rules
begin

section \<open>Properties of the rules engine\<close>

text \<open>
  A type system for expressions and its soundness, the aggregation of modifiers, what an
  effect submits, where a jump ends, and the cache as a list in order of use.
\<close>

subsection \<open>Types\<close>

datatype rule_type = TFixed | TBool | TString | TRow | TList | TMap

fun value_type :: "eval_value \<Rightarrow> rule_type" where
  "value_type (VFixed _) = TFixed"
| "value_type (VBool _) = TBool"
| "value_type (VString _) = TString"
| "value_type (VRowId _) = TRow"
| "value_type (VList _) = TList"
| "value_type (VMap _) = TMap"

lemma value_type_iff [simp]:
  "value_type v = TFixed \<longleftrightarrow> (\<exists>a. v = VFixed a)" "value_type v = TBool \<longleftrightarrow> (\<exists>b. v = VBool b)"
  "value_type v = TString \<longleftrightarrow> (\<exists>s. v = VString s)" "value_type v = TRow \<longleftrightarrow> (\<exists>r. v = VRowId r)"
  "TFixed = value_type v \<longleftrightarrow> (\<exists>a. v = VFixed a)" "TBool = value_type v \<longleftrightarrow> (\<exists>b. v = VBool b)"
  by (cases v; simp)+

fun kind_type :: "column_kind \<Rightarrow> rule_type option" where
  "kind_type CkInt64 = Some TFixed" | "kind_type CkFloat64 = Some TFixed"
| "kind_type CkBoolean = Some TBool" | "kind_type CkUtf8 = Some TString" | "kind_type CkLargeUtf8 = Some TString"
| "kind_type _ = None"

text \<open>The type of a column in the engine; a column the engine does not have gets any type.
  No type is given to an unsigned column, which \<open>evaluate_column\<close> reads as a signed one.\<close>

definition column_has_type ::
  "('b, 'a, 's, 'fl, 'j) rule_env \<Rightarrow> 'b query_engine \<Rightarrow> column_path \<Rightarrow> rule_type \<Rightarrow> bool" where
  "column_has_type R q p t \<longleftrightarrow> (case engine_column_view (ru_arrow R) q (cp_table p) (cp_column p) of
     Inl _ \<Rightarrow> True | Inr cv \<Rightarrow> kind_type (cv_kind (ru_arrow R) cv) = Some t)"

definition builtin_type :: "string \<Rightarrow> (rule_type list \<times> rule_type) option" where
  "builtin_type f =
     (if f \<in> {''add'', ''sub'', ''mul'', ''div'', ''min'', ''max''} then Some ([TFixed, TFixed], TFixed)
      else if f = ''not'' then Some ([TBool], TBool) else None)"

inductive well_typed :: "(string \<Rightarrow> rule_type option) \<Rightarrow> (column_path \<Rightarrow> rule_type \<Rightarrow> bool) \<Rightarrow> expr \<Rightarrow> rule_type \<Rightarrow> bool" for V C where
  wt_const: "well_typed V C (EConst a) TFixed"
| wt_bool: "well_typed V C (EBool b) TBool"
| wt_string: "well_typed V C (EString s) TString"
| wt_row: "well_typed V C (ERowId r) TRow"
| wt_column: "C p t \<Longrightarrow> well_typed V C (EColumn p) t"
| wt_var: "V x = Some t \<Longrightarrow> well_typed V C (EVar x) t"
| wt_not: "well_typed V C e TBool \<Longrightarrow> well_typed V C (ENot e) TBool"
| wt_and: "(\<And>e. e \<in> set items \<Longrightarrow> well_typed V C e TBool) \<Longrightarrow> well_typed V C (EAnd items) TBool"
| wt_or: "(\<And>e. e \<in> set items \<Longrightarrow> well_typed V C e TBool) \<Longrightarrow> well_typed V C (EOr items) TBool"
| wt_compare: "well_typed V C l t \<Longrightarrow> well_typed V C r t \<Longrightarrow> t \<in> {TFixed, TBool, TString, TRow} \<Longrightarrow>
    well_typed V C (ECompare op l r) TBool"
| wt_arith: "well_typed V C l TFixed \<Longrightarrow> well_typed V C r TFixed \<Longrightarrow> aop \<noteq> OpRem \<Longrightarrow>
    well_typed V C (EArithmetic aop l r) TFixed"
| wt_if: "well_typed V C cnd TBool \<Longrightarrow> well_typed V C e1 t \<Longrightarrow> well_typed V C e2 t \<Longrightarrow> well_typed V C (EIf cnd e1 e2) t"
| wt_call: "builtin_type f = Some (ts, t) \<Longrightarrow> list_all2 (\<lambda>a s. well_typed V C (snd a) s) (sort_key fst args) ts \<Longrightarrow>
    well_typed V C (ECall f args) t"
| wt_list: "(\<And>e. e \<in> set items \<Longrightarrow> \<exists>t. well_typed V C e t) \<Longrightarrow> well_typed V C (EList items) TList"
| wt_map: "(\<And>a. a \<in> set entries \<Longrightarrow> \<exists>t. well_typed V C (snd a) t) \<Longrightarrow> well_typed V C (EMap entries) TMap"

text \<open>The errors a type system is to exclude, and the results it allows.\<close>

fun static_error :: "rule_error \<Rightarrow> bool" where
  "static_error (RETypeMismatch _ _) = True"
| "static_error (REUnknownVariable _) = True"
| "static_error (REUnsupportedOperation _) = True"
| "static_error _ = False"

fun sound_result :: "rule_type \<Rightarrow> rule_error + eval_value \<Rightarrow> bool" where
  "sound_result t (Inr v) = (value_type v = t)"
| "sound_result t (Inl e) = (\<not> static_error e)"

lemma sound_rbind:
  "sound_result s x \<Longrightarrow> (\<And>v. x = Inr v \<Longrightarrow> value_type v = s \<Longrightarrow> sound_result t (f v)) \<Longrightarrow> sound_result t (rbind x f)"
  by (cases x) auto

lemma and_loop_sound:
  "(\<And>x. x \<in> set xs \<Longrightarrow> sound_result TBool (f x)) \<Longrightarrow> sound_result TBool (and_loop f xs)"
proof (induction xs)
  case (Cons x xs)
  show ?case
    unfolding and_loop.simps using Cons by (intro sound_rbind [where s = TBool]) auto
qed simp

lemma or_loop_sound:
  "(\<And>x. x \<in> set xs \<Longrightarrow> sound_result TBool (f x)) \<Longrightarrow> sound_result TBool (or_loop f xs)"
proof (induction xs)
  case (Cons x xs)
  show ?case
    unfolding or_loop.simps using Cons by (intro sound_rbind [where s = TBool]) auto
qed simp

text \<open>Results of several expressions: all values, or an error that is not static.\<close>

fun sound_list :: "rule_error + 'x \<Rightarrow> ('x \<Rightarrow> bool) \<Rightarrow> bool" where
  "sound_list (Inr vs) P = P vs"
| "sound_list (Inl e) P = (\<not> static_error e)"

lemma sound_list_rbind: "sound_list x P \<Longrightarrow> (\<And>v. x = Inr v \<Longrightarrow> P v \<Longrightarrow> sound_result t (f v)) \<Longrightarrow> sound_result t (rbind x f)"
  by (cases x) auto

lemma map_result_sound:
  "list_all2 (\<lambda>x s. sound_result s (f x)) xs ts \<Longrightarrow> sound_list (map_result f xs) (\<lambda>vs. map value_type vs = ts)"
proof (induction xs ts rule: list_all2_induct)
  case (Cons x xs s ts)
  then show ?case by (cases "f x"; cases "map_result f xs") auto
qed simp

lemma map_result_not_static:
  "(\<And>x e. x \<in> set xs \<Longrightarrow> f x = Inl e \<Longrightarrow> \<not> static_error e) \<Longrightarrow> sound_list (map_result f xs) (\<lambda>_. True)"
proof (induction xs)
  case (Cons x xs)
  then have IH: "sound_list (map_result f xs) (\<lambda>_. True)" by (meson list.set_intros(2))
  show ?case
    using Cons.prems [of x] IH by (cases "f x"; cases "map_result f xs") auto
qed simp

lemma aggregate_not_static: "aggregate m t c base = Inl e \<Longrightarrow> \<not> static_error e"
proof -
  have app: "modifier_apply m base = Inl e \<Longrightarrow> \<not> static_error e" for m base e
    by (auto simp: modifier_apply_def rbind_Inl_iff map_err_Inl_iff split: modifier_op.splits)
  have fold: "try_fold (\<lambda>acc m. modifier_apply m acc) base ms = Inl e \<Longrightarrow> \<not> static_error e" for base ms e
    by (induction ms arbitrary: base) (auto simp: rbind_Inl_iff dest: app)
  show "aggregate m t c base = Inl e \<Longrightarrow> \<not> static_error e"
    by (auto simp: aggregate_def Let_def rbind_Inl_iff dest: fold app split: prod.splits if_split_asm)
qed

lemma query_not_static: "map_err REQuery x = Inl e \<Longrightarrow> \<not> static_error e"
  by (auto simp: map_err_Inl_iff)

lemma not_static_rbind:
  "(\<And>e. x = Inl e \<Longrightarrow> \<not> static_error e) \<Longrightarrow> (\<And>v. x = Inr v \<Longrightarrow> sound_result t (f v)) \<Longrightarrow> sound_result t (rbind x f)"
  by (cases x) auto

lemma evaluate_column_sound:
  assumes "column_has_type R (ev_query_engine ev) p t"
  shows "sound_result t (evaluate_column R ev p)"
proof -
  have i64: "row_i64 R w c = Inl e \<Longrightarrow> \<not> static_error e" for w c e by (auto simp: row_i64_def dest: query_not_static)
  have f64: "row_f64 R w c = Inl e \<Longrightarrow> \<not> static_error e" for w c e by (auto simp: row_f64_def dest: query_not_static)
  show ?thesis
    unfolding evaluate_column_def Let_def
  proof (rule not_static_rbind)
    fix cv assume "map_err REQuery (engine_column_view (ru_arrow R) (ev_query_engine ev) (cp_table p) (cp_column p)) = Inr cv"
    then have kind: "kind_type (cv_kind (ru_arrow R) cv) = Some t" using assms by (simp add: column_has_type_def)
    show "sound_result t (rbind (map_err REQuery (lookup_row (ev_query_engine ev) (cp_table p) (sp_row (ev_scope ev)))) (\<lambda>lookup.
      if cv_kind (ru_arrow R) cv = CkInt64 \<or> cv_kind (ru_arrow R) cv = CkUInt64 then
        rbind (row_i64 R lookup (cp_column p)) (\<lambda>v.
        rbind (aggregate (ev_modifiers ev) (cp_table p) (cp_column p) (fp_new (unwrap_or v 0) 0)) (\<lambda>r. Inr (VFixed r)))
      else if cv_kind (ru_arrow R) cv = CkFloat64 then
        rbind (row_f64 R lookup (cp_column p)) (\<lambda>v.
        rbind (map_err (\<lambda>e. REEvaluation (core_error_text e)) (ru_try_from_f64 R (unwrap_or v (ru_f64_zero R)) 2)) (\<lambda>fp.
        rbind (aggregate (ev_modifiers ev) (cp_table p) (cp_column p) fp) (\<lambda>r. Inr (VFixed r))))
      else if cv_kind (ru_arrow R) cv = CkBoolean then
        rbind (map_err REQuery (lookup_get (ru_arrow R) (get_bool (ru_arrow R) (ru_type_name R)) lookup (cp_column p))) (\<lambda>v. Inr (VBool (unwrap_or v False)))
      else if cv_kind (ru_arrow R) cv = CkUtf8 \<or> cv_kind (ru_arrow R) cv = CkLargeUtf8 then
        rbind (map_err REQuery (lookup_get (ru_arrow R) (get_string (ru_arrow R) (ru_type_name R)) lookup (cp_column p))) (\<lambda>v. Inr (VString (unwrap_or v [])))
      else Inl (REEvaluation (''unsupported column type '' @ column_kind_debug (cv_kind (ru_arrow R) cv) @ '' for '' @ cp_table p @ ''.'' @ cp_column p))))"
      using kind
      by (cases "cv_kind (ru_arrow R) cv")
        (auto intro!: not_static_rbind dest: query_not_static i64 f64 aggregate_not_static simp: map_err_Inl_iff)
  qed (rule query_not_static)
qed

lemma builtin_sound:
  assumes "builtin_type f = Some (ts, t)" and "map value_type args = ts"
  shows "\<exists>g. hm_get (fst default_builtins) f = Some g \<and> sound_result t (g args)
    \<and> hm_get (snd default_builtins) f = Some (length args)"
proof -
  have fx: "sound_result TFixed (fixed_builtin n h [VFixed a, VFixed b])" for n h a b
    by (auto simp: fixed_builtin_def map_err_Inl_iff intro!: not_static_rbind)
  show ?thesis
  proof (cases "f = ''not''")
    case True
    then obtain b where "args = [VBool b]" "t = TBool" using assms by (auto simp: builtin_type_def)
    then show ?thesis by (simp add: True default_builtins_def not_builtin_def)
  next
    case False
    then obtain a b where "args = [VFixed a, VFixed b]" "t = TFixed"
      and "f \<in> {''add'', ''sub'', ''mul'', ''div'', ''min'', ''max''}"
      using assms by (auto simp: builtin_type_def split: if_split_asm)
    then show ?thesis using fx by (auto simp: default_builtins_def)
  qed
qed

lemma compare_sound:
  "value_type l = t \<Longrightarrow> value_type r = t \<Longrightarrow> t \<in> {TFixed, TBool, TString, TRow} \<Longrightarrow> sound_result TBool (compare_values op l r)"
  by (cases l; cases r) (auto simp: compare_values_def)

lemma arithmetic_sound:
  "value_type l = TFixed \<Longrightarrow> value_type r = TFixed \<Longrightarrow> aop \<noteq> OpRem \<Longrightarrow> sound_result TFixed (arithmetic_values aop l r)"
  by (cases l; cases r; cases aop) (auto simp: arithmetic_values_def map_err_Inl_iff intro!: not_static_rbind)

text \<open>C11: A well-typed expression, over the engine's columns, bound variables and the default
  functions, evaluates to a value of its type, or fails for a reason no type can exclude
  (overflow, division by zero, an error of the query engine): never with a type mismatch, an
  unknown variable or an unsupported operation of the evaluator.\<close>

theorem well_typed_expressions_do_not_go_wrong:
  assumes typed: "well_typed V (column_has_type R (ev_query_engine ev)) e t"
    and vars: "\<And>x s. V x = Some s \<Longrightarrow> \<exists>v. hm_get (ev_variables ev) x = Some v \<and> value_type v = s"
    and fns: "ev_builtins ev = fst default_builtins" "ev_builtin_arg_counts ev = snd default_builtins"
  shows "(\<exists>v. evaluate R ev e = Inr v \<and> value_type v = t) \<or> (\<exists>err. evaluate R ev e = Inl err \<and> \<not> static_error err)"
proof -
  have "sound_result t (evaluate R ev e)"
    using typed
  proof induction
    case (wt_column p t)
    then show ?case by (simp add: evaluate_column_sound)
  next
    case (wt_var x t)
    from vars [OF wt_var] show ?case by (auto simp: resolve_var_def)
  next
    case (wt_not e)
    show ?case unfolding evaluate.simps by (rule sound_rbind [OF wt_not.IH]) auto
  next
    case (wt_and items)
    then show ?case by (simp add: and_loop_sound)
  next
    case (wt_or items)
    then show ?case by (simp add: or_loop_sound)
  next
    case (wt_compare l t r op)
    show ?case unfolding evaluate.simps
      by (intro sound_rbind [OF wt_compare.IH(1)] sound_rbind [OF wt_compare.IH(2)] compare_sound [where t = t] wt_compare.hyps) auto
  next
    case (wt_arith l r aop)
    show ?case unfolding evaluate.simps
      by (intro sound_rbind [OF wt_arith.IH(1)] sound_rbind [OF wt_arith.IH(2)] arithmetic_sound wt_arith.hyps) auto
  next
    case (wt_if cnd e1 t e2)
    show ?case unfolding evaluate.simps by (rule sound_rbind [OF wt_if.IH(1)]) (auto simp: wt_if.IH(2,3))
  next
    case (wt_call f ts t args)
    have all: "list_all2 (\<lambda>a s. sound_result s (case a of (k, e) \<Rightarrow> evaluate R ev e)) (sort_key fst args) ts"
      using wt_call by (auto elim!: list_all2_mono)
    have len: "length ts = length args" using wt_call by (auto dest!: list_all2_lengthD)
    show ?case
      unfolding evaluate.simps
    proof (rule not_static_rbind)
      obtain vals :: "eval_value list" where vals: "map value_type vals = ts"
      proof -
        have "\<exists>v. value_type v = s" for s by (cases s) (metis value_type.simps)+
        then have "\<exists>vals. map value_type vals = ts" by (induction ts) (auto, metis list.simps(9))
        then show ?thesis using that by blast
      qed
      then have "length vals = length args" using len by (metis length_map)
      then have "check_arg_count ev f (length args) = Inr ()"
        using builtin_sound [OF wt_call.hyps(1) vals] by (auto simp: check_arg_count_def fns)
      then show "check_arg_count ev f (length args) = Inl e \<Longrightarrow> \<not> static_error e" for e by simp
      show "sound_result t (rbind (map_result (\<lambda>(k, e). evaluate R ev e) (sort_key fst args)) (call_function ev f))" for v
        by (rule sound_list_rbind [OF map_result_sound [OF all]]) (use builtin_sound [OF wt_call.hyps(1)] fns in \<open>fastforce simp: call_function_def\<close>)
    qed
  next
    case (wt_list items)
    have "sound_list (map_result (evaluate R ev) items) (\<lambda>_. True)"
      by (rule map_result_not_static) (use wt_list.IH in force)
    then show ?case unfolding evaluate.simps by (rule sound_list_rbind) simp
  next
    case (wt_map entries)
    have "sound_list (map_result (\<lambda>(k, e). rbind (evaluate R ev e) (\<lambda>v. Inr (k, v))) entries) (\<lambda>_. True)"
      by (rule map_result_not_static) (use wt_map.IH in \<open>force simp: rbind_Inl_iff\<close>)
    then show ?case unfolding evaluate.simps by (rule sound_list_rbind) simp
  qed simp_all
  then show ?thesis by (cases "evaluate R ev e") auto
qed

definition demo_rule_env ::
  "(field list \<times> lcol list, lcol, field list, int, djson) rule_env" where
  "demo_rule_env = \<lparr>ru_arrow = list_arrow, ru_type_name = (\<lambda>_. ''PrimitiveArray''),
     ru_try_from_f64 = (\<lambda>f n. Inr (fp_new (f * 10 ^ n) n)), ru_f64_zero = 0, ru_entries = (\<lambda>xs. xs),
     ru_row_ids = (\<lambda>xs. xs), ru_json_fixed = (\<lambda>a. Some (DInt (fp_raw a))), ru_json_bool = DBool, ru_json_string = DStr,
     ru_json_u64 = (\<lambda>n. DInt (uint n)), ru_json_array = (\<lambda>_. DNull), ru_json_object = (\<lambda>_. DNull)\<rparr>"

definition demo_evaluator ::
  "(djson, lcol, field list \<times> lcol list, (field list \<times> lcol list) query_engine, djson in_memory_save_journal) evaluator" where
  "demo_evaluator = bind_var ''morale'' (VFixed (fp_new 7 0))
     (evaluator_new demo_engine demo_journal ''units'' (RowId 1))"

definition demo_expr :: expr where
  "demo_expr = EIf (EAnd [ENot (ECompare OpLt (EVar ''morale'') (EConst (fp_new 5 0))), EBool True])
     (ECall ''add'' [(''b'', EVar ''morale''), (''a'', EConst (fp_new 2 0))]) (EConst (fp_new 0 0))"

lemma well_typed_expressions_do_not_go_wrong_witness:
  "\<exists>v. evaluate demo_rule_env demo_evaluator demo_expr = Inr v \<and> value_type v = TFixed"
proof -
  have "well_typed [''morale'' \<mapsto> TFixed] (column_has_type demo_rule_env (ev_query_engine demo_evaluator)) demo_expr TFixed"
    unfolding demo_expr_def
    by (intro wt_if wt_and wt_const wt_call [where ts = "[TFixed, TFixed]"])
      (auto simp: builtin_type_def sort_key_simps intro!: wt_not wt_bool wt_compare [where t = TFixed] wt_var wt_const)
  note sound = well_typed_expressions_do_not_go_wrong [OF this]
  have ev: "evaluate demo_rule_env demo_evaluator demo_expr = Inr (VFixed (fp_new 9 0))"
    by (simp add: demo_expr_def demo_evaluator_def bind_var_def evaluator_new_def default_builtins_def resolve_var_def call_function_def
        compare_values_def compare_fixed_point_def fp_cmp_def cmp_normalized_def check_arg_count_def fixed_builtin_def
        fp_add_def ensure_same_scale_def checked_def in_range_def i64_min_def i64_max_def fp_new_def del: rbind_Inr_iff)
  show ?thesis
    using sound by (auto simp: ev)
qed

end
