(* ===== verification/Rules_Effects.thy ===== *)
theory Rules_Effects
  imports Rules_Props
begin

section \<open>What the rules engine changes\<close>

text \<open>
  Effects against a reference that collects the diffs without a journal, the aggregation of
  modifiers one registration at a time, jumps, and the prefetch cache against a list in order
  of use.
\<close>

subsection \<open>Effects\<close>

text \<open>The reference: the effects in the order they run, without sequences.\<close>

fun leaves :: "effect \<Rightarrow> effect list" where
  "leaves (EffSequence es) = concat (map leaves es)"
| "leaves e = [e]"

text \<open>One leaf, from the variables: the diff it writes and the variables after it.\<close>

definition with_vars :: "('j, 'a, 'b, 'q, 'sj) evaluator \<Rightarrow> (string \<times> eval_value) list \<Rightarrow> ('j, 'a, 'b, 'q, 'sj) evaluator" where
  "with_vars ev vs = ev\<lparr>ev_variables := vs\<rparr>"

fun leaf_result ::
  "('b, 'a, 's, 'fl, 'j) rule_env \<Rightarrow> ('j, 'a, 'b, 'q, 'sj) evaluator \<Rightarrow> (string \<times> eval_value) list \<Rightarrow> effect
     \<Rightarrow> rule_error + 'j diff list \<times> (string \<times> eval_value) list" where
  "leaf_result R ev vs (EffUpdateColumn t c value) =
     rbind (evaluate_json R (with_vars ev vs) value) (\<lambda>j. Inr ([DUpdate t (sp_row (ev_scope ev)) c j], vs))"
| "leaf_result R ev vs (EffInsertRow t row values) =
     rbind (try_fold (insert_value R (with_vars ev vs)) [] values) (\<lambda>m. Inr ([DInsert t row m], vs))"
| "leaf_result R ev vs (EffSetVariable name value) =
     rbind (evaluate R (with_vars ev vs) value) (\<lambda>v. Inr ([], hm_insert name v vs))"
| "leaf_result R ev vs (EffSequence es) = Inr ([], vs)"

text \<open>All leaves up to the first that fails: the error, the diffs so far, the variables.\<close>

fun run_leaves ::
  "('b, 'a, 's, 'fl, 'j) rule_env \<Rightarrow> ('j, 'a, 'b, 'q, 'sj) evaluator \<Rightarrow> (string \<times> eval_value) list \<Rightarrow> effect list
     \<Rightarrow> (rule_error + unit) \<times> 'j diff list \<times> (string \<times> eval_value) list" where
  "run_leaves R ev vs [] = (Inr (), [], vs)"
| "run_leaves R ev vs (e # es) = (case leaf_result R ev vs e of
     Inl err \<Rightarrow> (Inl err, [], vs)
   | Inr (ds, vs1) \<Rightarrow> (case run_leaves R ev vs1 es of (r, ds2, vs2) \<Rightarrow> (r, ds @ ds2, vs2)))"

text \<open>Evaluation does not look at the journal.\<close>

lemma resolve_var_journal [simp]: "resolve_var (ev\<lparr>ev_journal := j\<rparr>) = resolve_var ev"
  by (simp add: fun_eq_iff resolve_var_def)

lemma evaluate_column_journal [simp]: "evaluate_column R (ev\<lparr>ev_journal := j\<rparr>) = evaluate_column R ev"
  by (simp add: fun_eq_iff evaluate_column_def Let_def cong del: if_weak_cong)

lemma check_arg_count_journal [simp]: "check_arg_count (ev\<lparr>ev_journal := j\<rparr>) = check_arg_count ev"
  by (simp add: fun_eq_iff check_arg_count_def)

lemma call_function_journal [simp]: "call_function (ev\<lparr>ev_journal := j\<rparr>) = call_function ev"
  by (simp add: fun_eq_iff call_function_def)

lemma evaluate_journal [simp]: "evaluate R (ev\<lparr>ev_journal := j\<rparr>) e = evaluate R ev e"
proof (induction R ev e rule: evaluate.induct)
  case (12 R ev cnd e1 e2)
  have "evaluate R (ev\<lparr>ev_journal := j\<rparr>) e1 = evaluate R ev e1" "evaluate R (ev\<lparr>ev_journal := j\<rparr>) e2 = evaluate R ev e2"
    using 12(2,3) by auto
  then show ?case by (simp add: 12(1))
next
  case (13 R ev f args)
  have "map_result (\<lambda>(k, e). evaluate R (ev\<lparr>ev_journal := j\<rparr>) e) (sort_key fst args)
      = map_result (\<lambda>(k, e). evaluate R ev e) (sort_key fst args)"
    using 13 by (intro map_result_cong) auto
  then show ?case by simp
next
  case (15 R ev entries)
  have "map_result (\<lambda>(k, e). rbind (evaluate R (ev\<lparr>ev_journal := j\<rparr>) e) (\<lambda>v. Inr (k, v))) entries
      = map_result (\<lambda>(k, e). rbind (evaluate R ev e) (\<lambda>v. Inr (k, v))) entries"
    using 15 by (intro map_result_cong) auto
  then show ?case by simp
qed (auto cong: and_loop_cong or_loop_cong map_result_cong split: sum.splits eval_value.splits)

lemma evaluate_json_journal [simp]: "evaluate_json R (ev\<lparr>ev_journal := j\<rparr>) e = evaluate_json R ev e"
  by (simp add: evaluate_json_def)

lemma insert_value_journal [simp]: "insert_value R (ev\<lparr>ev_journal := j\<rparr>) = insert_value R ev"
  by (auto simp: fun_eq_iff insert_value_def)

definition wrote :: "('j, 'a, 'b, 'q, 'sj) evaluator \<Rightarrow> 'j diff list \<Rightarrow> (string \<times> eval_value) list \<Rightarrow> ('j, 'a, 'b, 'q, 'sj) evaluator" where
  "wrote ev ds vs = ev\<lparr>ev_journal := (ev_journal ev)\<lparr>jr_pending_diffs := jr_pending_diffs (ev_journal ev) @ ds\<rparr>,
     ev_variables := vs\<rparr>"

lemma run_leaves_append:
  "run_leaves R ev vs (xs @ ys) = (case run_leaves R ev vs xs of
     (Inl e, r) \<Rightarrow> (Inl e, r)
   | (Inr _, ds, vs1) \<Rightarrow> (case run_leaves R ev vs1 ys of (r, ds2, vs2) \<Rightarrow> (r, ds @ ds2, vs2)))"
  by (induction xs arbitrary: vs) (auto split: sum.splits prod.splits)

definition journal_fits :: "('j, 'a, 'b, 'q, 'sj) evaluator \<Rightarrow> bool" where
  "journal_fits ev \<longleftrightarrow> jr_phase (ev_journal ev) = CpOpen"

text \<open>How one effect, or a list of them, relates to its leaves.\<close>

definition agrees ::
  "('b, 'a, 's, 'fl, 'j) rule_env \<Rightarrow> ('j, 'a, 'b, 'q, 'sj) evaluator \<Rightarrow> effect list
     \<Rightarrow> (rule_error + unit) \<times> ('j, 'a, 'b, 'q, 'sj) evaluator \<Rightarrow> bool" where
  "agrees R ev es out \<longleftrightarrow> (case run_leaves R ev (ev_variables ev) es of (r, ds, vs) \<Rightarrow> out = (r, wrote ev ds vs))"

lemma with_own_vars [simp]: "with_vars ev (ev_variables ev) = ev"
  by (simp add: with_vars_def)

lemma wrote_simps [simp]:
  "wrote ev [] (ev_variables ev) = ev" "ev_variables (wrote ev ds vs) = vs" "journal_fits (wrote ev ds vs) = journal_fits ev"
  "wrote (wrote ev ds vs) ds2 vs2 = wrote ev (ds @ ds2) vs2" "ev_scope (wrote ev ds vs) = ev_scope ev"
  "with_vars (wrote ev ds vs) vs2 = (with_vars ev vs2)\<lparr>ev_journal := ev_journal (wrote ev ds vs)\<rparr>"
  by (simp_all add: wrote_def journal_fits_def with_vars_def)

lemma leaf_result_wrote [simp]: "leaf_result R (wrote ev ds vs) vs2 e = leaf_result R ev vs2 e"
  by (cases e) simp_all

lemma run_leaves_wrote [simp]: "run_leaves R (wrote ev ds vs) vs2 es = run_leaves R ev vs2 es"
  by (induction es arbitrary: vs2) (simp_all split: sum.splits prod.splits)

lemma rule_submit_diff_open:
  "journal_fits ev \<Longrightarrow> rule_submit_diff d ev = (Inr (), wrote ev [d] (ev_variables ev))"
  by (simp add: rule_submit_diff_def submit_diff_def journal_fits_def wrote_def)

lemma leaf_agrees:
  "journal_fits ev \<Longrightarrow> \<forall>es. e \<noteq> EffSequence es \<Longrightarrow> agrees R ev [e] (evaluate_effect R e ev)"
  by (cases e) (auto simp: agrees_def rule_submit_diff_open bind_var_def wrote_def split: sum.splits)

lemma effect_agrees_both:
  fixes ev ev2 :: "('j, 'a, 'b, 'q, 'sj) evaluator"
  shows
  "(journal_fits ev \<longrightarrow> agrees R ev (leaves e) (evaluate_effect R e ev))"
  "(journal_fits ev2 \<longrightarrow> agrees R ev2 (concat (map leaves es)) (evaluate_effects R es ev2))"
proof (induction R e ev and R es ev2 rule: evaluate_effect_evaluate_effects.induct)
  case (6 R e es ev)
  have "agrees R ev (leaves e @ concat (map leaves es)) (evaluate_effects R (e # es) ev)"
    if fits: "journal_fits ev"
  proof -
    obtain r ds vs where xs: "run_leaves R ev (ev_variables ev) (leaves e) = (r, ds, vs)" by (metis prod_cases3)
    then have first: "evaluate_effect R e ev = (r, wrote ev ds vs)" using 6(1) fits by (simp add: agrees_def)
    show ?thesis
      using fits 6(2) [OF first [symmetric]] xs
      by (cases r) (auto simp: agrees_def run_leaves_append first split: prod.splits)
  qed
  then show ?case by simp
qed (use leaf_agrees in \<open>fastforce simp del: evaluate_effect.simps(1-3) simp: agrees_def [where es = "[]"]\<close>)+

text \<open>C10: An effect is the sequence of its leaves: in an open journal, evaluating it submits, in
  order, the diffs of the leaves before the first that fails, each evaluated with the
  variables the leaves before it have set, and returns that leaf's error; nothing but the
  pending diffs and the variables changes. What was submitted before an error stays.\<close>

theorem effect_submits_its_leaves:
  assumes "jr_phase (ev_journal ev) = CpOpen"
  shows "evaluate_effect R e ev = (case run_leaves R ev (ev_variables ev) (leaves e) of (r, ds, vs) \<Rightarrow>
    (r, ev\<lparr>ev_journal := (ev_journal ev)\<lparr>jr_pending_diffs := jr_pending_diffs (ev_journal ev) @ ds\<rparr>, ev_variables := vs\<rparr>))"
  using effect_agrees_both(1) [of ev R e] assms
  by (auto simp: agrees_def journal_fits_def wrote_def)

subsection \<open>Modifiers\<close>

abbreviation of_kind :: "modifier_op \<Rightarrow> modifier list \<Rightarrow> modifier list" where
  "of_kind k ms \<equiv> filter (\<lambda>m. md_op m = k) ms"

lemma rbind_assoc: "rbind (rbind x f) g = rbind x (\<lambda>a. rbind (f a) g)"
  by (cases x) auto

lemma rbind_Inr: "rbind x Inr = x"
  by (cases x) auto

lemma rbind_if: "rbind (if b then Inr x else Inr y) f = (if b then f x else f y)"
  by simp

lemma split_steps:
  "foldl split_step (a, ml, ov) ms = (a @ of_kind MAdd ms, ml @ of_kind MMul ms, ov @ of_kind MOverride ms)"
  by (induction ms arbitrary: a ml ov) (auto simp: split_step_def split: modifier_op.splits)

abbreviation registered :: "modifier_registry \<Rightarrow> string \<Rightarrow> string \<Rightarrow> modifier list" where
  "registered r t c \<equiv> case modifiers_for r t c of None \<Rightarrow> [] | Some ms \<Rightarrow> ms"

lemma aggregate_kinds:
  "aggregate r t c base =
     (let ms = registered r t c in
      rbind (try_fold (\<lambda>acc m. modifier_apply m acc) base (of_kind MAdd ms @ of_kind MMul ms)) (\<lambda>v.
      if of_kind MOverride ms = [] then Inr v else Inr (md_value (last (of_kind MOverride ms)))))"
proof -
  have "md_op (last (of_kind MOverride ms)) = MOverride" if "of_kind MOverride ms \<noteq> []" for ms
    using last_in_set [OF that] by simp
  then have "(if of_kind MOverride ms = [] then Inr v else modifier_apply (last (of_kind MOverride ms)) v) =
      (if of_kind MOverride ms = [] then Inr v else Inr (md_value (last (of_kind MOverride ms))))" for ms v
    by (simp add: modifier_apply_def)
  then show ?thesis
    by (simp add: aggregate_def Let_def split_steps try_fold_append rbind_assoc)
qed

lemma modifiers_for_register:
  "registered (modifier_register r m) t c = registered r t c @ (if (md_table m, md_column m) = (t, c) then [m] else [])"
  by (auto simp: modifiers_for_def modifier_register_def Let_def)

text \<open>The last modifier registered acts on the aggregate of the ones before it: an override
  replaces its value, a multiplication is applied to it while there is no override, an
  addition while there is neither; an addition or multiplication registered after an override
  leaves the value, and a modifier of another field leaves everything.\<close>

theorem register_acts_on_aggregate:
  assumes "md_table m = t" and "md_column m = c"
  shows "(md_op m = MOverride \<longrightarrow> aggregate (modifier_register r m) t c base = rbind (aggregate r t c base) (\<lambda>_. Inr (md_value m)))
    \<and> (md_op m = MMul \<and> of_kind MOverride (registered r t c) = [] \<longrightarrow>
         aggregate (modifier_register r m) t c base = rbind (aggregate r t c base) (modifier_apply m))
    \<and> (md_op m = MAdd \<and> of_kind MOverride (registered r t c) = [] \<and> of_kind MMul (registered r t c) = [] \<longrightarrow>
         aggregate (modifier_register r m) t c base = rbind (aggregate r t c base) (modifier_apply m))
    \<and> (md_op m \<noteq> MOverride \<and> of_kind MOverride (registered r t c) \<noteq> [] \<and> is_ok (aggregate r t c base)
         \<and> is_ok (aggregate (modifier_register r m) t c base) \<longrightarrow>
         aggregate (modifier_register r m) t c base = aggregate r t c base)
    \<and> ((t', c') \<noteq> (t, c) \<longrightarrow> aggregate (modifier_register r m) t' c' = aggregate r t' c')"
proof -
  have reg: "registered (modifier_register r m) t c = registered r t c @ [m]"
    using modifiers_for_register [of r m t c] assms by simp
  have "(t', c') \<noteq> (t, c) \<Longrightarrow> modifiers_for (modifier_register r m) t' c' = modifiers_for r t' c'"
    using assms by (auto simp: modifiers_for_def modifier_register_def Let_def)
  then have "(t', c') \<noteq> (t, c) \<Longrightarrow> aggregate (modifier_register r m) t' c' = aggregate r t' c'"
    by (simp add: fun_eq_iff aggregate_def)
  moreover have "aggregate (modifier_register r m) t c base =
      rbind (try_fold (\<lambda>acc m. modifier_apply m acc) base (of_kind MAdd (registered r t c @ [m]) @ of_kind MMul (registered r t c @ [m])))
        (\<lambda>v. if of_kind MOverride (registered r t c @ [m]) = [] then Inr v
          else Inr (md_value (last (of_kind MOverride (registered r t c @ [m])))))"
    by (simp only: aggregate_kinds Let_def reg)
  ultimately show ?thesis
    by (simp add: aggregate_kinds [of r t c] Let_def) (auto simp: try_fold_append rbind_assoc is_ok_iff rbind_Inr rbind_if)
qed

lemma register_acts_on_aggregate_witness:
  "aggregate (modifier_register (modifier_register [] \<lparr>md_table = ''units'', md_column = ''morale'', md_op = MAdd, md_value = fp_new 2 0\<rparr>)
     \<lparr>md_table = ''units'', md_column = ''morale'', md_op = MMul, md_value = fp_new 3 0\<rparr>) ''units'' ''morale'' (fp_new 5 0)
   = Inr (fp_new 21 0)"
proof -
  let ?a = "\<lparr>md_table = ''units'', md_column = ''morale'', md_op = MAdd, md_value = fp_new 2 0\<rparr>"
  let ?m = "\<lparr>md_table = ''units'', md_column = ''morale'', md_op = MMul, md_value = fp_new 3 0\<rparr>"
  have reg: "registered (modifier_register [] ?a) ''units'' ''morale'' = [?a]"
    by (simp add: modifiers_for_register) (simp add: modifiers_for_def)
  have base: "aggregate (modifier_register [] ?a) ''units'' ''morale'' (fp_new 5 0) = Inr (fp_new 7 0)"
    by (simp add: aggregate_kinds reg) (simp add: modifier_apply_def rescale_def cmp_def fp_add_def ensure_same_scale_def
      checked_def in_range_def i64_min_def i64_max_def fp_new_def del: rbind_Inr_iff)
  have "modifier_apply ?m (fp_new 7 0) = Inr (fp_new 21 0)"
    by (simp add: modifier_apply_def rescale_def cmp_def fp_mul_def ensure_same_scale_def checked_pow10_def
      checked_def in_range_def i64_min_def i64_max_def fp_new_def del: rbind_Inr_iff)
  then show ?thesis
    using register_acts_on_aggregate [of ?m "''units''" "''morale''" "modifier_register [] ?a" "fp_new 5 0"] by (simp add: reg base)
qed

subsection \<open>Jumps\<close>

lemma find_row_found:
  "find_row get key rs = Inr (Some r) \<Longrightarrow> r \<in> set rs \<and> get r = Inr key"
  by (induction rs) (auto split: if_splits)

lemma find_row_none: "find_row get key rs = Inr None \<longleftrightarrow> (\<forall>r \<in> set rs. \<exists>v. get r = Inr v \<and> v \<noteq> key)"
  by (induction rs) auto

lemma pop_apply_jump: "scope_pop (apply_jump s edge d r) = (Inr (), s)"
  by (simp add: scope_pop_def apply_jump_def scope_push_def Let_def)

lemma scope_pop_push: "scope_pop (scope_push s t r j) = (Inr (), s)"
  by (simp add: scope_pop_def scope_push_def Let_def)

lemma apply_jump_simps [simp]:
  "sp_row (apply_jump s edge d r) = r"
  "sp_table (apply_jump s edge d r) = (case d of Forward \<Rightarrow> re_to edge | Reverse \<Rightarrow> re_from edge)"
  by (simp_all add: apply_jump_def scope_push_def Let_def)

text \<open>Whatever row a jump resolves to comes from a view of the target table at the cache's tick.\<close>

lemma resolve_target_row_view:
  assumes "resolve_target_row R ev edge d = Inr r"
  shows "\<exists>view. read_single_table (ev_query_engine ev) (pc_current_tick (ev_cache ev))
      (case d of Forward \<Rightarrow> re_to edge | Reverse \<Rightarrow> re_from edge) = Inr view
    \<and> r \<in> set (ru_row_ids R (rpm_row_ids (rv_position_map view)))"
  using assms by (cases d) (auto simp: resolve_target_row_def Let_def map_err_Inr_iff ok_or_Inr_iff dest!: find_row_found)

lemma resolve_target_row_key:
  assumes "resolve_target_row R ev edge d = Inr r"
  shows "\<exists>spec pk key e1 e2. table_schema (ev_query_engine ev) (re_to edge) = Inr spec \<and> primary_key_column spec = Some pk
    \<and> row_key R (ev_query_engine ev) (re_from edge) (re_from_column edge) e1
        (case d of Forward \<Rightarrow> sp_row (ev_scope ev) | Reverse \<Rightarrow> r) = Inr key
    \<and> row_key R (ev_query_engine ev) (re_to edge) (col_name pk) e2
        (case d of Forward \<Rightarrow> r | Reverse \<Rightarrow> sp_row (ev_scope ev)) = Inr key"
  using assms by (cases d) (fastforce simp: resolve_target_row_def Let_def map_err_Inr_iff ok_or_Inr_iff dest!: find_row_found)+

lemma pin_succeeds:
  assumes "read_single_table (ev_query_engine ev) (pc_current_tick (ev_cache ev)) (sp_table (ev_scope ev)) = Inr view"
  shows "\<exists>v. pin_in_cache R r ev = (Inr (), ev\<lparr>ev_cache := cache_insert (ru_entries R)
    \<lparr>cw_tick = pc_current_tick (ev_cache ev), cw_table = sp_table (ev_scope ev), cw_row_id = r, cw_view = v\<rparr> (ev_cache ev)\<rparr>)"
  using assms by (auto simp: pin_in_cache_def Let_def split: option.splits)

lemma jump_cases:
  "jump_to R name d ev = (Inl err, ev') \<Longrightarrow> ev' = ev"
  "jump_to R name d ev = (Inr (), ev') \<Longrightarrow> \<exists>edge row v. resolve_relation_edge (ev_query_engine ev) name = Inr edge
     \<and> resolve_target_row R ev edge d = Inr row
     \<and> ev' = ev\<lparr>ev_scope := apply_jump (ev_scope ev) edge d row, ev_cache := cache_insert (ru_entries R)
         \<lparr>cw_tick = pc_current_tick (ev_cache ev), cw_table = (case d of Forward \<Rightarrow> re_to edge | Reverse \<Rightarrow> re_from edge),
          cw_row_id = row, cw_view = v\<rparr> (ev_cache ev)\<rparr>"
proof -
  have pin: "\<exists>v. pin_in_cache R row (ev\<lparr>ev_scope := apply_jump (ev_scope ev) edge d row\<rparr>) =
      (Inr (), ev\<lparr>ev_scope := apply_jump (ev_scope ev) edge d row, ev_cache := cache_insert (ru_entries R)
         \<lparr>cw_tick = pc_current_tick (ev_cache ev), cw_table = (case d of Forward \<Rightarrow> re_to edge | Reverse \<Rightarrow> re_from edge),
          cw_row_id = row, cw_view = v\<rparr> (ev_cache ev)\<rparr>)"
    if "resolve_target_row R ev edge d = Inr row" for edge row
    using resolve_target_row_view [OF that] pin_succeeds [of "ev\<lparr>ev_scope := apply_jump (ev_scope ev) edge d row\<rparr>" _ R row]
    by auto
  show "jump_to R name d ev = (Inl err, ev') \<Longrightarrow> ev' = ev"
    using pin by (fastforce simp: jump_to_def split: sum.splits)
  show "jump_to R name d ev = (Inr (), ev') \<Longrightarrow> \<exists>edge row v. resolve_relation_edge (ev_query_engine ev) name = Inr edge
     \<and> resolve_target_row R ev edge d = Inr row
     \<and> ev' = ev\<lparr>ev_scope := apply_jump (ev_scope ev) edge d row, ev_cache := cache_insert (ru_entries R)
         \<lparr>cw_tick = pc_current_tick (ev_cache ev), cw_table = (case d of Forward \<Rightarrow> re_to edge | Reverse \<Rightarrow> re_from edge),
          cw_row_id = row, cw_view = v\<rparr> (ev_cache ev)\<rparr>"
    using pin by (fastforce simp: jump_to_def map_err_Inr_iff split: sum.splits)
qed

text \<open>C37: A jump over a relation ends on a row that the relation relates to the row it started
  from (the foreign key of the one side is the primary key of the other) and is undone by one
  pop; a jump that fails, wherever it fails, changes nothing.\<close>

theorem jump_lands_on_related_row:
  assumes "jump_to R name d ev = (res, ev')"
  shows "case res of
      Inl err \<Rightarrow> ev' = ev
    | Inr _ \<Rightarrow> \<exists>edge spec pk key e1 e2. edge_key edge = name \<and> edge \<in> set (rg_edges (sr_relations (qe_schema_registry (ev_query_engine ev))))
        \<and> table_schema (ev_query_engine ev) (re_to edge) = Inr spec \<and> primary_key_column spec = Some pk
        \<and> sp_table (ev_scope ev') = (case d of Forward \<Rightarrow> re_to edge | Reverse \<Rightarrow> re_from edge)
        \<and> row_key R (ev_query_engine ev) (re_from edge) (re_from_column edge) e1
            (case d of Forward \<Rightarrow> sp_row (ev_scope ev) | Reverse \<Rightarrow> sp_row (ev_scope ev')) = Inr key
        \<and> row_key R (ev_query_engine ev) (re_to edge) (col_name pk) e2
            (case d of Forward \<Rightarrow> sp_row (ev_scope ev') | Reverse \<Rightarrow> sp_row (ev_scope ev)) = Inr key
        \<and> fst (ev_scope_pop ev') = Inr () \<and> ev_scope (snd (ev_scope_pop ev')) = ev_scope ev"
proof (cases res)
  case (Inl err)
  then show ?thesis using jump_cases(1) assms by fastforce
next
  case (Inr u)
  then obtain edge row v where edge: "resolve_relation_edge (ev_query_engine ev) name = Inr edge"
    and row: "resolve_target_row R ev edge d = Inr row"
    and ev': "ev' = ev\<lparr>ev_scope := apply_jump (ev_scope ev) edge d row, ev_cache := v\<rparr>"
    using jump_cases(2) assms by (metis (full_types) old.unit.exhaust)
  have e: "edge_key edge = name" "edge \<in> set (rg_edges (sr_relations (qe_schema_registry (ev_query_engine ev))))"
    using edge by (auto simp: resolve_relation_edge_def ok_or_Inr_iff find_Some_iff)
  have "ev_scope ev' = apply_jump (ev_scope ev) edge d row" by (simp add: ev')
  moreover from this have "fst (ev_scope_pop ev') = Inr ()" "ev_scope (snd (ev_scope_pop ev')) = ev_scope ev"
    by (simp_all add: ev_scope_pop_def pop_apply_jump)
  ultimately show ?thesis using Inr e resolve_target_row_key [OF row] by (cases d) (simp, blast)+
qed

subsection \<open>Instances\<close>

definition demo_effect :: effect where
  "demo_effect = EffSequence [EffSetVariable ''bonus'' (EConst (fp_new 3 0)),
     EffSequence [EffUpdateColumn ''units'' ''morale'' (EArithmetic OpAdd (EVar ''morale'') (EVar ''bonus''))],
     EffUpdateColumn ''units'' ''name'' (EVar ''ghost''), EffUpdateColumn ''units'' ''name'' (EString ''never'')]"

lemma effect_submits_its_leaves_witness:
  "\<exists>ev'. evaluate_effect demo_rule_env demo_effect demo_evaluator = (Inl (REUnknownVariable ''ghost''), ev')
    \<and> jr_pending_diffs (ev_journal ev') = [DUpdate ''units'' (RowId 1) ''morale'' (DInt 10)]"
  using effect_submits_its_leaves [of demo_evaluator demo_rule_env demo_effect]
  by (simp add: demo_effect_def demo_evaluator_def bind_var_def evaluator_new_def default_builtins_def evaluate_json_def
      resolve_var_def with_vars_def arithmetic_values_def demo_rule_env_def scope_new_def
      fp_add_def ensure_same_scale_def checked_def in_range_def i64_min_def i64_max_def fp_new_def del: rbind_Inr_iff)

definition demo_squads_spec :: table_spec where
  "demo_squads_spec = table_spec_deserialize ''squads'' [column_spec_new ''id'' SemId ''i64''] None"

definition demo_edge :: relation_edge where
  "demo_edge = \<lparr>re_from = ''units'', re_to = ''squads'', re_kind = OneToMany, re_from_column = ''squad'', re_to_column = None\<rparr>"

definition demo_view :: "string \<Rightarrow> table_spec \<Rightarrow> (string \<times> int list) list \<Rightarrow> u64 list \<Rightarrow> (field list \<times> lcol list) table_read_view" where
  "demo_view name spec cols ids = \<lparr>rv_table_name = name, rv_tick = Tick 1,
     rv_batches = [(map (\<lambda>(n, _). (n, Int64, True)) cols,
       map (\<lambda>(_, vs). fresh_col Int64 (map (\<lambda>v. Some (CNative (NInt v))) vs)) cols)],
     rv_schema = spec, rv_position_map = \<lparr>rpm_entries = map (\<lambda>(i, r). (r, 0, i)) (enumerate 0 ids)\<rparr>\<rparr>"

definition demo_jump_engine :: "(field list \<times> lcol list) query_engine" where
  "demo_jump_engine = (query_engine_new schema_registry_new)\<lparr>
     qe_schema_registry := schema_registry_new\<lparr>sr_tables := [(''units'', demo_spec), (''squads'', demo_squads_spec)],
       sr_relations := relation_graph_new\<lparr>rg_edges := [demo_edge]\<rparr>\<rparr>,
     qe_latest_tick := 1,
     qe_view_cache := [(''units'', demo_view ''units'' demo_spec [(''id'', [1]), (''squad'', [9])] [1]),
       (''squads'', demo_view ''squads'' demo_squads_spec [(''id'', [8, 9])] [20, 21])]\<rparr>"

lemma demo_jump_read [simp]:
  "read_single_table demo_jump_engine t ''units'' =
    (if t = tick_ZERO \<or> t = Tick 1 then Inr (demo_view ''units'' demo_spec [(''id'', [1]), (''squad'', [9])] [1])
     else Inl (QETicksMismatch t (Some (Tick 1))))"
  "read_single_table demo_jump_engine t ''squads'' =
    (if t = tick_ZERO \<or> t = Tick 1 then Inr (demo_view ''squads'' demo_squads_spec [(''id'', [8, 9])] [20, 21])
     else Inl (QETicksMismatch t (Some (Tick 1))))"
  by (simp_all add: read_single_table_def engine_read_def request_with_table_def read_request_new_def read_views_def
      response_insert_def read_response_new_def response_get_def demo_jump_engine_def engine_latest_tick_def demo_view_def)

lemma demo_jump_tick [simp]: "engine_latest_tick demo_jump_engine = Some (Tick 1)"
  by (simp add: demo_jump_engine_def engine_latest_tick_def)

lemma demo_jump_keys [simp]:
  "row_key demo_rule_env demo_jump_engine ''units'' ''squad'' e (RowId 1) = Inr 9"
  "row_key demo_rule_env demo_jump_engine ''squads'' ''id'' e (RowId 20) = Inr 8"
  "row_key demo_rule_env demo_jump_engine ''squads'' ''id'' e (RowId 21) = Inr 9"
  by (simp_all add: row_key_def row_i64_def lookup_row_def demo_view_def position_of_def lookup_get_def lookup_column_view_def
      row_lookup_view_new_def row_lookup_new_def column_view_new_def fresh_col_def get_prim_def typed_get_def
      as_typed_array_def demo_rule_env_def lcell_def del: rbind_Inr_iff)

lemma jump_lands_on_related_row_witness:
  "\<exists>ev'. jump_to demo_rule_env ''units -> squads'' Forward (evaluator_new demo_jump_engine demo_journal ''units'' (RowId 1))
      = (Inr (), ev') \<and> sp_table (ev_scope ev') = ''squads'' \<and> sp_row (ev_scope ev') = RowId 21
    \<and> ev_scope (snd (ev_scope_pop ev')) = scope_new ''units'' (RowId 1)"
proof -
  let ?ev = "evaluator_new demo_jump_engine demo_journal ''units'' (RowId 1)"
  have ev [simp]: "ev_query_engine ?ev = demo_jump_engine" "ev_scope ?ev = scope_new ''units'' (RowId 1)"
    "pc_current_tick (ev_cache ?ev) = tick_ZERO" "ev_cache ?ev = cache_default"
    by (simp_all add: evaluator_new_def default_builtins_def cache_default_def cache_new_def)
  have schema: "table_schema demo_jump_engine ''squads'' = Inr demo_squads_spec"
    by (simp add: table_schema_def registry_get_def demo_jump_engine_def)
  have pk: "primary_key_column demo_squads_spec = Some (column_spec_new ''id'' SemId ''i64'')"
    by (simp add: primary_key_column_def demo_squads_spec_def table_spec_deserialize_def rebuild_index_def column_spec_new_def)
  have ids: "ru_row_ids demo_rule_env (rpm_row_ids (rv_position_map (demo_view ''squads'' demo_squads_spec [(''id'', [8, 9])] [20, 21])))
      = [RowId 20, RowId 21]"
    by (simp add: demo_rule_env_def demo_view_def rpm_row_ids_def)
  have target: "resolve_target_row demo_rule_env ?ev demo_edge Forward = Inr (RowId 21)"
    using schema pk ids
    by (simp add: resolve_target_row_def Let_def demo_edge_def scope_new_def column_spec_new_def
        cache_default_def cache_new_def del: rbind_Inr_iff)
  have edge: "resolve_relation_edge demo_jump_engine ''units -> squads'' = Inr demo_edge"
    by (simp add: resolve_relation_edge_def demo_jump_engine_def edge_key_def demo_edge_def)
  obtain ev' where j: "jump_to demo_rule_env ''units -> squads'' Forward ?ev = (Inr (), ev')"
    and row: "ev_scope ev' = apply_jump (scope_new ''units'' (RowId 1)) demo_edge Forward (RowId 21)"
    using edge target by (auto simp: jump_to_def pin_in_cache_def Let_def find_view_def cache_default_def cache_new_def
        demo_edge_def demo_rule_env_def)
  from jump_lands_on_related_row [OF j] have "ev_scope (snd (ev_scope_pop ev')) = scope_new ''units'' (RowId 1)" by auto
  then show ?thesis using j row by (simp add: demo_edge_def)
qed

end
