(* ===== verification/Rules_Cache.thy ===== *)
theory Rules_Cache
  imports Rules
begin

section \<open>The prefetch cache as a list in order of use\<close>

text \<open>
  cache.rs stamps every entry with the value of a counter and looks for the least stamp when
  it evicts. The specification has no stamps: a list of rows, the least recently used first.
  The theorem relates the two over every sequence of operations that the counter can number.
\<close>

datatype 'b cache_op =
    CacheGet string row_id
  | CacheInsert "'b cached_row"
  | CachePrefetchRow string "'b table_read_view" row_id
  | CacheTick tick
  | CacheClear
  | CacheRebuild tick

definition cache_step ::
  "('b cache_map \<Rightarrow> 'b cache_map) \<Rightarrow> 'b cache_op \<Rightarrow> 'b prefetch_cache \<Rightarrow> 'b cached_row option \<times> 'b prefetch_cache" where
  "cache_step order x c = (case x of
     CacheGet t r \<Rightarrow> cache_get c t r
   | CacheInsert row \<Rightarrow> (None, cache_insert order row c)
   | CachePrefetchRow t v r \<Rightarrow> (None, prefetch_row order t v r c)
   | CacheTick t \<Rightarrow> (None, cache_set_tick c t)
   | CacheClear \<Rightarrow> (None, cache_clear c)
   | CacheRebuild t \<Rightarrow> (None, rebuild_from_authority c t))"

subsection \<open>The specification\<close>

record 'b lru =
  lr_capacity :: nat
  lr_tick :: tick
  lr_rows :: "((string \<times> u64) \<times> 'b cached_row) list"

definition touch :: "'k \<Rightarrow> 'v \<Rightarrow> ('k \<times> 'v) list \<Rightarrow> ('k \<times> 'v) list" where
  "touch k v xs = filter (\<lambda>p. fst p \<noteq> k) xs @ [(k, v)]"

definition lru_insert :: "'b cached_row \<Rightarrow> 'b lru \<Rightarrow> 'b lru" where
  "lru_insert row l = l\<lparr>lr_rows := touch (cache_key (cw_table row) (cw_row_id row)) row
     (if length (lr_rows l) \<ge> lr_capacity l then tl (lr_rows l) else lr_rows l)\<rparr>"

definition lru_step :: "'b cache_op \<Rightarrow> 'b lru \<Rightarrow> 'b cached_row option \<times> 'b lru" where
  "lru_step x l = (case x of
     CacheGet t r \<Rightarrow> (case map_of (lr_rows l) (cache_key t r) of
         None \<Rightarrow> (None, l)
       | Some row \<Rightarrow> (Some row, l\<lparr>lr_rows := touch (cache_key t r) row (lr_rows l)\<rparr>))
   | CacheInsert row \<Rightarrow> (None, lru_insert row l)
   | CachePrefetchRow t v r \<Rightarrow> (None, if map_of (lr_rows l) (cache_key t r) \<noteq> None then l
       else lru_insert \<lparr>cw_tick = lr_tick l, cw_table = t, cw_row_id = r, cw_view = v\<rparr> l)
   | CacheTick t \<Rightarrow> (None, if lr_tick l \<noteq> t then l\<lparr>lr_rows := [], lr_tick := t\<rparr> else l)
   | CacheClear \<Rightarrow> (None, l\<lparr>lr_rows := []\<rparr>)
   | CacheRebuild t \<Rightarrow> (None, l\<lparr>lr_rows := [], lr_tick := t\<rparr>))"

fun outputs :: "('o \<Rightarrow> 's \<Rightarrow> 'r \<times> 's) \<Rightarrow> 'o list \<Rightarrow> 's \<Rightarrow> 'r list \<times> 's" where
  "outputs step [] s = ([], s)"
| "outputs step (x # xs) s = (case step x s of (r, s1) \<Rightarrow> (case outputs step xs s1 of (rs, s2) \<Rightarrow> (r # rs, s2)))"

subsection \<open>The abstraction\<close>

abbreviation stamp :: "'k \<times> 'b cache_entry \<Rightarrow> nat" where "stamp p \<equiv> cn_last_access (snd p)"

definition strip :: "'k \<times> 'b cache_entry \<Rightarrow> 'k \<times> 'b cached_row" where
  "strip p = (fst p, cn_row (snd p))"

definition lru_of :: "'b prefetch_cache \<Rightarrow> 'b lru" where
  "lru_of c = \<lparr>lr_capacity = pc_capacity c, lr_tick = pc_current_tick c,
     lr_rows = map strip (sort_key stamp (pc_entries c))\<rparr>"

definition stamped :: "nat \<Rightarrow> 'b cache_map \<Rightarrow> bool" where
  "stamped n m \<longleftrightarrow> hm_ok m \<and> distinct (map stamp m) \<and> (\<forall>p \<in> set m. stamp p \<le> n)"

definition cache_inv :: "nat \<Rightarrow> 'b prefetch_cache \<Rightarrow> bool" where
  "cache_inv n c \<longleftrightarrow> stamped (pc_access_counter c) (pc_entries c) \<and> pc_access_counter c \<le> n"

text \<open>A list with distinct stamps is sorted in one way.\<close>

lemma stamped_sort_unique:
  assumes m: "distinct (map stamp m)" and xs: "set xs = set m" "sorted (map stamp xs)" "distinct (map stamp xs)"
  shows "sort_key stamp m = xs"
proof (rule map_sorted_distinct_set_unique)
  show "inj_on stamp (set (sort_key stamp m) \<union> set xs)" using m xs(1) by (simp add: distinct_map)
  show "distinct (map stamp (sort_key stamp m))" using m by (simp add: distinct_map)
qed (use xs in auto)

lemma hm_insert_set: "hm_ok m \<Longrightarrow> set (hm_insert k v m) = insert (k, v) {p \<in> set m. fst p \<noteq> k}"
proof -
  assume ok: "hm_ok m"
  have "(k', v') \<in> set (hm_insert k v m) \<longleftrightarrow> (k', v') \<in> insert (k, v) {p \<in> set m. fst p \<noteq> k}" for k' v'
    using hm_ok_iff_get [OF ok] hm_ok_iff_get [OF hm_ok_insert [OF ok]] by auto
  then show ?thesis by (intro set_eqI) (simp only: split_paired_all)
qed

lemma hm_remove_filter: "hm_remove k m = filter (\<lambda>p. fst p \<noteq> k) m"
  by (auto simp: AList.delete_eq intro!: filter_cong)

lemma stamped_insert:
  assumes "stamped n m" and "n < l" and "cn_last_access e = l"
  shows "stamped l (hm_insert k e m)"
proof -
  have ok: "hm_ok m" using assms by (simp add: stamped_def)
  have inj: "inj_on stamp (set (hm_insert k e m))"
    using assms by (auto simp: hm_insert_set [OF ok] stamped_def distinct_map inj_on_def)
  have "distinct (hm_insert k e m)" using hm_ok_insert [OF ok] by (auto simp: hm_ok_def distinct_map)
  then show ?thesis
    using assms inj ok by (auto simp: stamped_def hm_insert_set distinct_map)
qed

lemma stamped_remove: "stamped n m \<Longrightarrow> stamped n (hm_remove k m)"
  by (auto simp: stamped_def hm_remove_filter hm_ok_def distinct_map_filter)

lemma sort_insert:
  assumes "stamped n m" and "n < cn_last_access e"
  shows "sort_key stamp (hm_insert k e m) = filter (\<lambda>p. fst p \<noteq> k) (sort_key stamp m) @ [(k, e)]"
proof (rule stamped_sort_unique)
  show "distinct (map stamp (hm_insert k e m))"
    using stamped_insert [OF assms refl] by (simp add: stamped_def)
  have le: "stamp p < cn_last_access e" if "p \<in> set m" for p using assms that by (force simp: stamped_def)
  then have le': "stamp p \<le> cn_last_access e" if "p \<in> set m" for p using that less_imp_le by blast
  show "sorted (map stamp (filter (\<lambda>p. fst p \<noteq> k) (sort_key stamp m) @ [(k, e)]))"
    using le' by (auto simp: sorted_append filter_sort sorted_filter)
  have "distinct (map stamp (sort_key stamp m))" using assms by (simp add: stamped_def distinct_map)
  then show "distinct (map stamp (filter (\<lambda>p. fst p \<noteq> k) (sort_key stamp m) @ [(k, e)]))"
    using le by (auto simp: distinct_map_filter dest!: le)
qed (use assms in \<open>auto simp: hm_insert_set stamped_def\<close>)

lemma map_of_strip: "map_of (map strip m) k = map_option cn_row (map_of m k)"
  by (induction m) (auto simp: strip_def)

lemma map_of_sorted: "hm_ok m \<Longrightarrow> map_of (sort_key stamp m) = map_of m"
  by (rule map_of_eqI) (auto simp: hm_ok_def image_iff map_of_eq_Some_iff distinct_map)

lemma filter_strip: "filter (\<lambda>p. fst p \<noteq> k) (map strip m) = map strip (filter (\<lambda>p. fst p \<noteq> k) m)"
  by (induction m) (auto simp: strip_def)

lemma first_min_None: "first_min f xs = None \<longleftrightarrow> xs = []"
  by (cases xs) (auto split: option.splits if_split_asm)

lemma first_min_least: "first_min f xs = Some x \<Longrightarrow> x \<in> set xs \<and> (\<forall>y \<in> set xs. f x \<le> f y)"
proof (induction xs arbitrary: x)
  case (Cons a xs)
  show ?case
  proof (cases "first_min f xs")
    case None
    then have "xs = []" by (simp add: first_min_None)
    then show ?thesis using Cons.prems by simp
  next
    case (Some y)
    then show ?thesis using Cons.IH [OF Some] Cons.prems by (auto split: if_split_asm intro: order_trans)
  qed
qed simp

subsection \<open>The simulation\<close>

lemma evict_entries:
  assumes m: "stamped n (pc_entries c)" and order: "set (order (pc_entries c)) = set (pc_entries c)"
  shows "stamped n (pc_entries (evict_lru order c))"
    and "sort_key stamp (pc_entries (evict_lru order c)) = tl (sort_key stamp (pc_entries c))"
proof -
  let ?m = "pc_entries c" and ?f = "\<lambda>(_, e). cn_last_access e"
  have f: "?f = stamp" by auto
  show "stamped n (pc_entries (evict_lru order c))"
    using m by (auto simp: evict_lru_def stamped_remove split: option.splits)
  show "sort_key stamp (pc_entries (evict_lru order c)) = tl (sort_key stamp ?m)"
  proof (cases "first_min stamp (order ?m)")
    case None
    then have "?m = []" using order by (simp add: first_min_None)
    then show ?thesis using None by (simp add: evict_lru_def f)
  next
    case (Some p)
    then have p: "p \<in> set ?m" "\<forall>q \<in> set ?m. stamp p \<le> stamp q" using first_min_least [OF Some] order by auto
    then obtain x rest where sort: "sort_key stamp ?m = x # rest"
      by (metis empty_iff list.exhaust set_empty set_sort)
    then have x: "x \<in> set ?m" by (metis list.set_intros(1) set_sort)
    have "sorted (map stamp (x # rest))" using sort by (metis sorted_sort_key)
    moreover have "p \<in> set (x # rest)" using p(1) sort by (metis set_sort)
    ultimately have "stamp x \<le> stamp p" by auto
    then have "stamp x = stamp p" using p x by (simp add: order_antisym)
    then have xp: "x = p" using m x p(1) by (auto simp: stamped_def distinct_map inj_on_def)
    have "distinct (map fst (sort_key stamp ?m))" using m by (simp add: stamped_def hm_ok_def distinct_map)
    then have "\<forall>q \<in> set rest. fst q \<noteq> fst p" unfolding sort xp by (auto simp: image_iff)
    then have "filter (\<lambda>q. fst q \<noteq> fst p) rest = rest" by simp
    then have "filter (\<lambda>q. fst q \<noteq> fst p) (sort_key stamp ?m) = rest" by (simp add: sort xp)
    then show ?thesis
      using Some by (cases p) (simp add: evict_lru_def f hm_remove_filter sort flip: filter_sort)
  qed
qed

lemma evict_other [simp]:
  "pc_capacity (evict_lru order c) = pc_capacity c" "pc_current_tick (evict_lru order c) = pc_current_tick c"
  "pc_access_counter (evict_lru order c) = pc_access_counter c"
  by (simp_all add: evict_lru_def split: option.splits)

lemma touch_strip: "touch k (cn_row e) (map strip m) = map strip (filter (\<lambda>p. fst p \<noteq> k) m @ [(k, e)])"
  by (simp add: touch_def filter_strip) (simp add: strip_def)

lemma insert_sim:
  assumes inv: "cache_inv n c" and n: "n < usize_max" and order: "\<And>m. set (order m) = set m"
  shows "cache_inv (Suc n) (cache_insert order row c) \<and> lru_of (cache_insert order row c) = lru_insert row (lru_of c)"
proof -
  define c1 where "c1 = (if length (pc_entries c) \<ge> pc_capacity c then evict_lru order c else c)"
  have m: "stamped (pc_access_counter c) (pc_entries c)" using inv by (simp add: cache_inv_def)
  have c1: "stamped (pc_access_counter c) (pc_entries c1)" "pc_access_counter c1 = pc_access_counter c"
    "pc_capacity c1 = pc_capacity c" "pc_current_tick c1 = pc_current_tick c"
    using m evict_entries(1) [where c = c and order = order, OF m order [of "pc_entries c"]] by (auto simp: c1_def)
  have s1: "sort_key stamp (pc_entries c1) =
      (if length (pc_entries c) \<ge> pc_capacity c then tl (sort_key stamp (pc_entries c)) else sort_key stamp (pc_entries c))"
    using evict_entries(2) [where c = c and order = order, OF m order [of "pc_entries c"]] by (simp add: c1_def)
  have nx: "sat_add (pc_access_counter c) (Suc 0) = Suc (pc_access_counter c)"
    using inv n by (simp add: sat_add_def cache_inv_def)
  let ?k = "cache_key (cw_table row) (cw_row_id row)" and ?e = "\<lparr>cn_row = row, cn_last_access = Suc (pc_access_counter c)\<rparr>"
  have res: "cache_insert order row c = c1\<lparr>pc_access_counter := Suc (pc_access_counter c), pc_entries := hm_insert ?k ?e (pc_entries c1)\<rparr>"
    by (simp add: cache_insert_def Let_def nx c1(2) flip: c1_def)
  have "stamped (Suc (pc_access_counter c)) (hm_insert ?k ?e (pc_entries c1))"
    by (rule stamped_insert [OF c1(1)]) simp_all
  then have inv': "cache_inv (Suc n) (cache_insert order row c)" using inv by (simp add: res cache_inv_def)
  have rows: "map strip (sort_key stamp (hm_insert ?k ?e (pc_entries c1))) = touch ?k row (map strip (sort_key stamp (pc_entries c1)))"
    using sort_insert [OF c1(1), of ?e ?k] touch_strip [of ?k ?e] by simp
  show ?thesis
    using inv' rows by (simp add: lru_of_def lru_insert_def res c1 s1 map_tl)
qed

lemma get_sim:
  assumes inv: "cache_inv n c" and n: "n < usize_max"
  shows "cache_inv (Suc n) (snd (cache_get c t r))
    \<and> (fst (cache_get c t r), lru_of (snd (cache_get c t r))) = lru_step (CacheGet t r) (lru_of c)"
proof -
  have m: "stamped (pc_access_counter c) (pc_entries c)" using inv by (simp add: cache_inv_def)
  have nx: "sat_add (pc_access_counter c) (Suc 0) = Suc (pc_access_counter c)"
    using inv n by (simp add: sat_add_def cache_inv_def)
  have ok: "hm_ok (pc_entries c)" using m by (simp add: stamped_def)
  have look: "map_of (map strip (sort_key stamp (pc_entries c))) k = map_option cn_row (hm_get (pc_entries c) k)" for k
    by (simp add: map_of_strip map_of_sorted [OF ok])
  show ?thesis
  proof (cases "hm_get (pc_entries c) (cache_key t r)")
    case None
    then show ?thesis using inv by (simp add: cache_get_def lru_step_def lru_of_def look cache_inv_def)
  next
    case (Some e)
    let ?e = "e\<lparr>cn_last_access := Suc (pc_access_counter c)\<rparr>"
    have "stamped (Suc (pc_access_counter c)) (hm_insert (cache_key t r) ?e (pc_entries c))"
      by (rule stamped_insert [OF m]) simp_all
    then show ?thesis
      using inv Some sort_insert [OF m, of ?e "cache_key t r"] touch_strip [of "cache_key t r" ?e "sort_key stamp (pc_entries c)"]
      by (simp add: cache_get_def lru_step_def lru_of_def look cache_inv_def nx Let_def)
  qed
qed

lemma step_sim:
  assumes inv: "cache_inv n c" and n: "n < usize_max" and order: "\<And>m. set (order m) = set m"
  shows "cache_inv (Suc n) (snd (cache_step order x c))
    \<and> (fst (cache_step order x c), lru_of (snd (cache_step order x c))) = lru_step x (lru_of c)"
proof (cases x)
  case (CacheGet t r)
  then show ?thesis using get_sim [OF inv n, of t r] by (simp add: cache_step_def)
next
  case (CacheInsert row)
  then show ?thesis using insert_sim [OF inv n order, of row] by (simp add: cache_step_def lru_step_def)
next
  case (CachePrefetchRow t v r)
  have ok: "hm_ok (pc_entries c)" using inv by (simp add: cache_inv_def stamped_def)
  have "map_of (lr_rows (lru_of c)) k = map_option cn_row (hm_get (pc_entries c) k)" for k
    by (simp add: lru_of_def map_of_strip map_of_sorted [OF ok])
  moreover have "lr_tick (lru_of c) = pc_current_tick c" by (simp add: lru_of_def)
  moreover have "cache_inv (Suc n) c" using inv by (simp add: cache_inv_def)
  ultimately show ?thesis
    using insert_sim [OF inv n order, of "\<lparr>cw_tick = pc_current_tick c, cw_table = t, cw_row_id = r, cw_view = v\<rparr>"]
    by (simp add: CachePrefetchRow cache_step_def lru_step_def prefetch_row_def hm_contains_def)
qed (use inv in \<open>auto simp: cache_step_def lru_step_def cache_set_tick_def cache_clear_def rebuild_from_authority_def
    lru_of_def cache_inv_def stamped_def\<close>)

lemma run_sim:
  assumes "cache_inv n c" and "n + length xs \<le> usize_max" and order: "\<And>m. set (order m) = set m"
  shows "fst (outputs (cache_step order) xs c) = fst (outputs lru_step xs (lru_of c))
    \<and> lru_of (snd (outputs (cache_step order) xs c)) = snd (outputs lru_step xs (lru_of c))"
  using assms(1,2)
proof (induction xs arbitrary: n c)
  case (Cons x xs)
  obtain r c1 where c1: "cache_step order x c = (r, c1)" by (cases "cache_step order x c")
  have "cache_inv (Suc n) c1" "lru_step x (lru_of c) = (r, lru_of c1)"
    using step_sim [OF Cons.prems(1) _ order, of x] Cons.prems(2) c1 by auto
  then show ?case using Cons.IH [of "Suc n" c1] Cons.prems(2) c1 by (auto split: prod.splits)
qed simp

text \<open>C12: The prefetch cache is a least-recently-used list: over every sequence of lookups,
  insertions, prefetches, tick changes and clears that the 64-bit counter can number, whatever
  the iteration order of the map, every lookup answers as the list does and the cache holds
  the list's rows. Insertion at capacity drops the least recently used row before it looks
  whether the key is present.\<close>

theorem cache_is_lru_list:
  fixes xs :: "'b cache_op list"
  assumes "length xs \<le> usize_max" and "\<And>m. set (order m) = set m"
  shows "fst (outputs (cache_step order) xs (cache_new capacity)) =
      fst (outputs lru_step xs \<lparr>lr_capacity = capacity, lr_tick = tick_ZERO, lr_rows = []\<rparr>)
    \<and> lru_of (snd (outputs (cache_step order) xs (cache_new capacity))) =
      snd (outputs lru_step xs \<lparr>lr_capacity = capacity, lr_tick = tick_ZERO, lr_rows = []\<rparr>)"
proof -
  have "lru_of (cache_new capacity :: 'b prefetch_cache) = \<lparr>lr_capacity = capacity, lr_tick = tick_ZERO, lr_rows = []\<rparr>"
    by (simp add: lru_of_def cache_new_def)
  moreover have inv: "cache_inv 0 (cache_new capacity :: 'b prefetch_cache)" by (simp add: cache_inv_def stamped_def cache_new_def)
  have "0 + length xs \<le> usize_max" using assms(1) by simp
  note run_sim [OF inv this assms(2)]
  ultimately show ?thesis by simp
qed

definition demo_row :: "u64 \<Rightarrow> nat cached_row" where
  "demo_row n = \<lparr>cw_tick = Tick 0, cw_table = ''units'', cw_row_id = RowId n, 
     cw_view = \<lparr>rv_table_name = ''units'', rv_tick = Tick 0, rv_batches = [], rv_schema = demo_spec,
       rv_position_map = rpm_new\<rparr>\<rparr>"

lemma cache_is_lru_list_witness:
  "map (map_option cw_row_id) (fst (outputs (cache_step (\<lambda>m. m))
     [CacheInsert (demo_row 1), CacheInsert (demo_row 2), CacheGet ''units'' (RowId 1), CacheInsert (demo_row 3),
      CacheGet ''units'' (RowId 2), CacheGet ''units'' (RowId 1)] (cache_new 2)))
   = [None, None, Some (RowId 1), None, None, Some (RowId 1)]"
  using cache_is_lru_list [of "[CacheInsert (demo_row 1), CacheInsert (demo_row 2), CacheGet ''units'' (RowId 1),
      CacheInsert (demo_row 3), CacheGet ''units'' (RowId 2), CacheGet ''units'' (RowId 1)]" "\<lambda>m. m" 2]
  by (simp add: usize_max_def lru_step_def lru_insert_def touch_def cache_key_def demo_row_def)

end
