(* ===== verification/Compilation.thy ===== *)
theory Compilation
  imports Content Query_Views
begin

section \<open>Content compilation (scharnhorst\_content: compilation.rs)\<close>

text \<open>
  Raw table definitions, rows as columns of text, are compiled into an Arrow store and a
  schema registry. The store and the registry are local to \<open>compile\<close>, so a failure leaves
  nothing behind and a step returns either an error or the new values. \<open>order\<close> lists the
  tables of the relation graph, \<open>ds\<close> is the \<open>Debug\<close> form of a string.
\<close>

subsection \<open>Error texts (error.rs)\<close>

fun content_error_text :: "content_error \<Rightarrow> string" where
  "content_error_text (OverlayNotFound s) = ''overlay not found: '' @ s"
| "content_error_text (OverlayConflict s) = ''overlay conflict: '' @ s"
| "content_error_text (NameResolutionFailed s) = ''name resolution failed: '' @ s"
| "content_error_text (DuplicateName s) = ''duplicate name: '' @ s"
| "content_error_text (CompilationFailed t r) = ''compilation failed for table '' @ t @ '': '' @ r"
| "content_error_text (SchemaMismatch e g) = ''schema mismatch: expected '' @ e @ '', got '' @ g"
| "content_error_text (ModFingerprintMismatch m e g) =
     ''mod fingerprint mismatch: mod='' @ m @ '' expected='' @ e @ '' got='' @ g"
| "content_error_text (ContentManifestSerialization s) = ''manifest serialization error: '' @ s"
| "content_error_text (InvalidPhaseTransition f t) = ''invalid lifecycle phase transition: '' @ f @ '' -> '' @ t"
| "content_error_text (PhaseAlreadyCompleted s) = ''lifecycle phase '' @ s @ '' already completed''"
| "content_error_text ContentRegistryFrozen = ''schema registry is frozen''"
| "content_error_text (ContentIo s) = ''io error: '' @ s"
| "content_error_text (ContentGeneric s) = ''generic error: '' @ s"
| "content_error_text (ContentCore e) = core_error_text e"
| "content_error_text (ContentSchema e) = schema_error_text e"
| "content_error_text (ContentArrowStore s) = s"

subsection \<open>Input and output\<close>

record raw_table_def =
  rd_spec :: table_spec
  rd_rows :: "(string \<times> string list) list"

record compilation_input =
  ci_tables :: "raw_table_def list"
  ci_overlays :: overlay_resolver
  ci_resolver :: namespace_resolver
  ci_migrated_manifest :: "migrated_schema_manifest option"

definition compilation_input_new :: compilation_input where
  "compilation_input_new = \<lparr>ci_tables = [], ci_overlays = overlay_resolver_new,
     ci_resolver = namespace_resolver_new, ci_migrated_manifest = None\<rparr>"

definition input_with_table :: "compilation_input \<Rightarrow> raw_table_def \<Rightarrow> compilation_input" where
  "input_with_table i def = i\<lparr>ci_tables := ci_tables i @ [def]\<rparr>"

record ('j, 'a, 'b) compilation_output =
  co_store :: "('j, 'a, 'b) arrow_store"
  co_registry :: schema_registry
  co_resolver :: namespace_resolver
  co_tier_registry :: tier_registry
  co_relation_edges :: "relation_edge list"
  co_fingerprints :: "mod_fingerprint list"
  co_migrated_manifest :: "migrated_schema_manifest option"

subsection \<open>Batches\<close>

definition build_record_batch_from_strings ::
  "('b, 'a, 's, 'fl) arrow_api \<Rightarrow> table_spec \<Rightarrow> (string \<times> string list) list \<Rightarrow> content_error + 'b" where
  "build_record_batch_from_strings A spec rows =
     rbind (map_result (\<lambda>col.
       rbind (ok_or (hm_get rows (col_name col))
         (CompilationFailed (ts_name spec) (''missing column data: '' @ col_name col))) (\<lambda>values.
       Inr (ar_str_from A Utf8 (map Some values)))) (ts_columns spec)) (\<lambda>arrays.
     map_err (\<lambda>e. CompilationFailed (ts_name spec) (''arrow batch error: '' @ e))
       (ar_try_new A (ar_schema_new A (map (\<lambda>c. (col_name c, Utf8, col_nullable c)) (ts_columns spec))) arrays))"

definition build_batches :: "('b, 'a, 's, 'fl) arrow_api \<Rightarrow> raw_table_def \<Rightarrow> content_error + 'b list" where
  "build_batches A def =
     (if rd_rows def = [] then Inr []
      else rbind (map_err (\<lambda>e. CompilationFailed (ts_name (rd_spec def)) (content_error_text e))
             (build_record_batch_from_strings A (rd_spec def) (rd_rows def))) (\<lambda>b. Inr [b]))"

subsection \<open>Compiling\<close>

definition compile_table ::
  "('b, 'a, 's, 'fl) arrow_api \<Rightarrow> ('j, 'a, 'b) arrow_store \<times> schema_registry \<Rightarrow> raw_table_def
     \<Rightarrow> content_error + ('j, 'a, 'b) arrow_store \<times> schema_registry" where
  "compile_table A sr def = (case sr of (s, reg) \<Rightarrow>
     let name = ts_name (rd_spec def) in
     rbind (map_err (\<lambda>e. CompilationFailed name (''registry error: '' @ schema_error_text e))
       (register reg (rd_spec def))) (\<lambda>reg1.
     case create_table s (rd_spec def) AppendOnly of
       (Inl e, _) \<Rightarrow> Inl (CompilationFailed name (''store error: '' @ store_error_text e))
     | (Inr _, s1) \<Rightarrow>
         rbind (build_batches A def) (\<lambda>batches.
         case append_batches s1 name tick_ZERO batches of
           (Inl e, _) \<Rightarrow> Inl (CompilationFailed name (''batch append error: '' @ store_error_text e))
         | (Inr _, s2) \<Rightarrow> Inr (s2, reg1))))"

definition strings_debug :: "(string \<Rightarrow> string) \<Rightarrow> string list \<Rightarrow> string" where
  "strings_debug ds xs = ''['' @ join '', '' (map ds xs) @ '']''"

definition compile_relation :: "schema_registry \<Rightarrow> relation_edge \<Rightarrow> content_error + schema_registry" where
  "compile_relation reg edge =
     map_err (\<lambda>e. CompilationFailed (re_from edge) (''relation error: '' @ schema_error_text e)) (add_relation reg edge)"

text \<open>The part of \<open>compile\<close> for a migrated manifest.\<close>

definition compile_manifest ::
  "(string \<Rightarrow> string) \<Rightarrow> (string list \<Rightarrow> string list) \<Rightarrow> raw_table_def list \<Rightarrow> schema_registry \<Rightarrow> migrated_schema_manifest
     \<Rightarrow> content_error + relation_edge list \<times> mod_fingerprint list \<times> schema_registry" where
  "compile_manifest ds order defs reg migrated =
     (case find (\<lambda>t. \<not> hm_contains (sr_tables reg) (ts_name t)) (sm_tables (mm_manifest migrated)) of
        Some t \<Rightarrow> Inl (CompilationFailed (ts_name t) ''table from manifest not found in compiled output'')
      | None \<Rightarrow>
          let edges = sm_relations (mm_manifest migrated); fps = sm_mod_fingerprints (mm_manifest migrated) in
          rbind (map_err (\<lambda>e. CompilationFailed ''schema_registry'' (''set_migrated_manifest failed: '' @ schema_error_text e))
            (set_migrated_manifest reg migrated)) (\<lambda>reg1.
          rbind (try_fold compile_relation reg1 edges) (\<lambda>reg2.
          case detect_cycles (sr_relations reg2)
                 (order (concat (map (\<lambda>e. [re_from e, re_to e]) (rg_edges (sr_relations reg2))))) of
            c # _ \<Rightarrow> Inl (CompilationFailed ''relation_graph'' (''cycle detected: '' @ strings_debug ds c))
          | [] \<Rightarrow>
              let fps1 = map (\<lambda>fp. compute_hash ds fp ''content_compilation'' (map rd_spec defs)) fps in
              rbind (map_err (\<lambda>e. CompilationFailed ''fingerprints'' (''fingerprint storage error: '' @ schema_error_text e))
                (store_mod_fingerprints reg2 fps1)) (\<lambda>reg3. Inr (edges, fps1, reg3)))))"

definition compile_tier :: "tier_registry \<Rightarrow> raw_table_def \<Rightarrow> content_error + tier_registry" where
  "compile_tier tiers def =
     (let name = ts_name (rd_spec def) in
      if ts_tier (rd_spec def) \<noteq> Authority then
        Inl (CompilationFailed name (''content compilation only supports Authority-tier tables; '' @ quoted name
          @ '' has tier '' @ state_tier_debug (ts_tier (rd_spec def))))
      else map_err (\<lambda>e. CompilationFailed name (''tier registration error: '' @ core_error_text e))
        (tier_register tiers name Authority ''content_loader'' (''Compiled content table: '' @ name)))"

definition compile ::
  "('j, 'fl) json_api \<Rightarrow> ('b, 'a, 's, 'fl) arrow_api \<Rightarrow> (string \<Rightarrow> string) \<Rightarrow> (string list \<Rightarrow> string list)
     \<Rightarrow> compilation_input \<Rightarrow> content_error + ('j, 'a, 'b) compilation_output" where
  "compile J A ds order i =
     rbind (try_fold (compile_table A) (arrow_store_new J A, schema_registry_new) (ci_tables i)) (\<lambda>(s, reg).
     rbind (case ci_migrated_manifest i of
              Some migrated \<Rightarrow> compile_manifest ds order (ci_tables i) reg migrated
            | None \<Rightarrow> Inr ([], [], reg)) (\<lambda>(edges, fps, reg1).
     rbind (try_fold compile_tier tier_registry_new (ci_tables i)) (\<lambda>tiers.
     Inr \<lparr>co_store = s, co_registry = freeze reg1, co_resolver = ci_resolver i, co_tier_registry = tiers,
       co_relation_edges = edges, co_fingerprints = fps, co_migrated_manifest = ci_migrated_manifest i\<rparr>)))"

subsection \<open>What a compilation builds\<close>

abbreviation rd_name :: "raw_table_def \<Rightarrow> string" where
  "rd_name d \<equiv> ts_name (rd_spec d)"

text \<open>The table built from a definition: one version at tick 0 with one batch of text
  columns, and no row position.\<close>

definition compiled_table :: "('b, 'a, 's, 'fl) arrow_api \<Rightarrow> raw_table_def \<Rightarrow> 'b versioned_table" where
  "compiled_table A d = (set_spec (versioned_table_new (rd_name d) AppendOnly) (rd_spec d))
     \<lparr>vt_versions := [(tick_ZERO, projr (build_batches A d))]\<rparr>"

definition tables_compilable :: "('b, 'a, 's, 'fl) arrow_api \<Rightarrow> raw_table_def list \<Rightarrow> bool" where
  "tables_compilable A defs \<longleftrightarrow> distinct (map rd_name defs) \<and> [] \<notin> set (map rd_name defs)
     \<and> (\<forall>d \<in> set defs. is_ok (build_batches A d))"

definition manifest_fits :: "raw_table_def list \<Rightarrow> migrated_schema_manifest \<Rightarrow> bool" where
  "manifest_fits defs m \<longleftrightarrow> (\<forall>t \<in> set (sm_tables (mm_manifest m)). ts_name t \<in> set (map rd_name defs))
     \<and> (\<forall>e \<in> set (sm_relations (mm_manifest m)). re_from e \<in> set (map rd_name defs) \<and> re_to e \<in> set (map rd_name defs))
     \<and> is_ok (try_fold add_edge relation_graph_new (sm_relations (mm_manifest m)))"

lemma hm_insert_new: "k \<notin> fst ` set m \<Longrightarrow> hm_insert k v m = m @ [(k, v)]"
  by (induction m) auto

lemma hm_insert_twice: "hm_insert k v (hm_insert k w m) = hm_insert k v m"
  by (induction m) auto

lemma hm_contains_map: "hm_contains (map (\<lambda>d. (f d, g d)) ds) k \<longleftrightarrow> k \<in> f ` set ds"
  by (force simp: hm_contains_def map_of_eq_None_iff)

lemma compile_table_step:
  assumes "reg = schema_registry_new\<lparr>sr_tables := map (\<lambda>d. (rd_name d, rd_spec d)) defs\<rparr>"
    and "st_tables s = map (\<lambda>d. (rd_name d, compiled_table A d)) defs" and "st_lifecycle s = lifecycle_guard_new"
  shows "rd_name d = [] \<or> rd_name d \<in> rd_name ` set defs \<or> \<not> is_ok (build_batches A d) \<Longrightarrow>
      \<exists>e. compile_table A (s, reg) d = Inl e"
    and "rd_name d \<noteq> [] \<Longrightarrow> rd_name d \<notin> rd_name ` set defs \<Longrightarrow> is_ok (build_batches A d) \<Longrightarrow>
      \<exists>ids. compile_table A (s, reg) d =
        Inr (s\<lparr>st_next_table_id := st_next_table_id s + 1,
             st_tables := map (\<lambda>d. (rd_name d, compiled_table A d)) (defs @ [d]), st_table_id_map := ids\<rparr>,
           schema_registry_new\<lparr>sr_tables := map (\<lambda>d. (rd_name d, rd_spec d)) (defs @ [d])\<rparr>)"
proof -
  have lc: "\<not> lg_is_simulation (st_lifecycle s)" by (simp add: assms lg_is_simulation_def lifecycle_guard_new_def)
  note step = compile_table_def Let_def register_def schema_registry_new_def hm_contains_map create_table_def init_only_def
  show "\<exists>e. compile_table A (s, reg) d = Inl e"
    if "rd_name d = [] \<or> rd_name d \<in> rd_name ` set defs \<or> \<not> is_ok (build_batches A d)"
    using that lc by (cases "build_batches A d") (auto simp: assms(1,2) step)
  assume ok: "rd_name d \<noteq> []" "rd_name d \<notin> rd_name ` set defs" "is_ok (build_batches A d)"
  then obtain bs where bs: "build_batches A d = Inr bs" by (auto simp: is_ok_iff)
  have new: "rd_name d \<notin> fst ` set (map (\<lambda>d. (rd_name d, f d)) defs)" for f :: "raw_table_def \<Rightarrow> 'x"
    using ok(2) by (auto simp: image_iff)
  have "\<exists>ids. compile_table A (s, reg) d =
        Inr (s\<lparr>st_next_table_id := st_next_table_id s + 1,
             st_tables := hm_insert (rd_name d) (compiled_table A d) (st_tables s), st_table_id_map := ids\<rparr>,
           reg\<lparr>sr_tables := hm_insert (rd_name d) (rd_spec d) (sr_tables reg)\<rparr>)"
    using ok lc by (intro exI [of _ "hm_insert (TableId (st_next_table_id s)) (rd_name d) (st_table_id_map s)"])
      (auto simp: assms(1,2) step bs append_batches_def on_table_def hm_insert_twice
        compiled_table_def set_spec_def versioned_table_new_def)
  then show "\<exists>ids. compile_table A (s, reg) d =
        Inr (s\<lparr>st_next_table_id := st_next_table_id s + 1,
             st_tables := map (\<lambda>d. (rd_name d, compiled_table A d)) (defs @ [d]), st_table_id_map := ids\<rparr>,
           schema_registry_new\<lparr>sr_tables := map (\<lambda>d. (rd_name d, rd_spec d)) (defs @ [d])\<rparr>)"
    by (simp add: assms(1,2) hm_insert_new [OF new])
qed

lemma compile_tables:
  "case try_fold (compile_table A) (arrow_store_new J A, schema_registry_new) defs of
     Inl _ \<Rightarrow> \<not> tables_compilable A defs
   | Inr (s, reg) \<Rightarrow> tables_compilable A defs
       \<and> reg = schema_registry_new\<lparr>sr_tables := map (\<lambda>d. (rd_name d, rd_spec d)) defs\<rparr>
       \<and> st_tables s = map (\<lambda>d. (rd_name d, compiled_table A d)) defs
       \<and> st_next_table_id s = of_nat (length defs) \<and> st_lifecycle s = lifecycle_guard_new \<and> st_snapshots s = []"
proof (induction defs rule: rev_induct)
  case Nil
  show ?case by (simp add: tables_compilable_def arrow_store_new_def schema_registry_new_def)
next
  case (snoc d defs)
  show ?case
  proof (cases "try_fold (compile_table A) (arrow_store_new J A, schema_registry_new) defs")
    case (Inl e)
    then show ?thesis using snoc by (auto simp: try_fold_append tables_compilable_def)
  next
    case (Inr sr)
    obtain s reg where sr: "sr = (s, reg)" by (cases sr)
    note IH = snoc [unfolded Inr sr, simplified]
    note step = compile_table_step [of reg defs s A d]
    show ?thesis
    proof (cases "rd_name d \<noteq> [] \<and> rd_name d \<notin> rd_name ` set defs \<and> is_ok (build_batches A d)")
      case True
      then show ?thesis using IH Inr sr step(2) by (auto simp: try_fold_append tables_compilable_def)
    next
      case False
      then obtain e where "compile_table A (s, reg) d = Inl e" using IH step(1) by blast
      then show ?thesis using False Inr sr by (auto simp: try_fold_append tables_compilable_def)
    qed
  qed
qed


lemma compile_relations:
  assumes "\<not> sr_frozen reg"
  shows "try_fold compile_relation reg edges = Inr reg' \<longleftrightarrow>
     (\<forall>e \<in> set edges. hm_contains (sr_tables reg) (re_from e) \<and> hm_contains (sr_tables reg) (re_to e))
     \<and> (\<exists>g. try_fold add_edge (sr_relations reg) edges = Inr g \<and> reg' = reg\<lparr>sr_relations := g\<rparr>)"
  using assms
proof (induction edges arbitrary: reg)
  case (Cons e edges)
  show ?case
  proof (cases "compile_relation reg e")
    case (Inl err)
    then show ?thesis using Cons.prems
      by (auto simp: compile_relation_def add_relation_def split: if_splits elim: rbind.elims map_err.elims)
  next
    case (Inr reg1)
    then obtain g where g: "add_edge (sr_relations reg) e = Inr g" "reg1 = reg\<lparr>sr_relations := g\<rparr>"
      "hm_contains (sr_tables reg) (re_from e)" "hm_contains (sr_tables reg) (re_to e)"
      using Cons.prems by (auto simp: compile_relation_def add_relation_def split: if_splits)
    then show ?thesis using Inr Cons.IH [of reg1] Cons.prems by simp
  qed
qed auto

text \<open>\<open>add_relation\<close> refuses every edge that closes a cycle, so the search for cycles that
  follows never finds one.\<close>

lemma edges_acyclic:
  "try_fold add_edge relation_graph_new edges = Inr g \<Longrightarrow> rg_inv g \<and> rg_unique g \<and> acyclic (rg_rel g)"
  using try_fold_invariant [of add_edge relation_graph_new edges g "\<lambda>g. rg_inv g \<and> rg_unique g \<and> acyclic (rg_rel g)"]
    add_edge_inv sr_inv_new(1) by (auto simp: sr_inv_def schema_registry_new_def)

lemma compile_manifest_Inr:
  assumes order: "\<And>xs. set (order xs) = set xs"
    and reg: "reg = schema_registry_new\<lparr>sr_tables := map (\<lambda>d. (rd_name d, rd_spec d)) defs\<rparr>"
  shows "compile_manifest ds order defs reg m = Inr (edges, fps, reg') \<longleftrightarrow>
     manifest_fits defs m \<and> edges = sm_relations (mm_manifest m)
     \<and> fps = map (\<lambda>fp. compute_hash ds fp ''content_compilation'' (map rd_spec defs)) (sm_mod_fingerprints (mm_manifest m))
     \<and> (\<exists>g. try_fold add_edge relation_graph_new (sm_relations (mm_manifest m)) = Inr g
          \<and> reg' = reg\<lparr>sr_migrated_manifest := Some m, sr_relations := g, sr_mod_fingerprints := fps\<rparr>)"
proof -
  let ?m = "mm_manifest m"
  have free: "\<not> sr_frozen (reg\<lparr>sr_migrated_manifest := Some m\<rparr>)" by (simp add: reg schema_registry_new_def)
  have none: "detect_cycles g (order (concat (map (\<lambda>e. [re_from e, re_to e]) (rg_edges g)))) = []"
    if "try_fold add_edge relation_graph_new (sm_relations ?m) = Inr g" for g
    using edges_acyclic [OF that] by (intro detect_cycles_acyclic) (simp_all add: order rg_tables_def)
  have found: "find (\<lambda>t. \<not> hm_contains (sr_tables reg) (ts_name t)) (sm_tables ?m) = None
      \<longleftrightarrow> (\<forall>t \<in> set (sm_tables ?m). ts_name t \<in> set (map rd_name defs))"
    by (auto simp: find_None_iff reg hm_contains_map)
  have set_m: "set_migrated_manifest reg m = Inr (reg\<lparr>sr_migrated_manifest := Some m\<rparr>)"
    by (simp add: set_migrated_manifest_def reg schema_registry_new_def)
  have store: "store_mod_fingerprints (reg\<lparr>sr_migrated_manifest := Some m, sr_relations := g\<rparr>) fs =
      Inr (reg\<lparr>sr_migrated_manifest := Some m, sr_relations := g, sr_mod_fingerprints := fs\<rparr>)" for g fs
    by (simp add: store_mod_fingerprints_def reg schema_registry_new_def)
  have rel: "try_fold compile_relation (reg\<lparr>sr_migrated_manifest := Some m\<rparr>) (sm_relations ?m) = Inr r \<longleftrightarrow>
      (\<forall>e \<in> set (sm_relations ?m). re_from e \<in> set (map rd_name defs) \<and> re_to e \<in> set (map rd_name defs))
      \<and> (\<exists>g. try_fold add_edge relation_graph_new (sm_relations ?m) = Inr g
           \<and> r = reg\<lparr>sr_migrated_manifest := Some m, sr_relations := g\<rparr>)" for r
    by (simp add: compile_relations [OF free]) (simp add: reg hm_contains_map schema_registry_new_def)
  show ?thesis
  proof (cases "find (\<lambda>t. \<not> hm_contains (sr_tables reg) (ts_name t)) (sm_tables ?m)")
    case (Some t)
    then show ?thesis using found by (auto simp: compile_manifest_def manifest_fits_def)
  next
    case None
    then have fits: "manifest_fits defs m \<longleftrightarrow> is_ok (try_fold compile_relation (reg\<lparr>sr_migrated_manifest := Some m\<rparr>) (sm_relations ?m))"
      using found by (auto simp: manifest_fits_def is_ok_iff rel)
    show ?thesis
    proof (cases "try_fold compile_relation (reg\<lparr>sr_migrated_manifest := Some m\<rparr>) (sm_relations ?m)")
      case (Inl e)
      then show ?thesis using fits by (simp add: compile_manifest_def None set_m Let_def)
    next
      case (Inr r)
      then obtain g where "try_fold add_edge relation_graph_new (sm_relations ?m) = Inr g"
        "r = reg\<lparr>sr_migrated_manifest := Some m, sr_relations := g\<rparr>" using rel by blast
      then show ?thesis using fits Inr none store by (auto simp: compile_manifest_def None set_m Let_def)
    qed
  qed
qed

definition content_tier :: "string \<Rightarrow> tier_metadata" where
  "content_tier name = \<lparr>tm_tier = Authority, tm_owner_subsystem = ''content_loader'',
     tm_description = ''Compiled content table: '' @ name\<rparr>"

lemma compile_tier_Inr:
  "compile_tier tiers d = Inr tiers' \<longleftrightarrow> ts_tier (rd_spec d) = Authority \<and> rd_name d \<notin> fst ` set tiers
     \<and> tiers' = tiers @ [(rd_name d, content_tier (rd_name d))]"
  using map_of_eq_None_iff [of tiers "rd_name d"] hm_insert_new [of "rd_name d" tiers]
  by (cases "hm_get tiers (rd_name d)") (auto simp: compile_tier_def Let_def tier_register_def content_tier_def)

lemma compile_tiers:
  "try_fold compile_tier tier_registry_new defs = Inr tiers \<longleftrightarrow>
     distinct (map rd_name defs) \<and> (\<forall>d \<in> set defs. ts_tier (rd_spec d) = Authority)
     \<and> tiers = map (\<lambda>d. (rd_name d, content_tier (rd_name d))) defs"
proof (induction defs arbitrary: tiers rule: rev_induct)
  case (snoc d defs)
  show ?case by (auto simp: try_fold_append snoc compile_tier_Inr image_iff)
qed (auto simp: tier_registry_new_def)


lemma add_edges_edges: "try_fold add_edge g edges = Inr g' \<Longrightarrow> rg_edges g' = rg_edges g @ edges"
  by (induction edges arbitrary: g) (force simp: add_edge_def split: if_splits)+

lemma compile_Inr:
  assumes order: "\<And>xs. set (order xs) = set xs"
  shows "compile J A ds order i = Inr out \<Longrightarrow> tables_compilable A (ci_tables i)
      \<and> (\<forall>d \<in> set (ci_tables i). ts_tier (rd_spec d) = Authority)
      \<and> (\<forall>m. ci_migrated_manifest i = Some m \<longrightarrow> manifest_fits (ci_tables i) m)
      \<and> st_tables (co_store out) = map (\<lambda>d. (rd_name d, compiled_table A d)) (ci_tables i)
      \<and> sr_tables (co_registry out) = map (\<lambda>d. (rd_name d, rd_spec d)) (ci_tables i) \<and> sr_frozen (co_registry out)
      \<and> co_tier_registry out = map (\<lambda>d. (rd_name d, content_tier (rd_name d))) (ci_tables i)
      \<and> rg_edges (sr_relations (co_registry out)) = co_relation_edges out
      \<and> co_relation_edges out = (case ci_migrated_manifest i of None \<Rightarrow> [] | Some m \<Rightarrow> sm_relations (mm_manifest m))
      \<and> acyclic (rg_rel (sr_relations (co_registry out)))"
    and "tables_compilable A (ci_tables i) \<Longrightarrow> (\<forall>d \<in> set (ci_tables i). ts_tier (rd_spec d) = Authority) \<Longrightarrow>
      (\<forall>m. ci_migrated_manifest i = Some m \<longrightarrow> manifest_fits (ci_tables i) m) \<Longrightarrow> is_ok (compile J A ds order i)"
proof -
  let ?defs = "ci_tables i"
  let ?reg = "schema_registry_new\<lparr>sr_tables := map (\<lambda>d. (rd_name d, rd_spec d)) ?defs\<rparr>"
  note tables = compile_tables [where A = A and J = J and defs = ?defs]
  note manifest = compile_manifest_Inr [where order = order, OF order refl, of ds ?defs]
  have new: "rg_edges relation_graph_new = []" "acyclic (rg_rel relation_graph_new)"
    by (simp_all add: relation_graph_new_def rg_rel_def acyclic_def)
  show "tables_compilable A ?defs
      \<and> (\<forall>d \<in> set ?defs. ts_tier (rd_spec d) = Authority)
      \<and> (\<forall>m. ci_migrated_manifest i = Some m \<longrightarrow> manifest_fits ?defs m)
      \<and> st_tables (co_store out) = map (\<lambda>d. (rd_name d, compiled_table A d)) ?defs
      \<and> sr_tables (co_registry out) = map (\<lambda>d. (rd_name d, rd_spec d)) ?defs \<and> sr_frozen (co_registry out)
      \<and> co_tier_registry out = map (\<lambda>d. (rd_name d, content_tier (rd_name d))) ?defs
      \<and> rg_edges (sr_relations (co_registry out)) = co_relation_edges out
      \<and> co_relation_edges out = (case ci_migrated_manifest i of None \<Rightarrow> [] | Some m \<Rightarrow> sm_relations (mm_manifest m))
      \<and> acyclic (rg_rel (sr_relations (co_registry out)))"
    if ok: "compile J A ds order i = Inr out"
  proof -
    from ok obtain s edges fps reg1 tiers where
      s: "try_fold (compile_table A) (arrow_store_new J A, schema_registry_new) ?defs = Inr (s, ?reg)"
      and m: "(case ci_migrated_manifest i of Some m \<Rightarrow> compile_manifest ds order ?defs ?reg m
         | None \<Rightarrow> Inr ([], [], ?reg)) = Inr (edges, fps, reg1)"
      and t: "try_fold compile_tier tier_registry_new ?defs = Inr tiers"
      and out: "out = \<lparr>co_store = s, co_registry = freeze reg1, co_resolver = ci_resolver i, co_tier_registry = tiers,
        co_relation_edges = edges, co_fingerprints = fps, co_migrated_manifest = ci_migrated_manifest i\<rparr>"
      using tables by (auto simp: compile_def)
    show ?thesis
    proof (cases "ci_migrated_manifest i")
      case None
      then show ?thesis using m s t tables new
        by (auto simp add: compile_tiers out freeze_def schema_registry_new_def)
    next
      case (Some mm)
      then obtain g where g: "try_fold add_edge relation_graph_new (sm_relations (mm_manifest mm)) = Inr g"
        "edges = sm_relations (mm_manifest mm)" "manifest_fits ?defs mm"
        "reg1 = ?reg\<lparr>sr_migrated_manifest := Some mm, sr_relations := g, sr_mod_fingerprints := fps\<rparr>"
        using m by (auto simp: manifest)
      then show ?thesis using Some s t tables new edges_acyclic [OF g(1)] add_edges_edges [OF g(1)]
        by (simp add: compile_tiers out freeze_def)
    qed
  qed
  assume ok: "tables_compilable A ?defs" "\<forall>d \<in> set ?defs. ts_tier (rd_spec d) = Authority"
    "\<forall>m. ci_migrated_manifest i = Some m \<longrightarrow> manifest_fits ?defs m"
  obtain s where s: "try_fold (compile_table A) (arrow_store_new J A, schema_registry_new) ?defs = Inr (s, ?reg)"
    using tables ok(1) by (auto split: sum.splits prod.splits)
  obtain tiers where t: "try_fold compile_tier tier_registry_new ?defs = Inr tiers"
    using compile_tiers ok(1,2) by (auto simp: tables_compilable_def)
  show "is_ok (compile J A ds order i)"
  proof (cases "ci_migrated_manifest i")
    case None
    then show ?thesis by (simp add: compile_def s t)
  next
    case (Some m)
    with ok(3) have fits: "manifest_fits ?defs m" by blast
    then obtain g where "try_fold add_edge relation_graph_new (sm_relations (mm_manifest m)) = Inr g"
      by (auto simp: manifest_fits_def is_ok_iff)
    note g = this
    have "\<exists>edges fps reg'. compile_manifest ds order ?defs ?reg m = Inr (edges, fps, reg')"
      by (intro exI, rule iffD2 [OF manifest], intro conjI exI) (rule fits refl g)+
    then show ?thesis using Some by (auto simp add: compile_def s t)
  qed
qed

text \<open>The rows of a compiled table have no position, so no update or delete reaches them.\<close>

lemma compiled_rows_have_no_position:
  "apply_update_to_table I J A (compiled_table A d) name tick row column v =
     (Inl (SEGeneric (''row not found in position map: table='' @ name @ '', row_id='' @ show_u64 (row_id_as_u64 row))),
      compiled_table A d)"
  by (simp add: apply_update_to_table_def compiled_table_def set_spec_def versioned_table_new_def rpm_new_def position_of_def)

text \<open>C27: Compilation succeeds exactly if the tables have distinct non-empty names, text for every
  column in batches Arrow accepts and the authority tier, and the manifest names only compiled
  tables and relations that can be added one by one; the cycle search afterwards never fires.
  Then the store holds exactly one table per definition, the frozen registry and the tiers
  name the same tables, and the relations are the manifest's and acyclic. The overlays of the
  input have no effect.\<close>

theorem compile_correct:
  assumes "\<And>xs. set (order xs) = set xs"
  shows "(is_ok (compile J A ds order i) \<longleftrightarrow> tables_compilable A (ci_tables i)
        \<and> (\<forall>d \<in> set (ci_tables i). ts_tier (rd_spec d) = Authority)
        \<and> (\<forall>m. ci_migrated_manifest i = Some m \<longrightarrow> manifest_fits (ci_tables i) m))
    \<and> (\<forall>out. compile J A ds order i = Inr out \<longrightarrow>
          st_tables (co_store out) = map (\<lambda>d. (rd_name d, compiled_table A d)) (ci_tables i)
        \<and> sr_tables (co_registry out) = map (\<lambda>d. (rd_name d, rd_spec d)) (ci_tables i) \<and> sr_frozen (co_registry out)
        \<and> co_tier_registry out = map (\<lambda>d. (rd_name d, content_tier (rd_name d))) (ci_tables i)
        \<and> rg_edges (sr_relations (co_registry out)) = co_relation_edges out
        \<and> co_relation_edges out = (case ci_migrated_manifest i of None \<Rightarrow> [] | Some m \<Rightarrow> sm_relations (mm_manifest m))
        \<and> acyclic (rg_rel (sr_relations (co_registry out))))
    \<and> compile J A ds order (i\<lparr>ci_overlays := overlays\<rparr>) = compile J A ds order i"
proof -
  have "compile J A ds order (i\<lparr>ci_overlays := overlays\<rparr>) = compile J A ds order i"
    by (simp add: compile_def cong: option.case_cong)
  then show ?thesis
    using compile_Inr [where order = order, OF assms, where J = J and A = A and ds = ds and i = i]
    unfolding is_ok_iff by blast
qed

definition demo_raw_table :: raw_table_def where
  "demo_raw_table = \<lparr>rd_spec = (table_spec_new ''unit'')\<lparr>ts_columns := [column_spec_new ''name'' SemName ''string''],
       ts_column_index := [''name'' \<mapsto> 0]\<rparr>,
     rd_rows = [(''name'', [''a'', ''b''])]\<rparr>"

theorem compile_correct_witness:
  "\<exists>out. compile demo_json list_arrow (\<lambda>s. s) (\<lambda>xs. xs) (input_with_table compilation_input_new demo_raw_table) = Inr out
     \<and> map fst (st_tables (co_store out)) = [''unit'']"
proof -
  let ?i = "input_with_table compilation_input_new demo_raw_table"
  have i: "ci_tables ?i = [demo_raw_table]" "ci_migrated_manifest ?i = None"
    by (simp_all add: input_with_table_def compilation_input_new_def)
  have d: "ts_columns (rd_spec demo_raw_table) = [column_spec_new ''name'' SemName ''string'']"
    "rd_rows demo_raw_table = [(''name'', [''a'', ''b''])]" "rd_name demo_raw_table = ''unit''"
    "ts_tier (rd_spec demo_raw_table) = Authority"
    by (simp_all add: demo_raw_table_def table_spec_new_def)
  have "is_ok (build_batches list_arrow demo_raw_table)"
    by (simp add: build_batches_def d build_record_batch_from_strings_def column_spec_new_def lfit_def lnum_rows_def
        lcell_def fresh_col_def image_iff less_Suc_eq Ball_def)
  then have "tables_compilable list_arrow (ci_tables ?i)" by (simp add: i tables_compilable_def d)
  then show ?thesis
    using compile_correct [where order = "\<lambda>xs. xs" and J = demo_json and A = list_arrow and ds = "\<lambda>s. s" and i = ?i
      and overlays = overlay_resolver_new, OF refl]
    by (auto simp: is_ok_iff i d)
qed

end
