(* ===== verification/Save_Files.thy ===== *)
theory Save_Files
  imports Compilation Journal
begin

section \<open>Snapshots on disk (scharnhorst\_save)\<close>

text \<open>
  error.rs, snapshot\_persistence.rs, snapshot\_manager.rs and checkpoint.rs. The file system
  is part of the state: the directories that exist and the contents of the files, a byte
  being a \<open>char\<close>. A call fails where a file or directory it needs is missing or a read
  reaches the end of a file; other I/O errors and failing allocations are not modelled. The
  text and parsing of a header (serde) and the UTF-8 check are parameters.
\<close>

unbundle bit_operations_syntax

subsection \<open>Errors\<close>

datatype save_error =
    SVSnapshotNotFound string
  | SVSnapshotAlreadyExists string
  | SVCorruptedSnapshot string
  | SVStateHashMismatch u64 u64
  | SVJournalTruncation string
  | SVJournalReplay u64 string
  | SVMigrationFailed string string string
  | SVNoMigrationPath string
  | SVModFingerprintMismatch string string string
  | SVCriticalModMissing string
  | SVModToleranceViolation string
  | SVInvalidPhaseTransition string string
  | SVPhaseAlreadyCompleted string
  | SVIpcSerialization string
  | SVIpcDeserialization string
  | SVIo string
  | SVGeneric string
  | SVCore core_error
  | SVSchema schema_error
  | SVArrowStore arrow_store_error
  | SVJournal journal_error
  | SVQuery query_error
  | SVContent content_error

fun save_error_text :: "save_error \<Rightarrow> string" where
  "save_error_text (SVSnapshotNotFound s) = ''snapshot not found: '' @ s"
| "save_error_text (SVSnapshotAlreadyExists s) = ''snapshot already exists: '' @ s"
| "save_error_text (SVCorruptedSnapshot s) = ''corrupted snapshot: '' @ s"
| "save_error_text (SVStateHashMismatch e g) = ''state hash mismatch: expected '' @ show_u64 e @ '', got '' @ show_u64 g"
| "save_error_text (SVJournalTruncation s) = ''journal truncation failed: '' @ s"
| "save_error_text (SVJournalReplay t r) = ''journal replay failed at tick '' @ show_u64 t @ '': '' @ r"
| "save_error_text (SVMigrationFailed f t r) = ''migration failed from version '' @ f @ '' to '' @ t @ '': '' @ r"
| "save_error_text (SVNoMigrationPath s) = ''no migration path from version '' @ s"
| "save_error_text (SVModFingerprintMismatch m e g) =
     ''mod fingerprint mismatch: mod='' @ m @ '' expected='' @ e @ '' got='' @ g"
| "save_error_text (SVCriticalModMissing s) = ''critical mod missing: '' @ s"
| "save_error_text (SVModToleranceViolation s) = ''mod load tolerance violation: '' @ s"
| "save_error_text (SVInvalidPhaseTransition f t) = ''invalid load phase transition: '' @ f @ '' -> '' @ t"
| "save_error_text (SVPhaseAlreadyCompleted s) = ''load phase '' @ s @ '' already completed''"
| "save_error_text (SVIpcSerialization s) = ''ipc serialization error: '' @ s"
| "save_error_text (SVIpcDeserialization s) = ''ipc deserialization error: '' @ s"
| "save_error_text (SVIo s) = ''io error: '' @ s"
| "save_error_text (SVGeneric s) = ''generic error: '' @ s"
| "save_error_text (SVCore e) = core_error_text e"
| "save_error_text (SVSchema e) = schema_error_text e"
| "save_error_text (SVArrowStore e) = store_error_text e"
| "save_error_text (SVJournal e) = journal_error_text e"
| "save_error_text (SVQuery e) = query_error_text e"
| "save_error_text (SVContent e) = content_error_text e"

subsection \<open>The file system\<close>

type_synonym path = "string \<times> string"

record file_system =
  fs_dirs :: "string list"
  fs_files :: "(path \<times> string) list"

definition path_exists :: "file_system \<Rightarrow> path \<Rightarrow> bool" where
  "path_exists fs p \<longleftrightarrow> hm_contains (fs_files fs) p"

definition create_dir_all :: "string \<Rightarrow> file_system \<Rightarrow> file_system" where
  "create_dir_all d fs = fs\<lparr>fs_dirs := List.insert d (fs_dirs fs)\<rparr>"

definition write_file :: "path \<Rightarrow> string \<Rightarrow> file_system \<Rightarrow> file_system" where
  "write_file p bytes fs = fs\<lparr>fs_files := hm_insert p bytes (fs_files fs)\<rparr>"

definition remove_file :: "path \<Rightarrow> file_system \<Rightarrow> file_system" where
  "remove_file p fs = fs\<lparr>fs_files := hm_remove p (fs_files fs)\<rparr>"

definition rename_file :: "path \<Rightarrow> path \<Rightarrow> file_system \<Rightarrow> file_system" where
  "rename_file p p' fs = (case hm_get (fs_files fs) p of
     None \<Rightarrow> fs | Some bytes \<Rightarrow> write_file p' bytes (remove_file p fs))"

definition dir_names :: "file_system \<Rightarrow> string \<Rightarrow> string list" where
  "dir_names fs d = map snd (filter (\<lambda>p. fst p = d) (map fst (fs_files fs)))"

text \<open>What the code calls outside the repository.\<close>

record save_env =
  se_header_to_json :: "schema_manifest \<times> tick \<times> u64 \<Rightarrow> string + string"
  se_header_of_json :: "string \<Rightarrow> string + schema_manifest \<times> tick \<times> u64"
  se_utf8 :: "string \<Rightarrow> string + string"
  se_dir_order :: "string list \<Rightarrow> string list"
  se_tables :: "(string \<times> string) list \<Rightarrow> (string \<times> string) list"

subsection \<open>snapshot\_persistence.rs\<close>

record snapshot_header =
  sh_schema_manifest :: schema_manifest
  sh_generation :: tick
  sh_state_hash :: u64

definition header_new :: "schema_manifest \<Rightarrow> tick \<Rightarrow> u64 \<Rightarrow> snapshot_header" where
  "header_new m g h = \<lparr>sh_schema_manifest = m, sh_generation = g, sh_state_hash = h\<rparr>"

record persisted_snapshot =
  ps_header :: snapshot_header
  ps_table_data :: "(string \<times> string) list"

definition persisted_new :: "snapshot_header \<Rightarrow> persisted_snapshot" where
  "persisted_new h = \<lparr>ps_header = h, ps_table_data = []\<rparr>"

definition with_table_data :: "persisted_snapshot \<Rightarrow> string \<Rightarrow> string \<Rightarrow> persisted_snapshot" where
  "with_table_data s name bytes = s\<lparr>ps_table_data := hm_insert name bytes (ps_table_data s)\<rparr>"

definition persisted_table_names :: "persisted_snapshot \<Rightarrow> string list" where
  "persisted_table_names s = map fst (ps_table_data s)"

definition filter_to_authority :: "persisted_snapshot \<Rightarrow> tier_registry \<Rightarrow> persisted_snapshot" where
  "filter_to_authority s tr = s\<lparr>ps_table_data := filter (\<lambda>(name, _). is_authority tr name) (ps_table_data s)\<rparr>"

record snapshot_persistence =
  sn_base_dir :: string
  sn_tier_registry :: "tier_registry option"

definition persistence_new :: "string \<Rightarrow> snapshot_persistence" where
  "persistence_new d = \<lparr>sn_base_dir = d, sn_tier_registry = None\<rparr>"

definition persistence_with_tiers :: "snapshot_persistence \<Rightarrow> tier_registry \<Rightarrow> snapshot_persistence" where
  "persistence_with_tiers p tr = p\<lparr>sn_tier_registry := Some tr\<rparr>"

definition snapshot_path :: "snapshot_persistence \<Rightarrow> tick \<Rightarrow> path" where
  "snapshot_path p g = (sn_base_dir p, ''snapshot_gen_'' @ tick_display g @ ''.arrow'')"

definition strip_prefix :: "string \<Rightarrow> string \<Rightarrow> string option" where
  "strip_prefix pre s = (if take (length pre) s = pre then Some (drop (length pre) s) else None)"

definition strip_suffix :: "string \<Rightarrow> string \<Rightarrow> string option" where
  "strip_suffix suf s = map_option rev (strip_prefix (rev suf) (rev s))"

definition parse_snapshot_name :: "string \<Rightarrow> tick option" where
  "parse_snapshot_name name =
     Option.bind (strip_prefix ''snapshot_gen_'' name) (\<lambda>rest.
     Option.bind (strip_suffix ''.arrow'' rest) (\<lambda>num.
     case parse_u64 num of Inl _ \<Rightarrow> None | Inr i \<Rightarrow> Some (Tick (word_of_int i))))"

definition list_snapshots :: "save_env \<Rightarrow> snapshot_persistence \<Rightarrow> file_system \<Rightarrow> save_error + (tick \<times> path) list" where
  "list_snapshots E p fs =
     (if sn_base_dir p \<notin> set (fs_dirs fs) then Inl (SVIo ''read_dir: No such file or directory (os error 2)'')
      else Inr (sort_key (\<lambda>(t, _). tick_as_u64 t)
        (List.map_filter (\<lambda>name. map_option (\<lambda>t. (t, (sn_base_dir p, name))) (parse_snapshot_name name))
          (se_dir_order E (dir_names fs (sn_base_dir p))))))"

definition latest_snapshot_file :: "save_env \<Rightarrow> snapshot_persistence \<Rightarrow> file_system \<Rightarrow> save_error + (tick \<times> path) option" where
  "latest_snapshot_file E p fs = rbind (list_snapshots E p fs) (\<lambda>ss. Inr (if ss = [] then None else Some (last ss)))"

definition le_bytes :: "u64 \<Rightarrow> string" where
  "le_bytes w = map (\<lambda>i. char_of (unat (drop_bit (8 * i) w) mod 256 :: nat)) [0..<8]"

definition of_le_bytes :: "string \<Rightarrow> u64" where
  "of_le_bytes bs = foldr (\<lambda>c acc. of_nat (of_char c) + 256 * acc) bs 0"

definition block :: "string \<Rightarrow> string" where
  "block bs = le_bytes (of_nat (length bs)) @ bs"

definition entry_bytes :: "string \<times> string \<Rightarrow> string" where
  "entry_bytes e = block (fst e) @ block (snd e)"

definition generation_text :: "tick \<Rightarrow> string" where
  "generation_text g = ''generation '' @ tick_display g"

definition header_json :: "save_env \<Rightarrow> snapshot_header \<Rightarrow> save_error + string" where
  "header_json E h = map_err (\<lambda>e. SVIpcSerialization (''header json: '' @ e))
     (se_header_to_json E (sh_schema_manifest h, sh_generation h, sh_state_hash h))"

definition write_snapshot ::
  "save_env \<Rightarrow> snapshot_persistence \<Rightarrow> persisted_snapshot \<Rightarrow> file_system \<Rightarrow> (save_error + path) \<times> file_system" where
  "write_snapshot E p s fs =
     (let path = snapshot_path p (sh_generation (ps_header s)) in
      if path_exists fs path then (Inl (SVSnapshotAlreadyExists (generation_text (sh_generation (ps_header s)))), fs)
      else (let fs1 = create_dir_all (sn_base_dir p) fs in
        case header_json E (ps_header s) of
          Inl e \<Rightarrow> (Inl e, fs1)
        | Inr header_bytes \<Rightarrow>
            let entries = (case sn_tier_registry p of
                Some tr \<Rightarrow> filter (\<lambda>(name, _). is_authority tr name) (se_tables E (ps_table_data s))
              | None \<Rightarrow> se_tables E (ps_table_data s))
            in (Inr path, write_file path (block header_bytes @ le_bytes (of_nat (length entries))
                 @ concat (map entry_bytes entries)) fs1)))"

definition read_exact :: "string \<Rightarrow> nat \<Rightarrow> string \<Rightarrow> save_error + string \<times> string" where
  "read_exact what n bs =
     (if n \<le> length bs then Inr (take n bs, drop n bs)
      else Inl (SVIo (''read '' @ what @ '': failed to fill whole buffer'')))"

definition read_block :: "string \<Rightarrow> string \<Rightarrow> save_error + string \<times> string" where
  "read_block what bs =
     rbind (read_exact (what @ '' len'') 8 bs) (\<lambda>(len, rest). read_exact what (unat (of_le_bytes len)) rest)"

fun read_tables :: "save_env \<Rightarrow> nat \<Rightarrow> string \<Rightarrow> (string \<times> string) list \<Rightarrow> save_error + (string \<times> string) list" where
  "read_tables E 0 bs acc = Inr acc"
| "read_tables E (Suc n) bs acc =
     rbind (read_block ''name'' bs) (\<lambda>(name_bytes, bs1).
     rbind (map_err (\<lambda>e. SVCorruptedSnapshot (''invalid utf8 name: '' @ e)) (se_utf8 E name_bytes)) (\<lambda>name.
     rbind (read_block ''data'' bs1) (\<lambda>(bytes, bs2).
     read_tables E n bs2 (hm_insert name bytes acc))))"

definition read_snapshot :: "save_env \<Rightarrow> snapshot_persistence \<Rightarrow> tick \<Rightarrow> file_system \<Rightarrow> save_error + persisted_snapshot" where
  "read_snapshot E p g fs =
     (case hm_get (fs_files fs) (snapshot_path p g) of
        None \<Rightarrow> Inl (SVSnapshotNotFound (generation_text g))
      | Some bs \<Rightarrow>
          rbind (read_block ''header'' bs) (\<lambda>(header_bytes, bs1).
          rbind (map_err (\<lambda>e. SVIpcDeserialization (''header json: '' @ e)) (se_header_of_json E header_bytes)) (\<lambda>(m, g', h).
          rbind (read_exact ''table count'' 8 bs1) (\<lambda>(count, bs2).
          rbind (read_tables E (unat (of_le_bytes count)) bs2 []) (\<lambda>tables.
          Inr \<lparr>ps_header = header_new m g' h, ps_table_data = tables\<rparr>)))))"

definition delete_snapshot :: "snapshot_persistence \<Rightarrow> tick \<Rightarrow> file_system \<Rightarrow> (save_error + unit) \<times> file_system" where
  "delete_snapshot p g fs =
     (Inr (), if path_exists fs (snapshot_path p g) then remove_file (snapshot_path p g) fs else fs)"

text \<open>Deletes in order, up to the first error.\<close>

fun delete_each :: "snapshot_persistence \<Rightarrow> tick list \<Rightarrow> file_system \<Rightarrow> (save_error + unit) \<times> file_system" where
  "delete_each p [] fs = (Inr (), fs)"
| "delete_each p (t # ts) fs = (case delete_snapshot p t fs of
     (Inl e, fs1) \<Rightarrow> (Inl e, fs1) | (Inr _, fs1) \<Rightarrow> delete_each p ts fs1)"

definition retain_newest :: "save_env \<Rightarrow> snapshot_persistence \<Rightarrow> nat \<Rightarrow> file_system \<Rightarrow> (save_error + unit) \<times> file_system" where
  "retain_newest E p max_snapshots fs =
     (case list_snapshots E p fs of
        Inl e \<Rightarrow> (Inl e, fs)
      | Inr ss \<Rightarrow>
          if length ss \<le> max_snapshots then (Inr (), fs)
          else delete_each p (map fst (take (length ss - max_snapshots) ss)) fs)"

subsection \<open>snapshot\_manager.rs\<close>

record snapshot_config =
  sg_max_snapshots :: nat
  sg_max_journal_diffs :: nat

definition snapshot_config_default :: snapshot_config where
  "snapshot_config_default = \<lparr>sg_max_snapshots = 3, sg_max_journal_diffs = 1000\<rparr>"

record snapshot_info =
  si_generation :: tick
  si_path :: path

record snapshot_manager =
  sm_persistence :: snapshot_persistence
  sm_config :: snapshot_config
  sm_journal_path :: path

definition manager_new :: "string \<Rightarrow> snapshot_config \<Rightarrow> path \<Rightarrow> snapshot_manager" where
  "manager_new d c j = \<lparr>sm_persistence = persistence_new d, sm_config = c, sm_journal_path = j\<rparr>"

definition manager_list :: "save_env \<Rightarrow> snapshot_manager \<Rightarrow> file_system \<Rightarrow> save_error + snapshot_info list" where
  "manager_list E m fs = rbind (list_snapshots E (sm_persistence m) fs)
     (\<lambda>ss. Inr (map (\<lambda>(g, p). \<lparr>si_generation = g, si_path = p\<rparr>) ss))"

definition get_latest_snapshot :: "save_env \<Rightarrow> snapshot_manager \<Rightarrow> file_system \<Rightarrow> save_error + snapshot_info option" where
  "get_latest_snapshot E m fs = rbind (manager_list E m fs) (\<lambda>ss. Inr (if ss = [] then None else Some (last ss)))"

definition manager_get :: "snapshot_manager \<Rightarrow> tick \<Rightarrow> file_system \<Rightarrow> save_error + snapshot_info option" where
  "manager_get m g fs = (let path = snapshot_path (sm_persistence m) g in
     Inr (if path_exists fs path then Some \<lparr>si_generation = g, si_path = path\<rparr> else None))"

definition get_snapshot_for_rollback :: "snapshot_manager \<Rightarrow> tick \<Rightarrow> file_system \<Rightarrow> save_error + snapshot_info" where
  "get_snapshot_for_rollback m g fs = (let path = snapshot_path (sm_persistence m) g in
     if path_exists fs path then Inr \<lparr>si_generation = g, si_path = path\<rparr>
     else Inl (SVSnapshotNotFound (generation_text g)))"

definition manager_read :: "save_env \<Rightarrow> snapshot_manager \<Rightarrow> tick \<Rightarrow> file_system \<Rightarrow> save_error + persisted_snapshot" where
  "manager_read E m g fs = read_snapshot E (sm_persistence m) g fs"

definition temp_snapshot_path :: "snapshot_manager \<Rightarrow> tick \<Rightarrow> path" where
  "temp_snapshot_path m g = (sn_base_dir (sm_persistence m), ''.tmp_snapshot_gen_'' @ tick_display g @ ''.arrow'')"

definition write_snapshot_to_temp ::
  "save_env \<Rightarrow> persisted_snapshot \<Rightarrow> path \<Rightarrow> file_system \<Rightarrow> (save_error + unit) \<times> file_system" where
  "write_snapshot_to_temp E s temp_path fs =
     (let fs1 = create_dir_all (fst temp_path) fs in
      case header_json E (ps_header s) of
        Inl e \<Rightarrow> (Inl e, fs1)
      | Inr header_bytes \<Rightarrow> (Inr (), write_file temp_path (block header_bytes
          @ le_bytes (of_nat (length (ps_table_data s))) @ concat (map entry_bytes (se_tables E (ps_table_data s)))) fs1))"

definition cleanup_old_snapshots :: "save_env \<Rightarrow> snapshot_manager \<Rightarrow> file_system \<Rightarrow> (save_error + unit) \<times> file_system" where
  "cleanup_old_snapshots E m fs = retain_newest E (sm_persistence m) (sg_max_snapshots (sm_config m)) fs"

definition save_snapshot ::
  "save_env \<Rightarrow> snapshot_manager \<Rightarrow> persisted_snapshot \<Rightarrow> file_system \<Rightarrow> (save_error + path) \<times> file_system" where
  "save_snapshot E m s fs =
     (let g = sh_generation (ps_header s); temp_path = temp_snapshot_path m g;
          final_path = snapshot_path (sm_persistence m) g in
      if path_exists fs final_path then (Inl (SVSnapshotAlreadyExists (generation_text g)), fs)
      else (case write_snapshot_to_temp E s temp_path fs of
        (Inl e, fs1) \<Rightarrow> (Inl e, fs1)
      | (Inr _, fs1) \<Rightarrow>
          (case cleanup_old_snapshots E m (rename_file temp_path final_path fs1) of
             (Inl e, fs2) \<Rightarrow> (Inl e, fs2)
           | (Inr _, fs2) \<Rightarrow> (Inr final_path, fs2))))"

definition manager_delete :: "snapshot_manager \<Rightarrow> tick \<Rightarrow> file_system \<Rightarrow> (save_error + unit) \<times> file_system" where
  "manager_delete m g fs = delete_snapshot (sm_persistence m) g fs"

definition has_snapshot :: "snapshot_manager \<Rightarrow> tick \<Rightarrow> file_system \<Rightarrow> bool" where
  "has_snapshot m g fs = path_exists fs (snapshot_path (sm_persistence m) g)"

definition snapshot_count :: "save_env \<Rightarrow> snapshot_manager \<Rightarrow> file_system \<Rightarrow> save_error + nat" where
  "snapshot_count E m fs = rbind (manager_list E m fs) (\<lambda>ss. Inr (length ss))"

definition manager_should_auto_checkpoint :: "snapshot_manager \<Rightarrow> nat \<Rightarrow> bool" where
  "manager_should_auto_checkpoint m n \<longleftrightarrow> n \<ge> sg_max_journal_diffs (sm_config m)"

definition create_snapshot :: "schema_manifest \<Rightarrow> tick \<Rightarrow> u64 \<Rightarrow> persisted_snapshot" where
  "create_snapshot m g h = persisted_new (header_new m g h)"

subsection \<open>checkpoint.rs\<close>

record retention_policy =
  rp_max_snapshots :: nat
  rp_auto_checkpoint_threshold :: nat

definition default_policy :: retention_policy where
  "default_policy = \<lparr>rp_max_snapshots = 3, rp_auto_checkpoint_threshold = 1000\<rparr>"

record checkpoint_manager =
  cm_persistence :: snapshot_persistence
  cm_policy :: retention_policy
  cm_journal_path :: path
  cm_entries :: nat
  cm_tier_registry :: "tier_registry option"

definition checkpoint_manager_new :: "string \<Rightarrow> retention_policy \<Rightarrow> path \<Rightarrow> checkpoint_manager" where
  "checkpoint_manager_new d pol j = \<lparr>cm_persistence = persistence_new d, cm_policy = pol, cm_journal_path = j,
     cm_entries = 0, cm_tier_registry = None\<rparr>"

definition checkpoint_with_tiers :: "checkpoint_manager \<Rightarrow> tier_registry \<Rightarrow> checkpoint_manager" where
  "checkpoint_with_tiers c tr = c\<lparr>cm_persistence := persistence_with_tiers (cm_persistence c) tr, cm_tier_registry := Some tr\<rparr>"

definition record_journal_entry :: "checkpoint_manager \<Rightarrow> checkpoint_manager" where
  "record_journal_entry c = c\<lparr>cm_entries := cm_entries c + 1\<rparr>"

definition reset_journal_counter :: "checkpoint_manager \<Rightarrow> checkpoint_manager" where
  "reset_journal_counter c = c\<lparr>cm_entries := 0\<rparr>"

definition should_auto_checkpoint :: "checkpoint_manager \<Rightarrow> bool" where
  "should_auto_checkpoint c \<longleftrightarrow> cm_entries c \<ge> rp_auto_checkpoint_threshold (cm_policy c)"

definition enforce_retention :: "save_env \<Rightarrow> checkpoint_manager \<Rightarrow> file_system \<Rightarrow> (save_error + unit) \<times> file_system" where
  "enforce_retention E c fs = retain_newest E (cm_persistence c) (rp_max_snapshots (cm_policy c)) fs"

definition try_auto_checkpoint ::
  "save_env \<Rightarrow> checkpoint_manager \<Rightarrow> file_system \<Rightarrow> (save_error + bool) \<times> checkpoint_manager \<times> file_system" where
  "try_auto_checkpoint E c fs =
     (if should_auto_checkpoint c then
        (case enforce_retention E c fs of
           (Inl e, fs1) \<Rightarrow> (Inl e, c, fs1)
         | (Inr _, fs1) \<Rightarrow> (Inr True, reset_journal_counter c, fs1))
      else (Inr False, c, fs))"

definition truncate_journal ::
  "checkpoint_manager \<Rightarrow> file_system \<Rightarrow> (save_error + unit) \<times> checkpoint_manager \<times> file_system" where
  "truncate_journal c fs =
     (Inr (), reset_journal_counter c,
      if path_exists fs (cm_journal_path c) then remove_file (cm_journal_path c) fs else fs)"

definition write_checkpoint_snapshot ::
  "save_env \<Rightarrow> persisted_snapshot \<Rightarrow> checkpoint_manager \<Rightarrow> file_system
     \<Rightarrow> (save_error + unit) \<times> checkpoint_manager \<times> file_system" where
  "write_checkpoint_snapshot E s c fs =
     (case write_snapshot E (cm_persistence c) s fs of
        (Inl e, fs1) \<Rightarrow> (Inl e, c, fs1)
      | (Inr _, fs1) \<Rightarrow>
          (case enforce_retention E c fs1 of
             (Inl e, fs2) \<Rightarrow> (Inl e, c, fs2)
           | (Inr _, fs2) \<Rightarrow>
               (case truncate_journal c fs2 of
                  (Inl e, c3, fs3) \<Rightarrow> (Inl e, c3, fs3)
                | (Inr _, c3, fs3) \<Rightarrow> (Inr (), reset_journal_counter c3, fs3))))"

text \<open>The save journal with a manager; its state includes the file system it works on.\<close>

record 'j checkpointing_journal =
  cj_inner :: "'j commit_record list"
  cj_manager :: "checkpoint_manager option"
  cj_files :: file_system

definition checkpointing_new :: "file_system \<Rightarrow> 'j checkpointing_journal" where
  "checkpointing_new fs = \<lparr>cj_inner = [], cj_manager = None, cj_files = fs\<rparr>"

definition with_manager :: "'j checkpointing_journal \<Rightarrow> checkpoint_manager \<Rightarrow> 'j checkpointing_journal" where
  "with_manager cj c = cj\<lparr>cj_manager := Some c\<rparr>"

definition cj_records_after :: "'j checkpointing_journal \<Rightarrow> tick \<Rightarrow> 'j commit_record list" where
  "cj_records_after cj t = filter (\<lambda>r. cr_tick r > t) (cj_inner cj)"

definition cj_append ::
  "save_env \<Rightarrow> 'j commit_record \<Rightarrow> 'j checkpointing_journal \<Rightarrow> (journal_error + unit) \<times> 'j checkpointing_journal" where
  "cj_append E r cj =
     (let cj1 = cj\<lparr>cj_inner := cj_inner cj @ [r]\<rparr> in
      case cj_manager cj of
        None \<Rightarrow> (Inr (), cj1)
      | Some c \<Rightarrow>
          (case try_auto_checkpoint E (record_journal_entry c) (cj_files cj) of
             (res, c1, fs1) \<Rightarrow> (case map_err (\<lambda>e. JESaveJournal (save_error_text e)) res of
                Inl e \<Rightarrow> (Inl e, cj1\<lparr>cj_manager := Some c1, cj_files := fs1\<rparr>)
              | Inr _ \<Rightarrow> (Inr (), cj1\<lparr>cj_manager := Some c1, cj_files := fs1\<rparr>))))"

definition cj_truncate_before ::
  "tick \<Rightarrow> 'j checkpointing_journal \<Rightarrow> (journal_error + unit) \<times> 'j checkpointing_journal" where
  "cj_truncate_before t cj = (Inr (), cj\<lparr>cj_inner := filter (\<lambda>r. cr_tick r \<ge> t) (cj_inner cj)\<rparr>)"

end
