(* ===== verification/Save_Props.thy ===== *)
theory Save_Props
  imports Save_Files
begin

section \<open>Properties of the snapshot files\<close>

text \<open>
  A written snapshot reads back, a file cut short never does, and retention keeps exactly
  the newest generations. The laws of serde and of the directory listing are hypotheses.
\<close>

subsection \<open>Bytes\<close>

lemma horner_digits:
  "foldr (\<lambda>d acc. d + 256 * acc) (map (\<lambda>i. n div 256 ^ i mod 256) [0..<k]) 0 = (n::nat) mod 256 ^ k"
proof (induction k arbitrary: n)
  case (Suc k)
  have "map (\<lambda>i. n div 256 ^ i mod 256) [0..<Suc k] = n mod 256 # map (\<lambda>i. (n div 256) div 256 ^ i mod 256) [0..<k]"
    by (simp add: upt_conv_Cons map_Suc_upt [symmetric] div_mult2_eq del: upt_Suc)
  then have "foldr (\<lambda>d acc. d + 256 * acc) (map (\<lambda>i. n div 256 ^ i mod 256) [0..<Suc k]) 0
      = n mod 256 + 256 * (n div 256 mod 256 ^ k)"
    by (simp add: Suc)
  also have "\<dots> = n mod 256 ^ Suc k" by (simp add: mod_mult2_eq)
  finally show ?case .
qed simp

lemma length_le_bytes [simp]: "length (le_bytes w) = 8"
  by (simp add: le_bytes_def)

lemma le_bytes_inverse [simp]: "of_le_bytes (le_bytes w) = w"
proof -
  have nat: "unat (drop_bit (8 * i) w) mod 256 = unat w div 256 ^ i mod 256" for i
  proof -
    have "unat (drop_bit (8 * i) w) = unat w div 2 ^ (8 * i)" unfolding drop_bit_eq_div [symmetric] by (rule unat_drop_bit_eq)
    also have "(2::nat) ^ (8 * i) = 256 ^ i" by (simp add: power_mult)
    finally show ?thesis by simp
  qed
  have "of_le_bytes (le_bytes w) = foldr (\<lambda>d acc. of_nat d + 256 * acc) (map (\<lambda>i. unat w div 256 ^ i mod 256) [0..<8]) 0"
    unfolding of_le_bytes_def le_bytes_def nat foldr_map by (simp add: comp_def)
  also have "\<dots> = of_nat (foldr (\<lambda>d acc. d + 256 * acc) (map (\<lambda>i. unat w div 256 ^ i mod 256) [0..<8]) 0)"
    by (simp add: foldr_map comp_def upt_rec)
  also have "\<dots> = w"
  proof -
    have "unat w < 2 ^ LENGTH(64)" by (rule unsigned_less)
    then show ?thesis unfolding horner_digits by simp
  qed
  finally show ?thesis .
qed

lemma length_of_nat: "n < 2 ^ 64 \<Longrightarrow> unat (of_nat n :: u64) = n"
  by (simp add: unat_of_nat)

lemma read_exact_append: "read_exact what (length bs) (bs @ rest) = Inr (bs, rest)"
  by (simp add: read_exact_def)

lemma read_exact_le [simp]: "read_exact what 8 (le_bytes w @ rest) = Inr (le_bytes w, rest)"
  using read_exact_append [of what "le_bytes w" rest] by simp

lemma read_block_block: "length bs < 2 ^ 64 \<Longrightarrow> read_block what (block bs @ rest) = Inr (bs, rest)"
  using read_exact_append [of what bs rest] by (simp add: read_block_def block_def length_of_nat)

subsection \<open>The parser, with what it leaves\<close>

fun scan_tables :: "save_env \<Rightarrow> nat \<Rightarrow> string \<Rightarrow> save_error + (string \<times> string) list \<times> string" where
  "scan_tables E 0 bs = Inr ([], bs)"
| "scan_tables E (Suc n) bs =
     rbind (read_block ''name'' bs) (\<lambda>(name_bytes, bs1).
     rbind (map_err (\<lambda>e. SVCorruptedSnapshot (''invalid utf8 name: '' @ e)) (se_utf8 E name_bytes)) (\<lambda>name.
     rbind (read_block ''data'' bs1) (\<lambda>(bytes, bs2).
     rbind (scan_tables E n bs2) (\<lambda>(es, rest). Inr ((name, bytes) # es, rest)))))"

lemma bind_assoc: "rbind (rbind x f) g = rbind x (\<lambda>a. rbind (f a) g)"
  by (cases x) auto

lemma read_tables_scan:
  "read_tables E n bs acc = rbind (scan_tables E n bs) (\<lambda>(es, _). Inr (fold (\<lambda>(k, v). hm_insert k v) es acc))"
proof (induction n arbitrary: bs acc)
  case (Suc n)
  show ?case by (simp add: Suc case_prod_unfold bind_assoc)
qed simp

definition scan_file :: "save_env \<Rightarrow> string \<Rightarrow> save_error + (snapshot_header \<times> (string \<times> string) list) \<times> string" where
  "scan_file E bs =
     rbind (read_block ''header'' bs) (\<lambda>(header_bytes, bs1).
     rbind (map_err (\<lambda>e. SVIpcDeserialization (''header json: '' @ e)) (se_header_of_json E header_bytes)) (\<lambda>(m, g', h).
     rbind (read_exact ''table count'' 8 bs1) (\<lambda>(count, bs2).
     rbind (scan_tables E (unat (of_le_bytes count)) bs2) (\<lambda>(es, rest).
     Inr ((header_new m g' h, es), rest)))))"

lemma read_snapshot_scan:
  "hm_get (fs_files fs) (snapshot_path p g) = Some bs \<Longrightarrow>
   read_snapshot E p g fs = rbind (scan_file E bs) (\<lambda>((h, es), _).
     Inr \<lparr>ps_header = h, ps_table_data = fold (\<lambda>(k, v). hm_insert k v) es []\<rparr>)"
  by (simp add: read_snapshot_def scan_file_def read_tables_scan case_prod_unfold bind_assoc)

text \<open>A parse that succeeds does the same, and leaves more, when more bytes follow.\<close>

lemma read_exact_more: "read_exact what n bs = Inr (xs, rest) \<Longrightarrow> read_exact what n (bs @ tail) = Inr (xs, rest @ tail)"
  by (auto simp: read_exact_def split: if_splits)

lemma read_block_more: "read_block what bs = Inr (xs, rest) \<Longrightarrow> read_block what (bs @ tail) = Inr (xs, rest @ tail)"
  by (auto simp: read_block_def dest: read_exact_more)

lemma scan_tables_more: "scan_tables E n bs = Inr (es, rest) \<Longrightarrow> scan_tables E n (bs @ tail) = Inr (es, rest @ tail)"
proof (induction n arbitrary: bs es)
  case (Suc n)
  from Suc.prems obtain name_bytes bs1 name bytes bs2 es' where
    "read_block ''name'' bs = Inr (name_bytes, bs1)" "se_utf8 E name_bytes = Inr name"
    "read_block ''data'' bs1 = Inr (bytes, bs2)" "scan_tables E n bs2 = Inr (es', rest)" "es = (name, bytes) # es'"
    by (auto simp: case_prod_unfold)
  then show ?case by (simp add: read_block_more Suc.IH)
qed simp

lemma scan_file_more:
  assumes "scan_file E bs = Inr (x, rest)" shows "scan_file E (bs @ tail) = Inr (x, rest @ tail)"
proof -
  from assms obtain header_bytes bs1 m g h count bs2 es where
    "read_block ''header'' bs = Inr (header_bytes, bs1)" "se_header_of_json E header_bytes = Inr (m, g, h)"
    "read_exact ''table count'' 8 bs1 = Inr (count, bs2)" "scan_tables E (unat (of_le_bytes count)) bs2 = Inr (es, rest)"
    "x = (header_new m g h, es)"
    by (auto simp: scan_file_def case_prod_unfold)
  then show ?thesis by (simp add: scan_file_def read_block_more read_exact_more scan_tables_more)
qed

lemma scan_prefix:
  assumes "scan_file E bs = Inr (x, [])" and "n < length bs"
  shows "scan_file E (take n bs) \<noteq> Inr (y, rest)"
proof
  assume "scan_file E (take n bs) = Inr (y, rest)"
  from scan_file_more [OF this, of "drop n bs"] show False using assms by simp
qed

subsection \<open>Round trip\<close>

definition serde_inverse :: "save_env \<Rightarrow> bool" where
  "serde_inverse E \<longleftrightarrow> (\<forall>x j. se_header_to_json E x = Inr j \<longrightarrow> se_header_of_json E j = Inr x)"

text \<open>The sizes the format can express, and names that are text.\<close>

definition storable :: "save_env \<Rightarrow> string \<Rightarrow> (string \<times> string) list \<Rightarrow> bool" where
  "storable E header es \<longleftrightarrow> length header < 2 ^ 64 \<and> length es < 2 ^ 64
     \<and> (\<forall>(name, bytes) \<in> set es. length name < 2 ^ 64 \<and> length bytes < 2 ^ 64 \<and> se_utf8 E name = Inr name)"

lemma scan_tables_entries:
  "\<forall>(name, bytes) \<in> set es. length name < 2 ^ 64 \<and> length bytes < 2 ^ 64 \<and> se_utf8 E name = Inr name \<Longrightarrow>
   scan_tables E (length es) (concat (map entry_bytes es) @ rest) = Inr (es, rest)"
proof (induction es)
  case (Cons e es)
  then show ?case by (cases e) (simp add: entry_bytes_def read_block_block)
qed simp

lemma scan_file_bytes:
  assumes "serde_inverse E" and "se_header_to_json E (m, g, h) = Inr j" and "storable E j es"
  shows "scan_file E (block j @ le_bytes (of_nat (length es)) @ concat (map entry_bytes es)) = Inr ((header_new m g h, es), [])"
  using assms scan_tables_entries [of es E "[]"]
  by (simp add: scan_file_def storable_def read_block_block serde_inverse_def length_of_nat)

lemma fold_insert_get:
  "distinct (map fst es) \<Longrightarrow> hm_get (fold (\<lambda>(k, v). hm_insert k v) es acc) k
     = (case hm_get es k of Some v \<Rightarrow> Some v | None \<Rightarrow> hm_get acc k)"
proof (induction es arbitrary: acc)
  case (Cons e es)
  obtain a b where e: "e = (a, b)" by (cases e)
  have "hm_get es a = None" using Cons.prems by (simp add: e map_of_eq_None_iff)
  then show ?case using Cons by (auto simp: e split: option.splits)
qed simp

lemma fs_simps [simp]:
  "hm_get (fs_files (write_file p bs fs)) q = (if q = p then Some bs else hm_get (fs_files fs) q)"
  "hm_get (fs_files (remove_file p fs)) q = (if q = p then None else hm_get (fs_files fs) q)"
  "fs_files (create_dir_all d fs) = fs_files fs" "fs_dirs (write_file p bs fs) = fs_dirs fs"
  "fs_dirs (remove_file p fs) = fs_dirs fs" "fs_dirs (create_dir_all d fs) = List.insert d (fs_dirs fs)"
  by (auto simp: write_file_def remove_file_def create_dir_all_def)

text \<open>Which tables a persistence writes.\<close>

definition kept :: "snapshot_persistence \<Rightarrow> string \<Rightarrow> bool" where
  "kept p name \<longleftrightarrow> (case sn_tier_registry p of None \<Rightarrow> True | Some tr \<Rightarrow> is_authority tr name)"

lemma written_entries:
  assumes ok: "write_snapshot E p s fs = (Inr path, fs')"
  shows "path = snapshot_path p (sh_generation (ps_header s))
    \<and> (\<exists>j. se_header_to_json E (sh_schema_manifest (ps_header s), sh_generation (ps_header s), sh_state_hash (ps_header s)) = Inr j
         \<and> fs' = write_file path (block j
             @ le_bytes (of_nat (length (filter (\<lambda>(name, _). kept p name) (se_tables E (ps_table_data s)))))
             @ concat (map entry_bytes (filter (\<lambda>(name, _). kept p name) (se_tables E (ps_table_data s)))))
           (create_dir_all (sn_base_dir p) fs))"
proof -
  have "(case sn_tier_registry p of Some tr \<Rightarrow> filter (\<lambda>(name, _). is_authority tr name) xs | None \<Rightarrow> xs)
      = filter (\<lambda>(name, _). kept p name) xs" for xs :: "(string \<times> string) list"
    by (simp add: kept_def split: option.splits)
  with ok show ?thesis
    by (auto simp: write_snapshot_def Let_def header_json_def split: if_splits sum.splits)
qed

lemma filter_map_of: "distinct (map fst es) \<Longrightarrow>
  hm_get (filter (\<lambda>(k, _). P k) es) k = (if P k then hm_get es k else None)"
  by (induction es) (auto simp: map_of_eq_None_iff)

text \<open>C23: A snapshot that was written reads back: the same header and, for every table the
  tier registry admits, the same bytes. A file that was cut short anywhere, as a crash in
  the middle of the write leaves it, is never read as a snapshot.\<close>

theorem snapshot_reads_back:
  assumes ok: "write_snapshot E p s fs = (Inr path, fs')"
    and serde: "serde_inverse E" and order: "set (se_tables E (ps_table_data s)) = set (ps_table_data s)"
    and dist: "distinct (map fst (se_tables E (ps_table_data s)))" "hm_ok (ps_table_data s)"
    and size: "\<And>j. se_header_to_json E (sh_schema_manifest (ps_header s), sh_generation (ps_header s), sh_state_hash (ps_header s)) = Inr j
      \<Longrightarrow> storable E j (se_tables E (ps_table_data s))"
  shows "(\<exists>s'. read_snapshot E p (sh_generation (ps_header s)) fs' = Inr s' \<and> ps_header s' = ps_header s
      \<and> (\<forall>name. hm_get (ps_table_data s') name = (if kept p name then hm_get (ps_table_data s) name else None)))
    \<and> (\<forall>bytes cut. hm_get (fs_files fs') path = Some bytes \<longrightarrow> cut < length bytes \<longrightarrow>
         \<not> is_ok (read_snapshot E p (sh_generation (ps_header s)) (write_file path (take cut bytes) fs')))"
proof -
  let ?g = "sh_generation (ps_header s)" and ?es = "filter (\<lambda>(name, _). kept p name) (se_tables E (ps_table_data s))"
  obtain j where path: "path = snapshot_path p ?g"
    and j: "se_header_to_json E (sh_schema_manifest (ps_header s), ?g, sh_state_hash (ps_header s)) = Inr j"
    and fs': "fs' = write_file path (block j @ le_bytes (of_nat (length ?es)) @ concat (map entry_bytes ?es))
      (create_dir_all (sn_base_dir p) fs)"
    using written_entries [OF ok] by blast
  let ?bytes = "block j @ le_bytes (of_nat (length ?es)) @ concat (map entry_bytes ?es)"
  have "storable E j ?es"
    using size [OF j] le_less_trans [OF length_filter_le] by (auto simp: storable_def)
  moreover have "header_new (sh_schema_manifest (ps_header s)) ?g (sh_state_hash (ps_header s)) = ps_header s"
    by (simp add: header_new_def)
  ultimately have scan: "scan_file E ?bytes = Inr ((ps_header s, ?es), [])"
    using scan_file_bytes [OF serde j, of ?es] by simp
  have get: "hm_get (fs_files fs') path = Some ?bytes" by (simp add: fs')
  have read: "read_snapshot E p ?g fs' = Inr \<lparr>ps_header = ps_header s, ps_table_data = fold (\<lambda>(k, v). hm_insert k v) ?es []\<rparr>"
    using read_snapshot_scan [OF get [unfolded path]] scan by simp
  have "map_of (se_tables E (ps_table_data s)) = map_of (ps_table_data s)"
    using order dist by (simp add: map_of_inject_set hm_ok_def)
  moreover have "distinct (map fst ?es)" using dist(1) by (simp add: distinct_map_filter)
  ultimately have "hm_get (fold (\<lambda>(k, v). hm_insert k v) ?es []) name = (if kept p name then hm_get (ps_table_data s) name else None)" for name
    by (simp add: fold_insert_get filter_map_of [OF dist(1)] split: option.splits)
  moreover have "\<not> is_ok (read_snapshot E p ?g (write_file path (take cut ?bytes) fs'))" if "cut < length ?bytes" for cut
  proof
    assume "is_ok (read_snapshot E p ?g (write_file path (take cut ?bytes) fs'))"
    then obtain x rest where "scan_file E (take cut ?bytes) = Inr (x, rest)"
      by (auto simp: read_snapshot_scan [where bs = "take cut ?bytes"] path is_ok_iff case_prod_unfold)
    with scan_prefix [OF scan that, of x rest] show False by blast
  qed
  ultimately show ?thesis using read get by auto
qed

subsection \<open>Retention\<close>

text \<open>The generations on disk, and the newest \<open>n\<close> of a set of generations.\<close>

definition generations :: "snapshot_persistence \<Rightarrow> file_system \<Rightarrow> tick set" where
  "generations p fs = {t. path_exists fs (snapshot_path p t)}"

definition newest_of :: "nat \<Rightarrow> tick set \<Rightarrow> tick set" where
  "newest_of n G = {t \<in> G. card {u \<in> G. t < u} < n}"

text \<open>Every file of the directory that parses as a snapshot has the name the code gives it,
  and the listing shows every file once.\<close>

definition canonical :: "snapshot_persistence \<Rightarrow> file_system \<Rightarrow> bool" where
  "canonical p fs \<longleftrightarrow> hm_ok (fs_files fs) \<and> sn_base_dir p \<in> set (fs_dirs fs)
     \<and> (\<forall>name t. path_exists fs (sn_base_dir p, name) \<longrightarrow> parse_snapshot_name name = Some t \<longrightarrow>
          (sn_base_dir p, name) = snapshot_path p t)"

definition lists_all :: "save_env \<Rightarrow> bool" where
  "lists_all E \<longleftrightarrow> (\<forall>xs. set (se_dir_order E xs) = set xs \<and> distinct (se_dir_order E xs) = distinct xs)"

lemma strip_prefix_append [simp]: "strip_prefix a (a @ b) = Some b"
  by (simp add: strip_prefix_def)

lemma strip_suffix_append [simp]: "strip_suffix b (a @ b) = Some a"
  by (simp add: strip_suffix_def)

lemma parse_own_name: "parse_snapshot_name (snd (snapshot_path p t)) = Some t"
proof -
  have "parse_u64 (tick_display t) = Inr (uint (tick_as_u64 t))"
    by (simp add: tick_display_def parse_u64_show_u64)
  moreover have "Tick (word_of_int (uint (tick_as_u64 t))) = t" by (cases t) simp
  ultimately show ?thesis by (simp add: parse_snapshot_name_def snapshot_path_def del: append.simps)
qed

lemma snapshot_path_inj: "snapshot_path p t = snapshot_path p u \<longleftrightarrow> t = u"
  by (metis parse_own_name option.inject)

lemma set_map_filter: "set (List.map_filter f xs) = {y. \<exists>x \<in> set xs. f x = Some y}"
  by (induction xs) (auto simp: List.map_filter_simps split: option.splits)

lemma dir_names_set: "set (dir_names fs d) = {name. path_exists fs (d, name)}"
  by (auto simp: dir_names_def path_exists_def hm_contains_def image_iff map_of_eq_None_iff) force+

lemma dir_names_distinct: "hm_ok (fs_files fs) \<Longrightarrow> distinct (dir_names fs d)"
  unfolding hm_ok_def dir_names_def by (auto simp: distinct_map inj_on_def)

lemma list_snapshots_ticks:
  assumes "canonical p fs" and "lists_all E"
  shows "\<exists>ss. list_snapshots E p fs = Inr ss \<and> sorted (map fst ss) \<and> distinct (map fst ss) \<and> set (map fst ss) = generations p fs"
proof -
  let ?names = "se_dir_order E (dir_names fs (sn_base_dir p))"
  let ?f = "\<lambda>name. map_option (\<lambda>t. (t, (sn_base_dir p, name))) (parse_snapshot_name name)"
  let ?ss = "sort_key (\<lambda>(t, _). tick_as_u64 t) (List.map_filter ?f ?names)"
  have names: "set ?names = {name. path_exists fs (sn_base_dir p, name)}" "distinct ?names"
    using assms by (simp_all add: lists_all_def dir_names_set dir_names_distinct canonical_def)
  have canon: "name = snd (snapshot_path p t)" if "name \<in> set ?names" "parse_snapshot_name name = Some t" for name t
    using that names assms(1) by (auto simp: canonical_def snapshot_path_def)
  have dist: "distinct (map fst (List.map_filter ?f ns))" if "set ns \<subseteq> set ?names" "distinct ns" for ns
    using that
  proof (induction ns)
    case (Cons n ns)
    show ?case
    proof (cases "parse_snapshot_name n")
      case (Some t)
      have "parse_snapshot_name m \<noteq> Some t" if "m \<in> set ns" for m
        using canon [of m t] canon [of n t] Some Cons.prems that by auto
      then show ?thesis using Cons Some by (auto simp: List.map_filter_simps set_map_filter)
    qed (use Cons in \<open>simp add: List.map_filter_simps\<close>)
  qed (simp add: List.map_filter_simps)
  have "set (map fst (List.map_filter ?f ?names)) = generations p fs"
  proof (intro set_eqI iffI)
    fix t assume "t \<in> set (map fst (List.map_filter ?f ?names))"
    then obtain name where n: "name \<in> set ?names" "parse_snapshot_name name = Some t" by (auto simp: set_map_filter)
    then have "(sn_base_dir p, name) = snapshot_path p t" using canon by (auto simp: snapshot_path_def)
    then show "t \<in> generations p fs" using n names by (auto simp: generations_def)
  next
    fix t assume "t \<in> generations p fs"
    then have "snd (snapshot_path p t) \<in> set ?names" using names by (auto simp: generations_def snapshot_path_def)
    then show "t \<in> set (map fst (List.map_filter ?f ?names))"
      by (auto simp: set_map_filter image_iff parse_own_name intro!: exI [of _ "(sn_base_dir p, snd (snapshot_path p t))"] bexI)
  qed
  moreover have "sorted (map fst ?ss)"
  proof -
    have "sorted (map (\<lambda>(t, _). tick_as_u64 t) ?ss)" by (rule sorted_sort_key)
    then show ?thesis by (simp add: sorted_map case_prod_unfold less_eq_tick_def)
  qed
  moreover have "list_snapshots E p fs = Inr ?ss" using assms by (simp add: list_snapshots_def canonical_def)
  ultimately show ?thesis
    using dist [OF order_refl names(2)] by (auto simp: distinct_map inj_on_def)
qed

lemma newest_of_sorted:
  assumes "sorted ts" and "distinct ts"
  shows "newest_of n (set ts) = set (drop (length ts - n) ts)"
proof -
  have strict: "sorted_wrt (<) ts" using assms by (simp add: strict_sorted_iff)
  have less: "ts ! i < ts ! j \<longleftrightarrow> i < j" if "i < length ts" "j < length ts" for i j
    using sorted_wrt_nth_less [OF strict, of i j] sorted_wrt_nth_less [OF strict, of j i] that
    by (metis linorder_neqE_nat order_less_asym order_less_irrefl)
  have above: "card {u \<in> set ts. ts ! i < u} = length ts - Suc i" if i: "i < length ts" for i
  proof -
    have "{u \<in> set ts. ts ! i < u} = (!) ts ` {Suc i..<length ts}"
    proof (intro set_eqI iffI)
      fix u assume "u \<in> {u \<in> set ts. ts ! i < u}"
      then obtain j where "j < length ts" "u = ts ! j" "ts ! i < ts ! j" by (auto simp: in_set_conv_nth)
      then show "u \<in> (!) ts ` {Suc i..<length ts}" using less [OF i] by simp
    next
      fix u assume "u \<in> (!) ts ` {Suc i..<length ts}"
      then show "u \<in> {u \<in> set ts. ts ! i < u}" using less [OF i] by auto
    qed
    moreover have "inj_on ((!) ts) {Suc i..<length ts}" using assms(2) by (auto intro!: inj_on_nth)
    ultimately show ?thesis by (simp add: card_image)
  qed
  show ?thesis
  proof (intro set_eqI iffI)
    fix t assume "t \<in> newest_of n (set ts)"
    then obtain i where i: "i < length ts" "t = ts ! i" "card {u \<in> set ts. ts ! i < u} < n"
      by (auto simp: newest_of_def in_set_conv_nth)
    then have "length ts - n \<le> i" using above by simp
    then show "t \<in> set (drop (length ts - n) ts)"
      using i by (auto simp: in_set_conv_nth intro!: exI [of _ "i - (length ts - n)"])
  next
    fix t assume "t \<in> set (drop (length ts - n) ts)"
    then obtain j where "j < length ts - (length ts - n)" "t = ts ! (length ts - n + j)"
      by (auto simp: in_set_conv_nth)
    then show "t \<in> newest_of n (set ts)" using above [of "length ts - n + j"] by (auto simp: newest_of_def)
  qed
qed

lemma delete_each_files:
  "\<exists>fs'. delete_each p ts fs = (Inr (), fs') \<and> fs_dirs fs' = fs_dirs fs
    \<and> (\<forall>q. hm_get (fs_files fs') q = (if \<exists>t \<in> set ts. q = snapshot_path p t then None else hm_get (fs_files fs) q))"
proof (induction ts arbitrary: fs)
  case (Cons t ts)
  let ?fs = "if path_exists fs (snapshot_path p t) then remove_file (snapshot_path p t) fs else fs"
  have get: "hm_get (fs_files ?fs) q = (if q = snapshot_path p t then None else hm_get (fs_files fs) q)" for q
    by (auto simp: path_exists_def hm_contains_def)
  obtain fs' where fs': "delete_each p ts ?fs = (Inr (), fs')" "fs_dirs fs' = fs_dirs ?fs"
    "\<And>q. hm_get (fs_files fs') q = (if \<exists>t \<in> set ts. q = snapshot_path p t then None else hm_get (fs_files ?fs) q)"
    using Cons.IH [of ?fs] by blast
  have "hm_get (fs_files fs') q = (if \<exists>t \<in> set (t # ts). q = snapshot_path p t then None else hm_get (fs_files fs) q)" for q
    unfolding fs'(3) get by (cases "q = snapshot_path p t") simp_all
  moreover have "delete_each p (t # ts) fs = (Inr (), fs')" using fs'(1) by (simp add: delete_snapshot_def)
  moreover have "fs_dirs fs' = fs_dirs fs" using fs'(2) by simp
  ultimately show ?case by blast
qed simp

lemma split_diff: "A \<inter> D = {} \<Longrightarrow> M = A \<union> D \<Longrightarrow> A = M - D"
  by blast

lemma retain_newest_files:
  assumes "canonical p fs" and "lists_all E"
  shows "\<exists>fs'. retain_newest E p n fs = (Inr (), fs') \<and> fs_dirs fs' = fs_dirs fs
    \<and> generations p fs' = newest_of n (generations p fs)
    \<and> (\<forall>t \<in> newest_of n (generations p fs). hm_get (fs_files fs') (snapshot_path p t) = hm_get (fs_files fs) (snapshot_path p t))
    \<and> (\<forall>q. (\<forall>t. q \<noteq> snapshot_path p t) \<longrightarrow> hm_get (fs_files fs') q = hm_get (fs_files fs) q)"
proof -
  obtain ss where ss: "list_snapshots E p fs = Inr ss" "sorted (map fst ss)" "distinct (map fst ss)"
    "set (map fst ss) = generations p fs"
    using list_snapshots_ticks [OF assms] by blast
  let ?G = "generations p fs" and ?old = "map fst (take (length ss - n) ss)"
  have new: "newest_of n ?G = set (drop (length ss - n) (map fst ss))"
    using newest_of_sorted [OF ss(2,3)] ss(4) by simp
  have parts: "map fst ss = ?old @ drop (length ss - n) (map fst ss)"
    by (simp flip: take_map)
  then have old: "set ?old = ?G - newest_of n ?G"
  proof -
    have "set ?old \<inter> set (drop (length ss - n) (map fst ss)) = {}" using ss(3) parts by (metis distinct_append)
    moreover have "set (map fst ss) = set ?old \<union> set (drop (length ss - n) (map fst ss))" 
      by (rule trans [OF arg_cong [OF parts, of set] set_append])
    ultimately show ?thesis unfolding new unfolding ss(4) [symmetric] by (rule split_diff)
  qed
  show ?thesis
  proof (cases "length ss \<le> n")
    case True
    then have "newest_of n ?G = ?G" using new ss(4) by simp
    then show ?thesis using ss(1) True by (simp add: retain_newest_def)
  next
    case False
    obtain fs' where del: "delete_each p ?old fs = (Inr (), fs')" "fs_dirs fs' = fs_dirs fs"
      "\<And>q. hm_get (fs_files fs') q = (if \<exists>t \<in> set ?old. q = snapshot_path p t then None else hm_get (fs_files fs) q)"
      using delete_each_files [of p ?old fs] by blast
    have "generations p fs' = ?G - set ?old"
      by (auto simp: generations_def path_exists_def hm_contains_def snapshot_path_inj del(3) simp del: split_paired_All)
    moreover have "newest_of n ?G \<subseteq> ?G" by (auto simp: newest_of_def)
    ultimately have "generations p fs' = newest_of n ?G" using old by blast
    moreover have "retain_newest E p n fs = (Inr (), fs')" using del(1) False ss(1) by (simp add: retain_newest_def)
    moreover have "hm_get (fs_files fs') (snapshot_path p t) = hm_get (fs_files fs) (snapshot_path p t)" if "t \<in> newest_of n ?G" for t
    proof -
      have "t \<notin> set ?old" using that old by blast
      then show ?thesis using del(3) by (auto simp: snapshot_path_inj)
    qed
    moreover have "hm_get (fs_files fs') q = hm_get (fs_files fs) q" if "\<forall>t. q \<noteq> snapshot_path p t" for q
      using del(3) that by simp
    ultimately show ?thesis using del(2) by blast
  qed
qed

text \<open>Writing a new generation keeps the directory canonical and adds that generation.\<close>

lemma written_generation:
  assumes "canonical p fs" and d: "fs_dirs fs' = List.insert (sn_base_dir p) (fs_dirs fs)"
    and ok: "hm_ok (fs_files fs')"
    and files: "\<And>q. hm_get (fs_files fs') q = (if q = snapshot_path p g then Some bytes else hm_get (fs_files fs) q)"
  shows "canonical p fs'" and "generations p fs' = insert g (generations p fs)"
proof -
  have ex: "path_exists fs' q \<longleftrightarrow> q = snapshot_path p g \<or> path_exists fs q" for q
    by (simp add: path_exists_def hm_contains_def files)
  then show "generations p fs' = insert g (generations p fs)"
    by (auto simp: generations_def snapshot_path_inj)
  have "(sn_base_dir p, name) = snapshot_path p t"
    if "path_exists fs' (sn_base_dir p, name)" "parse_snapshot_name name = Some t" for name t
    using that assms(1) ex parse_own_name [of p g] unfolding canonical_def by (metis option.inject prod.sel(2))
  then show "canonical p fs'" using assms(1) d ok by (auto simp: canonical_def)
qed

lemma temp_name: "temp_snapshot_path m g \<noteq> snapshot_path (sm_persistence m) u"
  by (simp add: temp_snapshot_path_def snapshot_path_def)

lemma hm_ok_fs [simp]:
  "hm_ok (fs_files fs) \<Longrightarrow> hm_ok (fs_files (write_file q bs fs))"
  "hm_ok (fs_files fs) \<Longrightarrow> hm_ok (fs_files (remove_file q fs))"
  by (simp_all add: write_file_def remove_file_def)

definition renamed :: "snapshot_manager \<Rightarrow> tick \<Rightarrow> string \<Rightarrow> file_system \<Rightarrow> file_system" where
  "renamed m g bytes fs = rename_file (temp_snapshot_path m g) (snapshot_path (sm_persistence m) g)
     (write_file (temp_snapshot_path m g) bytes (create_dir_all (sn_base_dir (sm_persistence m)) fs))"

lemma renamed_files:
  assumes canon: "canonical (sm_persistence m) fs" and temp: "\<not> path_exists fs (temp_snapshot_path m g)"
  shows "hm_get (fs_files (renamed m g bytes fs)) q =
      (if q = snapshot_path (sm_persistence m) g then Some bytes else hm_get (fs_files fs) q)"
    and "canonical (sm_persistence m) (renamed m g bytes fs)"
    and "generations (sm_persistence m) (renamed m g bytes fs) = insert g (generations (sm_persistence m) fs)"
proof -
  have none: "hm_get (fs_files fs) (temp_snapshot_path m g) = None" using temp by (simp add: path_exists_def hm_contains_def)
  show files: "hm_get (fs_files (renamed m g bytes fs)) q =
      (if q = snapshot_path (sm_persistence m) g then Some bytes else hm_get (fs_files fs) q)" for q
    using none temp_name [of m g g] by (simp add: renamed_def rename_file_def)
  have "fs_dirs (renamed m g bytes fs) = List.insert (sn_base_dir (sm_persistence m)) (fs_dirs fs)"
    "hm_ok (fs_files (renamed m g bytes fs))"
    using canon by (simp_all add: renamed_def rename_file_def canonical_def)
  from written_generation [OF canon this files]
  show "canonical (sm_persistence m) (renamed m g bytes fs)"
    "generations (sm_persistence m) (renamed m g bytes fs) = insert g (generations (sm_persistence m) fs)" by blast+
qed

lemma save_snapshot_steps:
  assumes "\<not> path_exists fs (snapshot_path (sm_persistence m) (sh_generation (ps_header s)))" and "header_json E (ps_header s) = Inr j"
  shows "\<exists>bytes. save_snapshot E m s fs =
    (case cleanup_old_snapshots E m (renamed m (sh_generation (ps_header s)) bytes fs) of
       (Inl e, fs2) \<Rightarrow> (Inl e, fs2)
     | (Inr _, fs2) \<Rightarrow> (Inr (snapshot_path (sm_persistence m) (sh_generation (ps_header s))), fs2))"
  using assms by (simp add: save_snapshot_def write_snapshot_to_temp_def Let_def renamed_def temp_snapshot_path_def) blast

lemma save_snapshot_succeeds:
  assumes canon: "canonical (sm_persistence m) fs" and lists: "lists_all E"
    and temp: "\<not> path_exists fs (temp_snapshot_path m (sh_generation (ps_header s)))"
    and new: "\<not> path_exists fs (snapshot_path (sm_persistence m) (sh_generation (ps_header s)))"
    and j: "header_json E (ps_header s) = Inr j"
  shows "\<exists>fs' bytes. save_snapshot E m s fs = (Inr (snapshot_path (sm_persistence m) (sh_generation (ps_header s))), fs')
    \<and> generations (sm_persistence m) fs' = newest_of (sg_max_snapshots (sm_config m))
        (insert (sh_generation (ps_header s)) (generations (sm_persistence m) fs))
    \<and> (\<forall>t \<in> generations (sm_persistence m) fs'. hm_get (fs_files fs') (snapshot_path (sm_persistence m) t)
         = (if t = sh_generation (ps_header s) then Some bytes else hm_get (fs_files fs) (snapshot_path (sm_persistence m) t)))"
proof -
  let ?p = "sm_persistence m" and ?g = "sh_generation (ps_header s)" and ?n = "sg_max_snapshots (sm_config m)"
  obtain bytes where s: "save_snapshot E m s fs = (case cleanup_old_snapshots E m (renamed m ?g bytes fs) of
       (Inl e, fs2) \<Rightarrow> (Inl e, fs2) | (Inr _, fs2) \<Rightarrow> (Inr (snapshot_path ?p ?g), fs2))"
    using save_snapshot_steps [OF new j] by blast
  note w = renamed_files [OF canon temp, of bytes]
  obtain fs3 where r: "retain_newest E ?p ?n (renamed m ?g bytes fs) = (Inr (), fs3)"
    "generations ?p fs3 = newest_of ?n (generations ?p (renamed m ?g bytes fs))"
    "\<And>t. t \<in> newest_of ?n (generations ?p (renamed m ?g bytes fs)) \<Longrightarrow>
      hm_get (fs_files fs3) (snapshot_path ?p t) = hm_get (fs_files (renamed m ?g bytes fs)) (snapshot_path ?p t)"
    using retain_newest_files [OF w(2) lists, of ?n] by blast
  have "save_snapshot E m s fs = (Inr (snapshot_path ?p ?g), fs3)" using s r(1) by (simp add: cleanup_old_snapshots_def)
  then show ?thesis using r(2,3) w(1,3) by (auto simp: snapshot_path_inj)
qed

lemma save_snapshot_starts:
  "save_snapshot E m s fs = (Inr path, fs') \<Longrightarrow>
    \<not> path_exists fs (snapshot_path (sm_persistence m) (sh_generation (ps_header s))) \<and> (\<exists>j. header_json E (ps_header s) = Inr j)"
  by (auto simp: save_snapshot_def write_snapshot_to_temp_def Let_def split: if_split_asm sum.splits)

text \<open>C25: After a snapshot was saved, the directory holds exactly the newest generations, as
  many as the policy retains, of those before and the new one, with their bytes unchanged.
  A generation older than all of a full directory is deleted again although the call returns
  the path of its file.\<close>

theorem save_keeps_newest:
  assumes "save_snapshot E m s fs = (Inr path, fs')" and "canonical (sm_persistence m) fs" and "lists_all E"
    and "\<not> path_exists fs (temp_snapshot_path m (sh_generation (ps_header s)))"
  shows "path = snapshot_path (sm_persistence m) (sh_generation (ps_header s))
    \<and> generations (sm_persistence m) fs' = newest_of (sg_max_snapshots (sm_config m))
        (insert (sh_generation (ps_header s)) (generations (sm_persistence m) fs))
    \<and> (\<forall>t \<in> generations (sm_persistence m) fs' - {sh_generation (ps_header s)}.
         hm_get (fs_files fs') (snapshot_path (sm_persistence m) t) = hm_get (fs_files fs) (snapshot_path (sm_persistence m) t))"
proof -
  obtain j where "header_json E (ps_header s) = Inr j"
    "\<not> path_exists fs (snapshot_path (sm_persistence m) (sh_generation (ps_header s)))"
    using save_snapshot_starts [OF assms(1)] by blast
  from save_snapshot_succeeds [OF assms(2,3,4) this(2,1)] show ?thesis using assms(1) by (auto split: if_split_asm)
qed

subsection \<open>Checkpoints\<close>

lemma checkpoint_Inr:
  assumes ok: "write_checkpoint_snapshot E s c fs = (Inr (), c', fs')" and canon: "canonical (cm_persistence c) fs"
    and lists: "lists_all E" and j: "\<And>t. cm_journal_path c \<noteq> snapshot_path (cm_persistence c) t"
  shows "cm_entries c' = 0 \<and> \<not> path_exists fs' (cm_journal_path c)
    \<and> generations (cm_persistence c) fs' = newest_of (rp_max_snapshots (cm_policy c))
        (insert (sh_generation (ps_header s)) (generations (cm_persistence c) fs))"
proof -
  let ?p = "cm_persistence c" and ?g = "sh_generation (ps_header s)" and ?n = "rp_max_snapshots (cm_policy c)"
  obtain r1 fs1 where w1: "write_snapshot E ?p s fs = (r1, fs1)" by (cases "write_snapshot E ?p s fs")
  obtain path where r1: "r1 = Inr path" using ok w1 by (cases r1) (simp_all add: write_checkpoint_snapshot_def)
  note w = w1 [unfolded r1]
  obtain r2 fs2 where r2: "enforce_retention E c fs1 = (r2, fs2)" by (cases "enforce_retention E c fs1")
  have "r2 = Inr ()" using ok w r2 by (cases r2) (simp_all add: write_checkpoint_snapshot_def)
  note r = r2 [unfolded this]
  have t: "c' = reset_journal_counter (reset_journal_counter c)"
    "fs' = (if path_exists fs2 (cm_journal_path c) then remove_file (cm_journal_path c) fs2 else fs2)"
    using ok w r by (simp_all add: write_checkpoint_snapshot_def truncate_journal_def)
  obtain bytes where path: "path = snapshot_path ?p ?g" and fs1: "fs1 = write_file path bytes (create_dir_all (sn_base_dir ?p) fs)"
    using written_entries [OF w] by blast
  have files: "hm_get (fs_files fs1) q = (if q = snapshot_path ?p ?g then Some bytes else hm_get (fs_files fs) q)" for q
    by (simp add: fs1 path)
  have "fs_dirs fs1 = List.insert (sn_base_dir ?p) (fs_dirs fs)" "hm_ok (fs_files fs1)"
    using canon by (simp_all add: fs1 canonical_def)
  note c1 = written_generation [OF canon this files]
  have "generations ?p fs2 = newest_of ?n (generations ?p fs1)"
    using retain_newest_files [OF c1(1) lists, of ?n] r by (auto simp: enforce_retention_def)
  moreover have "generations ?p fs' = generations ?p fs2"
    using j [THEN not_sym] by (auto simp: t(2) generations_def path_exists_def hm_contains_def)
  moreover have "\<not> path_exists fs' (cm_journal_path c)" by (auto simp: t(2) path_exists_def hm_contains_def)
  ultimately show ?thesis using c1(2) by (simp add: t(1) reset_journal_counter_def)
qed

text \<open>C24: A checkpoint leaves no save journal and the newest generations only; so the snapshot
  it wrote, the only cover of the journal it deleted, is there exactly if fewer than the
  retained number of newer generations were.\<close>

theorem checkpoint_covers_journal:
  assumes "write_checkpoint_snapshot E s c fs = (Inr (), c', fs')" and "canonical (cm_persistence c) fs" and "lists_all E"
    and "\<And>t. cm_journal_path c \<noteq> snapshot_path (cm_persistence c) t"
  shows "cm_entries c' = 0 \<and> \<not> path_exists fs' (cm_journal_path c)
    \<and> generations (cm_persistence c) fs' = newest_of (rp_max_snapshots (cm_policy c))
        (insert (sh_generation (ps_header s)) (generations (cm_persistence c) fs))
    \<and> (sh_generation (ps_header s) \<in> generations (cm_persistence c) fs' \<longleftrightarrow>
         card {u \<in> generations (cm_persistence c) fs. sh_generation (ps_header s) < u} < rp_max_snapshots (cm_policy c))"
proof -
  note all = checkpoint_Inr [OF assms]
  have "{u \<in> insert g G. g < u} = {u \<in> G. g < u}" for g :: tick and G by auto
  then show ?thesis using all by (simp add: newest_of_def)
qed

lemma delete_each_not_Inl: "delete_each p ts fs \<noteq> (Inl e, fs')"
proof -
  obtain fs2 where "delete_each p ts fs = (Inr (), fs2)" using delete_each_files [of p ts fs] by blast
  then show ?thesis by simp
qed

lemma enforce_retention_Inl:
  "enforce_retention E c fs = (Inl e, fs') \<Longrightarrow> fs' = fs \<and> sn_base_dir (cm_persistence c) \<notin> set (fs_dirs fs)
    \<and> e = SVIo ''read_dir: No such file or directory (os error 2)''"
  by (simp add: enforce_retention_def retain_newest_def list_snapshots_def Let_def delete_each_not_Inl split: if_split_asm)

text \<open>An append to the save journal that fails keeps the record it reports as failed, and
  every later append fails as well: the entry counter stays at the threshold and the missing
  directory is never created.\<close>

theorem failed_append_keeps_record:
  assumes "cj_append E r cj = (Inl e, cj')"
  shows "cj_inner cj' = cj_inner cj @ [r] \<and> cj_files cj' = cj_files cj
    \<and> (\<exists>c. cj_manager cj = Some c \<and> rp_auto_checkpoint_threshold (cm_policy c) \<le> cm_entries c + 1
         \<and> sn_base_dir (cm_persistence c) \<notin> set (fs_dirs (cj_files cj)))
    \<and> (\<forall>r'. fst (cj_append E r' cj') = Inl e)"
proof -
  from assms obtain c e0 fs1 where c: "cj_manager cj = Some c" "rp_auto_checkpoint_threshold (cm_policy c) \<le> cm_entries c + 1"
    and e: "enforce_retention E (record_journal_entry c) (cj_files cj) = (Inl e0, fs1)"
    and cj': "cj' = cj\<lparr>cj_inner := cj_inner cj @ [r], cj_manager := Some (record_journal_entry c), cj_files := fs1\<rparr>"
    and err: "e = JESaveJournal (save_error_text e0)"
    by (auto simp: cj_append_def Let_def try_auto_checkpoint_def should_auto_checkpoint_def record_journal_entry_def
        split: option.splits if_split_asm prod.splits sum.splits)
  note io = enforce_retention_Inl [OF e]
  have "fst (cj_append E r' cj') = Inl e" for r'
    using io c(2) by (simp add: cj' cj_append_def try_auto_checkpoint_def should_auto_checkpoint_def record_journal_entry_def
        enforce_retention_def retain_newest_def list_snapshots_def err)
  then show ?thesis using c io by (simp add: cj' record_journal_entry_def)
qed

subsection \<open>Instances\<close>

definition demo_header :: snapshot_header where
  "demo_header = header_new (schema_manifest_new ''1'') (Tick 7) 42"

definition demo_save_env :: save_env where
  "demo_save_env = \<lparr>se_header_to_json = (\<lambda>x. if x = (schema_manifest_new ''1'', Tick 7, 42) then Inr ''{}'' else Inl ''no text''),
     se_header_of_json = (\<lambda>j. if j = ''{}'' then Inr (schema_manifest_new ''1'', Tick 7, 42) else Inl ''no header''),
     se_utf8 = Inr, se_dir_order = (\<lambda>xs. xs), se_tables = (\<lambda>xs. xs)\<rparr>"

definition demo_snapshot :: persisted_snapshot where
  "demo_snapshot = \<lparr>ps_header = demo_header, ps_table_data = [(''units'', ''abc''), (''hover'', ''xy'')]\<rparr>"

definition demo_persistence :: snapshot_persistence where
  "demo_persistence = persistence_with_tiers (persistence_new ''saves'')
     [(''units'', \<lparr>tm_tier = Authority, tm_owner_subsystem = ''core'', tm_description = []\<rparr>)]"

lemma demo_save_simps [simp]:
  "serde_inverse demo_save_env" "lists_all demo_save_env" "se_tables demo_save_env xs = xs"
  "header_json demo_save_env demo_header = Inr ''{}''"
  by (auto simp: serde_inverse_def lists_all_def demo_save_env_def header_json_def demo_header_def header_new_def split: if_splits)

lemma snapshot_reads_back_witness:
  "\<exists>path fs' s'. write_snapshot demo_save_env demo_persistence demo_snapshot \<lparr>fs_dirs = [], fs_files = []\<rparr> = (Inr path, fs')
    \<and> read_snapshot demo_save_env demo_persistence (Tick 7) fs' = Inr s' \<and> ps_header s' = demo_header
    \<and> hm_get (ps_table_data s') ''units'' = Some ''abc'' \<and> hm_get (ps_table_data s') ''hover'' = None"
proof -
  obtain path fs' where w: "write_snapshot demo_save_env demo_persistence demo_snapshot \<lparr>fs_dirs = [], fs_files = []\<rparr> = (Inr path, fs')"
    by (simp add: write_snapshot_def demo_snapshot_def path_exists_def hm_contains_def Let_def)
  have size: "storable demo_save_env j (se_tables demo_save_env (ps_table_data demo_snapshot))"
    if "se_header_to_json demo_save_env (sh_schema_manifest (ps_header demo_snapshot), sh_generation (ps_header demo_snapshot),
      sh_state_hash (ps_header demo_snapshot)) = Inr j" for j
    using that by (auto simp: storable_def demo_save_env_def demo_snapshot_def demo_header_def header_new_def)
  have "kept demo_persistence ''units''" "\<not> kept demo_persistence ''hover''"
    by (simp_all add: kept_def demo_persistence_def persistence_with_tiers_def is_authority_def)
  then show ?thesis
    using snapshot_reads_back [OF w] size w by (auto simp: demo_snapshot_def hm_ok_def demo_header_def header_new_def)
qed

text \<open>A directory with generations 8, 9 and 10, in which generation 7 is saved and three are kept.\<close>

definition demo_manager :: snapshot_manager where
  "demo_manager = manager_new ''saves'' snapshot_config_default (''saves'', ''journal'')"

definition demo_files :: file_system where
  "demo_files = \<lparr>fs_dirs = [''saves''], fs_files = map (\<lambda>g. (snapshot_path (persistence_new ''saves'') (Tick g), ''x'')) [8, 9, 10]\<rparr>"

lemma demo_gens: "generations (persistence_new ''saves'') demo_files = {Tick 8, Tick 9, Tick 10}"
  "canonical (persistence_new ''saves'') demo_files"
proof -
  let ?p = "persistence_new ''saves''"
  have files: "path_exists demo_files q \<longleftrightarrow> (\<exists>t \<in> {Tick 8, Tick 9, Tick 10}. q = snapshot_path ?p t)" for q
    by (simp add: path_exists_def hm_contains_def demo_files_def eq_commute [of q])
  then show "generations ?p demo_files = {Tick 8, Tick 9, Tick 10}"
    by (auto simp: generations_def snapshot_path_inj)
  have "(sn_base_dir ?p, name) = snapshot_path ?p t"
    if "path_exists demo_files (sn_base_dir ?p, name)" "parse_snapshot_name name = Some t" for name t
    using that files parse_own_name [of ?p] by (metis option.inject snd_conv)
  moreover have "hm_ok (fs_files demo_files)" by (simp add: demo_files_def hm_ok_def snapshot_path_inj)
  moreover have "sn_base_dir ?p \<in> set (fs_dirs demo_files)" by (simp add: demo_files_def persistence_new_def)
  ultimately show "canonical ?p demo_files" unfolding canonical_def by blast
qed

lemma demo_newest: "newest_of 3 {Tick 7, Tick 8, Tick 9, Tick 10} = {Tick 8, Tick 9, Tick 10}"
  using newest_of_sorted [of "[Tick 7, Tick 8, Tick 9, Tick 10]" 3] by (simp add: less_eq_tick_def)

lemma save_keeps_newest_witness:
  "\<exists>path fs'. save_snapshot demo_save_env demo_manager demo_snapshot demo_files = (Inr path, fs')
    \<and> path = snapshot_path (persistence_new ''saves'') (Tick 7) \<and> generations (persistence_new ''saves'') fs' = {Tick 8, Tick 9, Tick 10}
    \<and> hm_get (fs_files fs') path = None"
proof -
  let ?p = "persistence_new ''saves''"
  have m: "sm_persistence demo_manager = ?p" "sg_max_snapshots (sm_config demo_manager) = 3"
    by (simp_all add: demo_manager_def manager_new_def snapshot_config_default_def)
  have g: "sh_generation (ps_header demo_snapshot) = Tick 7" by (simp add: demo_snapshot_def demo_header_def header_new_def)
  have new: "\<not> path_exists demo_files (snapshot_path ?p (Tick 7))"
  proof -
    have "Tick 7 \<notin> generations ?p demo_files" by (simp add: demo_gens(1))
    then show ?thesis by (simp add: generations_def)
  qed
  have temp: "\<not> path_exists demo_files (temp_snapshot_path demo_manager (Tick 7))"
    using temp_name [of demo_manager "Tick 7"] by (auto simp: path_exists_def hm_contains_def demo_files_def m)
  obtain path fs' where ok: "save_snapshot demo_save_env demo_manager demo_snapshot demo_files = (Inr path, fs')"
  proof -
    have "header_json demo_save_env (ps_header demo_snapshot) = Inr ''{}''" by (simp add: demo_snapshot_def)
    from save_snapshot_succeeds [OF _ demo_save_simps(2) _ _ this, of demo_manager demo_files] demo_gens(2) temp new that
    show ?thesis unfolding m g by blast
  qed
  have gens: "generations ?p fs' = {Tick 8, Tick 9, Tick 10}" and path: "path = snapshot_path ?p (Tick 7)"
    using save_keeps_newest [OF ok] temp demo_gens demo_newest by (simp_all add: m g insert_commute)
  then have "Tick 7 \<notin> generations ?p fs'" by simp
  then have "hm_get (fs_files fs') path = None" by (simp add: generations_def path_exists_def hm_contains_def path)
  then show ?thesis using ok path gens by blast
qed

lemma checkpoint_covers_journal_witness:
  "\<exists>c' fs'. write_checkpoint_snapshot demo_save_env demo_snapshot
       (checkpoint_manager_new ''saves'' default_policy (''saves'', ''journal'')) demo_files = (Inr (), c', fs')
    \<and> \<not> path_exists fs' (''saves'', ''journal'') \<and> Tick 7 \<notin> generations (persistence_new ''saves'') fs'"
proof -
  let ?p = "persistence_new ''saves''" and ?c = "checkpoint_manager_new ''saves'' default_policy (''saves'', ''journal'')"
  have c: "cm_persistence ?c = ?p" "rp_max_snapshots (cm_policy ?c) = 3" "cm_journal_path ?c = (''saves'', ''journal'')"
    by (simp_all add: checkpoint_manager_new_def default_policy_def)
  have g: "sh_generation (ps_header demo_snapshot) = Tick 7" by (simp add: demo_snapshot_def demo_header_def header_new_def)
  have journal: "cm_journal_path ?c \<noteq> snapshot_path (cm_persistence ?c) t" for t
    by (simp add: c snapshot_path_def)
  have "Tick 7 \<notin> generations ?p demo_files" by (simp add: demo_gens(1))
  then have new: "\<not> path_exists demo_files (snapshot_path ?p (Tick 7))" by (simp add: generations_def)
  have "header_json demo_save_env (ps_header demo_snapshot) = Inr ''{}''" by (simp add: demo_snapshot_def)
  with new g obtain path fs1 where w: "write_snapshot demo_save_env ?p demo_snapshot demo_files = (Inr path, fs1)"
    by (simp add: write_snapshot_def Let_def)
  obtain bytes where path: "path = snapshot_path ?p (Tick 7)" and fs1: "fs1 = write_file path bytes (create_dir_all (sn_base_dir ?p) demo_files)"
    using written_entries [OF w] g by metis
  have "canonical ?p fs1"
    by (rule written_generation(1) [OF demo_gens(2)])
      (use demo_gens(2) in \<open>auto simp: fs1 path canonical_def\<close>)
  from retain_newest_files [OF this demo_save_simps(2), of 3] obtain fs2 where
    "enforce_retention demo_save_env ?c fs1 = (Inr (), fs2)" unfolding enforce_retention_def c by blast
  then obtain c' fs' where ok: "write_checkpoint_snapshot demo_save_env demo_snapshot ?c demo_files = (Inr (), c', fs')"
    using w by (simp add: write_checkpoint_snapshot_def truncate_journal_def c(1))
  have "Tick 7 \<notin> generations ?p fs'"
    using checkpoint_covers_journal [OF ok _ demo_save_simps(2) journal] demo_gens demo_newest
    by (simp add: c g insert_commute)
  moreover have "\<not> path_exists fs' (''saves'', ''journal'')"
    using checkpoint_Inr [OF ok _ demo_save_simps(2) journal] demo_gens by (simp add: c)
  ultimately show ?thesis using ok by blast
qed

end
