(* ===== verification/Save_Load.thy ===== *)
theory Save_Load
  imports Save_Files Store
begin

section \<open>Loading a save (scharnhorst\_save)\<close>

text \<open>
  migration.rs, mod\_tolerance.rs and load\_reconstruction.rs: the chain of schema migrations,
  the comparison of a save's mods with those on disk, and the six phases of a load. A
  migration's closure is a function that fails or returns the new table.
\<close>

subsection \<open>migration.rs\<close>

record migration_step =
  ms_from_version :: string
  ms_to_version :: string
  ms_migrate_table :: "table_spec \<Rightarrow> save_error + table_spec"

record migration_pipeline =
  mp_steps :: "migration_step list"
  mp_target_version :: string

definition pipeline_new :: "string \<Rightarrow> migration_pipeline" where
  "pipeline_new target = \<lparr>mp_steps = [], mp_target_version = target\<rparr>"

definition pipeline_register :: "migration_pipeline \<Rightarrow> migration_step \<Rightarrow> migration_pipeline" where
  "pipeline_register p s = p\<lparr>mp_steps := mp_steps p @ [s]\<rparr>"

definition next_step :: "migration_pipeline \<Rightarrow> string \<Rightarrow> migration_step option" where
  "next_step p v = find (\<lambda>s. ms_from_version s = v) (mp_steps p)"

definition migrate_tables :: "migration_step \<Rightarrow> table_spec list \<Rightarrow> save_error + table_spec list" where
  "migrate_tables s tables =
     map_err (\<lambda>e. SVMigrationFailed (ms_from_version s) (ms_to_version s) (save_error_text e))
       (map_result (ms_migrate_table s) tables)"

text \<open>The \<open>while\<close> loop; \<open>applied\<close> counts the steps taken.\<close>

function pipeline_loop ::
  "migration_pipeline \<Rightarrow> string \<Rightarrow> nat \<Rightarrow> string \<Rightarrow> table_spec list \<Rightarrow> save_error + table_spec list" where
  "pipeline_loop p start applied version tables =
     (if version = mp_target_version p then Inr tables
      else rbind (ok_or (next_step p version) (SVNoMigrationPath version)) (\<lambda>s.
           rbind (migrate_tables s tables) (\<lambda>tables1.
           if applied + 1 > length (mp_steps p) + 1
           then Inl (SVMigrationFailed start (mp_target_version p) ''migration cycle detected'')
           else pipeline_loop p start (applied + 1) (ms_to_version s) tables1)))"
  by pat_completeness auto

termination
  by (relation "measure (\<lambda>(p, _, applied, _, _). length (mp_steps p) + 2 - applied)") auto

declare pipeline_loop.simps [simp del]

definition pipeline_apply :: "migration_pipeline \<Rightarrow> schema_manifest \<Rightarrow> save_error + migrated_schema_manifest" where
  "pipeline_apply p m =
     rbind (pipeline_loop p (sm_schema_version m) 0 (sm_schema_version m) (sm_tables m)) (\<lambda>tables.
     Inr (migrated_new (foldl with_relation (foldl with_table (schema_manifest_new (mp_target_version p)) tables)
       (sm_relations m)) (sm_schema_version m)))"

definition is_up_to_date :: "migration_pipeline \<Rightarrow> string \<Rightarrow> bool" where
  "is_up_to_date p v \<longleftrightarrow> v = mp_target_version p"

type_synonym pipeline_registry = "(string \<times> migration_pipeline) list"

definition pipelines_register :: "pipeline_registry \<Rightarrow> migration_pipeline \<Rightarrow> pipeline_registry" where
  "pipelines_register r p = hm_insert (mp_target_version p) p r"

definition pipelines_migrate ::
  "pipeline_registry \<Rightarrow> schema_manifest \<Rightarrow> string \<Rightarrow> save_error + migrated_schema_manifest" where
  "pipelines_migrate r m target =
     rbind (ok_or (hm_get r target) (SVNoMigrationPath target)) (\<lambda>p. pipeline_apply p m)"

subsection \<open>mod\_tolerance.rs\<close>

datatype mod_load_outcome =
    ExactMatch
  | VersionMismatch "string list"
  | MissingMods "mod_fingerprint list" "string list"
  | ExtraMods "mod_fingerprint list"
  | Degraded "string list" "string list"

datatype mod_tolerance_policy = Strict | Warn | Silent

record mod_tolerance_checker =
  mt_policy :: mod_tolerance_policy
  mt_critical_mods :: "string list"

definition checker_new :: "mod_tolerance_policy \<Rightarrow> mod_tolerance_checker" where
  "checker_new pol = \<lparr>mt_policy = pol, mt_critical_mods = []\<rparr>"

definition with_critical_mod :: "mod_tolerance_checker \<Rightarrow> string \<Rightarrow> mod_tolerance_checker" where
  "with_critical_mod c m = c\<lparr>mt_critical_mods := List.insert m (mt_critical_mods c)\<rparr>"

definition is_critical :: "mod_tolerance_checker \<Rightarrow> string \<Rightarrow> bool" where
  "is_critical c m \<longleftrightarrow> m \<in> set (mt_critical_mods c)"

definition strict_check :: "mod_fingerprint list \<Rightarrow> mod_fingerprint list \<Rightarrow> fingerprint_comparison \<Rightarrow> save_error + mod_load_outcome" where
  "strict_check stored available comparison =
     (if length available \<noteq> length stored then
        Inl (SVGeneric (''strict mode: mod count mismatch: stored='' @ show_nat (length stored)
          @ '', available='' @ show_nat (length available)))
      else (case fc_missing comparison of
        missing # _ \<Rightarrow> Inl (SVGeneric (''strict mode: mod mismatch detected: mod '' @ quoted (mf_mod_id missing)
          @ '' is missing from available mods''))
      | [] \<Rightarrow> (case fc_mismatched comparison of
          (s, a) # _ \<Rightarrow> Inl (SVGeneric (''strict mode: mod mismatch detected: mod '' @ quoted (mf_mod_id s)
            @ '' version/content differs (stored v'' @ mf_version s @ '' vs available v'' @ mf_version a @ '')''))
        | [] \<Rightarrow> Inr ExactMatch)))"

definition mismatch_warning :: "mod_fingerprint \<times> mod_fingerprint \<Rightarrow> string" where
  "mismatch_warning m = (case m of (stored, avail) \<Rightarrow>
     ''mod '' @ mf_mod_id stored @ '' version mismatch: save='' @ mf_version stored @ '', disk='' @ mf_version avail)"

definition warn_outcome :: "fingerprint_comparison \<Rightarrow> mod_load_outcome" where
  "warn_outcome comparison =
     (let warnings = map mismatch_warning (fc_mismatched comparison);
          degraded_tables = concat (map mf_table_specs (fc_missing comparison));
          extra = fc_extra comparison in
      if is_exact_match comparison \<and> extra = [] then ExactMatch
      else if fc_mismatched comparison \<noteq> [] \<and> fc_missing comparison \<noteq> [] \<and> extra \<noteq> [] then Degraded warnings degraded_tables
      else if fc_mismatched comparison \<noteq> [] then VersionMismatch warnings
      else if fc_missing comparison \<noteq> [] then MissingMods (fc_missing comparison) degraded_tables
      else if extra \<noteq> [] then ExtraMods extra
      else ExactMatch)"

definition mod_check ::
  "mod_tolerance_checker \<Rightarrow> mod_fingerprint list \<Rightarrow> mod_fingerprint list \<Rightarrow> save_error + mod_load_outcome" where
  "mod_check c stored available =
     (let comparison = fingerprints_compare stored available in
      case find (\<lambda>m. is_critical c (mf_mod_id m)) (fc_missing comparison) of
        Some m \<Rightarrow> Inl (SVCriticalModMissing (mf_mod_id m))
      | None \<Rightarrow> (case mt_policy c of
          Strict \<Rightarrow> strict_check stored available comparison
        | Silent \<Rightarrow> Inr ExactMatch
        | Warn \<Rightarrow> Inr (warn_outcome comparison)))"

definition add_missing :: "mod_fingerprint list \<Rightarrow> mod_fingerprint \<Rightarrow> mod_fingerprint list" where
  "add_missing result fp = (if \<exists>a \<in> set result. mf_mod_id a = mf_mod_id fp then result else result @ [fp])"

definition final_mod_list :: "mod_fingerprint list \<Rightarrow> mod_fingerprint list \<Rightarrow> mod_fingerprint list" where
  "final_mod_list stored available = sort_key mf_mod_id (foldl add_missing available stored)"

subsection \<open>load\_reconstruction.rs\<close>

record load_reconstruction =
  ld_lifecycle :: load_lifecycle
  ld_persistence :: snapshot_persistence
  ld_tolerance_checker :: mod_tolerance_checker
  ld_migration_pipeline :: "migration_pipeline option"
  ld_tier_registry :: tier_registry

definition reconstruction_new :: "snapshot_persistence \<Rightarrow> mod_tolerance_checker \<Rightarrow> load_reconstruction" where
  "reconstruction_new p c = \<lparr>ld_lifecycle = load_lifecycle_new, ld_persistence = p, ld_tolerance_checker = c,
     ld_migration_pipeline = None, ld_tier_registry = tier_registry_new\<rparr>"

definition skip_to_phase :: "load_phase \<Rightarrow> load_reconstruction \<Rightarrow> (save_error + unit) \<times> load_reconstruction" where
  "skip_to_phase ph r = (case start_phase (ld_lifecycle r) ph of
     Inl e \<Rightarrow> (Inl (SVContent e), r) | Inr l \<Rightarrow> (Inr (), r\<lparr>ld_lifecycle := l\<rparr>))"

text \<open>The start of every phase: advance the lifecycle, then check that it is the phase meant.\<close>

definition enter :: "load_phase \<Rightarrow> load_reconstruction \<Rightarrow> (save_error + unit) \<times> load_reconstruction" where
  "enter expected r = (case advance (ld_lifecycle r) of
     Inl e \<Rightarrow> (Inl (SVContent e), r)
   | Inr (ph, l) \<Rightarrow>
       (if ph \<noteq> expected then Inl (SVInvalidPhaseTransition (load_phase_name ph) (load_phase_name expected)) else Inr (),
        r\<lparr>ld_lifecycle := l\<rparr>))"

definition phase1_snapshot_deserialize ::
  "save_env \<Rightarrow> file_system \<Rightarrow> load_reconstruction \<Rightarrow> (save_error + schema_manifest) \<times> load_reconstruction" where
  "phase1_snapshot_deserialize E fs r = (case enter SnapshotDeserialize r of
     (Inl e, r1) \<Rightarrow> (Inl e, r1)
   | (Inr _, r1) \<Rightarrow>
       (case rbind (latest_snapshot_file E (ld_persistence r1) fs) (\<lambda>found.
             rbind (ok_or found (SVSnapshotNotFound ''no snapshots available'')) (\<lambda>(tick, _).
             read_snapshot E (ld_persistence r1) tick fs)) of
          Inl e \<Rightarrow> (Inl e, r1)
        | Inr persisted \<Rightarrow>
            let m = sh_schema_manifest (ps_header persisted) in
            (Inr m, r1\<lparr>ld_lifecycle := (ld_lifecycle r1)\<lparr>ll_manifest := Some m\<rparr>\<rparr>)))"

definition phase2_mod_coordination ::
  "mod_fingerprint list \<Rightarrow> mod_fingerprint list \<Rightarrow> load_reconstruction
     \<Rightarrow> (save_error + mod_fingerprint list) \<times> load_reconstruction" where
  "phase2_mod_coordination stored available r = (case enter ModCoordination r of
     (Inl e, r1) \<Rightarrow> (Inl e, r1)
   | (Inr _, r1) \<Rightarrow>
       (case mod_check (ld_tolerance_checker r1) stored available of
          Inl e \<Rightarrow> (Inl e, r1)
        | Inr _ \<Rightarrow>
            let final_mods = final_mod_list stored available in
            (Inr final_mods, r1\<lparr>ld_lifecycle := (ld_lifecycle r1)\<lparr>ll_final_mods := final_mods\<rparr>\<rparr>)))"

definition phase3_schema_migration ::
  "schema_manifest \<Rightarrow> load_reconstruction \<Rightarrow> (save_error + migrated_schema_manifest) \<times> load_reconstruction" where
  "phase3_schema_migration m r = (case enter SchemaMigration r of
     (Inl e, r1) \<Rightarrow> (Inl e, r1)
   | (Inr _, r1) \<Rightarrow>
       (case (case ld_migration_pipeline r1 of
                Some p \<Rightarrow> pipeline_apply p m
              | None \<Rightarrow> Inr (migrated_from_manifest m (sm_schema_version m))) of
          Inl e \<Rightarrow> (Inl e, r1)
        | Inr migrated \<Rightarrow> (Inr migrated, r1\<lparr>ld_lifecycle := (ld_lifecycle r1)\<lparr>ll_migrated := Some migrated\<rparr>\<rparr>)))"

text \<open>Phase 4 changes the store and the tier registry table by table. \<open>order\<close> lists the tables
  of the relation graph.\<close>

definition load_table_entry ::
  "table_spec \<Rightarrow> ('j, 'a, 'b) arrow_store \<times> load_reconstruction
     \<Rightarrow> (save_error + unit) \<times> ('j, 'a, 'b) arrow_store \<times> load_reconstruction" where
  "load_table_entry spec sr = (case sr of (s, r) \<Rightarrow>
     (case create_table s spec AppendOnly of
        (Inl e, s1) \<Rightarrow> (Inl (SVArrowStore e), s1, r)
      | (Inr _, s1) \<Rightarrow>
          (Inr (), s1, (case tier_register (ld_tier_registry r) (ts_name spec) Authority ''save_loader''
               (''Loaded authority table: '' @ ts_name spec) of
             Inl _ \<Rightarrow> r | Inr tr \<Rightarrow> r\<lparr>ld_tier_registry := tr\<rparr>))))"

fun load_tables ::
  "table_spec list \<Rightarrow> ('j, 'a, 'b) arrow_store \<times> load_reconstruction
     \<Rightarrow> (save_error + unit) \<times> ('j, 'a, 'b) arrow_store \<times> load_reconstruction" where
  "load_tables [] sr = (Inr (), sr)"
| "load_tables (t # ts) sr = (case load_table_entry t sr of
     (Inl e, sr1) \<Rightarrow> (Inl e, sr1) | (Inr _, sr1) \<Rightarrow> load_tables ts sr1)"

definition check_relations :: "(string list \<Rightarrow> string list) \<Rightarrow> relation_edge list \<Rightarrow> save_error + unit" where
  "check_relations order edges =
     rbind (map_err SVSchema (try_fold add_edge relation_graph_new edges)) (\<lambda>graph.
     case detect_cycles graph (order (concat (map (\<lambda>e. [re_from e, re_to e]) (rg_edges graph)))) of
       [] \<Rightarrow> Inr ()
     | cycles \<Rightarrow> Inl (SVSchema (CircularRelation (join ''; '' (map (join '' -> '') cycles)))))"

definition phase4_content_compilation_entry ::
  "(string list \<Rightarrow> string list) \<Rightarrow> ('j, 'a, 'b) arrow_store \<Rightarrow> load_reconstruction
     \<Rightarrow> (save_error + unit) \<times> ('j, 'a, 'b) arrow_store \<times> load_reconstruction" where
  "phase4_content_compilation_entry order s r = (case enter ContentCompilation r of
     (Inl e, r1) \<Rightarrow> (Inl e, s, r1)
   | (Inr _, r1) \<Rightarrow>
       (case rbind (ok_or (ll_migrated (ld_lifecycle r1)) (SVGeneric ''migrated manifest not set'')) (\<lambda>migrated.
             rbind (check_relations order (sm_relations (mm_manifest migrated))) (\<lambda>_. Inr migrated)) of
          Inl e \<Rightarrow> (Inl e, s, r1)
        | Inr migrated \<Rightarrow> load_tables (sm_tables (mm_manifest migrated)) (s, r1)))"

definition non_authority_tables :: "load_reconstruction \<Rightarrow> save_error + string list" where
  "non_authority_tables r =
     rbind (ok_or (ll_migrated (ld_lifecycle r)) (SVGeneric ''migrated manifest not set'')) (\<lambda>migrated.
     Inr (map ts_name (filter (\<lambda>t. \<not> is_authority (ld_tier_registry r) (ts_name t)) (sm_tables (mm_manifest migrated)))))"

definition derived_tables_need_rebuild :: "load_reconstruction \<Rightarrow> save_error + string list" where
  "derived_tables_need_rebuild r = non_authority_tables r"

definition ephemeral_tables_needing_init :: "load_reconstruction \<Rightarrow> save_error + string list" where
  "ephemeral_tables_needing_init r = non_authority_tables r"

definition phase5_schema_freeze :: "load_reconstruction \<Rightarrow> (save_error + unit) \<times> load_reconstruction" where
  "phase5_schema_freeze r = (case enter SchemaFreeze r of
     (Inl e, r1) \<Rightarrow> (Inl e, r1)
   | (Inr _, r1) \<Rightarrow> (Inr (), r1\<lparr>ld_lifecycle := (ld_lifecycle r1)\<lparr>ll_frozen := True\<rparr>\<rparr>))"

definition phase6_simulation_start :: "load_reconstruction \<Rightarrow> (save_error + unit) \<times> load_reconstruction" where
  "phase6_simulation_start r = (case enter SimulationStart r of
     (Inl e, r1) \<Rightarrow> (Inl e, r1)
   | (Inr _, r1) \<Rightarrow> (Inr (), r1\<lparr>ld_lifecycle := finish (ld_lifecycle r1)\<rparr>))"

definition replay_diffs ::
  "save_env \<Rightarrow> file_system \<Rightarrow> load_reconstruction \<Rightarrow> tick \<Rightarrow> 'j commit_record list \<Rightarrow> save_error + u64" where
  "replay_diffs E fs r base_tick records =
     rbind (read_snapshot E (ld_persistence r) base_tick fs) (\<lambda>snapshot.
     Inr (foldl (\<lambda>h rec. h + cr_state_hash rec) (sh_state_hash (ps_header snapshot))
       (filter (\<lambda>rec. cr_tick rec > base_tick) records)))"

definition verify_state_hash :: "u64 \<Rightarrow> u64 \<Rightarrow> save_error + unit" where
  "verify_state_hash computed expected = (if computed \<noteq> expected then Inl (SVStateHashMismatch expected computed) else Inr ())"

record reconstruction_builder =
  rb_persistence :: "snapshot_persistence option"
  rb_tolerance_checker :: "mod_tolerance_checker option"
  rb_migration_pipeline :: "migration_pipeline option"
  rb_tier_registry :: "tier_registry option"

definition builder_build :: "reconstruction_builder \<Rightarrow> save_error + load_reconstruction" where
  "builder_build b =
     rbind (ok_or (rb_persistence b) (SVGeneric ''persistence required'')) (\<lambda>p.
     rbind (ok_or (rb_tolerance_checker b) (SVGeneric ''tolerance_checker required'')) (\<lambda>c.
     let r = reconstruction_new p c;
         r1 = (case rb_migration_pipeline b of None \<Rightarrow> r | Some mp \<Rightarrow> r\<lparr>ld_migration_pipeline := Some mp\<rparr>);
         r2 = (case rb_tier_registry b of None \<Rightarrow> r1 | Some tr \<Rightarrow> r1\<lparr>ld_tier_registry := tr\<rparr>)
     in Inr r2))"

end
