(* ===== verification/Save_Load_Props.thy ===== *)
theory Save_Load_Props
  imports Save_Load
begin

section \<open>Properties of loading a save\<close>

text \<open>
  The migration loop against chains of steps, what the mod checks accept, and the phases of
  a load.
\<close>

subsection \<open>Migrations\<close>

text \<open>The chain of steps the loop can take from a version: each the first registered for its
  version, none from the target.\<close>

fun chain :: "migration_pipeline \<Rightarrow> string \<Rightarrow> migration_step list \<Rightarrow> string \<Rightarrow> bool" where
  "chain p v [] w \<longleftrightarrow> v = w"
| "chain p v (s # ss) w \<longleftrightarrow> v \<noteq> mp_target_version p \<and> next_step p v = Some s \<and> chain p (ms_to_version s) ss w"

definition migrate_along :: "migration_step list \<Rightarrow> table_spec list \<Rightarrow> save_error + table_spec list" where
  "migrate_along ss ts = try_fold (\<lambda>ts s. migrate_tables s ts) ts ss"

lemma next_step_Some: "next_step p v = Some s \<Longrightarrow> s \<in> set (mp_steps p) \<and> ms_from_version s = v"
  by (auto simp: next_step_def find_Some_iff)

lemma chain_append: "chain p v (xs @ ys) w \<longleftrightarrow> (\<exists>u. chain p v xs u \<and> chain p u ys w)"
  by (induction xs arbitrary: v) auto

lemma chain_unique:
  "chain p v ss (mp_target_version p) \<Longrightarrow> chain p v ss' (mp_target_version p) \<Longrightarrow> ss = ss'"
proof (induction ss arbitrary: v ss')
  case Nil
  then show ?case by (cases ss') auto
next
  case (Cons s ss)
  then show ?case by (cases ss') auto
qed

text \<open>A chain to the target visits no version twice, so it is no longer than the list of steps.\<close>

lemma chain_hd: "chain p v ss w \<Longrightarrow> s \<in> set ss \<Longrightarrow> \<exists>xs ys. ss = xs @ s # ys \<and> chain p v xs (ms_from_version s) \<and> chain p (ms_from_version s) (s # ys) w"
proof -
  assume c: "chain p v ss w" and "s \<in> set ss"
  then obtain xs ys where ss: "ss = xs @ s # ys" by (auto simp: in_set_conv_decomp)
  then obtain u where "chain p v xs u" "chain p u (s # ys) w" using c by (auto simp: chain_append simp del: chain.simps)
  moreover from this have "u = ms_from_version s" by (auto dest: next_step_Some)
  ultimately show ?thesis using ss by blast
qed

lemma chain_distinct: "chain p v ss (mp_target_version p) \<Longrightarrow> distinct (map ms_from_version ss)"
proof (induction ss arbitrary: v)
  case (Cons s ss)
  have v: "ms_from_version s = v" using Cons.prems by (auto dest: next_step_Some)
  have "v \<noteq> ms_from_version t" if t: "t \<in> set ss" for t
  proof
    assume vt: "v = ms_from_version t"
    have "chain p (ms_to_version s) ss (mp_target_version p)" using Cons.prems by simp
    from chain_hd [OF this t] obtain xs ys where
      ss: "ss = xs @ t # ys" and "chain p (ms_from_version t) (t # ys) (mp_target_version p)" by blast
    then have "chain p v (t # ys) (mp_target_version p)" unfolding vt by blast
    then have "s # ss = t # ys" by (rule chain_unique [OF Cons.prems])
    then have "length (s # ss) = length (t # ys)" by (rule arg_cong)
    then show False using ss by simp
  qed
  then show ?case using Cons v by (auto simp: image_iff)
qed simp

lemma chain_length:
  assumes "chain p v ss (mp_target_version p)" shows "length ss \<le> length (mp_steps p)"
proof -
  have "set ss \<subseteq> set (mp_steps p)" using chain_hd [OF assms] by (fastforce dest: next_step_Some)
  moreover have "distinct ss" using chain_distinct [OF assms] by (simp add: distinct_map)
  ultimately show ?thesis by (metis card_length card_mono distinct_card finite_set le_trans)
qed

lemma migrate_along_Cons: "migrate_along (s # ss) ts = rbind (migrate_tables s ts) (migrate_along ss)"
  by (cases "migrate_tables s ts") (simp_all add: migrate_along_def)

lemma loop_follows_chain:
  "chain p v ss (mp_target_version p) \<Longrightarrow> applied + length ss \<le> length (mp_steps p) + 1 \<Longrightarrow>
   pipeline_loop p start applied v ts = migrate_along ss ts"
proof (induction ss arbitrary: v applied ts)
  case Nil
  then show ?case by (simp add: pipeline_loop.simps migrate_along_def)
next
  case (Cons s ss)
  then have "pipeline_loop p start (Suc applied) (ms_to_version s) = migrate_along ss" by (intro ext) simp
  then have "pipeline_loop p start applied v ts = rbind (migrate_tables s ts) (migrate_along ss)"
    using Cons.prems by (subst pipeline_loop.simps) simp
  then show ?case by (simp add: migrate_along_Cons)
qed

lemma loop_Inr: "pipeline_loop p start applied v ts = Inr ts' \<Longrightarrow>
   \<exists>ss. chain p v ss (mp_target_version p) \<and> migrate_along ss ts = Inr ts'"
proof (induction p start applied v ts rule: pipeline_loop.induct)
  case (1 p start applied v ts)
  show ?case
  proof (cases "v = mp_target_version p")
    case True
    then show ?thesis using 1(2) by (intro exI [of _ "[]"]) (simp add: pipeline_loop.simps migrate_along_def)
  next
    case False
    then obtain s ts1 where s: "next_step p v = Some s" "migrate_tables s ts = Inr ts1"
      "\<not> applied + 1 > length (mp_steps p) + 1" "pipeline_loop p start (applied + 1) (ms_to_version s) ts1 = Inr ts'"
      using 1(2) by (subst (asm) pipeline_loop.simps) (auto split: if_split_asm)
    from 1(1) [OF False s(3,4)] obtain ss where
      "chain p (ms_to_version s) ss (mp_target_version p)" "migrate_along ss ts1 = Inr ts'" by auto
    then show ?thesis using False s by (intro exI [of _ "s # ss"]) (simp add: migrate_along_Cons)
  qed
qed

lemma foldl_with_manifest:
  "foldl with_relation (foldl with_table m ts) es = m\<lparr>sm_tables := sm_tables m @ ts, sm_relations := sm_relations m @ es\<rparr>"
proof -
  have t: "foldl with_table m ts = m\<lparr>sm_tables := sm_tables m @ ts\<rparr>" for m
    by (induction ts arbitrary: m) (simp_all add: with_table_def)
  have r: "foldl with_relation m es = m\<lparr>sm_relations := sm_relations m @ es\<rparr>" for m
    by (induction es arbitrary: m) (simp_all add: with_relation_def)
  show ?thesis by (simp add: t r)
qed


subsection \<open>Mods\<close>

text \<open>Mismatching and missing mods together are reported as \<open>Degraded\<close> only if there are extra
  mods too.\<close>

lemma degraded_needs_extra_mods:
  "warn_outcome c = Degraded ws ts \<Longrightarrow> fc_extra c \<noteq> []"
  "fc_mismatched c \<noteq> [] \<Longrightarrow> fc_extra c = [] \<Longrightarrow> warn_outcome c = VersionMismatch (map mismatch_warning (fc_mismatched c))"
  by (auto simp: warn_outcome_def Let_def is_exact_match_def split: if_splits)

lemma strict_accepts:
  "mod_check c stored available = Inr out \<Longrightarrow> mt_policy c = Strict \<Longrightarrow>
   out = ExactMatch \<and> length available = length stored \<and> fc_missing (fingerprints_compare stored available) = []
     \<and> fc_mismatched (fingerprints_compare stored available) = []"
  by (auto simp: mod_check_def strict_check_def Let_def split: option.splits if_splits list.splits)

lemma critical_mod_needed:
  assumes "mod_check c stored available = Inr out" and "fp \<in> set stored" and "is_critical c (mf_mod_id fp)"
  shows "mf_mod_id fp \<in> mf_mod_id ` set available"
proof (rule ccontr)
  assume "mf_mod_id fp \<notin> mf_mod_id ` set available"
  then have "fp \<in> set (fc_missing (fingerprints_compare stored available))"
    using assms(2) by (simp add: fingerprints_compare_def Let_def)
  then show False using assms(1,3) by (auto simp: mod_check_def Let_def find_None_iff split: option.splits)
qed

lemma add_missing_step:
  "mf_mod_id ` set (add_missing xs y) = insert (mf_mod_id y) (mf_mod_id ` set xs)"
  "distinct (map mf_mod_id xs) \<Longrightarrow> distinct (map mf_mod_id (add_missing xs y))"
  by (auto simp: add_missing_def image_iff, metis)

lemma add_missing_ids: "mf_mod_id ` set (foldl add_missing xs ys) = mf_mod_id ` set xs \<union> mf_mod_id ` set ys"
  by (induction ys arbitrary: xs) (auto simp: add_missing_step)

lemma add_missing_distinct: "distinct (map mf_mod_id xs) \<Longrightarrow> distinct (map mf_mod_id (foldl add_missing xs ys))"
  by (induction ys arbitrary: xs) (auto simp: add_missing_step)

lemma add_missing_keeps: "set xs \<subseteq> set (foldl add_missing xs ys)"
  by (induction ys arbitrary: xs) (fastforce simp: add_missing_def)+

text \<open>The mods a load goes on with: every mod of the disk as it is there, every other mod of the
  save, sorted by name.\<close>

lemma final_mod_list_correct:
  "sorted (map mf_mod_id (final_mod_list stored available))"
  "mf_mod_id ` set (final_mod_list stored available) = mf_mod_id ` set available \<union> mf_mod_id ` set stored"
  "set available \<subseteq> set (final_mod_list stored available)"
  "distinct (map mf_mod_id available) \<Longrightarrow> distinct (map mf_mod_id (final_mod_list stored available))"
  using add_missing_keeps [of available stored] add_missing_distinct [of available stored]
  by (simp_all add: final_mod_list_def add_missing_ids distinct_map)

subsection \<open>Phases\<close>

lemma enter_Inr:
  "enter ph r = (Inr u, r1) \<Longrightarrow> ll_current (ld_lifecycle r1) = Some ph"
  by (auto simp: enter_def advance_def split: sum.splits prod.splits if_splits option.splits)

text \<open>Whatever a phase does after it was entered, calling it again on the state it left fails.\<close>

lemma failed_phase_is_not_retried:
  assumes "enter ph r = (Inr u, r1)" and "ll_current (ld_lifecycle r2) = ll_current (ld_lifecycle r1)"
  shows "\<exists>e r3. enter ph r2 = (Inl e, r3)"
proof -
  have "ll_current (ld_lifecycle r2) = Some ph" using enter_Inr [OF assms(1)] assms(2) by simp
  then show ?thesis by (cases ph) (auto simp: enter_def advance_def)
qed

end
