(* ===== verification/Bevy_Input.thy ===== *)
theory Bevy_Input
  imports Scheduler_Props
begin

section \<open>The input buffer (scharnhorst\_bevy: error.rs, input\_buffer.rs)\<close>

text \<open>
  Player commands are buffered frame by frame and handed out once per tick. The mutex of the
  buffer serialises its methods and is never poisoned, so each method is one function of the
  state. The lemmas follow a run of calls, and a drained batch into the journal.
\<close>

subsection \<open>error.rs\<close>

datatype bevy_error =
    BEQueryEngine string
  | BEScheduler string
  | BEJournal string
  | BEArrowStore string
  | BESchema string
  | BESnapshotNotAvailable u64
  | BEMaterializationFailed u64
  | BEEntityNotFound u64
  | BESyncFailed string
  | BEInputBuffer string
  | BERefreshHandler string
  | BENonPlayerCommandRejected
  | BETickAlignment tick tick string
  | BELockPoisoned string
  | BEGeneric string

fun bevy_error_text :: "bevy_error \<Rightarrow> string" where
  "bevy_error_text (BEQueryEngine s) = ''query engine error: '' @ s"
| "bevy_error_text (BEScheduler s) = ''scheduler error: '' @ s"
| "bevy_error_text (BEJournal s) = ''journal error: '' @ s"
| "bevy_error_text (BEArrowStore s) = ''arrow store error: '' @ s"
| "bevy_error_text (BESchema s) = ''schema error: '' @ s"
| "bevy_error_text (BESnapshotNotAvailable t) = ''snapshot not available for tick '' @ show_u64 t"
| "bevy_error_text (BEMaterializationFailed r) = ''entity materialization failed for row '' @ show_u64 r"
| "bevy_error_text (BEEntityNotFound r) = ''entity not found for row '' @ show_u64 r"
| "bevy_error_text (BESyncFailed s) = ''sync failed: '' @ s"
| "bevy_error_text (BEInputBuffer s) = ''input buffer error: '' @ s"
| "bevy_error_text (BERefreshHandler s) = ''refresh handler error: '' @ s"
| "bevy_error_text BENonPlayerCommandRejected =
     ''command rejected: player commands only; AI and internal must bypass bridge''"
| "bevy_error_text (BETickAlignment e a s) =
     ''tick alignment error: expected tick '' @ tick_display e @ '', got '' @ tick_display a @ '' - '' @ s"
| "bevy_error_text (BELockPoisoned s) = ''lock poisoned: '' @ s"
| "bevy_error_text (BEGeneric s) = ''generic error: '' @ s"

subsection \<open>input\_buffer.rs\<close>

datatype command_source = Player u64 | Ai string | Internal string

fun is_player :: "command_source \<Rightarrow> bool" where
  "is_player (Player _) = True"
| "is_player (Ai _) = False"
| "is_player (Internal _) = False"

fun is_ai :: "command_source \<Rightarrow> bool" where
  "is_ai (Player _) = False"
| "is_ai (Ai _) = True"
| "is_ai (Internal _) = False"

fun is_internal :: "command_source \<Rightarrow> bool" where
  "is_internal (Player _) = False"
| "is_internal (Ai _) = False"
| "is_internal (Internal _) = True"

fun to_source_string :: "command_source \<Rightarrow> string" where
  "to_source_string (Player p) = ''player_'' @ show_u64 p"
| "to_source_string (Ai a) = ''ai_'' @ a"
| "to_source_string (Internal s) = ''internal_'' @ s"

record 'j command_batch =
  cb_tick :: tick
  cb_commands :: "'j command_envelope list"

definition batch_new :: "tick \<Rightarrow> 'j command_batch" where
  "batch_new t = \<lparr>cb_tick = t, cb_commands = []\<rparr>"

definition batch_with_commands :: "tick \<Rightarrow> 'j command_envelope list \<Rightarrow> 'j command_batch" where
  "batch_with_commands t cs = \<lparr>cb_tick = t, cb_commands = cs\<rparr>"

definition batch_is_empty :: "'j command_batch \<Rightarrow> bool" where
  "batch_is_empty b \<longleftrightarrow> cb_commands b = []"

record 'j input_buffer =
  ib_queue :: "'j command_envelope list"
  ib_current_tick :: tick
  ib_player_id :: u64
  ib_last_consumed_tick :: tick
  ib_tick_prepared :: bool

definition input_buffer_new :: "'j input_buffer" where
  "input_buffer_new = \<lparr>ib_queue = [], ib_current_tick = tick_ZERO, ib_player_id = 0,
     ib_last_consumed_tick = tick_ZERO, ib_tick_prepared = False\<rparr>"

definition set_player_id :: "u64 \<Rightarrow> 'j input_buffer \<Rightarrow> 'j input_buffer" where
  "set_player_id p b = b\<lparr>ib_player_id := p\<rparr>"

definition set_tick :: "tick \<Rightarrow> 'j input_buffer \<Rightarrow> 'j input_buffer" where
  "set_tick t b = b\<lparr>ib_current_tick := t\<rparr>"

definition prepare_for_tick :: "tick \<Rightarrow> 'j input_buffer \<Rightarrow> (bevy_error + unit) \<times> 'j input_buffer" where
  "prepare_for_tick t b =
     (if tick_as_u64 t < tick_as_u64 (ib_current_tick b)
      then (Inl (BETickAlignment (ib_current_tick b) t ''tick cannot go backwards''), b)
      else (Inr (), b\<lparr>ib_current_tick := t, ib_tick_prepared := True\<rparr>))"

definition input_push :: "'j command \<Rightarrow> 'j input_buffer \<Rightarrow> 'j input_buffer" where
  "input_push c b = b\<lparr>ib_queue := ib_queue b @
     [envelope_new (ib_current_tick b) (''player_'' @ show_u64 (ib_player_id b)) c]\<rparr>"

definition push_with_source ::
  "command_source \<Rightarrow> 'j command \<Rightarrow> 'j input_buffer \<Rightarrow> (bevy_error + unit) \<times> 'j input_buffer" where
  "push_with_source src c b =
     (if \<not> is_player src then (Inl BENonPlayerCommandRejected, b)
      else (Inr (), b\<lparr>ib_queue := ib_queue b @ [envelope_new (ib_current_tick b) (to_source_string src) c]\<rparr>))"

definition push_ai :: "'j command \<Rightarrow> 'j input_buffer \<Rightarrow> (bevy_error + unit) \<times> 'j input_buffer" where
  "push_ai c b = (Inl BENonPlayerCommandRejected, b)"

definition submit_player_command ::
  "command_source \<Rightarrow> 'j command \<Rightarrow> 'j input_buffer \<Rightarrow> (bevy_error + unit) \<times> 'j input_buffer" where
  "submit_player_command src c b =
     (if \<not> is_player src then (Inl BENonPlayerCommandRejected, b)
      else (Inr (), b\<lparr>ib_queue := ib_queue b @ [envelope_new (ib_current_tick b) (to_source_string src) c]\<rparr>))"

definition drain_commands :: "tick \<Rightarrow> 'j input_buffer \<Rightarrow> (bevy_error + 'j command_batch) \<times> 'j input_buffer" where
  "drain_commands t b =
     (if \<not> ib_tick_prepared b
      then (Inl (BETickAlignment t (ib_current_tick b) ''prepare_for_tick must be called before drain_commands''), b)
      else if t \<noteq> ib_current_tick b then (Inl (BETickAlignment (ib_current_tick b) t ''tick mismatch''), b)
      else (Inr \<lparr>cb_tick = t, cb_commands = ib_queue b\<rparr>,
            b\<lparr>ib_queue := [], ib_last_consumed_tick := t, ib_tick_prepared := False\<rparr>))"

definition input_drain :: "'j input_buffer \<Rightarrow> 'j command_envelope list \<times> 'j input_buffer" where
  "input_drain b = (ib_queue b, b\<lparr>ib_queue := []\<rparr>)"

definition input_peek :: "'j input_buffer \<Rightarrow> 'j command_envelope option" where
  "input_peek b = (case ib_queue b of [] \<Rightarrow> None | e # _ \<Rightarrow> Some e)"

definition input_clear :: "'j input_buffer \<Rightarrow> 'j input_buffer" where
  "input_clear b = b\<lparr>ib_queue := []\<rparr>"

definition consume_commands :: "tick \<Rightarrow> 'j input_buffer \<Rightarrow> (bevy_error + 'j command_batch) \<times> 'j input_buffer" where
  "consume_commands t b = (case prepare_for_tick t b of
     (Inl e, b1) \<Rightarrow> (Inl e, b1) | (Inr _, b1) \<Rightarrow> drain_commands t b1)"

subsection \<open>Runs\<close>

text \<open>The calls that change a buffer, and what each hands out.\<close>

datatype 'j input_call =
    CallSetTick tick
  | CallSetPlayer u64
  | CallPrepare tick
  | CallPush "'j command"
  | CallPushWithSource command_source "'j command"
  | CallPushAi "'j command"
  | CallSubmit command_source "'j command"
  | CallDrainCommands tick
  | CallDrain
  | CallConsume tick

fun handed_out :: "(bevy_error + 'j command_batch) \<times> 'j input_buffer \<Rightarrow> 'j command_envelope list \<times> 'j input_buffer" where
  "handed_out (Inl e, b) = ([], b)"
| "handed_out (Inr batch, b) = (cb_commands batch, b)"

fun input_step :: "'j input_call \<Rightarrow> 'j input_buffer \<Rightarrow> 'j command_envelope list \<times> 'j input_buffer" where
  "input_step (CallSetTick t) b = ([], set_tick t b)"
| "input_step (CallSetPlayer p) b = ([], set_player_id p b)"
| "input_step (CallPrepare t) b = ([], snd (prepare_for_tick t b))"
| "input_step (CallPush c) b = ([], input_push c b)"
| "input_step (CallPushWithSource src c) b = ([], snd (push_with_source src c b))"
| "input_step (CallPushAi c) b = ([], snd (push_ai c b))"
| "input_step (CallSubmit src c) b = ([], snd (submit_player_command src c b))"
| "input_step (CallDrainCommands t) b = handed_out (drain_commands t b)"
| "input_step CallDrain b = input_drain b"
| "input_step (CallConsume t) b = handed_out (consume_commands t b)"

fun input_run :: "'j input_call list \<Rightarrow> 'j input_buffer \<Rightarrow> 'j command_envelope list \<times> 'j input_buffer" where
  "input_run [] b = ([], b)"
| "input_run (c # cs) b = (case input_step c b of (out, b1) \<Rightarrow> case input_run cs b1 of (outs, b2) \<Rightarrow> (out @ outs, b2))"

text \<open>The specification: the envelopes the accepted pushes of a run make, from nothing but the
  tick and player of the moment.\<close>

fun next_tick :: "'j input_call \<Rightarrow> tick \<Rightarrow> tick" where
  "next_tick (CallSetTick t) now = t"
| "next_tick (CallPrepare t) now = (if t < now then now else t)"
| "next_tick (CallConsume t) now = (if t < now then now else t)"
| "next_tick _ now = now"

fun accepted :: "'j input_call list \<Rightarrow> tick \<Rightarrow> u64 \<Rightarrow> 'j command_envelope list" where
  "accepted [] now p = []"
| "accepted (CallPush c # cs) now p = envelope_new now (''player_'' @ show_u64 p) c # accepted cs now p"
| "accepted (CallPushWithSource (Player q) c # cs) now p =
     envelope_new now (''player_'' @ show_u64 q) c # accepted cs now p"
| "accepted (CallSubmit (Player q) c # cs) now p = envelope_new now (''player_'' @ show_u64 q) c # accepted cs now p"
| "accepted (CallSetPlayer q # cs) now p = accepted cs now q"
| "accepted (call # cs) now p = accepted cs (next_tick call now) p"

lemma input_step_correct:
  assumes "input_step call b = (out, b')"
  shows "ib_queue b @ accepted (call # cs) (ib_current_tick b) (ib_player_id b)
       = out @ ib_queue b' @ accepted cs (ib_current_tick b') (ib_player_id b')"
proof -
  note calls = set_tick_def set_player_id_def prepare_for_tick_def input_push_def push_with_source_def push_ai_def
    submit_player_command_def drain_commands_def input_drain_def consume_commands_def less_tick_def
  show ?thesis
  proof (cases call)
    case (CallPushWithSource src c)
    with assms show ?thesis by (cases src) (auto simp: calls)
  next
    case (CallSubmit src c)
    with assms show ?thesis by (cases src) (auto simp: calls)
  qed (use assms in \<open>auto simp: calls split: if_splits\<close>)
qed

lemma input_run_correct:
  "input_run calls b = (out, b') \<Longrightarrow>
     out @ ib_queue b' = ib_queue b @ accepted calls (ib_current_tick b) (ib_player_id b)"
proof (induction calls arbitrary: b out)
  case (Cons call calls)
  obtain out1 b1 where s: "input_step call b = (out1, b1)" by (cases "input_step call b")
  obtain out2 where r: "input_run calls b1 = (out2, b')" "out = out1 @ out2"
    using Cons.prems s by (auto split: prod.splits)
  from Cons.IH [OF r(1)] input_step_correct [OF s, of calls] show ?case using r(2) by simp
qed simp


lemma accepted_from_players: "list_all (\<lambda>e. \<exists>p. ce_source e = to_source_string (Player p)) (accepted calls now p)"
  by (induction calls now p rule: accepted.induct) (auto simp: envelope_new_def)

text \<open>Without \<open>set_tick\<close> the tick of a buffer never goes back, so neither do the stamps.\<close>

fun sets_tick :: "'j input_call \<Rightarrow> bool" where
  "sets_tick (CallSetTick t) = True"
| "sets_tick _ = False"

lemma accepted_after: "list_all (\<lambda>c. \<not> sets_tick c) calls \<Longrightarrow> e \<in> set (accepted calls now p) \<Longrightarrow> now \<le> ce_tick e"
  by (induction calls now p rule: accepted.induct) (auto simp: envelope_new_def split: if_splits)

lemma accepted_sorted: "list_all (\<lambda>c. \<not> sets_tick c) calls \<Longrightarrow> sorted (map ce_tick (accepted calls now p))"
  by (induction calls now p rule: accepted.induct) (auto simp: envelope_new_def dest: accepted_after split: if_splits)


subsection \<open>Into the journal\<close>

lemma consume_Inr:
  "consume_commands t b = (Inr batch, b') \<Longrightarrow> ib_current_tick b \<le> t \<and> batch = batch_with_commands t (ib_queue b)
     \<and> b' = b\<lparr>ib_current_tick := t, ib_queue := [], ib_last_consumed_tick := t, ib_tick_prepared := False\<rparr>"
  by (auto simp: consume_commands_def prepare_for_tick_def drain_commands_def batch_with_commands_def less_eq_tick_def
      split: if_splits)

text \<open>C28: A batch that was consumed at a tick is taken by the journal of that tick exactly if every
  command in it was pushed while the buffer already stood at the tick. A command that arrived
  before the boundary keeps its earlier stamp: it and all commands behind it are refused, and
  the buffer no longer has them.\<close>

theorem consumed_commands_must_be_current:
  assumes "consume_commands t b = (Inr batch, b')" and "jr_phase j = CpOpen" and "jr_current_tick j = t"
  shows "ib_queue b' = []
    \<and> (fst (submit_commands (cb_commands batch) j) = Inr () \<longleftrightarrow> (\<forall>e \<in> set (ib_queue b). ce_tick e = t))
    \<and> jr_pending_commands (snd (submit_commands (cb_commands batch) j))
        = jr_pending_commands j @ takeWhile (\<lambda>e. ce_tick e = t) (ib_queue b)"
proof -
  note c = consume_Inr [OF assms(1)]
  have sub: "submit_commands (ib_queue b) j =
     (case dropWhile (\<lambda>e. ce_tick e = t) (ib_queue b) of
        [] \<Rightarrow> (Inr (), j\<lparr>jr_pending_commands := jr_pending_commands j @ ib_queue b\<rparr>)
      | e # _ \<Rightarrow> (Inl (JEInvalidTick (tick_as_u64 t) (tick_as_u64 (ce_tick e))),
          j\<lparr>jr_pending_commands := jr_pending_commands j @ takeWhile (\<lambda>e. ce_tick e = t) (ib_queue b)\<rparr>))"
    using submit_commands_eq [OF assms(2), of "ib_queue b"] unfolding submit_commands_def assms(3) .
  show ?thesis
  proof (cases "\<forall>e \<in> set (ib_queue b). ce_tick e = t")
    case True
    then have "dropWhile (\<lambda>e. ce_tick e = t) (ib_queue b) = []" "takeWhile (\<lambda>e. ce_tick e = t) (ib_queue b) = ib_queue b"
      by (auto simp: dropWhile_eq_Nil_conv takeWhile_eq_all_conv)
    then show ?thesis using c sub True by (simp add: batch_with_commands_def del: dropWhile_eq_Nil_conv takeWhile_eq_all_conv)
  next
    case False
    then obtain e es where "dropWhile (\<lambda>e. ce_tick e = t) (ib_queue b) = e # es"
      by (cases "dropWhile (\<lambda>e. ce_tick e = t) (ib_queue b)") (auto simp: dropWhile_eq_Nil_conv)
    then show ?thesis using c sub False by (simp add: batch_with_commands_def)
  qed
qed

theorem consumed_commands_must_be_current_witness:
  "\<exists>batch b'. consume_commands (Tick 1) (input_push (DeleteRow ''unit'' (RowId 3)) (input_buffer_new :: djson input_buffer)) = (Inr batch, b')
     \<and> ib_queue b' = []
     \<and> fst (submit_commands (cb_commands batch)
          (demo_journal\<lparr>jr_current_tick := Tick 1, jr_phase := CpOpen\<rparr>)) \<noteq> Inr ()"
proof -
  let ?b = "input_push (DeleteRow ''unit'' (RowId 3)) (input_buffer_new :: djson input_buffer)"
  obtain batch b' where c: "consume_commands (Tick 1) ?b = (Inr batch, b')"
    by (simp add: consume_commands_def prepare_for_tick_def drain_commands_def input_push_def input_buffer_new_def tick_ZERO_def)
  moreover have "ib_queue ?b = [envelope_new tick_ZERO (''player_'' @ show_u64 0) (DeleteRow ''unit'' (RowId 3))]"
    by (simp add: input_push_def input_buffer_new_def)
  ultimately show ?thesis
    using consumed_commands_must_be_current [OF c, of "demo_journal\<lparr>jr_current_tick := Tick 1, jr_phase := CpOpen\<rparr>"]
    by (auto simp: envelope_new_def tick_ZERO_def)
qed

end
