(* ===== verification/World_View.thy ===== *)
theory World_View
  imports Query_Views "HOL-Library.List_Lexorder" "HOL-Library.Char_ord"
begin

section \<open>World views and IPC buffers (scharnhorst\_arrow\_store: world\_view.rs, ipc\_serialization.rs)\<close>

text \<open>
  The read-only view of a snapshot: its tables, their columns, and the iterator over typed
  rows, whose \<open>next\<close> is a loop over batches. The streams of Arrow IPC are the parameter
  \<open>ipc_api\<close>; the buffer of serialized chunks is the repository's own.
\<close>

subsection \<open>world\_view.rs\<close>

record 'b world_view =
  wv_snapshot :: "'b world_snapshot"
  wv_tick :: tick

definition world_view_new :: "'b world_snapshot \<Rightarrow> 'b world_view" where
  "world_view_new s = \<lparr>wv_snapshot = s, wv_tick = ws_tick s\<rparr>"

definition wv_table_names :: "'b world_view \<Rightarrow> string list" where
  "wv_table_names v = sort (map fst (ws_tables (wv_snapshot v)))"

definition wv_row_count :: "('b, 'a, 's, 'fl) arrow_api \<Rightarrow> 'b world_view \<Rightarrow> string \<Rightarrow> arrow_store_error + nat" where
  "wv_row_count A v name = rbind (table_batches (wv_snapshot v) name) (\<lambda>batches.
     Inr (sum_list (map (ar_num_rows A) batches)))"

definition wv_column_names :: "('b, 'a, 's, 'fl) arrow_api \<Rightarrow> 'b world_view \<Rightarrow> string \<Rightarrow> arrow_store_error + string list" where
  "wv_column_names A v name = rbind (table_batches (wv_snapshot v) name) (\<lambda>batches.
     case batches of [] \<Rightarrow> Inr [] | b # _ \<Rightarrow> Inr (map fst (ar_fields A (ar_schema A b))))"

definition wv_column_type ::
  "('b, 'a, 's, 'fl) arrow_api \<Rightarrow> 'b world_view \<Rightarrow> string \<Rightarrow> string \<Rightarrow> arrow_store_error + string" where
  "wv_column_type A v name column = rbind (table_batches (wv_snapshot v) name) (\<lambda>batches.
     case batches of
       [] \<Rightarrow> Inl (SESchema (''table '' @ quoted name @ '' has no data batches''))
     | b # _ \<Rightarrow>
         (case ar_index_of A (ar_schema A b) column of
            Inl _ \<Rightarrow> Inl (SESchema (''column '' @ quoted column @ '' not found in table '' @ quoted name))
          | Inr i \<Rightarrow> Inr (ar_type_debug A (fst (snd (ar_fields A (ar_schema A b) ! i))))))"

text \<open>Rows and their iterator.\<close>

record 'a world_view_row =
  wr_columns :: "'a list"
  wr_row_idx :: nat

record 'a world_view_row_iter =
  wi_batches :: "('a list \<times> nat) list"
  wi_batch_idx :: nat
  wi_row_in_batch :: nat

definition row_iter_new :: "('b, 'a, 's, 'fl) arrow_api \<Rightarrow> 'b list \<Rightarrow> 'a world_view_row_iter" where
  "row_iter_new A batches = \<lparr>wi_batches = map (\<lambda>b. (map (ar_column A b) [0..<ar_num_columns A b], ar_num_rows A b)) batches,
     wi_batch_idx = 0, wi_row_in_batch = 0\<rparr>"

function row_iter_next :: "'a world_view_row_iter \<Rightarrow> 'a world_view_row option \<times> 'a world_view_row_iter" where
  "row_iter_next i =
     (if wi_batch_idx i \<ge> length (wi_batches i) then (None, i)
      else (case wi_batches i ! wi_batch_idx i of (cols, num_rows) \<Rightarrow>
        if wi_row_in_batch i < num_rows then
          (Some \<lparr>wr_columns = cols, wr_row_idx = wi_row_in_batch i\<rparr>, i\<lparr>wi_row_in_batch := wi_row_in_batch i + 1\<rparr>)
        else row_iter_next (i\<lparr>wi_batch_idx := wi_batch_idx i + 1, wi_row_in_batch := 0\<rparr>)))"
  by pat_completeness auto

termination
  by (relation "measure (\<lambda>i. length (wi_batches i) - wi_batch_idx i)") auto

declare row_iter_next.simps [simp del]

definition iter_rows :: "('b, 'a, 's, 'fl) arrow_api \<Rightarrow> 'b world_view \<Rightarrow> string \<Rightarrow> arrow_store_error + 'a world_view_row_iter" where
  "iter_rows A v name = rbind (table_batches (wv_snapshot v) name) (\<lambda>batches. Inr (row_iter_new A batches))"

definition wr_column :: "'a world_view_row \<Rightarrow> nat \<Rightarrow> arrow_store_error + 'a" where
  "wr_column r c =
     (if c < length (wr_columns r) then Inr (wr_columns r ! c)
      else Inl (SEGeneric (''column index '' @ show_nat c @ '' out of bounds (len='' @ show_nat (length (wr_columns r)) @ '')'')))"

definition wr_get ::
  "('b, 'a, 's, 'fl) arrow_api \<Rightarrow> string \<Rightarrow> ('a \<Rightarrow> bool) \<Rightarrow> ('a \<Rightarrow> nat \<Rightarrow> 'v) \<Rightarrow> 'a world_view_row \<Rightarrow> nat
     \<Rightarrow> arrow_store_error + 'v option" where
  "wr_get A expected downcast value r c =
     rbind (wr_column r c) (\<lambda>arr.
     if \<not> downcast arr then Inl (SETypeMismatch (show_nat c) expected (ar_type_debug A (ar_data_type A arr)))
     else if ar_is_null A arr (wr_row_idx r) then Inr None
     else Inr (Some (value arr (wr_row_idx r))))"

definition wr_get_i64 :: "('b, 'a, 's, 'fl) arrow_api \<Rightarrow> 'a world_view_row \<Rightarrow> nat \<Rightarrow> arrow_store_error + 'fl native option" where
  "wr_get_i64 A = wr_get A ''Int64'' (ar_prim A Int64) (ar_prim_value A)"

definition wr_get_f64 :: "('b, 'a, 's, 'fl) arrow_api \<Rightarrow> 'a world_view_row \<Rightarrow> nat \<Rightarrow> arrow_store_error + 'fl native option" where
  "wr_get_f64 A = wr_get A ''Float64'' (ar_prim A Float64) (ar_prim_value A)"

definition wr_get_bool :: "('b, 'a, 's, 'fl) arrow_api \<Rightarrow> 'a world_view_row \<Rightarrow> nat \<Rightarrow> arrow_store_error + bool option" where
  "wr_get_bool A = wr_get A ''Boolean'' (ar_bool A) (ar_bool_value A)"

definition wr_get_string :: "('b, 'a, 's, 'fl) arrow_api \<Rightarrow> 'a world_view_row \<Rightarrow> nat \<Rightarrow> arrow_store_error + string option" where
  "wr_get_string A r c =
     rbind (wr_column r c) (\<lambda>arr.
     if ar_str A Utf8 arr then
       Inr (if ar_is_null A arr (wr_row_idx r) then None else Some (ar_str_value A arr (wr_row_idx r)))
     else if ar_str A LargeUtf8 arr then
       Inr (if ar_is_null A arr (wr_row_idx r) then None else Some (ar_str_value A arr (wr_row_idx r)))
     else Inl (SETypeMismatch (show_nat c) ''Utf8 or LargeUtf8'' (ar_type_debug A (ar_data_type A arr))))"

subsection \<open>ipc\_serialization.rs\<close>

text \<open>\<open>ipc_writer\<close> is \<open>StreamWriter::try_new\<close>, \<open>ipc_write\<close> and \<open>ipc_finish\<close> its methods over the
  bytes written so far, \<open>ipc_reader\<close> reads the results of a stream.\<close>

record ('b, 's) ipc_api =
  ipc_writer :: "'s \<Rightarrow> string + string"
  ipc_write :: "string \<Rightarrow> 'b \<Rightarrow> string + string"
  ipc_finish :: "string \<Rightarrow> string + string"
  ipc_reader :: "string \<Rightarrow> string + (string + 'b) list"

definition serialize_batches ::
  "('b, 'a, 's, 'fl) arrow_api \<Rightarrow> ('b, 's) ipc_api \<Rightarrow> 'b list \<Rightarrow> arrow_store_error + string" where
  "serialize_batches A P batches =
     (case batches of
        [] \<Rightarrow> Inr []
      | b # _ \<Rightarrow>
          rbind (map_err (\<lambda>e. SEIo (''stream writer: '' @ e)) (ipc_writer P (ar_schema A b))) (\<lambda>w.
          rbind (try_fold (\<lambda>w b. map_err (\<lambda>e. SEIo (''write batch: '' @ e)) (ipc_write P w b)) w batches) (\<lambda>w1.
          map_err (\<lambda>e. SEIo (''finish: '' @ e)) (ipc_finish P w1))))"

definition deserialize_batches :: "('b, 's) ipc_api \<Rightarrow> string \<Rightarrow> arrow_store_error + 'b list" where
  "deserialize_batches P data =
     (if data = [] then Inr []
      else rbind (map_err (\<lambda>e. SEIo (''stream reader: '' @ e)) (ipc_reader P data)) (\<lambda>results.
        map_result (map_err (\<lambda>e. SEIo (''read batch: '' @ e))) results))"

record ipc_buffer =
  ib_chunks :: "string list"

definition ipc_buffer_new :: ipc_buffer where
  "ipc_buffer_new = \<lparr>ib_chunks = []\<rparr>"

definition ipc_push :: "string \<Rightarrow> ipc_buffer \<Rightarrow> ipc_buffer" where
  "ipc_push chunk b = b\<lparr>ib_chunks := ib_chunks b @ [chunk]\<rparr>"

definition ipc_push_batches ::
  "('b, 'a, 's, 'fl) arrow_api \<Rightarrow> ('b, 's) ipc_api \<Rightarrow> 'b list \<Rightarrow> ipc_buffer \<Rightarrow> (arrow_store_error + unit) \<times> ipc_buffer" where
  "ipc_push_batches A P batches b = (case serialize_batches A P batches of
     Inl e \<Rightarrow> (Inl e, b) | Inr bytes \<Rightarrow> (Inr (), ipc_push bytes b))"

definition ipc_total_len :: "ipc_buffer \<Rightarrow> nat" where
  "ipc_total_len b = sum_list (map length (ib_chunks b))"

definition ipc_clear :: "ipc_buffer \<Rightarrow> ipc_buffer" where
  "ipc_clear b = b\<lparr>ib_chunks := []\<rparr>"

definition ipc_into_bytes :: "ipc_buffer \<Rightarrow> string" where
  "ipc_into_bytes b = fold (\<lambda>chunk out. out @ chunk) (ib_chunks b) []"

subsection \<open>The rows of a view\<close>

text \<open>What a caller collects by calling \<open>next\<close> until it returns \<open>None\<close>, the calls counted by
  fuel, against the rows of the batches in order.\<close>

fun iter_take :: "nat \<Rightarrow> 'a world_view_row_iter \<Rightarrow> 'a world_view_row list" where
  "iter_take 0 i = []"
| "iter_take (Suc n) i = (case row_iter_next i of (None, _) \<Rightarrow> [] | (Some r, i') \<Rightarrow> r # iter_take n i')"

definition rows_of :: "'a list \<times> nat \<Rightarrow> 'a world_view_row list" where
  "rows_of b = map (\<lambda>r. \<lparr>wr_columns = fst b, wr_row_idx = r\<rparr>) [0..<snd b]"

definition rows_left :: "'a world_view_row_iter \<Rightarrow> 'a world_view_row list" where
  "rows_left i = (case drop (wi_batch_idx i) (wi_batches i) of
     [] \<Rightarrow> [] | b # bs \<Rightarrow> drop (wi_row_in_batch i) (rows_of b) @ concat (map rows_of bs))"

lemma row_iter_next_correct:
  "fst (row_iter_next i) = (case rows_left i of [] \<Rightarrow> None | r # _ \<Rightarrow> Some r)
   \<and> rows_left (snd (row_iter_next i)) = tl (rows_left i)"
proof (induction i rule: row_iter_next.induct)
  case (1 i)
  show ?case
  proof (cases "wi_batch_idx i < length (wi_batches i)")
    case False
    then show ?thesis by (simp add: row_iter_next.simps [of i] rows_left_def)
  next
    case True
    obtain cols n where b: "wi_batches i ! wi_batch_idx i = (cols, n)" by (cases "wi_batches i ! wi_batch_idx i")
    let ?bs = "drop (Suc (wi_batch_idx i)) (wi_batches i)"
    have d: "drop (wi_batch_idx i) (wi_batches i) = (cols, n) # ?bs" using True b by (simp add: Cons_nth_drop_Suc [symmetric])
    show ?thesis
    proof (cases "wi_row_in_batch i < n")
      case True': True
      then have "drop (wi_row_in_batch i) (rows_of (cols, n)) =
          \<lparr>wr_columns = cols, wr_row_idx = wi_row_in_batch i\<rparr> # drop (Suc (wi_row_in_batch i)) (rows_of (cols, n))"
        unfolding rows_of_def drop_map drop_upt by (simp add: upt_conv_Cons [of "wi_row_in_batch i"])
      then show ?thesis using True True' b d by (simp add: row_iter_next.simps [of i] rows_left_def)
    next
      case False
      let ?i = "i\<lparr>wi_batch_idx := wi_batch_idx i + 1, wi_row_in_batch := 0\<rparr>"
      have "rows_left i = concat (map rows_of ?bs)" using False d by (simp add: rows_left_def rows_of_def)
      also have "\<dots> = rows_left ?i" by (cases ?bs) (simp_all add: rows_left_def)
      finally have "rows_left i = rows_left ?i" .
      moreover have "row_iter_next i = row_iter_next ?i" using True False b by (simp add: row_iter_next.simps [of i])
      ultimately show ?thesis using "1.IH" [OF _ b [symmetric]] True False by (simp only: not_le simp_thms)
    qed
  qed
qed

lemma iter_take_correct: "iter_take n i = take n (rows_left i)"
proof (induction n arbitrary: i)
  case (Suc n)
  note next_i = row_iter_next_correct [of i]
  show ?case
  proof (cases "rows_left i")
    case Nil
    then show ?thesis using next_i by (cases "row_iter_next i") simp
  next
    case (Cons r rs)
    obtain i' where "row_iter_next i = (Some r, i')" "rows_left i' = rs" using next_i Cons by (cases "row_iter_next i") auto
    then show ?thesis using Cons Suc.IH by simp
  qed
qed simp

text \<open>C33: The iterator of a table hands out every row of every batch of the snapshot once and in
  order, empty batches skipped, and then ends; the row count is their number.\<close>

theorem iter_rows_complete:
  assumes "table_batches (wv_snapshot v) name = Inr batches"
  shows "\<exists>i. iter_rows A v name = Inr i
     \<and> iter_take n i = take n (concat (map (\<lambda>b. map (\<lambda>r. \<lparr>wr_columns = map (ar_column A b) [0..<ar_num_columns A b],
          wr_row_idx = r\<rparr>) [0..<ar_num_rows A b]) batches))
     \<and> wv_row_count A v name = Inr (length (iter_take (Suc (sum_list (map (ar_num_rows A) batches))) i))"
proof -
  let ?rows = "concat (map (\<lambda>b. map (\<lambda>r. \<lparr>wr_columns = map (ar_column A b) [0..<ar_num_columns A b],
          wr_row_idx = r\<rparr>) [0..<ar_num_rows A b]) batches)"
  have "rows_left (row_iter_new A batches) = ?rows"
    by (cases batches) (simp_all add: rows_left_def row_iter_new_def rows_of_def comp_def)
  moreover have "length ?rows = sum_list (map (ar_num_rows A) batches)"
    by (simp add: length_concat comp_def)
  ultimately show ?thesis
    by (intro exI [of _ "row_iter_new A batches"]) (simp add: iter_rows_def wv_row_count_def assms iter_take_correct)
qed

theorem iter_rows_complete_witness:
  "\<exists>i. iter_rows list_arrow (world_view_new (snapshot_with_table (Tick 4) ''unit''
      (insert_version (versioned_table_new ''unit'' AppendOnly) (Tick 4) [demo_batch, demo_batch]))) ''unit'' = Inr i
     \<and> length (iter_take 9 i) = 4"
proof -
  let ?v = "world_view_new (snapshot_with_table (Tick 4) ''unit''
      (insert_version (versioned_table_new ''unit'' AppendOnly) (Tick 4) [demo_batch, demo_batch]))"
  have "table_batches (wv_snapshot ?v) ''unit'' = Inr [demo_batch, demo_batch]"
    by (simp add: table_batches_def snapshot_get_table_def world_view_new_def snapshot_with_table_def register_table_def
        world_snapshot_new_def insert_version_def versioned_table_new_def get_version_def)
  from iter_rows_complete [OF this, of list_arrow 9] show ?thesis
    by (auto simp: demo_batch_def lnum_rows_def)
qed

lemma ipc_into_bytes_concat: "ipc_into_bytes b = concat (ib_chunks b) \<and> length (ipc_into_bytes b) = ipc_total_len b"
proof -
  have "fold (\<lambda>chunk out. out @ chunk) cs out = out @ concat cs" for cs and out :: string
    by (induction cs arbitrary: out) simp_all
  then show ?thesis by (simp add: ipc_into_bytes_def ipc_total_len_def length_concat)
qed

end
