(* ===== verification/Bevy_View.thy ===== *)
theory Bevy_View
  imports Bevy_Input World_View Compilation
begin

section \<open>Entities and view models (scharnhorst\_bevy: tier.rs, view\_of.rs, materialization.rs, sync.rs, refresh\_handler.rs)\<close>

text \<open>
  Rows of the engine's tables are shown as Bevy entities. Bevy's command queue is the state
  \<open>'w\<close> behind \<open>ecs_api\<close>: \<open>spawn\<close> returns a new entity, \<open>despawn\<close> removes one. The JSON
  constructors a filter compares with are \<open>json_build\<close>. Mutexes and atomics are never
  poisoned and calls are not interleaved.
\<close>

subsection \<open>tier.rs\<close>

definition register_bevy_ephemeral_tables :: tier_registry where
  "register_bevy_ephemeral_tables =
     (let reg = (\<lambda>r (name, desc). case tier_register r name Ephemeral ''bevy_bridge'' desc of Inl _ \<Rightarrow> r | Inr r1 \<Rightarrow> r1) in
      foldl reg tier_registry_new
        [(''bevy_hover'', ''hovered entity tracking (transient per tick)''),
         (''bevy_selection'', ''selected entity set (transient per tick)''),
         (''bevy_camera'', ''active camera state (position, rotation, zoom)'')])"

subsection \<open>view\_of.rs\<close>

record view_of =
  vo_row_id :: row_id
  vo_table_name :: string
  vo_generation :: u64

definition view_of_new :: "row_id \<Rightarrow> string \<Rightarrow> view_of" where
  "view_of_new r t = \<lparr>vo_row_id = r, vo_table_name = t, vo_generation = 0\<rparr>"

definition view_of_with_generation :: "row_id \<Rightarrow> string \<Rightarrow> u64 \<Rightarrow> view_of" where
  "view_of_with_generation r t g = \<lparr>vo_row_id = r, vo_table_name = t, vo_generation = g\<rparr>"

definition set_generation :: "u64 \<Rightarrow> view_of \<Rightarrow> view_of" where
  "set_generation g v = v\<lparr>vo_generation := g\<rparr>"

subsection \<open>materialization.rs\<close>

datatype 'j materialization_filter =
    ColumnEquals string 'j
  | RowIdRange row_id row_id
  | AllRows

record 'j materialization_config =
  mc_table :: string
  mc_filter :: "'j materialization_filter option"
  mc_max_entities :: "nat option"

definition config_new :: "string \<Rightarrow> 'j materialization_config" where
  "config_new t = \<lparr>mc_table = t, mc_filter = None, mc_max_entities = None\<rparr>"

definition config_with_filter :: "'j materialization_filter \<Rightarrow> 'j materialization_config \<Rightarrow> 'j materialization_config" where
  "config_with_filter f c = c\<lparr>mc_filter := Some f\<rparr>"

definition config_with_max :: "nat \<Rightarrow> 'j materialization_config \<Rightarrow> 'j materialization_config" where
  "config_with_max n c = c\<lparr>mc_max_entities := Some n\<rparr>"

record ('j, 'fl) json_build =
  jb_null :: 'j
  jb_native :: "'fl native \<Rightarrow> 'j"
  jb_bool :: "bool \<Rightarrow> 'j"
  jb_string :: "string \<Rightarrow> 'j"

definition arrow_value_at ::
  "('b, 'a, 's, 'fl) arrow_api \<Rightarrow> ('j, 'fl) json_build \<Rightarrow> 'b \<Rightarrow> string \<Rightarrow> nat \<Rightarrow> 'j option" where
  "arrow_value_at A K batch column row_offset =
     (case ar_index_of A (ar_schema A batch) column of
        Inl _ \<Rightarrow> None
      | Inr i \<Rightarrow>
          let arr = ar_column A batch i in
          if row_offset \<ge> ar_len A arr then None
          else if ar_is_null A arr row_offset then Some (jb_null K)
          else (case ar_data_type A arr of
              Int64 \<Rightarrow> if ar_prim A Int64 arr then Some (jb_native K (ar_prim_value A arr row_offset)) else None
            | UInt64 \<Rightarrow> if ar_prim A UInt64 arr then Some (jb_native K (ar_prim_value A arr row_offset)) else None
            | Float64 \<Rightarrow> if ar_prim A Float64 arr then Some (jb_native K (ar_prim_value A arr row_offset)) else None
            | Boolean \<Rightarrow> if ar_bool A arr then Some (jb_bool K (ar_bool_value A arr row_offset)) else None
            | Utf8 \<Rightarrow> if ar_str A Utf8 arr then Some (jb_string K (ar_str_value A arr row_offset)) else None
            | LargeUtf8 \<Rightarrow> if ar_str A LargeUtf8 arr then Some (jb_string K (ar_str_value A arr row_offset)) else None
            | _ \<Rightarrow> None))"

fun matches_row_id :: "'j materialization_filter \<Rightarrow> row_id \<Rightarrow> bool" where
  "matches_row_id AllRows r = True"
| "matches_row_id (RowIdRange lo hi) r = (row_id_as_u64 lo \<le> row_id_as_u64 r \<and> row_id_as_u64 r \<le> row_id_as_u64 hi)"
| "matches_row_id (ColumnEquals _ _) r = True"

fun matches_value ::
  "('b, 'a, 's, 'fl) arrow_api \<Rightarrow> ('j, 'fl) json_build \<Rightarrow> 'j materialization_filter \<Rightarrow> 'b \<Rightarrow> nat \<Rightarrow> bool" where
  "matches_value A K AllRows batch off = True"
| "matches_value A K (RowIdRange _ _) batch off = True"
| "matches_value A K (ColumnEquals column v) batch off =
     (case arrow_value_at A K batch column off of None \<Rightarrow> False | Some x \<Rightarrow> x = v)"

record ('e, 'w) ecs_api =
  ec_spawn :: "view_of \<Rightarrow> 'w \<Rightarrow> 'e \<times> 'w"
  ec_despawn :: "'e \<Rightarrow> 'w \<Rightarrow> 'w"
  ec_index :: "'e \<Rightarrow> u64"

record ('e, 'j) materialization_registry =
  mr_inner :: "((string \<times> row_id) \<times> 'e) list"
  mr_configs :: "'j materialization_config list"

definition materialization_registry_new :: "('e, 'j) materialization_registry" where
  "materialization_registry_new = \<lparr>mr_inner = [], mr_configs = []\<rparr>"

definition register_config :: "'j materialization_config \<Rightarrow> ('e, 'j) materialization_registry \<Rightarrow> ('e, 'j) materialization_registry" where
  "register_config c r = r\<lparr>mr_configs := mr_configs r @ [c]\<rparr>"

definition mr_register :: "string \<Rightarrow> row_id \<Rightarrow> 'e \<Rightarrow> ('e, 'j) materialization_registry \<Rightarrow> ('e, 'j) materialization_registry" where
  "mr_register t row e r = r\<lparr>mr_inner := hm_insert (t, row) e (mr_inner r)\<rparr>"

definition mr_lookup :: "('e, 'j) materialization_registry \<Rightarrow> string \<Rightarrow> row_id \<Rightarrow> 'e option" where
  "mr_lookup r t row = hm_get (mr_inner r) (t, row)"

definition mr_unregister ::
  "string \<Rightarrow> row_id \<Rightarrow> ('e, 'j) materialization_registry \<Rightarrow> 'e option \<times> ('e, 'j) materialization_registry" where
  "mr_unregister t row r = (hm_get (mr_inner r) (t, row), r\<lparr>mr_inner := hm_remove (t, row) (mr_inner r)\<rparr>)"

definition mr_table_names :: "('e, 'j) materialization_registry \<Rightarrow> string list" where
  "mr_table_names r = remdups (map (fst \<circ> fst) (mr_inner r))"

text \<open>Whether the filter of a config lets a row through, with the position looked up for
  \<open>ColumnEquals\<close> only.\<close>

definition config_allows ::
  "('b, 'a, 's, 'fl) arrow_api \<Rightarrow> ('j, 'fl) json_build \<Rightarrow> 'j materialization_config \<Rightarrow> 'b table_read_view \<Rightarrow> row_id \<Rightarrow> bool" where
  "config_allows A K c view row =
     (case mc_filter c of
        None \<Rightarrow> True
      | Some f \<Rightarrow> matches_row_id f row \<and>
          (case f of
             ColumnEquals _ _ \<Rightarrow>
               (case position_of (rv_position_map view) row of
                  None \<Rightarrow> False
                | Some (batch_idx, off) \<Rightarrow>
                    batch_idx < length (rv_batches view) \<and> matches_value A K f (rv_batches view ! batch_idx) off)
           | _ \<Rightarrow> True))"

fun materialize_rows ::
  "('e, 'w) ecs_api \<Rightarrow> nat \<Rightarrow> (row_id \<Rightarrow> bool) \<Rightarrow> string \<Rightarrow> u64 \<Rightarrow> row_id list \<Rightarrow> nat
     \<Rightarrow> 'e list \<times> ('e, 'j) materialization_registry \<times> 'w \<Rightarrow> 'e list \<times> ('e, 'j) materialization_registry \<times> 'w" where
  "materialize_rows E limit allows t gen [] spawned_count st = st"
| "materialize_rows E limit allows t gen (row # rows) spawned_count st =
     (case st of (spawned, r, w) \<Rightarrow>
       if spawned_count \<ge> limit then st
       else if \<not> allows row then materialize_rows E limit allows t gen rows spawned_count st
       else if mr_lookup r t row \<noteq> None then materialize_rows E limit allows t gen rows spawned_count st
       else (case ec_spawn E (view_of_with_generation row t gen) w of (e, w1) \<Rightarrow>
         materialize_rows E limit allows t gen rows (spawned_count + 1) (spawned @ [e], mr_register t row e r, w1)))"

definition materialize_config ::
  "('b, 'a, 's, 'fl) arrow_api \<Rightarrow> ('j, 'fl) json_build \<Rightarrow> ('e, 'w) ecs_api \<Rightarrow> 'b query_engine \<Rightarrow> 'j materialization_config
     \<Rightarrow> 'e list \<times> ('e, 'j) materialization_registry \<times> 'w
     \<Rightarrow> (bevy_error + unit) \<times> 'e list \<times> ('e, 'j) materialization_registry \<times> 'w" where
  "materialize_config A K E q c st =
     (case rbind (ok_or (engine_latest_tick q) (BESnapshotNotAvailable 0)) (\<lambda>tick.
           rbind (map_err (\<lambda>e. BEQueryEngine (query_error_text e)) (read_single_table q tick (mc_table c))) (\<lambda>view.
           Inr (tick, view))) of
        Inl e \<Rightarrow> (Inl e, st)
      | Inr (tick, view) \<Rightarrow>
          (Inr (), materialize_rows E (case mc_max_entities c of None \<Rightarrow> usize_max | Some m \<Rightarrow> m)
             (config_allows A K c view) (mc_table c) (tick_as_u64 tick)
             (sort_key row_id_as_u64 (rpm_row_ids (rv_position_map view))) 0 st))"

text \<open>An error ends the loop; what was spawned before stays registered, only the list is lost.\<close>

fun materialize_configs ::
  "('b, 'a, 's, 'fl) arrow_api \<Rightarrow> ('j, 'fl) json_build \<Rightarrow> ('e, 'w) ecs_api \<Rightarrow> 'b query_engine \<Rightarrow> 'j materialization_config list
     \<Rightarrow> 'e list \<times> ('e, 'j) materialization_registry \<times> 'w
     \<Rightarrow> (bevy_error + 'e list) \<times> ('e, 'j) materialization_registry \<times> 'w" where
  "materialize_configs A K E q [] (spawned, rw) = (Inr spawned, rw)"
| "materialize_configs A K E q (c # cs) st =
     (case materialize_config A K E q c st of
        (Inl e, spawned, rw) \<Rightarrow> (Inl e, rw)
      | (Inr _, st1) \<Rightarrow> materialize_configs A K E q cs st1)"

definition materialize ::
  "('b, 'a, 's, 'fl) arrow_api \<Rightarrow> ('j, 'fl) json_build \<Rightarrow> ('e, 'w) ecs_api \<Rightarrow> 'b query_engine
     \<Rightarrow> ('e, 'j) materialization_registry \<times> 'w \<Rightarrow> (bevy_error + 'e list) \<times> ('e, 'j) materialization_registry \<times> 'w" where
  "materialize A K E q rw = materialize_configs A K E q (mr_configs (fst rw)) ([], rw)"

definition dematerialize ::
  "('e, 'w) ecs_api \<Rightarrow> 'e \<Rightarrow> ('e, 'j) materialization_registry \<times> 'w
     \<Rightarrow> (bevy_error + unit) \<times> ('e, 'j) materialization_registry \<times> 'w" where
  "dematerialize E e rw = (case rw of (r, w) \<Rightarrow>
     (case map_option fst (find (\<lambda>(_, x). x = e) (mr_inner r)) of
        Some (t, row) \<Rightarrow> (Inr (), snd (mr_unregister t row r), ec_despawn E e w)
      | None \<Rightarrow> (Inl (BEEntityNotFound (ec_index E e)), r, w)))"

definition dematerialize_all ::
  "('e, 'w) ecs_api \<Rightarrow> ('e, 'j) materialization_registry \<times> 'w \<Rightarrow> ('e, 'j) materialization_registry \<times> 'w" where
  "dematerialize_all E rw = (case rw of (r, w) \<Rightarrow>
     (r\<lparr>mr_inner := []\<rparr>, fold (ec_despawn E) (map snd (mr_inner r)) w))"

record materialize_request =
  mq_row_id :: row_id
  mq_table_name :: string

definition materialize_entity ::
  "('e, 'w) ecs_api \<Rightarrow> materialize_request \<Rightarrow> ('e, 'j) materialization_registry \<times> 'w
     \<Rightarrow> 'e \<times> ('e, 'j) materialization_registry \<times> 'w" where
  "materialize_entity E rq rw = (case rw of (r, w) \<Rightarrow>
     (case mr_lookup r (mq_table_name rq) (mq_row_id rq) of
        Some existing \<Rightarrow> (existing, r, w)
      | None \<Rightarrow>
          (case ec_spawn E (view_of_new (mq_row_id rq) (mq_table_name rq)) w of (e, w1) \<Rightarrow>
            (e, mr_register (mq_table_name rq) (mq_row_id rq) e r, w1))))"

definition dematerialize_entity ::
  "('e, 'w) ecs_api \<Rightarrow> materialize_request \<Rightarrow> ('e, 'j) materialization_registry \<times> 'w
     \<Rightarrow> (bevy_error + 'e) \<times> ('e, 'j) materialization_registry \<times> 'w" where
  "dematerialize_entity E rq rw = (case rw of (r, w) \<Rightarrow>
     (case mr_unregister (mq_table_name rq) (mq_row_id rq) r of
        (None, r1) \<Rightarrow> (Inl (BEEntityNotFound (row_id_as_u64 (mq_row_id rq))), r1, w)
      | (Some e, r1) \<Rightarrow> (Inr e, r1, ec_despawn E e w)))"

definition entities_for_table :: "('e \<times> view_of) list \<Rightarrow> string \<Rightarrow> ('e \<times> row_id) list" where
  "entities_for_table query t = map (\<lambda>(e, v). (e, vo_row_id v)) (filter (\<lambda>(_, v). vo_table_name v = t) query)"

subsection \<open>sync.rs\<close>

record 'b view_model =
  vm_snapshot :: "'b world_view option"
  vm_latest_tick :: "tick option"
  vm_generation :: u64

definition view_model_new :: "'b view_model" where
  "view_model_new = \<lparr>vm_snapshot = None, vm_latest_tick = None, vm_generation = 0\<rparr>"

definition vm_refresh :: "'b world_view \<Rightarrow> u64 \<Rightarrow> 'b view_model \<Rightarrow> 'b view_model" where
  "vm_refresh snapshot generation vm =
     vm\<lparr>vm_snapshot := Some snapshot, vm_latest_tick := Some (wv_tick snapshot), vm_generation := generation\<rparr>"

definition read_table_via_query_engine ::
  "'b view_model \<Rightarrow> 'b query_engine \<Rightarrow> string \<Rightarrow> bevy_error + 'b table_read_view option" where
  "read_table_via_query_engine vm q name =
     rbind (ok_or (vm_latest_tick vm) (BESnapshotNotAvailable 0)) (\<lambda>tick.
     rbind (map_err (\<lambda>e. BEQueryEngine (query_error_text e))
       (engine_read q (request_with_table (read_request_new tick) name))) (\<lambda>response.
     Inr (case response_get response name of Inl _ \<Rightarrow> None | Inr v \<Rightarrow> Some v)))"

record sync_entry =
  sy_table :: string
  sy_generation :: u64
  sy_last_sync_tick :: tick

text \<open>\<open>ss_dirty\<close> lists a hash set in its order of iteration.\<close>

record 'e sync_state =
  ss_view_models :: "('e \<times> sync_entry) list"
  ss_dirty :: "'e list"

definition sync_state_new :: "'e sync_state" where
  "sync_state_new = \<lparr>ss_view_models = [], ss_dirty = []\<rparr>"

definition register_entity :: "'e \<Rightarrow> string \<Rightarrow> u64 \<Rightarrow> tick \<Rightarrow> 'e sync_state \<Rightarrow> 'e sync_state" where
  "register_entity e t g tick s =
     s\<lparr>ss_view_models := hm_insert e \<lparr>sy_table = t, sy_generation = g, sy_last_sync_tick = tick\<rparr> (ss_view_models s)\<rparr>"

definition unregister_entity :: "'e \<Rightarrow> 'e sync_state \<Rightarrow> 'e sync_state" where
  "unregister_entity e s = s\<lparr>ss_view_models := hm_remove e (ss_view_models s), ss_dirty := removeAll e (ss_dirty s)\<rparr>"

definition mark_dirty :: "'e \<Rightarrow> 'e sync_state \<Rightarrow> 'e sync_state" where
  "mark_dirty e s = s\<lparr>ss_dirty := List.insert e (ss_dirty s)\<rparr>"

definition mark_all_dirty :: "'e sync_state \<Rightarrow> 'e sync_state" where
  "mark_all_dirty s = s\<lparr>ss_dirty := fold List.insert (map fst (ss_view_models s)) (ss_dirty s)\<rparr>"

definition is_dirty :: "'e sync_state \<Rightarrow> 'e \<Rightarrow> bool" where
  "is_dirty s e \<longleftrightarrow> e \<in> set (ss_dirty s)"

fun sync_loop ::
  "'b view_model \<Rightarrow> 'b query_engine \<Rightarrow> ('e \<times> sync_entry) list \<Rightarrow> 'e list \<Rightarrow> nat \<times> string list \<Rightarrow> nat \<times> string list" where
  "sync_loop vm q models [] acc = acc"
| "sync_loop vm q models (e # es) (synced, errors) =
     sync_loop vm q models es
       (case hm_get models e of
          None \<Rightarrow> (synced, errors)
        | Some entry \<Rightarrow>
            (case read_table_via_query_engine vm q (sy_table entry) of
               Inr _ \<Rightarrow> (sat_add synced 1, errors)
             | Inl err \<Rightarrow> (synced, errors @ [bevy_error_text err])))"

definition sync_all :: "'b view_model \<Rightarrow> 'b query_engine \<Rightarrow> 'e sync_state \<Rightarrow> (bevy_error + nat) \<times> 'e sync_state" where
  "sync_all vm q s = (case sync_loop vm q (ss_view_models s) (ss_dirty s) (0, []) of (synced, errors) \<Rightarrow>
     (if errors = [] then Inr synced else Inl (BESyncFailed (join ''; '' errors)), s\<lparr>ss_dirty := []\<rparr>))"

definition clear_dirty :: "'e sync_state \<Rightarrow> 'e sync_state" where
  "clear_dirty s = s\<lparr>ss_dirty := []\<rparr>"

text \<open>The components of a Bevy query are changed in place; an error keeps the changes made.\<close>

fun sync_table_components ::
  "(row_id \<Rightarrow> bevy_error + 'c option) \<Rightarrow> string \<Rightarrow> ('e \<times> view_of \<times> 'c) list \<Rightarrow> nat
     \<Rightarrow> (bevy_error + nat) \<times> ('e \<times> view_of \<times> 'c) list" where
  "sync_table_components fetch t [] updated = (Inr updated, [])"
| "sync_table_components fetch t ((e, v, c) # rest) updated =
     (if vo_table_name v \<noteq> t then
        (case sync_table_components fetch t rest updated of (r, rest1) \<Rightarrow> (r, (e, v, c) # rest1))
      else (case fetch (vo_row_id v) of
          Inl err \<Rightarrow> (Inl err, (e, v, c) # rest)
        | Inr None \<Rightarrow> (case sync_table_components fetch t rest updated of (r, rest1) \<Rightarrow> (r, (e, v, c) # rest1))
        | Inr (Some c1) \<Rightarrow>
            (case sync_table_components fetch t rest (sat_add updated 1) of (r, rest1) \<Rightarrow> (r, (e, v, c1) # rest1))))"

definition null_sync_field :: "row_id \<Rightarrow> bevy_error + 'c option" where
  "null_sync_field r = Inr None"

subsection \<open>refresh\_handler.rs\<close>

text \<open>The handler and what its shared pointers lead to, as the state of the scheduler's
  consumers.\<close>

record 'b refresh_handler =
  rh_view_model :: "'b view_model"
  rh_query_engine :: "'b query_engine"
  rh_signal_received :: bool

definition refresh_handler_new :: "'b view_model \<Rightarrow> 'b query_engine \<Rightarrow> 'b refresh_handler" where
  "refresh_handler_new vm q = \<lparr>rh_view_model = vm, rh_query_engine = q, rh_signal_received = False\<rparr>"

definition on_refresh_signal :: "'b refresh_handler \<Rightarrow> 'b refresh_handler" where
  "on_refresh_signal h = h\<lparr>rh_signal_received := True\<rparr>"

definition refresh_snapshot :: "'b world_view \<Rightarrow> 'b refresh_handler \<Rightarrow> 'b refresh_handler" where
  "refresh_snapshot v h =
     (let g = vm_generation (rh_view_model h); generation = (if g = - 1 then - 1 else g + 1) in
      h\<lparr>rh_view_model := vm_refresh v generation (rh_view_model h), rh_signal_received := False\<rparr>)"

definition handler_callback :: "'b refresh_handler refresh_callback" where
  "handler_callback tick generation h =
     (case engine_snapshot (rh_query_engine h) of
        Inl e \<Rightarrow> (Inl (scheduler_error.SEGeneric (query_error_text e)), h)
      | Inr s \<Rightarrow> (Inr (), h\<lparr>rh_view_model := vm_refresh (world_view_new s) generation (rh_view_model h),
          rh_signal_received := False\<rparr>))"

definition register_with_scheduler ::
  "string \<Rightarrow> ('j, 'a, 'b, 'sj, 'b refresh_handler) scheduler \<Rightarrow> string \<times> ('j, 'a, 'b, 'sj, 'b refresh_handler) scheduler" where
  "register_with_scheduler name s = register_consumer name handler_callback s"

subsection \<open>What a call of materialize spawns\<close>

definition spawn_row ::
  "('e, 'w) ecs_api \<Rightarrow> string \<Rightarrow> u64 \<Rightarrow> row_id \<Rightarrow> 'e list \<times> ('e, 'j) materialization_registry \<times> 'w
     \<Rightarrow> 'e list \<times> ('e, 'j) materialization_registry \<times> 'w" where
  "spawn_row E t gen row st = (case st of (spawned, r, w) \<Rightarrow>
     (case ec_spawn E (view_of_with_generation row t gen) w of (e, w1) \<Rightarrow> (spawned @ [e], mr_register t row e r, w1)))"

lemma spawn_row_eq:
  "ec_spawn E (view_of_with_generation row t gen) w = (e, w1) \<Longrightarrow>
   spawn_row E t gen row (spawned, r, w) = (spawned @ [e], mr_register t row e r, w1)"
  by (simp add: spawn_row_def)

lemma mr_lookup_register:
  "mr_lookup (mr_register t row e r) t' row' = (if t' = t \<and> row' = row then Some e else mr_lookup r t' row')"
  by (simp add: mr_lookup_def mr_register_def)

lemma materialize_rows_fold:
  "distinct rows \<Longrightarrow> materialize_rows E limit allows t gen rows n (spawned, r, w) =
     fold (spawn_row E t gen) (take (limit - n) (filter (\<lambda>row. allows row \<and> mr_lookup r t row = None) rows)) (spawned, r, w)"
proof (induction rows arbitrary: n spawned r w)
  case (Cons row rows)
  show ?case
  proof (cases "n < limit \<and> allows row \<and> mr_lookup r t row = None")
    case True
    obtain e w1 where e: "ec_spawn E (view_of_with_generation row t gen) w = (e, w1)"
      by (cases "ec_spawn E (view_of_with_generation row t gen) w")
    have "filter (\<lambda>x. allows x \<and> mr_lookup (mr_register t row e r) t x = None) rows
        = filter (\<lambda>x. allows x \<and> mr_lookup r t x = None) rows"
      using Cons.prems by (intro filter_cong) (auto simp: mr_lookup_register)
    moreover have "limit - n = Suc (limit - Suc n)" using True by (simp add: Suc_diff_Suc)
    ultimately show ?thesis using True Cons.prems by (simp add: e Cons.IH spawn_row_eq [OF e])
  qed (use Cons in auto)
qed simp

text \<open>The rows of a config that have no entity yet, in the order they are taken.\<close>

definition missing_rows ::
  "('b, 'a, 's, 'fl) arrow_api \<Rightarrow> ('j, 'fl) json_build \<Rightarrow> 'j materialization_config \<Rightarrow> 'b table_read_view
     \<Rightarrow> ('e, 'j) materialization_registry \<Rightarrow> row_id list" where
  "missing_rows A K c view r =
     filter (\<lambda>row. config_allows A K c view row \<and> mr_lookup r (mc_table c) row = None)
       (sort_key row_id_as_u64 (rpm_row_ids (rv_position_map view)))"

definition config_limit :: "'j materialization_config \<Rightarrow> nat" where
  "config_limit c = (case mc_max_entities c of None \<Rightarrow> usize_max | Some m \<Rightarrow> m)"

lemma spawn_rows:
  assumes "fold (spawn_row E t gen) rows (spawned, r, w) = (spawned', r', w')"
  shows "length spawned' = length spawned + length rows
    \<and> (\<forall>t' row. mr_lookup r' t' row \<noteq> None \<longleftrightarrow> mr_lookup r t' row \<noteq> None \<or> t' = t \<and> row \<in> set rows)"
  using assms
proof (induction rows arbitrary: spawned r w)
  case (Cons row rows)
  obtain e w1 where e: "ec_spawn E (view_of_with_generation row t gen) w = (e, w1)"
    by (cases "ec_spawn E (view_of_with_generation row t gen) w")
  from Cons.prems have "fold (spawn_row E t gen) rows (spawned @ [e], mr_register t row e r, w1) = (spawned', r', w')"
    by (simp add: spawn_row_eq [OF e])
  from Cons.IH [OF this] show ?case by (auto simp: mr_lookup_register)
qed simp

lemma filter_not_taken: "distinct xs \<Longrightarrow> filter (\<lambda>x. x \<notin> set (take n xs)) xs = drop n xs"
proof (induction xs arbitrary: n)
  case (Cons x xs)
  then show ?case
  proof (cases n)
    case (Suc m)
    have "filter (\<lambda>y. y \<noteq> x \<and> y \<notin> set (take m xs)) xs = filter (\<lambda>y. y \<notin> set (take m xs)) xs"
      using Cons.prems by (intro filter_cong) auto
    then show ?thesis using Suc Cons by simp
  qed simp
qed simp

lemma row_ids_distinct: "rpm_ok m \<Longrightarrow> distinct (rpm_row_ids m)"
  by (simp add: rpm_ok_def hm_ok_def rpm_row_ids_def distinct_map comp_inj_on inj_on_def)

lemma materialize_config_eq:
  assumes "engine_latest_tick q = Some tick" and "read_single_table q tick (mc_table c) = Inr view"
    and "rpm_ok (rv_position_map view)"
  shows "materialize_config A K E q c (spawned, r, w) =
     (Inr (), fold (spawn_row E (mc_table c) (tick_as_u64 tick)) (take (config_limit c) (missing_rows A K c view r)) (spawned, r, w))"
  by (simp add: materialize_config_def assms(1,2) config_limit_def missing_rows_def materialize_rows_fold
      row_ids_distinct [OF assms(3)])

text \<open>C31: Materialising a config spawns an entity for each of the first missing rows, in the order
  of their identifiers and at most \<open>max_entities\<close> of them, and registers nothing else. What is
  still missing afterwards are the rest: the bound limits one call, and every further call
  spawns as many again.\<close>

theorem materialize_config_correct:
  assumes "engine_latest_tick q = Some tick" and "read_single_table q tick (mc_table c) = Inr view"
    and "rpm_ok (rv_position_map view)"
  shows "\<exists>spawned' r' w'. materialize_config A K E q c (spawned, r, w) = (Inr (), spawned', r', w')
    \<and> length spawned' = length spawned + min (config_limit c) (length (missing_rows A K c view r))
    \<and> (\<forall>t row. mr_lookup r' t row \<noteq> None \<longleftrightarrow> mr_lookup r t row \<noteq> None
         \<or> t = mc_table c \<and> row \<in> set (take (config_limit c) (missing_rows A K c view r)))
    \<and> missing_rows A K c view r' = drop (config_limit c) (missing_rows A K c view r)"
proof -
  let ?rows = "take (config_limit c) (missing_rows A K c view r)"
  obtain spawned' r' w' where f: "fold (spawn_row E (mc_table c) (tick_as_u64 tick)) ?rows (spawned, r, w) = (spawned', r', w')"
    by (cases "fold (spawn_row E (mc_table c) (tick_as_u64 tick)) ?rows (spawned, r, w)")
  note s = spawn_rows [OF f]
  let ?P = "\<lambda>row. config_allows A K c view row \<and> mr_lookup r (mc_table c) row = None"
  have "mr_lookup r' (mc_table c) row = None \<longleftrightarrow> mr_lookup r (mc_table c) row = None \<and> row \<notin> set ?rows" for row
    using s by blast
  then have "missing_rows A K c view r' =
      filter (\<lambda>row. ?P row \<and> row \<notin> set ?rows) (sort_key row_id_as_u64 (rpm_row_ids (rv_position_map view)))"
    unfolding missing_rows_def [of A K c view r'] by (intro filter_cong) blast+
  then have "missing_rows A K c view r' = filter (\<lambda>row. row \<notin> set ?rows) (missing_rows A K c view r)"
    unfolding missing_rows_def [of A K c view r, THEN arg_cong [where f = "filter (\<lambda>row. row \<notin> set ?rows)"]] filter_filter .
  also have "\<dots> = drop (config_limit c) (missing_rows A K c view r)"
    using row_ids_distinct [OF assms(3)] by (intro filter_not_taken) (simp add: missing_rows_def)
  finally have rest: "missing_rows A K c view r' = drop (config_limit c) (missing_rows A K c view r)" .
  show ?thesis
    using s rest by (intro exI [of _ spawned'] exI [of _ r'] exI [of _ w'])
      (simp add: materialize_config_eq [OF assms] f min.commute)
qed


subsection \<open>Entities and rows correspond\<close>

text \<open>What the bridge relies on of Bevy: a spawned entity is new and lives, a despawned one does
  not. \<open>live\<close> is the set of living entities of a world.\<close>

definition ecs_ok :: "('e, 'w) ecs_api \<Rightarrow> ('w \<Rightarrow> 'e set) \<Rightarrow> bool" where
  "ecs_ok E live \<longleftrightarrow> (\<forall>v w. fst (ec_spawn E v w) \<notin> live w \<and> live (snd (ec_spawn E v w)) = insert (fst (ec_spawn E v w)) (live w))
     \<and> (\<forall>e w. live (ec_despawn E e w) = live w - {e})"

inductive bridge_reachable ::
  "('b, 'a, 's, 'fl) arrow_api \<Rightarrow> ('j, 'fl) json_build \<Rightarrow> ('e, 'w) ecs_api \<Rightarrow> ('e, 'j) materialization_registry \<times> 'w \<Rightarrow> bool"
  for A K E where
  br_new: "bridge_reachable A K E (materialization_registry_new, w)"
| br_config: "bridge_reachable A K E (r, w) \<Longrightarrow> bridge_reachable A K E (register_config c r, w)"
| br_materialize: "bridge_reachable A K E rw \<Longrightarrow> materialize A K E q rw = (res, rw') \<Longrightarrow> bridge_reachable A K E rw'"
| br_dematerialize: "bridge_reachable A K E rw \<Longrightarrow> dematerialize E e rw = (res, rw') \<Longrightarrow> bridge_reachable A K E rw'"
| br_all: "bridge_reachable A K E rw \<Longrightarrow> bridge_reachable A K E (dematerialize_all E rw)"
| br_entity: "bridge_reachable A K E rw \<Longrightarrow> materialize_entity E rq rw = (e, rw') \<Longrightarrow> bridge_reachable A K E rw'"
| br_remove: "bridge_reachable A K E rw \<Longrightarrow> dematerialize_entity E rq rw = (res, rw') \<Longrightarrow> bridge_reachable A K E rw'"

text \<open>The invariant: no key twice, no entity twice, every registered entity lives.\<close>

definition bridge_inv :: "('w \<Rightarrow> 'e set) \<Rightarrow> ('e, 'j) materialization_registry \<times> 'w \<Rightarrow> bool" where
  "bridge_inv live rw \<longleftrightarrow> hm_ok (mr_inner (fst rw)) \<and> distinct (map snd (mr_inner (fst rw)))
     \<and> snd ` set (mr_inner (fst rw)) \<subseteq> live (snd rw)"

lemma bridge_inv_register:
  assumes "bridge_inv live (r, w)" and "ecs_ok E live" and "ec_spawn E v w = (e, w1)" and "mr_lookup r t row = None"
  shows "bridge_inv live (mr_register t row e r, w1)"
proof -
  have "e \<notin> live w" "live w1 = insert e (live w)" using assms(2,3) unfolding ecs_ok_def by (metis fst_conv snd_conv)+
  moreover have "(t, row) \<notin> fst ` set (mr_inner r)" using assms(4) by (simp add: mr_lookup_def map_of_eq_None_iff)
  ultimately show ?thesis using assms(1) by (auto simp: bridge_inv_def mr_register_def hm_insert_new hm_ok_def)
qed

lemma bridge_inv_unregister:
  assumes "bridge_inv live (r, w)" and "ecs_ok E live" and "mr_unregister t row r = (Some e, r1)"
  shows "bridge_inv live (r1, ec_despawn E e w)"
proof -
  have r1: "r1 = r\<lparr>mr_inner := hm_remove (t, row) (mr_inner r)\<rparr>" and e: "((t, row), e) \<in> set (mr_inner r)"
    using assms(3) map_of_SomeD by (auto simp: mr_unregister_def)
  have f: "hm_remove (t, row) (mr_inner r) = filter (\<lambda>p. fst p \<noteq> (t, row)) (mr_inner r)"
    unfolding AList.delete_eq by (rule filter_cong) auto
  have "e \<notin> snd ` set (filter (\<lambda>p. fst p \<noteq> (t, row)) (mr_inner r))"
  proof
    assume "e \<in> snd ` set (filter (\<lambda>p. fst p \<noteq> (t, row)) (mr_inner r))"
    then obtain k where "(k, e) \<in> set (mr_inner r)" "k \<noteq> (t, row)" by auto
    moreover have "inj_on snd (set (mr_inner r))" using assms(1) by (simp add: bridge_inv_def distinct_map)
    ultimately show False using e inj_onD [of snd "set (mr_inner r)" "(k, e)" "((t, row), e)"] by simp
  qed
  moreover have "live (ec_despawn E e w) = live w - {e}" using assms(2) by (simp add: ecs_ok_def)
  ultimately show ?thesis using assms(1)
    by (auto simp: bridge_inv_def r1 f hm_ok_def distinct_map_filter)
qed

lemma bridge_inv_rows:
  assumes "ecs_ok E live"
  shows "bridge_inv live (r, w) \<Longrightarrow> bridge_inv live (snd (materialize_rows E limit allows t gen rows n (spawned, r, w)))"
proof (induction rows arbitrary: n spawned r w)
  case (Cons row rows)
  obtain e w1 where e: "ec_spawn E (view_of_with_generation row t gen) w = (e, w1)"
    by (cases "ec_spawn E (view_of_with_generation row t gen) w")
  then show ?case using Cons bridge_inv_register [OF Cons.prems assms e] by (auto simp: e)
qed simp

lemma bridge_inv_configs:
  assumes "ecs_ok E live"
  shows "bridge_inv live rw \<Longrightarrow> bridge_inv live (snd (materialize_configs A K E q cs (spawned, rw)))"
proof (induction cs arbitrary: spawned rw)
  case (Cons c cs)
  obtain r w where rw: "rw = (r, w)" by (cases rw)
  obtain res sp rw1 where c: "materialize_config A K E q c (spawned, rw) = (res, sp, rw1)"
    by (cases "materialize_config A K E q c (spawned, rw)")
  have "bridge_inv live (snd (snd (materialize_config A K E q c (spawned, rw))))"
    using Cons.prems by (simp add: materialize_config_def rw bridge_inv_rows [OF assms] split: sum.splits prod.splits)
  then show ?case using Cons.IH by (cases res) (simp_all add: c)
qed simp

lemma bridge_inv_materialize:
  "ecs_ok E live \<Longrightarrow> bridge_inv live rw \<Longrightarrow> bridge_inv live (snd (materialize A K E q rw))"
  by (simp add: materialize_def bridge_inv_configs)

lemma bridge_reachable_inv:
  assumes "bridge_reachable A K E rw" and "ecs_ok E live" shows "bridge_inv live rw"
  using assms(1)
proof (induction rule: bridge_reachable.induct)
  case (br_new w)
  show ?case by (simp add: bridge_inv_def materialization_registry_new_def)
next
  case (br_config r w c)
  then show ?case by (simp add: bridge_inv_def register_config_def)
next
  case (br_materialize rw q res rw')
  then show ?case using bridge_inv_materialize [OF assms(2), of rw A K q] by simp
next
  case (br_dematerialize rw e res rw')
  obtain r w where rw: "rw = (r, w)" by (cases rw)
  show ?case
  proof (cases "find (\<lambda>(_, x). x = e) (mr_inner r)")
    case None
    then show ?thesis using br_dematerialize rw by (auto simp: dematerialize_def)
  next
    case (Some p)
    then obtain t row where p: "p = ((t, row), e)" "((t, row), e) \<in> set (mr_inner r)"
      by (cases p) (auto simp: find_Some_iff in_set_conv_nth; metis)
    then have "hm_get (mr_inner r) (t, row) = Some e"
      using br_dematerialize.IH by (simp add: bridge_inv_def rw hm_ok_def)
    then show ?thesis using br_dematerialize rw Some p bridge_inv_unregister [OF _ assms(2), of r w t row e]
      by (auto simp: dematerialize_def mr_unregister_def)
  qed
next
  case (br_all rw)
  then show ?case by (auto simp: bridge_inv_def dematerialize_all_def split: prod.splits)
next
  case (br_entity rw rq e rw')
  then show ?case using bridge_inv_register [OF _ assms(2)]
    by (auto simp: materialize_entity_def split: prod.splits option.splits)
next
  case (br_remove rw rq res rw')
  obtain r w where rw: "rw = (r, w)" by (cases rw)
  show ?case
  proof (cases "mr_lookup r (mq_table_name rq) (mq_row_id rq)")
    case None
    then have "hm_remove (mq_table_name rq, mq_row_id rq) (mr_inner r) = mr_inner r"
      by (simp add: mr_lookup_def map_of_eq_None_iff delete_idem)
    then show ?thesis using None br_remove rw by (auto simp: dematerialize_entity_def mr_unregister_def mr_lookup_def)
  next
    case (Some e)
    then show ?thesis using br_remove rw bridge_inv_unregister [OF _ assms(2), of r w "mq_table_name rq" "mq_row_id rq" e]
      by (auto simp: dematerialize_entity_def mr_unregister_def mr_lookup_def)
  qed
qed



subsection \<open>Syncing and refreshing\<close>

text \<open>A sync that reports errors has dropped the dirty marks of the entities it failed for.\<close>

lemma sync_all_forgets_failures: "sync_all vm q s = (res, s') \<Longrightarrow> ss_dirty s' = [] \<and> ss_view_models s' = ss_view_models s"
  by (auto simp: sync_all_def split: prod.splits if_splits)

lemma sync_loop_counts:
  "sync_loop vm q models es (n, errs) = (n', errs') \<Longrightarrow>
   (errs' = [] \<longleftrightarrow> errs = [] \<and> (\<forall>e \<in> set es. \<forall>entry. hm_get models e = Some entry \<longrightarrow>
      is_ok (read_table_via_query_engine vm q (sy_table entry))))"
proof (induction es arbitrary: n errs)
  case (Cons e es)
  then show ?case
  proof (cases "hm_get models e")
    case (Some entry)
    then show ?thesis using Cons by (cases "read_table_via_query_engine vm q (sy_table entry)") auto
  qed auto
qed simp

lemma sync_all_ok_iff:
  "is_ok (fst (sync_all vm q s)) \<longleftrightarrow> (\<forall>e \<in> set (ss_dirty s). \<forall>entry. hm_get (ss_view_models s) e = Some entry \<longrightarrow>
     is_ok (read_table_via_query_engine vm q (sy_table entry)))"
  using sync_loop_counts [of vm q "ss_view_models s" "ss_dirty s" 0 "[]"]
  by (cases "sync_loop vm q (ss_view_models s) (ss_dirty s) (0, [])") (auto simp: sync_all_def)

text \<open>After the callback a view model shows the engine's snapshot under the broadcast generation;
  without a snapshot it fails and nothing changes.\<close>

lemma handler_callback_correct:
  "handler_callback tick generation h = (case qe_latest_snapshot (rh_query_engine h) of
     None \<Rightarrow> (Inl (scheduler_error.SEGeneric ''invalid query: no snapshot available''), h)
   | Some s \<Rightarrow> (Inr (), h\<lparr>rh_view_model := \<lparr>vm_snapshot = Some (world_view_new s), vm_latest_tick = Some (ws_tick s),
        vm_generation = generation\<rparr>, rh_signal_received := False\<rparr>))"
  by (simp add: handler_callback_def engine_snapshot_def vm_refresh_def world_view_new_def split: option.splits)

subsection \<open>Instances\<close>

text \<open>Entities as numbers, a world as the list of the living.\<close>

definition demo_ecs :: "(nat, nat list) ecs_api" where
  "demo_ecs = \<lparr>ec_spawn = \<lambda>v w. (Suc (foldr max w 0), Suc (foldr max w 0) # w), ec_despawn = removeAll, ec_index = of_nat\<rparr>"

lemma demo_ecs_ok: "ecs_ok demo_ecs set"
proof -
  have "x \<in> set w \<Longrightarrow> x \<le> foldr max w 0" for x :: nat and w by (induction w) auto
  then show ?thesis by (auto simp: ecs_ok_def demo_ecs_def) (metis Suc_n_not_le_n)
qed

definition demo_json_build :: "(djson, int) json_build" where
  "demo_json_build = \<lparr>jb_null = js_null demo_json, jb_native = \<lambda>n. js_null demo_json, jb_bool = \<lambda>b. js_null demo_json,
     jb_string = \<lambda>s. js_null demo_json\<rparr>"


definition demo_view_engine :: "(field list \<times> lcol list) query_engine" where
  "demo_view_engine = (query_engine_new schema_registry_new)\<lparr>qe_latest_tick := 3,
     qe_view_cache := [(''unit'', \<lparr>rv_table_name = ''unit'', rv_tick = Tick 3, rv_batches = [demo_batch],
       rv_schema = table_spec_new ''unit'', rv_position_map = rpm_insert (rpm_insert rpm_new (RowId 1) 0 0) (RowId 2) 0 1\<rparr>)]\<rparr>"

theorem materialize_config_correct_witness:
  "\<exists>spawned r w. materialize_config list_arrow demo_json_build demo_ecs demo_view_engine (config_with_max 1 (config_new ''unit''))
       ([], materialization_registry_new, []) = (Inr (), spawned, r, w) \<and> length spawned = 1"
proof -
  let ?c = "config_with_max 1 (config_new ''unit'') :: djson materialization_config"
  let ?view = "snd (hd (qe_view_cache demo_view_engine))"
  have "engine_latest_tick demo_view_engine = Some (Tick 3)"
    by (simp add: engine_latest_tick_def demo_view_engine_def)
  moreover have "read_single_table demo_view_engine (Tick 3) (mc_table ?c) = Inr ?view"
    by (simp add: read_single_table_def engine_read_def engine_latest_tick_def demo_view_engine_def config_with_max_def config_new_def
        request_with_table_def read_request_new_def tick_ZERO_def read_views_def response_insert_def read_response_new_def
        response_get_def)
  moreover have "rpm_ok (rv_position_map ?view)"
    by (simp add: demo_view_engine_def rpm_ok_def hm_ok_def rpm_insert_def rpm_new_def)
  moreover have "length (missing_rows list_arrow demo_json_build ?c ?view (materialization_registry_new :: (nat, djson) materialization_registry)) = 2"
    by (simp add: missing_rows_def demo_view_engine_def rpm_row_ids_def rpm_insert_def rpm_new_def config_allows_def
        config_with_max_def config_new_def mr_lookup_def materialization_registry_new_def)
  moreover have "config_limit ?c = 1" by (simp add: config_limit_def config_with_max_def)
  ultimately show ?thesis
    using materialize_config_correct [of demo_view_engine "Tick 3" ?c ?view list_arrow demo_json_build demo_ecs "[]"
        materialization_registry_new "[]"] by auto
qed


end
