(* ===== verification/Store_Checkpoints.thy ===== *)
theory Store_Checkpoints
  imports World_View Save_Props
begin

section \<open>Checkpoint files of the store (scharnhorst\_arrow\_store store.rs)\<close>

text \<open>
  The directory \<open>checkpoint_N\<close> with one Arrow file per table that has batches. The Arrow file
  format is an \<open>ipc_api\<close> (\<open>FileWriter\<close>, \<open>FileReader\<close>), \<open>order\<close> the order in which a
  directory is listed. A file holds what was written before a failure.
\<close>

subsection \<open>Writing\<close>

datatype write_checkpoint_token = InitCheckpoint | CommitCheckpoint

definition checkpoint_dir :: "tick \<Rightarrow> string" where
  "checkpoint_dir tick = ''checkpoint_'' @ show_u64 (tick_as_u64 tick)"

fun write_file_batches :: "('b, 's) ipc_api \<Rightarrow> string \<Rightarrow> 'b list \<Rightarrow> (arrow_store_error + unit) \<times> string" where
  "write_file_batches P out [] = (case ipc_finish P out of
     Inl e \<Rightarrow> (Inl (SEArrow (''ipc finish: '' @ e)), out) | Inr out' \<Rightarrow> (Inr (), out'))"
| "write_file_batches P out (b # bs) = (case ipc_write P out b of
     Inl e \<Rightarrow> (Inl (SEArrow (''ipc write: '' @ e)), out) | Inr out' \<Rightarrow> write_file_batches P out' bs)"

definition write_table_file ::
  "('b, 'a, 's, 'fl) arrow_api \<Rightarrow> ('b, 's) ipc_api \<Rightarrow> path \<Rightarrow> 'b list \<Rightarrow> file_system \<Rightarrow> (arrow_store_error + unit) \<times> file_system" where
  "write_table_file A P p batches fs =
     (case ipc_writer P (ar_schema A (hd batches)) of
        Inl e \<Rightarrow> (Inl (SEArrow (''ipc writer: '' @ e)), write_file p [] fs)
      | Inr out \<Rightarrow> (case write_file_batches P out batches of (r, bytes) \<Rightarrow> (r, write_file p bytes fs)))"

fun write_tables ::
  "('b, 'a, 's, 'fl) arrow_api \<Rightarrow> ('b, 's) ipc_api \<Rightarrow> string \<Rightarrow> 'b world_snapshot \<Rightarrow> string list \<Rightarrow> file_system
     \<Rightarrow> (arrow_store_error + unit) \<times> file_system" where
  "write_tables A P dir w [] fs = (Inr (), fs)"
| "write_tables A P dir w (name # names) fs =
     (let batches = (case table_batches w name of Inl _ \<Rightarrow> [] | Inr bs \<Rightarrow> bs) in
      if batches = [] then write_tables A P dir w names fs
      else (case write_table_file A P (dir, name @ ''.arrow'') batches fs of
          (Inl e, fs') \<Rightarrow> (Inl e, fs')
        | (Inr _, fs') \<Rightarrow> write_tables A P dir w names fs'))"

definition checkpoint_source :: "('j, 'a, 'b) arrow_store \<Rightarrow> tick \<Rightarrow> 'b world_snapshot option" where
  "checkpoint_source s tick = (case hm_get (st_snapshots s) tick of Some w \<Rightarrow> Some w | None \<Rightarrow> latest_snapshot s)"

definition do_write_checkpoint ::
  "('b, 'a, 's, 'fl) arrow_api \<Rightarrow> ('b, 's) ipc_api \<Rightarrow> ('j, 'a, 'b) arrow_store \<Rightarrow> tick \<Rightarrow> file_system
     \<Rightarrow> (arrow_store_error + unit) \<times> file_system" where
  "do_write_checkpoint A P s tick fs =
     (case checkpoint_source s tick of
        None \<Rightarrow> (Inr (), fs)
      | Some w \<Rightarrow> write_tables A P (checkpoint_dir tick) w (map fst (ws_tables w)) (create_dir_all (checkpoint_dir tick) fs))"

definition write_checkpoint ::
  "('b, 'a, 's, 'fl) arrow_api \<Rightarrow> ('b, 's) ipc_api \<Rightarrow> ('j, 'a, 'b) arrow_store \<Rightarrow> tick \<Rightarrow> write_checkpoint_token
     \<Rightarrow> file_system \<Rightarrow> (arrow_store_error + unit) \<times> file_system" where
  "write_checkpoint A P s tick token fs =
     (case token of
        InitCheckpoint \<Rightarrow>
          if lg_is_simulation (st_lifecycle s)
          then (Inl (SELifecycle ''write_checkpoint requires Initialization, but lifecycle is Simulation''), fs)
          else do_write_checkpoint A P s tick fs
      | CommitCheckpoint \<Rightarrow>
          if lg_is_initialization (st_lifecycle s)
          then (Inl (SELifecycle ''write_checkpoint requires Simulation, but lifecycle is Initialization''), fs)
          else do_write_checkpoint A P s tick fs)"

subsection \<open>Reading\<close>

text \<open>The stem of a file whose extension is \<open>arrow\<close>; a name that starts with its only dot has
  no extension.\<close>

definition arrow_stem :: "string \<Rightarrow> string option" where
  "arrow_stem name = (case strip_suffix ''.arrow'' name of Some (c # cs) \<Rightarrow> Some (c # cs) | _ \<Rightarrow> None)"

definition read_table_file :: "('b, 's) ipc_api \<Rightarrow> string \<Rightarrow> string \<Rightarrow> arrow_store_error + 'b list" where
  "read_table_file P table bytes =
     rbind (map_err (\<lambda>e. SEArrow (''ipc reader for table '' @ table @ '': '' @ e)) (ipc_reader P bytes)) (\<lambda>results.
     map_result (map_err (\<lambda>e. SEArrow (''read batch from table '' @ table @ '': '' @ e))) results)"

fun read_files ::
  "('b, 's) ipc_api \<Rightarrow> file_system \<Rightarrow> string \<Rightarrow> string list \<Rightarrow> (string \<times> 'b list) list
     \<Rightarrow> arrow_store_error + (string \<times> 'b list) list" where
  "read_files P fs dir [] acc = Inr acc"
| "read_files P fs dir (name # names) acc =
     (case arrow_stem name of
        None \<Rightarrow> read_files P fs dir names acc
      | Some table \<Rightarrow> (case hm_get (fs_files fs) (dir, name) of
          None \<Rightarrow> Inl (SEIo (''open '' @ dir @ ''/'' @ name @ '': No such file or directory (os error 2)''))
        | Some bytes \<Rightarrow> rbind (read_table_file P table bytes) (\<lambda>batches.
            read_files P fs dir names (hm_insert table batches acc))))"

definition read_checkpoint ::
  "('b, 's) ipc_api \<Rightarrow> (string list \<Rightarrow> string list) \<Rightarrow> file_system \<Rightarrow> tick \<Rightarrow> arrow_store_error + (string \<times> 'b list) list" where
  "read_checkpoint P order fs tick =
     (if checkpoint_dir tick \<notin> set (fs_dirs fs)
      then Inl (SEIo (''checkpoint directory not found: '' @ checkpoint_dir tick))
      else read_files P fs (checkpoint_dir tick) (order (dir_names fs (checkpoint_dir tick))) [])"

definition load_checkpoint_from ::
  "('b, 'a, 's, 'fl) arrow_api \<Rightarrow> (data_type \<Rightarrow> string) \<Rightarrow> ('b, 's) ipc_api \<Rightarrow> (string list \<Rightarrow> string list) \<Rightarrow> file_system
     \<Rightarrow> ('j, 'a, 'b) arrow_store \<Rightarrow> tick \<Rightarrow> (arrow_store_error + 'b world_snapshot) \<times> ('j, 'a, 'b) arrow_store" where
  "load_checkpoint_from A type_name P order fs s tick = load_checkpoint A type_name (read_checkpoint P order fs) s tick"

subsection \<open>What is written\<close>

definition batches_of :: "'b world_snapshot \<Rightarrow> string \<Rightarrow> 'b list" where
  "batches_of w name = (case table_batches w name of Inl _ \<Rightarrow> [] | Inr bs \<Rightarrow> bs)"

text \<open>What the code relies on of the file format: the reader returns the batches the writer was
  given.\<close>

definition file_holds :: "('b, 'a, 's, 'fl) arrow_api \<Rightarrow> ('b, 's) ipc_api \<Rightarrow> 'b list \<Rightarrow> bool" where
  "file_holds A P bs \<longleftrightarrow> (\<exists>out out'. ipc_writer P (ar_schema A (hd bs)) = Inr out
     \<and> write_file_batches P out bs = (Inr (), out') \<and> ipc_reader P out' = Inr (map Inr bs))"

lemma arrow_stem_append: "arrow_stem (name @ ''.arrow'') = (if name = [] then None else Some name)"
  by (cases name) (simp_all add: arrow_stem_def del: append.simps)

lemma arrow_stem_inv: "arrow_stem name = Some table \<Longrightarrow> name = table @ ''.arrow''"
proof -
  have "strip_suffix suf xs = Some ys \<Longrightarrow> xs = ys @ suf" for suf xs ys :: string
  proof -
    assume "strip_suffix suf xs = Some ys"
    then have t: "take (length suf) (rev xs) = rev suf" and d: "ys = rev (drop (length suf) (rev xs))"
      by (auto simp: strip_suffix_def strip_prefix_def split: if_splits)
    have "rev xs = rev suf @ rev ys" using append_take_drop_id [of "length suf" "rev xs"] t d by simp
    then show ?thesis by (metis rev_append rev_rev_ident)
  qed
  then show "arrow_stem name = Some table \<Longrightarrow> name = table @ ''.arrow''"
    by (auto simp: arrow_stem_def split: option.splits list.splits)
qed

lemma read_own_file: "ipc_reader P bytes = Inr (map Inr bs) \<Longrightarrow> read_table_file P table bytes = Inr bs"
proof -
  have "map_result (map_err f) (map Inr bs) = Inr bs" for f :: "string \<Rightarrow> arrow_store_error"
    by (induction bs) simp_all
  then show "ipc_reader P bytes = Inr (map Inr bs) \<Longrightarrow> read_table_file P table bytes = Inr bs"
    by (simp add: read_table_file_def)
qed

lemma write_tables_files:
  assumes "\<And>n. n \<in> set names \<Longrightarrow> batches_of w n \<noteq> [] \<Longrightarrow> file_holds A P (batches_of w n)"
  shows "\<exists>fs'. write_tables A P dir w names fs = (Inr (), fs') \<and> fs_dirs fs' = fs_dirs fs
    \<and> (\<forall>n\<in>set names. batches_of w n \<noteq> [] \<longrightarrow> (\<exists>out. hm_get (fs_files fs') (dir, n @ ''.arrow'') = Some out
         \<and> ipc_reader P out = Inr (map Inr (batches_of w n))))
    \<and> (\<forall>p. (\<forall>n\<in>set names. batches_of w n \<noteq> [] \<longrightarrow> p \<noteq> (dir, n @ ''.arrow'')) \<longrightarrow> hm_get (fs_files fs') p = hm_get (fs_files fs) p)"
  using assms
proof (induction names arbitrary: fs)
  case (Cons n names)
  show ?case
  proof (cases "batches_of w n = []")
    case True
    then have "write_tables A P dir w (n # names) fs = write_tables A P dir w names fs"
      by (simp add: batches_of_def)
    then show ?thesis using Cons.IH [of fs] Cons.prems True by auto
  next
    case False
    then obtain out out' where f: "ipc_writer P (ar_schema A (hd (batches_of w n))) = Inr out"
        "write_file_batches P out (batches_of w n) = (Inr (), out')" "ipc_reader P out' = Inr (map Inr (batches_of w n))"
      using Cons.prems by (force simp: file_holds_def)
    define fs1 where "fs1 = write_file (dir, n @ ''.arrow'') out' fs"
    have "write_tables A P dir w (n # names) fs = write_tables A P dir w names fs1"
      using False f by (simp add: batches_of_def [symmetric] write_table_file_def fs1_def)
    moreover obtain fs' where fs': "write_tables A P dir w names fs1 = (Inr (), fs')" "fs_dirs fs' = fs_dirs fs1"
        "\<And>m. m \<in> set names \<Longrightarrow> batches_of w m \<noteq> [] \<Longrightarrow> \<exists>out. hm_get (fs_files fs') (dir, m @ ''.arrow'') = Some out
           \<and> ipc_reader P out = Inr (map Inr (batches_of w m))"
        "\<And>p. (\<forall>m\<in>set names. batches_of w m \<noteq> [] \<longrightarrow> p \<noteq> (dir, m @ ''.arrow'')) \<Longrightarrow> hm_get (fs_files fs') p = hm_get (fs_files fs1) p"
      using Cons.IH [of fs1] Cons.prems by auto
    moreover have "\<exists>out. hm_get (fs_files fs') (dir, n @ ''.arrow'') = Some out \<and> ipc_reader P out = Inr (map Inr (batches_of w n))"
    proof (cases "n \<in> set names")
      case True
      then show ?thesis using fs'(3) False by blast
    next
      case n: False
      then have "hm_get (fs_files fs') (dir, n @ ''.arrow'') = hm_get (fs_files fs1) (dir, n @ ''.arrow'')"
        by (intro fs'(4)) auto
      then show ?thesis using f(3) by (simp add: fs1_def write_file_def)
    qed
    moreover have "fs_dirs fs1 = fs_dirs fs" by (simp add: fs1_def write_file_def)
    moreover have "hm_get (fs_files fs1) p = hm_get (fs_files fs) p" if "p \<noteq> (dir, n @ ''.arrow'')" for p
      using that by (simp add: fs1_def write_file_def)
    ultimately show ?thesis using False by (intro exI [of _ fs']) (simp add: ball_Un)
  qed
qed simp

subsection \<open>What is read back\<close>

lemma read_files_get:
  assumes "\<And>name table. name \<in> set names \<Longrightarrow> arrow_stem name = Some table \<Longrightarrow>
      \<exists>bytes. hm_get (fs_files fs) (dir, name) = Some bytes \<and> ipc_reader P bytes = Inr (map Inr (f table))"
    and "hm_ok acc"
  shows "\<exists>files. read_files P fs dir names acc = Inr files \<and> hm_ok files
    \<and> (\<forall>t. hm_get files t = (if \<exists>name\<in>set names. arrow_stem name = Some t then Some (f t) else hm_get acc t))"
  using assms
proof (induction names arbitrary: acc)
  case (Cons name names)
  show ?case
  proof (cases "arrow_stem name")
    case None
    then show ?thesis using Cons.IH [of acc] Cons.prems by simp
  next
    case (Some table)
    then obtain bytes where b: "hm_get (fs_files fs) (dir, name) = Some bytes" "read_table_file P table bytes = Inr (f table)"
      using Cons.prems(1) by (force intro: read_own_file)
    obtain files where "read_files P fs dir names (hm_insert table (f table) acc) = Inr files" "hm_ok files"
        "\<And>t. hm_get files t = (if \<exists>name\<in>set names. arrow_stem name = Some t then Some (f t)
           else hm_get (hm_insert table (f table) acc) t)"
      using Cons.IH [of "hm_insert table (f table) acc"] Cons.prems by auto
    then show ?thesis using Some b by auto
  qed
qed simp

lemma load_table_get:
  "hm_get (st_tables (load_table A ty tick (n, bs) s)) m =
     (if m = n then Some ((case hm_get (st_tables s) n of
          None \<Rightarrow> (case bs of [] \<Rightarrow> versioned_table_new n AppendOnly
              | b # _ \<Rightarrow> set_spec (versioned_table_new n AppendOnly) (spec_of_batch A ty n b))
        | Some t \<Rightarrow> t)\<lparr>vt_versions := hm_insert tick bs (case hm_get (st_tables s) n of None \<Rightarrow> [] | Some t \<Rightarrow> vt_versions t)\<rparr>)
      else hm_get (st_tables s) m)"
  by (auto simp: load_table_def Let_def ensure_table_def hm_contains_def versioned_table_new_def set_spec_def
      split: option.splits list.splits)

lemma load_tables_get:
  "hm_ok files \<Longrightarrow> hm_get (st_tables (fold (load_table A ty tick) files s)) m =
     (case hm_get files m of None \<Rightarrow> hm_get (st_tables s) m
      | Some bs \<Rightarrow> hm_get (st_tables (load_table A ty tick (m, bs) s)) m)"
proof (induction files arbitrary: s)
  case (Cons f fs)
  obtain n bs where f: "f = (n, bs)" by force
  have ok: "hm_ok fs" "hm_get fs n = None" using Cons.prems by (auto simp: f hm_ok_def map_of_eq_None_iff)
  show ?case
  proof (cases "m = n")
    case True
    then show ?thesis using Cons.IH [OF ok(1)] ok(2) by (simp add: f)
  next
    case False
    then have "hm_get (st_tables (load_table A ty tick (n, bs) s)) m = hm_get (st_tables s) m" by (simp add: load_table_get)
    then show ?thesis using Cons.IH [OF ok(1)] False by (simp add: f load_table_get split: option.split)
  qed
qed simp

lemma load_tables_ok: "hm_ok (st_tables s) \<Longrightarrow> hm_ok (st_tables (fold (load_table A ty tick) files s))"
proof (induction files arbitrary: s)
  case (Cons f fs)
  then show ?case by (cases f) (simp add: load_table_def Let_def ensure_table_def)
qed simp

lemma write_checkpoint_open:
  "lg_is_simulation (st_lifecycle s) \<longleftrightarrow> token = CommitCheckpoint \<Longrightarrow>
   write_checkpoint A P s tick token fs = do_write_checkpoint A P s tick fs"
  by (cases token; cases "lg_lifecycle (st_lifecycle s)")
    (auto simp: write_checkpoint_def lg_is_simulation_def lg_is_initialization_def)


text \<open>A file format for one batch: a file has a letter per batch.\<close>

definition demo_ipc :: "(field list \<times> lcol list, field list) ipc_api" where
  "demo_ipc = \<lparr>ipc_writer = (\<lambda>_. Inr []), ipc_write = (\<lambda>out b. Inr (out @ ''b'')), ipc_finish = Inr,
     ipc_reader = (\<lambda>out. Inr (map (\<lambda>_. Inr demo_batch) out))\<rparr>"

definition demo_snapshot :: "(field list \<times> lcol list) world_snapshot" where
  "demo_snapshot = register_table (snapshot_with_table (Tick 4) ''unit''
     (insert_version (versioned_table_new ''unit'' AppendOnly) (Tick 4) [demo_batch, demo_batch])) ''hero''
     (versioned_table_new ''hero'' AppendOnly)"

lemma demo_snapshot_batches: "batches_of demo_snapshot n = (if n = ''unit'' then [demo_batch, demo_batch] else [])"
  by (simp add: batches_of_def demo_snapshot_def table_batches_def snapshot_get_table_def snapshot_with_table_def
      register_table_def world_snapshot_new_def insert_version_def versioned_table_new_def get_version_def)


text \<open>The rows of a table that a load creates have no positions, so no diff can reach them.\<close>

lemma loaded_rows_have_no_position:
  assumes "hm_ok files" and "hm_get files name = Some bs" and "hm_get (st_tables r) name = None"
  shows "\<exists>t. hm_get (st_tables (fold (load_table A ty tick) files r)) name = Some t \<and> hm_get (vt_versions t) tick = Some bs
     \<and> apply_update_to_table I J A t name tick row col v =
        (Inl (SEGeneric (''row not found in position map: table='' @ name @ '', row_id='' @ show_u64 (row_id_as_u64 row))), t)"
  using assms by (auto simp: load_tables_get load_table_get apply_update_to_table_def versioned_table_new_def set_spec_def
      rpm_new_def position_of_def split: list.split)

text \<open>A file that an earlier checkpoint of the tick left for a table now without batches stays,
  and is loaded with the others.\<close>

lemma stale_files_stay:
  assumes "checkpoint_source s tick = Some w" and "lg_is_simulation (st_lifecycle s) \<longleftrightarrow> token = CommitCheckpoint"
    and "batches_of w n = []" and "\<And>m. batches_of w m \<noteq> [] \<Longrightarrow> file_holds A P (batches_of w m)"
  shows "hm_get (fs_files (snd (write_checkpoint A P s tick token fs))) (checkpoint_dir tick, n @ ''.arrow'')
     = hm_get (fs_files fs) (checkpoint_dir tick, n @ ''.arrow'')"
proof -
  let ?dir = "checkpoint_dir tick"
  obtain fs' where fs': "write_tables A P ?dir w (map fst (ws_tables w)) (create_dir_all ?dir fs) = (Inr (), fs')"
      "hm_get (fs_files fs') (?dir, n @ ''.arrow'') = hm_get (fs_files (create_dir_all ?dir fs)) (?dir, n @ ''.arrow'')"
    using write_tables_files [of "map fst (ws_tables w)" w A P ?dir "create_dir_all ?dir fs"] assms(3,4) by (metis append_same_eq prod.inject)
  show ?thesis unfolding write_checkpoint_open [OF assms(2)] do_write_checkpoint_def assms(1)
    using fs' by (simp add: create_dir_all_def)
qed

end
