(* ===== verification/Inspector_Panels.thy ===== *)
theory Inspector_Panels
  imports World_View Query_Engine Save_Files
begin

section \<open>Inspector panels (scharnhorst\_inspector: inspector.rs, panels)\<close>

text \<open>
  What the panels of the debug build keep and how they fill it from the query engine; drawing
  and the widgets are egui's and not modelled, nor is the release build, whose panels are
  empty; so the size of a node and the drag state are left out. \<open>place\<close> is the initial position of
  a node, computed by the code in \<open>f32\<close>.
\<close>

subsection \<open>Rows as text (table\_panel.rs, snapshot\_browser\_panel.rs)\<close>

fun native_text :: "('j, 'fl) json_api \<Rightarrow> 'fl native \<Rightarrow> string" where
  "native_text J (NInt i) = show_int i"
| "native_text J (NFloat f) = fl_show J f"

definition text_or_null :: "('v \<Rightarrow> string) \<Rightarrow> 'v option \<Rightarrow> string" where
  "text_or_null f v = (case v of None \<Rightarrow> ''NULL'' | Some x \<Rightarrow> f x)"

definition panel_cell ::
  "('j, 'fl) json_api \<Rightarrow> ('b, 'a, 's, 'fl) arrow_api \<Rightarrow> 'a world_view_row \<Rightarrow> nat \<Rightarrow> string" where
  "panel_cell J A row i =
     (case wr_get_i64 A row i of Inr v \<Rightarrow> text_or_null (native_text J) v
      | Inl _ \<Rightarrow> (case wr_get_f64 A row i of Inr v \<Rightarrow> text_or_null (native_text J) v
        | Inl _ \<Rightarrow> (case wr_get_string A row i of Inr v \<Rightarrow> text_or_null id v
          | Inl _ \<Rightarrow> (case wr_get_bool A row i of
              Inr v \<Rightarrow> text_or_null (\<lambda>b. if b then ''true'' else ''false'') v
            | Inl _ \<Rightarrow> ''?''))))"

text \<open>\<open>while count < max_rows\<close> over the iterator; \<open>left\<close> is \<open>max_rows - count\<close>.\<close>

fun panel_rows ::
  "('j, 'fl) json_api \<Rightarrow> ('b, 'a, 's, 'fl) arrow_api \<Rightarrow> nat \<Rightarrow> nat \<Rightarrow> 'a world_view_row_iter \<Rightarrow> string list list" where
  "panel_rows J A n_columns 0 i = []"
| "panel_rows J A n_columns (Suc left) i =
     (case row_iter_next i of
        (Some row, i1) \<Rightarrow> map (panel_cell J A row) [0..<n_columns] # panel_rows J A n_columns left i1
      | (None, _) \<Rightarrow> [])"

definition panel_data ::
  "('j, 'fl) json_api \<Rightarrow> ('b, 'a, 's, 'fl) arrow_api \<Rightarrow> nat \<Rightarrow> 'b world_view \<Rightarrow> string \<Rightarrow> string list \<times> string list list" where
  "panel_data J A max_rows v table =
     (let cols = (case wv_column_names A v table of Inl _ \<Rightarrow> [] | Inr cs \<Rightarrow> cs) in
      (cols, case iter_rows A v table of Inl _ \<Rightarrow> [] | Inr i \<Rightarrow> panel_rows J A (length cols) max_rows i))"

definition engine_world_view :: "'b query_engine \<Rightarrow> query_error + 'b world_view" where
  "engine_world_view q = rbind (engine_snapshot q) (\<lambda>s. Inr (world_view_new s))"

subsection \<open>table\_panel.rs\<close>

record table_panel =
  tp_selected_table :: "string option"
  tp_table_names :: "string list"
  tp_columns :: "string list"
  tp_row_data :: "string list list"
  tp_max_rows :: nat
  tp_needs_reload :: bool

definition table_panel_new :: table_panel where
  "table_panel_new = \<lparr>tp_selected_table = None, tp_table_names = [], tp_columns = [], tp_row_data = [],
     tp_max_rows = 200, tp_needs_reload = True\<rparr>"

definition tp_set_selected_table :: "string option \<Rightarrow> table_panel \<Rightarrow> table_panel" where
  "tp_set_selected_table name p = p\<lparr>tp_selected_table := name, tp_needs_reload := True\<rparr>"

definition tp_reload ::
  "('j, 'fl) json_api \<Rightarrow> ('b, 'a, 's, 'fl) arrow_api \<Rightarrow> 'b query_engine \<Rightarrow> table_panel \<Rightarrow> table_panel" where
  "tp_reload J A q p =
     (let p1 = p\<lparr>tp_columns := [], tp_row_data := []\<rparr> in
      case tp_selected_table p of
        None \<Rightarrow> p1
      | Some table \<Rightarrow> (case engine_world_view q of
          Inl _ \<Rightarrow> p1
        | Inr v \<Rightarrow> (case panel_data J A (tp_max_rows p) v table of (cols, rows) \<Rightarrow>
            p1\<lparr>tp_columns := cols, tp_row_data := rows, tp_needs_reload := False\<rparr>)))"

subsection \<open>snapshot\_browser\_panel.rs\<close>

record snapshot_browser =
  sb_viewing_tick :: u64
  sb_current_sim_tick :: u64
  sb_max_known_tick :: u64
  sb_selected_table :: "string option"
  sb_table_names :: "string list"
  sb_columns :: "string list"
  sb_rows :: "string list list"
  sb_needs_load :: bool
  sb_max_rows :: nat

definition snapshot_browser_new :: snapshot_browser where
  "snapshot_browser_new = \<lparr>sb_viewing_tick = 0, sb_current_sim_tick = 0, sb_max_known_tick = 0, sb_selected_table = None,
     sb_table_names = [], sb_columns = [], sb_rows = [], sb_needs_load = True, sb_max_rows = 200\<rparr>"

definition sb_set_viewing_tick :: "u64 \<Rightarrow> snapshot_browser \<Rightarrow> snapshot_browser" where
  "sb_set_viewing_tick t p = p\<lparr>sb_viewing_tick := t, sb_needs_load := True\<rparr>"

definition sb_set_selected_table :: "string option \<Rightarrow> snapshot_browser \<Rightarrow> snapshot_browser" where
  "sb_set_selected_table name p = p\<lparr>sb_selected_table := name, sb_needs_load := True\<rparr>"

definition clamp_viewing_tick :: "u64 \<Rightarrow> u64 \<Rightarrow> u64" where
  "clamp_viewing_tick max_known viewing =
     (let v = (if viewing > max_known then max_known else viewing) in if v = 0 then max_known else v)"

definition load_tick_data ::
  "('j, 'fl) json_api \<Rightarrow> ('b, 'a, 's, 'fl) arrow_api \<Rightarrow> 'b query_engine \<Rightarrow> snapshot_browser \<Rightarrow> snapshot_browser" where
  "load_tick_data J A q p =
     (let p1 = p\<lparr>sb_columns := [], sb_rows := []\<rparr> in
      case engine_world_view q of
        Inl _ \<Rightarrow> p1
      | Inr v \<Rightarrow>
          let sim = tick_as_u64 (wv_tick v);
              max_known = (if sim > sb_max_known_tick p then sim else sb_max_known_tick p);
              p2 = p1\<lparr>sb_current_sim_tick := sim, sb_max_known_tick := max_known,
                sb_viewing_tick := clamp_viewing_tick max_known (sb_viewing_tick p), sb_table_names := wv_table_names v,
                sb_needs_load := False\<rparr>
          in (case sb_selected_table p of
                None \<Rightarrow> p2
              | Some table \<Rightarrow> (case panel_data J A (sb_max_rows p) v table of (cols, rows) \<Rightarrow>
                  p2\<lparr>sb_columns := cols, sb_rows := rows\<rparr>)))"

subsection \<open>diff\_panel.rs\<close>

definition max_entries :: nat where "max_entries = 500"

record diff_entry =
  de_tick :: u64
  de_table :: string
  de_kind :: string
  de_summary :: string

record diff_panel =
  dp_entries :: "diff_entry list"
  dp_filter_table :: "string option"
  dp_auto_scroll :: bool
  dp_table_names :: "string list"
  dp_last_tick :: u64
  dp_seen_summary_count :: nat

definition diff_panel_new :: diff_panel where
  "diff_panel_new = \<lparr>dp_entries = [], dp_filter_table = None, dp_auto_scroll = True, dp_table_names = [],
     dp_last_tick = 0, dp_seen_summary_count = 0\<rparr>"

definition dp_clear :: "diff_panel \<Rightarrow> diff_panel" where
  "dp_clear p = p\<lparr>dp_entries := [], dp_seen_summary_count := 0\<rparr>"

definition entry_of_summary :: "diff_summary \<Rightarrow> diff_entry" where
  "entry_of_summary s = \<lparr>de_tick = ds_tick s, de_table = ds_table_name s, de_kind = ds_diff_kind s, de_summary = ds_summary s\<rparr>"

fun trim_entries :: "diff_entry list \<Rightarrow> diff_entry list" where
  "trim_entries [] = []"
| "trim_entries (e # es) = (if length (e # es) > max_entries then trim_entries es else e # es)"

definition poll_diffs :: "'b query_engine \<Rightarrow> diff_panel \<Rightarrow> diff_panel" where
  "poll_diffs q p =
     (case engine_world_view q of
        Inl _ \<Rightarrow> p
      | Inr v \<Rightarrow>
          let current_tick = tick_as_u64 (wv_tick v);
              p1 = (if current_tick > dp_last_tick p then
                  p\<lparr>dp_last_tick := current_tick, dp_table_names := wv_table_names v,
                    dp_entries := dp_entries p @ [\<lparr>de_tick = current_tick, de_table = [], de_kind = ''TICK'',
                      de_summary = ''Tick '' @ show_u64 current_tick @ '' boundary''\<rparr>]\<rparr>
                else p);
              summaries = engine_diff_summaries q;
              p2 = (if length summaries > dp_seen_summary_count p1 then
                  p1\<lparr>dp_entries := dp_entries p1 @ map entry_of_summary (drop (dp_seen_summary_count p1) summaries),
                    dp_seen_summary_count := length summaries\<rparr>
                else p1)
          in p2\<lparr>dp_entries := trim_entries (dp_entries p2)\<rparr>)"

definition dp_filtered :: "diff_panel \<Rightarrow> diff_entry list" where
  "dp_filtered p = (case dp_filter_table p of
     None \<Rightarrow> dp_entries p | Some t \<Rightarrow> filter (\<lambda>e. de_table e = t \<or> de_kind e = ''TICK'') (dp_entries p))"

subsection \<open>relation\_graph\_panel.rs\<close>

record 'p graph_node =
  gn_name :: string
  gn_pos :: 'p

record graph_edge =
  ge_from :: string
  ge_to :: string
  ge_relation_name :: string

record 'p relation_graph_panel =
  gp_nodes :: "'p graph_node list"
  gp_edges :: "graph_edge list"
  gp_needs_reload :: bool

definition relation_graph_panel_new :: "'p relation_graph_panel" where
  "relation_graph_panel_new = \<lparr>gp_nodes = [], gp_edges = [], gp_needs_reload = True\<rparr>"

fun relation_kind_debug :: "relation_kind \<Rightarrow> string" where
  "relation_kind_debug OneToMany = ''OneToMany''"
| "relation_kind_debug ManyToMany = ''ManyToMany''"
| "relation_kind_debug Composition = ''Composition''"

definition registry_graph_edges :: "string list \<Rightarrow> relation_edge list \<Rightarrow> graph_edge list" where
  "registry_graph_edges names edges =
     map (\<lambda>e. \<lparr>ge_from = re_from e, ge_to = re_to e,
         ge_relation_name = re_from_column e @ '' ('' @ relation_kind_debug (re_kind e) @ '')''\<rparr>)
       (filter (\<lambda>e. re_from e \<in> set names \<and> re_to e \<in> set names) edges)"

definition fk_target :: "string \<Rightarrow> string option" where
  "fk_target col = (case strip_prefix ''fk_'' col of Some t \<Rightarrow> Some t | None \<Rightarrow> strip_suffix ''_id'' col)"

definition inferred_edges :: "('b, 'a, 's, 'fl) arrow_api \<Rightarrow> 'b world_view \<Rightarrow> string list \<Rightarrow> graph_edge list" where
  "inferred_edges A v names =
     concat (map (\<lambda>name. case wv_column_names A v name of
         Inl _ \<Rightarrow> []
       | Inr cols \<Rightarrow> List.map_filter (\<lambda>col. case fk_target col of
             None \<Rightarrow> None
           | Some target \<Rightarrow> if target \<in> set names \<and> target \<noteq> name
               then Some \<lparr>ge_from = name, ge_to = target, ge_relation_name = col\<rparr> else None) cols) names)"

definition gp_reload ::
  "('b, 'a, 's, 'fl) arrow_api \<Rightarrow> (nat \<Rightarrow> nat \<Rightarrow> 'p) \<Rightarrow> 'b query_engine \<Rightarrow> 'p relation_graph_panel \<Rightarrow> 'p relation_graph_panel" where
  "gp_reload A place q p =
     (case engine_world_view q of
        Inl _ \<Rightarrow> p\<lparr>gp_nodes := [], gp_edges := []\<rparr>
      | Inr v \<Rightarrow>
          let names = wv_table_names v;
              registered = registry_graph_edges names (rg_edges (sr_relations (qe_schema_registry q)));
              edges = (if registered = [] then inferred_edges A v names else registered)
          in p\<lparr>gp_nodes := map (\<lambda>(i, name). \<lparr>gn_name = name, gn_pos = place i (length names)\<rparr>) (enumerate 0 names),
               gp_edges := edges, gp_needs_reload := False\<rparr>)"

subsection \<open>inspector.rs\<close>

text \<open>The application by the names of its panels.\<close>

record inspector_app =
  ia_panels :: "string list"
  ia_active_panel :: nat

definition inspector_app_new :: inspector_app where
  "inspector_app_new = \<lparr>ia_panels = [], ia_active_panel = 0\<rparr>"

definition ia_register :: "string \<Rightarrow> inspector_app \<Rightarrow> inspector_app" where
  "ia_register panel a = a\<lparr>ia_panels := ia_panels a @ [panel]\<rparr>"

definition ia_panel_count :: "inspector_app \<Rightarrow> nat" where
  "ia_panel_count a = length (ia_panels a)"

subsection \<open>Properties\<close>

lemma panel_rows_take: "panel_rows J A n left i = map (\<lambda>row. map (panel_cell J A row) [0..<n]) (iter_take left i)"
  by (induction left arbitrary: i) (auto split: prod.splits option.splits)

text \<open>The rows of a panel are the first \<open>max_rows\<close> rows of the snapshot's batches.\<close>

lemma panel_data_correct:
  assumes "table_batches (wv_snapshot v) table = Inr batches"
  shows "snd (panel_data J A max_rows v table) =
     map (\<lambda>row. map (panel_cell J A row) [0..<length (fst (panel_data J A max_rows v table))])
       (take max_rows (rows_left (row_iter_new A batches)))"
  by (simp add: panel_data_def Let_def iter_rows_def assms panel_rows_take iter_take_correct)

text \<open>The browser shows the engine's latest snapshot whatever tick it is set to.\<close>

lemma viewing_tick_is_ignored:
  "sb_rows (load_tick_data J A q (sb_set_viewing_tick t p)) = sb_rows (load_tick_data J A q p)"
  "sb_columns (load_tick_data J A q (sb_set_viewing_tick t p)) = sb_columns (load_tick_data J A q p)"
  by (simp_all add: load_tick_data_def Let_def sb_set_viewing_tick_def split: sum.splits option.splits prod.splits)

lemma load_tick_data_clamps:
  "engine_world_view q = Inr v \<Longrightarrow> sb_viewing_tick (load_tick_data J A q p) \<le> sb_max_known_tick (load_tick_data J A q p)
     \<and> tick_as_u64 (wv_tick v) \<le> sb_max_known_tick (load_tick_data J A q p)"
  by (auto simp: load_tick_data_def Let_def clamp_viewing_tick_def split: option.splits prod.splits)

lemma trim_entries_newest: "trim_entries es = newest max_entries es"
proof (induction es)
  case (Cons e es)
  show ?case by (cases "max_entries \<le> length es") (simp_all add: Cons newest_def Suc_diff_le not_le)
qed (simp add: newest_def)

text \<open>The capacity of the ring bounds what the panel can count.\<close>

lemma ring_push_length:
  "ring_push es r = Some r' \<Longrightarrow> length (dr_entries r) \<le> dr_capacity r \<Longrightarrow>
   dr_capacity r' = dr_capacity r \<and> length (dr_entries r') \<le> dr_capacity r"
proof (induction es arbitrary: r)
  case (Cons e es)
  then obtain entries where m: "ring_make_room (dr_capacity r) (dr_entries r) = Some entries"
    and r: "ring_push es (r\<lparr>dr_entries := entries @ [e]\<rparr>) = Some r'" by (auto split: option.splits)
  have "length xs < dr_capacity r" if "ring_make_room (dr_capacity r) ys = Some xs" for xs ys
    using that
  proof (induction "length ys" arbitrary: ys rule: less_induct)
    case less
    show ?case
    proof (cases "dr_capacity r \<le> length ys")
      case True
      then have eq: "ring_make_room (dr_capacity r) (tl ys) = Some xs"
        using less.prems by (subst (asm) ring_make_room.simps) simp
      show ?thesis
      proof (cases ys)
        case Nil
        then show ?thesis using True less.prems ring_make_room_stuck by (metis le_zero_eq list.size(3) option.distinct(1))
      qed (use less.hyps [of "tl ys"] eq in simp)
    next
      case False
      then show ?thesis using less.prems by (subst (asm) ring_make_room.simps) simp
    qed
  qed
  from Cons.IH [OF r] this [OF m] show ?case by simp
qed simp

text \<open>Once the panel has seen as many summaries as the ring holds, no later diff reaches it.\<close>

lemma full_ring_hides_diffs:
  assumes "dp_seen_summary_count p = dr_capacity (qe_diff_ring q)" and "length (dr_entries (qe_diff_ring q)) \<le> dr_capacity (qe_diff_ring q)"
    and "push_diff_summaries show_json q ds tick = Some q'" and "engine_world_view q' = Inr v" and "tick_as_u64 (wv_tick v) \<le> dp_last_tick p"
  shows "dp_entries (poll_diffs q' p) = newest max_entries (dp_entries p) \<and> dp_seen_summary_count (poll_diffs q' p) = dp_seen_summary_count p"
proof -
  obtain r where r: "ring_push (map (diff_summary_of show_json tick) ds) (qe_diff_ring q) = Some r" "q' = q\<lparr>qe_diff_ring := r\<rparr>"
    using assms(3) by (auto simp: push_diff_summaries_def)
  have "\<not> dp_last_tick p < tick_as_u64 (wv_tick v)"
    using assms(5) by (simp add: not_less)
  moreover have "\<not> dr_capacity (qe_diff_ring q) < length (dr_entries r)"
    using ring_push_length [OF r(1) assms(2)] by simp
  ultimately show ?thesis using assms(1,4)
    by (simp add: poll_diffs_def Let_def engine_diff_summaries_def r(2) trim_entries_newest)
qed

end
