(* ===== verification/Sql_Context.thy ===== *)
theory Sql_Context
  imports Query_Engine Content
begin

section \<open>SQL queries (scharnhorst\_query: sql\_interface.rs, sql of engine.rs)\<close>

text \<open>
  DataFusion is a parameter: a session, the registration of a batch under a name, planning and
  collecting a statement, both of which may change the session. \<open>cat\<close> is
  \<open>concat_batches\<close>. What is modelled is which tables a session gets and when a statement
  reaches it.
\<close>

record ('c, 'p, 'b) datafusion =
  df_session :: 'c
  df_register :: "'c \<Rightarrow> string \<Rightarrow> 'b \<Rightarrow> string + 'c"
  df_deregister :: "'c \<Rightarrow> string \<Rightarrow> string + 'c"
  df_sql :: "'c \<Rightarrow> string \<Rightarrow> (string + 'p) \<times> 'c"
  df_collect :: "'c \<Rightarrow> 'p \<Rightarrow> (string + 'b list) \<times> 'c"
  df_empty_batch :: 'b

text \<open>One batch for the batches of a table; without batches the empty schema.\<close>

definition merged_batch ::
  "('c, 'p, 'b) datafusion \<Rightarrow> ('b, 'a, 's, 'fl) arrow_api \<Rightarrow> ('s \<Rightarrow> 'b list \<Rightarrow> string + 'b) \<Rightarrow> 'b list \<Rightarrow> query_error + 'b" where
  "merged_batch D A cat batches =
     (case batches of [] \<Rightarrow> Inr (df_empty_batch D) | b # _ \<Rightarrow> map_err QEDataFusion (cat (ar_schema A b) batches))"

subsection \<open>sql\_interface.rs\<close>

record 'c sql_execution_context =
  sx_ctx :: 'c
  sx_tables :: "string set"

definition sql_context_new :: "('c, 'p, 'b) datafusion \<Rightarrow> 'c sql_execution_context" where
  "sql_context_new D = \<lparr>sx_ctx = df_session D, sx_tables = {}\<rparr>"

definition sql_register_table ::
  "('c, 'p, 'b) datafusion \<Rightarrow> ('b, 'a, 's, 'fl) arrow_api \<Rightarrow> ('s \<Rightarrow> 'b list \<Rightarrow> string + 'b) \<Rightarrow> string \<Rightarrow> 'b list
     \<Rightarrow> 'c sql_execution_context \<Rightarrow> (query_error + unit) \<times> 'c sql_execution_context" where
  "sql_register_table D A cat name batches x =
     (if name = [] then (Inl (QEInvalidQuery ''cannot register table with empty name''), x)
      else (case rbind (merged_batch D A cat batches) (\<lambda>b. map_err QEDataFusion (df_register D (sx_ctx x) name b)) of
          Inl e \<Rightarrow> (Inl e, x)
        | Inr c \<Rightarrow> (Inr (), \<lparr>sx_ctx = c, sx_tables = insert name (sx_tables x)\<rparr>)))"

definition sql_unregister_table ::
  "('c, 'p, 'b) datafusion \<Rightarrow> string \<Rightarrow> 'c sql_execution_context \<Rightarrow> (query_error + unit) \<times> 'c sql_execution_context" where
  "sql_unregister_table D name x =
     (case df_deregister D (sx_ctx x) name of
        Inl e \<Rightarrow> (Inl (QEDataFusion e), x)
      | Inr c \<Rightarrow> (Inr (), \<lparr>sx_ctx = c, sx_tables = sx_tables x - {name}\<rparr>))"

definition context_execute_sql ::
  "('c, 'p, 'b) datafusion \<Rightarrow> string \<Rightarrow> 'c sql_execution_context \<Rightarrow> (query_error + 'b list) \<times> 'c sql_execution_context" where
  "context_execute_sql D sql x =
     (case df_sql D (sx_ctx x) sql of
        (Inl e, c) \<Rightarrow> (Inl (QEDataFusion e), x\<lparr>sx_ctx := c\<rparr>)
      | (Inr df, c) \<Rightarrow> (case df_collect D c df of (r, c1) \<Rightarrow> (map_err QEDataFusion r, x\<lparr>sx_ctx := c1\<rparr>)))"

definition execute_sql_limited ::
  "('c, 'p, 'b) datafusion \<Rightarrow> string \<Rightarrow> nat \<Rightarrow> 'c sql_execution_context \<Rightarrow> (query_error + 'b list) \<times> 'c sql_execution_context" where
  "execute_sql_limited D sql limit x =
     context_execute_sql D (''SELECT * FROM ('' @ sql @ '') LIMIT '' @ show_nat limit) x"

definition registered_tables :: "'c sql_execution_context \<Rightarrow> string list" where
  "registered_tables x = sorted_list_of_set (sx_tables x)"

record prepared_sql =
  pq_sql :: string

definition prepared_execute ::
  "('c, 'p, 'b) datafusion \<Rightarrow> prepared_sql \<Rightarrow> 'c sql_execution_context \<Rightarrow> (query_error + 'b list) \<times> 'c sql_execution_context" where
  "prepared_execute D p x = context_execute_sql D (pq_sql p) x"

subsection \<open>QueryEngine::sql\<close>

fun register_views ::
  "('c, 'p, 'b) datafusion \<Rightarrow> ('b, 'a, 's, 'fl) arrow_api \<Rightarrow> ('s \<Rightarrow> 'b list \<Rightarrow> string + 'b)
     \<Rightarrow> (string \<times> 'b table_read_view) list \<Rightarrow> 'c \<Rightarrow> query_error + 'c" where
  "register_views D A cat [] c = Inr c"
| "register_views D A cat ((name, view) # views) c =
     rbind (merged_batch D A cat (rv_batches view)) (\<lambda>b.
     rbind (map_err QEDataFusion (df_register D c name b)) (register_views D A cat views))"

definition engine_sql ::
  "('c, 'p, 'b) datafusion \<Rightarrow> ('b, 'a, 's, 'fl) arrow_api \<Rightarrow> ('s \<Rightarrow> 'b list \<Rightarrow> string + 'b) \<Rightarrow> 'b query_engine \<Rightarrow> string
     \<Rightarrow> query_error + 'b" where
  "engine_sql D A cat q sql =
     rbind (sql_guard sql) (\<lambda>cleaned.
     rbind (register_views D A cat (qe_view_cache q) (df_session D)) (\<lambda>c.
       case df_sql D c cleaned of
         (Inl e, _) \<Rightarrow> Inl (QESql (''DataFusion error: '' @ e))
       | (Inr df, c1) \<Rightarrow> (case fst (df_collect D c1 df) of
           Inl e \<Rightarrow> Inl (QESql (''DataFusion error: '' @ e))
         | Inr batches \<Rightarrow> merged_batch D A cat batches)))"

subsection \<open>The tables of a session\<close>

text \<open>What the code relies on of DataFusion: a session is a catalog of batches by name.\<close>

definition catalog_ok :: "('c, 'p, 'b) datafusion \<Rightarrow> ('c \<Rightarrow> string \<Rightarrow> 'b option) \<Rightarrow> bool" where
  "catalog_ok D tables \<longleftrightarrow> tables (df_session D) = Map.empty
     \<and> (\<forall>c name b c'. df_register D c name b = Inr c' \<longrightarrow> tables c' = (tables c)(name \<mapsto> b))
     \<and> (\<forall>c name c'. df_deregister D c name = Inr c' \<longrightarrow> tables c' = (tables c)(name := None))"

datatype 'b sql_context_op = SqlRegister string "'b list" | SqlUnregister string

fun sql_context_step ::
  "('c, 'p, 'b) datafusion \<Rightarrow> ('b, 'a, 's, 'fl) arrow_api \<Rightarrow> ('s \<Rightarrow> 'b list \<Rightarrow> string + 'b) \<Rightarrow> 'b sql_context_op
     \<Rightarrow> 'c sql_execution_context \<Rightarrow> 'c sql_execution_context" where
  "sql_context_step D A cat (SqlRegister name batches) x = snd (sql_register_table D A cat name batches x)"
| "sql_context_step D A cat (SqlUnregister name) x = snd (sql_unregister_table D name x)"

text \<open>Whatever is registered and unregistered, and whichever calls fail, the list of registered
  tables is the sorted catalog of the session.\<close>

lemma registered_tables_are_the_catalog:
  assumes "catalog_ok D tables"
  shows "registered_tables (fold (sql_context_step D A cat) ops (sql_context_new D)) =
     sorted_list_of_set (dom (tables (sx_ctx (fold (sql_context_step D A cat) ops (sql_context_new D)))))"
proof -
  have step: "sx_tables (sql_context_step D A cat op x) = dom (tables (sx_ctx (sql_context_step D A cat op x)))"
    if "sx_tables x = dom (tables (sx_ctx x))" for op x
    using that assms
    by (cases op) (auto simp: sql_register_table_def sql_unregister_table_def catalog_ok_def split: sum.splits)
  have "sx_tables (fold (sql_context_step D A cat) ops x) = dom (tables (sx_ctx (fold (sql_context_step D A cat) ops x)))"
    if "sx_tables x = dom (tables (sx_ctx x))" for x
    using that by (induction ops arbitrary: x) (simp_all add: step)
  then show ?thesis using assms by (simp add: registered_tables_def sql_context_new_def catalog_ok_def)
qed

lemma register_views_get:
  assumes "catalog_ok D tables" and "register_views D A cat views c = Inr c'" and "hm_ok views"
  shows "tables c' name = (case hm_get views name of None \<Rightarrow> tables c name
     | Some v \<Rightarrow> (case merged_batch D A cat (rv_batches v) of Inl _ \<Rightarrow> None | Inr b \<Rightarrow> Some b))"
  using assms(2,3)
proof (induction views arbitrary: c)
  case (Cons e views)
  obtain n v where e: "e = (n, v)" by force
  from Cons.prems(1) obtain b c1 where b: "merged_batch D A cat (rv_batches v) = Inr b" "df_register D c n b = Inr c1"
      "register_views D A cat views c1 = Inr c'"
    by (auto simp: e)
  have "tables c1 = (tables c)(n \<mapsto> b)" using assms(1) b(2) by (simp add: catalog_ok_def)
  moreover have "hm_ok views" "hm_get views n = None" using Cons.prems(2) by (auto simp: e hm_ok_def map_of_eq_None_iff)
  ultimately show ?case using Cons.IH [OF b(3)] b(1) by (auto simp: e split: option.splits)
qed simp

text \<open>A statement that is answered was planned on a fresh session whose catalog is exactly the
  views of the engine, each as one batch, whatever other statements ran before.\<close>

lemma engine_sql_sees_the_views:
  assumes "catalog_ok D tables" and "engine_sql D A cat q sql = Inr batch" and "hm_ok (qe_view_cache q)"
  shows "\<exists>cleaned c df. sql_guard sql = Inr cleaned \<and> fst (df_sql D c cleaned) = Inr df
    \<and> (\<forall>name. tables c name = (case hm_get (qe_view_cache q) name of None \<Rightarrow> None
         | Some v \<Rightarrow> (case merged_batch D A cat (rv_batches v) of Inl _ \<Rightarrow> None | Inr b \<Rightarrow> Some b)))
    \<and> (\<exists>batches. fst (df_collect D (snd (df_sql D c cleaned)) df) = Inr batches \<and> merged_batch D A cat batches = Inr batch)"
proof -
  obtain cleaned c where c: "sql_guard sql = Inr cleaned" "register_views D A cat (qe_view_cache q) (df_session D) = Inr c"
    and rest: "(case df_sql D c cleaned of (Inl e, _) \<Rightarrow> Inl (QESql (''DataFusion error: '' @ e))
       | (Inr df, c1) \<Rightarrow> (case fst (df_collect D c1 df) of
           Inl e \<Rightarrow> Inl (QESql (''DataFusion error: '' @ e))
         | Inr batches \<Rightarrow> merged_batch D A cat batches)) = Inr batch"
    using assms(2) by (auto simp: engine_sql_def)
  have empty: "tables (df_session D) name = None" for name using assms(1) by (simp add: catalog_ok_def)
  have "tables c name = (case hm_get (qe_view_cache q) name of None \<Rightarrow> None
         | Some v \<Rightarrow> (case merged_batch D A cat (rv_batches v) of Inl _ \<Rightarrow> None | Inr b \<Rightarrow> Some b))" for name
    using register_views_get [OF assms(1) c(2) assms(3), of name] by (simp add: empty split: option.splits)
  with c(1) rest show ?thesis
    by (intro exI [of _ cleaned] exI [of _ c]) (auto split: prod.splits sum.splits)
qed

text \<open>A view whose batches do not merge fails every statement, also one that does not use it.\<close>

lemma one_bad_view_fails_every_statement:
  assumes "v \<in> set (qe_view_cache q)" and "merged_batch D A cat (rv_batches (snd v)) = Inl e"
  shows "\<exists>e. engine_sql D A cat q sql = Inl e"
proof -
  have "\<exists>e. register_views D A cat views c = Inl e" if "v \<in> set views" for views c
    using that assms(2)
  proof (induction views arbitrary: c)
    case (Cons u views)
    obtain n w where u: "u = (n, w)" by force
    show ?case
    proof (cases "v = u")
      case True
      then show ?thesis using Cons.prems by (simp add: u)
    next
      case False
      then have v: "v \<in> set views" using Cons.prems by simp
      show ?thesis
        by (cases "merged_batch D A cat (rv_batches w)"; cases "df_register D c n (projr (merged_batch D A cat (rv_batches w)))")
          (use Cons.IH [OF v Cons.prems(2)] in \<open>auto simp: u\<close>)
    qed
  qed simp
  then obtain f where "register_views D A cat (qe_view_cache q) (df_session D) = Inl f" using assms(1) by blast
  then show ?thesis by (cases "sql_guard sql") (simp_all add: engine_sql_def)
qed

end
