(* ===== verification/Spec2Isabelle.thy ===== *)
theory Spec2Isabelle
  imports Content Migrations Sql_Parser Scheduler_Props Rules_Effects Rules_Cache Save_Props Save_Load_Props Bevy_View
    Store_Checkpoints Inspector_Panels Sql_Context
begin

text \<open>
  A verification library for the Scharnhorst simulation engine: a deterministic,
  tick-based world kept in versioned Arrow tables.

  The program. A world is a set of tables (scharnhorst\_schema describes them,
  scharnhorst\_arrow\_store holds their record batches per tick). Before the simulation,
  content is loaded and merged (scharnhorst\_content) and the schema is frozen. Then every
  tick the scheduler (scharnhorst\_scheduler) hands the queued commands to the journal, runs
  the systems in phase order on the state the query engine (scharnhorst\_query) publishes,
  and collects their diffs in the journal (scharnhorst\_journal), game rules (scharnhorst\_rules) among them; the commit applies the
  diffs to the store, takes a snapshot, publishes the tables to the query engine and files a
  record, or undoes all of it. SQL statements of a debug console enter the journal as diffs.
  The save system (scharnhorst\_save) writes snapshots of the world to files, keeps the newest
  of them, and takes a load through six phases: read the snapshot, compare the mods, migrate
  the schema, create the tables, freeze, start. The bridge (scharnhorst\_bevy) buffers the
  player's commands and shows rows as Bevy entities that follow the published snapshot; the
  inspector shows tables, diffs and relations of a debug build.

  Theories, from the bottom.

  Prelude: results as sums, checked integers, decimal text, hash maps as association lists,
  and the locales \<open>keyed_store\<close> (lookup, insert, remove and their laws, interpreted by the
  hash maps and indices) and \<open>closable\<close> (components that refuse mutation once closed,
  interpreted by the schema registry and the store).
  Fixed\_Point (scharnhorst\_core fixed\_point.rs): arithmetic, rescaling, comparison, hashing
  and parsing of fixed-point numbers, with exact values as rationals.
  Core\_Types (id.rs, row\_position.rs, diff.rs, state\_tier.rs, capability.rs): ticks and
  identifiers with their text form, row positions, diffs, tiers, the lifecycle guard.
  Relation\_Graph, Schema, Migrations (scharnhorst\_schema): the relation graph with both
  cycle searches, table specifications with their column index, manifests, the registry, and
  the breadth-first migration search.
  Content (scharnhorst\_content): the load coordinator, overlays, the name resolvers,
  fingerprints and manifests. Compilation (compilation.rs): raw tables into a store, a frozen
  registry and tiers.
  Arrow\_Data, Indices, Tables, Store, Store\_Props (scharnhorst\_arrow\_store): conversion of
  JSON cells and the patching of columns through their bit-packed null buffers, the layered
  key indices (locale \<open>layered_index\<close>) and partitions, the functions that apply one diff to
  a versioned table, and the store with its snapshots, checkpoints' state and rollback.
  World\_View (world\_view.rs, ipc\_serialization.rs): the row iterator and getters of a frozen
  snapshot, the buffer of serialized batches. Store\_Checkpoints: the store's checkpoint
  directories, written, listed and loaded again.
  Ascii\_Text, Query\_Views, Query\_Engine (scharnhorst\_query): table views that merge batches,
  typed access, the inspector, and the engine with staged ingestion and its rollback (locale
  \<open>snapshot_ingestor\<close>, the journal's view of an engine).
  Sql\_Context (sql\_interface.rs, \<open>sql\<close> of engine.rs): which tables a DataFusion session gets.
  Journal, Journal\_Props (scharnhorst\_journal): submissions, the commit with every rollback
  path, history and the in-memory save journal.
  Sql\_Parser (sql\_parser.rs): tokenizer, statements, their diffs, both debug writers.
  Sim\_Rng, Scheduler, Scheduler\_Props (scharnhorst\_scheduler): the random streams, phases,
  registrations, the refresh bus and the tick.
  Rules, Rules\_Props, Rules\_Effects, Rules\_Cache (scharnhorst\_rules): expressions with
  their evaluation over the engine's columns, effects that write to the journal, scopes and
  jumps along relations, modifiers, and the prefetch cache.
  Save\_Files, Save\_Props (error.rs, snapshot\_persistence.rs, snapshot\_manager.rs, checkpoint.rs of
  scharnhorst\_save): the bytes of a snapshot file over a small file system (files, directories),
  the manager that saves through a temporary file and deletes old generations, checkpoints and
  the journal that triggers them. Save\_Load, Save\_Load\_Props (migration.rs, mod\_tolerance.rs,
  load\_reconstruction.rs): migration chains, the comparison of mods, the phases of a load.
  Bevy\_Input (scharnhorst\_bevy error.rs, input\_buffer.rs): the buffer of player commands,
  compared with the list of accepted pushes and followed into the journal. Bevy\_View (tier.rs,
  view\_of.rs, materialization.rs, sync.rs, refresh\_handler.rs): rows shown as entities, the
  sync of dirty entities, the view model a refresh fills.
  Inspector\_Panels (scharnhorst\_inspector): what the panels of the debug build keep and how
  they fill it from the query engine.

  Each theory keeps the order of its source file: the state as a record, one definition per
  function, guards and early returns as the code has them, an error as the left side of a
  sum. A method that changes its object returns the new state, also when it fails, so what a
  failing call leaves behind is part of the model.

  What the lemmas show. Each component has a well-formedness invariant kept by every
  operation (row positions, column indices, the registry, every reachable store, journal
  and scheduler). Functional theorems say what an operation computes on every branch:
  rounding, updates, inserts, deletes and replacements of rows, aggregation of overlays,
  migration chains, pages of the inspector. Refinements relate the patched buffers to cells
  and the key indices to a log. Safety theorems follow a failure through the components: a
  failing batch of diffs restores the versions, a failing commit also the engine, a failing
  tick also the queue. Expressions have a type system, and a well-typed one cannot go wrong
  for a reason the types could have told; effects are compared with a reference that has no
  journal, the cache with a list in order of use. Round trips cover identifiers, fixed-point
  text, manifests, SQL, the bytes of snapshot files and the store's checkpoints; the save theorems say which
  generations a save or a checkpoint leaves on disk.
  Several theorems state behaviour the code should not have; the manifest lists them as
  findings.

  Integers and bounds. \<open>u64\<close> and \<open>usize\<close> values that can wrap are \<open>64 word\<close> (\<open>tick\<close>,
  identifiers, hashes, random numbers); \<open>i64\<close> and \<open>i128\<close> are \<open>int\<close> with range checks
  where the code checks or wraps; lengths are \<open>nat\<close>. No definition uses fuel: loops
  terminate by a measure (depth-first and breadth-first searches, the tokenizer, history
  trimming), and the one loop that may run forever, the eviction of the summary ring, is a
  \<open>partial_function\<close> whose termination condition is proved.

  Parameters. Code outside the repository is a field of a record of functions: the Arrow
  arrays and kernels (\<open>arrow_api\<close>), DataFusion (\<open>datafusion\<close>), JSON values (\<open>json_api\<close>, \<open>sql_api\<close>), serde's text of a
  diff, and floating-point numbers, which the model never computes with. The iteration order
  of a hash map is a parameter (a permutation) or the order of the association list. What a
  theorem needs of such a parameter is a named predicate (\<open>batches_ok\<close>, \<open>concat_ok\<close>,
  \<open>uses_engine\<close>, \<open>ecs_ok\<close> for Bevy's entities), and the witnesses instantiate all of them by a small list-based Arrow.

  Not modelled. Locks are never poisoned and calls are not interleaved; text is a list of
  bytes, taken as ASCII where the code classifies characters; of file
  access only missing files and directories and short reads fail; serde, the Arrow file
  formats and DataFusion are outside; the inspector's drawing and
  widgets and the panels of a release build, which are empty, are left out; telemetry is
  compiled out.
\<close>

end
